(* ===== verification/Go_Base.thy ===== *)
theory Go_Base
  imports Main "HOL-Library.AList"
begin

text \<open>
  The prelude of the development: what the modelled Go code uses of its language and of its
  standard library. Strings are byte sequences (\<^typ>\<open>string\<close>), 64-bit integers are
  \<^typ>\<open>int\<close> with the wrap-around written out, a Go map is an association list with
  distinct keys whose order is the order in which a \<open>range\<close> over it visits the keys (every
  theorem quantifies over that order), and a \<open>for ... range\<close> loop with \<open>continue\<close> and
  \<open>return\<close> is \<open>for_range\<close>. The functions of package strings are modelled byte-wise;
  \<open>ToLower\<close>, \<open>ToUpper\<close> and \<open>EqualFold\<close> on ASCII letters.
\<close>

named_theorems go_str \<open>facts on the functions of package strings\<close>
named_theorems go_map \<open>facts on Go maps as association lists\<close>

section \<open>Bytes and strings\<close>

definition byte :: "char \<Rightarrow> nat" where
  "byte c = of_char c"

definition ascii_lower :: "char \<Rightarrow> char" where
  "ascii_lower c = (if 65 \<le> byte c \<and> byte c \<le> 90 then char_of (byte c + 32) else c)"

definition ascii_upper :: "char \<Rightarrow> char" where
  "ascii_upper c = (if 97 \<le> byte c \<and> byte c \<le> 122 then char_of (byte c - 32) else c)"

definition to_lower :: "string \<Rightarrow> string" where
  "to_lower s = map ascii_lower s"

definition to_upper :: "string \<Rightarrow> string" where
  "to_upper s = map ascii_upper s"

definition equal_fold :: "string \<Rightarrow> string \<Rightarrow> bool" where
  "equal_fold s t \<longleftrightarrow> to_lower s = to_lower t"

definition has_prefix :: "string \<Rightarrow> string \<Rightarrow> bool" where
  "has_prefix s p \<longleftrightarrow> take (length p) s = p"

definition has_suffix :: "string \<Rightarrow> string \<Rightarrow> bool" where
  "has_suffix s p \<longleftrightarrow> has_prefix (rev s) (rev p)"

definition trim_prefix :: "string \<Rightarrow> string \<Rightarrow> string" where
  "trim_prefix s p = (if has_prefix s p then drop (length p) s else s)"

fun str_contains :: "string \<Rightarrow> string \<Rightarrow> bool" where
  "str_contains [] sub = (sub = [])"
| "str_contains (c # cs) sub = (has_prefix (c # cs) sub \<or> str_contains cs sub)"

text \<open>\<open>strings.IndexByte\<close>: the first position of a byte, if any.\<close>

fun index_byte :: "string \<Rightarrow> char \<Rightarrow> nat option" where
  "index_byte [] b = None"
| "index_byte (c # cs) b = (if c = b then Some 0 else map_option Suc (index_byte cs b))"

text \<open>\<open>strings.ReplaceAll\<close> with a non-empty pattern (the code never passes an empty one).\<close>

function replace_all :: "string \<Rightarrow> string \<Rightarrow> string \<Rightarrow> string" where
  "replace_all s old new =
     (case s of
        [] \<Rightarrow> []
      | c # cs \<Rightarrow>
          if old \<noteq> [] \<and> has_prefix s old
          then new @ replace_all (drop (length old) s) old new
          else c # replace_all cs old new)"
  by pat_completeness auto
termination
  by (relation "measure (\<lambda>(s, old, new). length s)") auto

declare replace_all.simps [simp del]

text \<open>
  \<open>strings.TrimSpace\<close> removes the runes of \<open>unicode.IsSpace\<close>: six ASCII bytes and the
  UTF-8 encodings listed in \<open>wide_spaces\<close>.
\<close>

definition ascii_space :: "char \<Rightarrow> bool" where
  "ascii_space c \<longleftrightarrow> byte c \<in> {9, 10, 11, 12, 13, 32}"

definition wide_spaces :: "string list" where
  "wide_spaces =
    [[CHR 0xC2, CHR 0x85], [CHR 0xC2, CHR 0xA0], [CHR 0xE1, CHR 0x9A, CHR 0x80],
     [CHR 0xE2, CHR 0x80, CHR 0x80], [CHR 0xE2, CHR 0x80, CHR 0x81],
     [CHR 0xE2, CHR 0x80, CHR 0x82], [CHR 0xE2, CHR 0x80, CHR 0x83],
     [CHR 0xE2, CHR 0x80, CHR 0x84], [CHR 0xE2, CHR 0x80, CHR 0x85],
     [CHR 0xE2, CHR 0x80, CHR 0x86], [CHR 0xE2, CHR 0x80, CHR 0x87],
     [CHR 0xE2, CHR 0x80, CHR 0x88], [CHR 0xE2, CHR 0x80, CHR 0x89],
     [CHR 0xE2, CHR 0x80, CHR 0x8A], [CHR 0xE2, CHR 0x80, CHR 0xA8],
     [CHR 0xE2, CHR 0x80, CHR 0xA9], [CHR 0xE2, CHR 0x80, CHR 0xAF],
     [CHR 0xE2, CHR 0x81, CHR 0x9F], [CHR 0xE3, CHR 0x80, CHR 0x80]]"

text \<open>The length of the space at the front of a string, read with the given encodings.\<close>

definition space_len :: "string list \<Rightarrow> string \<Rightarrow> nat" where
  "space_len ws s =
     (case s of
        [] \<Rightarrow> 0
      | c # _ \<Rightarrow>
          if ascii_space c then 1
          else if byte c < 128 then 0
          else (case find (has_prefix s) ws of None \<Rightarrow> 0 | Some w \<Rightarrow> length w))"

function strip_left :: "string list \<Rightarrow> string \<Rightarrow> string" where
  "strip_left ws s = (if 0 < space_len ws s then strip_left ws (drop (space_len ws s) s) else s)"
  by pat_completeness auto
termination
  by (relation "measure (\<lambda>(ws, s). length s)") (auto simp: space_len_def split: list.splits)

declare strip_left.simps [simp del]

definition trim_space :: "string \<Rightarrow> string" where
  "trim_space s = rev (strip_left (map rev wide_spaces) (rev (strip_left wide_spaces s)))"

definition truncate_str :: "string \<Rightarrow> nat \<Rightarrow> string" where
  "truncate_str s n = (if n < length s then take n s else s)"

text \<open>\<open>strconv.Itoa\<close> and the verb \<open>%d\<close>.\<close>

fun nat_digits :: "nat \<Rightarrow> string" where
  "nat_digits n =
     (if n < 10 then [char_of (48 + n)] else nat_digits (n div 10) @ [char_of (48 + n mod 10)])"

declare nat_digits.simps [simp del]

definition itoa :: "int \<Rightarrow> string" where
  "itoa i = (if i < 0 then ''-'' @ nat_digits (nat (- i)) else nat_digits (nat i))"

lemma has_prefix_Nil [simp]: "has_prefix s []"
  by (simp add: has_prefix_def)

lemma has_prefix_append [simp]: "has_prefix (p @ s) p"
  by (simp add: has_prefix_def)

lemma has_prefix_iff [go_str]: "has_prefix s p \<longleftrightarrow> (\<exists>t. s = p @ t)"
  by (metis append_take_drop_id append_eq_conv_conj has_prefix_def)

lemma str_contains_iff [go_str]: "str_contains s sub \<longleftrightarrow> (\<exists>u v. s = u @ sub @ v)"
proof (induction s)
  case Nil
  then show ?case by auto
next
  case (Cons c cs)
  have "(\<exists>u v. c # cs = u @ sub @ v) \<longleftrightarrow>
      (\<exists>v. c # cs = sub @ v) \<or> (\<exists>u v. cs = u @ sub @ v)" (is "?L \<longleftrightarrow> ?R")
  proof
    assume ?L
    then obtain u v where uv: "c # cs = u @ sub @ v" by blast
    show ?R
    proof (cases u)
      case Nil
      with uv show ?thesis by auto
    next
      case (Cons d ds)
      with uv show ?thesis by auto
    qed
  next
    assume ?R
    then show ?L
    proof
      assume "\<exists>v. c # cs = sub @ v"
      then show ?thesis by (metis append_Nil)
    next
      assume "\<exists>u v. cs = u @ sub @ v"
      then show ?thesis by (metis append_Cons)
    qed
  qed
  with Cons show ?case by (auto simp: has_prefix_iff)
qed

lemma length_to_lower [simp]: "length (to_lower s) = length s"
  by (simp add: to_lower_def)

lemma equal_fold_refl [simp]: "equal_fold s s"
  by (simp add: equal_fold_def)

lemma truncate_str_length: "length (truncate_str s n) \<le> n"
  by (simp add: truncate_str_def)

lemma index_byte_Some:
  "index_byte s b = Some i \<longleftrightarrow> i < length s \<and> s ! i = b \<and> b \<notin> set (take i s)"
proof (induction s arbitrary: i)
  case Nil
  then show ?case by simp
next
  case (Cons c cs)
  show ?case
  proof (cases i)
    case 0
    then show ?thesis by (cases "c = b") auto
  next
    case (Suc j)
    with Cons [of j] show ?thesis by (cases "c = b") auto
  qed
qed

lemma index_byte_None [simp]: "index_byte s b = None \<longleftrightarrow> b \<notin> set s"
  by (induction s) auto

subsection \<open>Trimming\<close>

lemma strip_left_suffix: "\<exists>p. s = p @ strip_left ws s"
proof (induction ws s rule: strip_left.induct)
  case (1 ws s)
  show ?case
  proof (cases "0 < space_len ws s")
    case True
    with 1 obtain p where "drop (space_len ws s) s = p @ strip_left ws s"
      by (metis strip_left.simps)
    then have "s = (take (space_len ws s) s @ p) @ strip_left ws s"
      by (metis append.assoc append_take_drop_id)
    then show ?thesis ..
  next
    case False
    then show ?thesis by (simp add: strip_left.simps [of ws s])
  qed
qed

lemma strip_left_no_space [simp]: "space_len ws (strip_left ws s) = 0"
proof (induction ws s rule: strip_left.induct)
  case (1 ws s)
  then show ?case by (cases "0 < space_len ws s") (simp_all add: strip_left.simps [of ws s])
qed

lemma strip_left_id: "space_len ws s = 0 \<Longrightarrow> strip_left ws s = s"
  by (simp add: strip_left.simps)

lemma space_len_Cons_ascii [simp]:
  "byte c < 128 \<Longrightarrow> \<not> ascii_space c \<Longrightarrow> space_len ws (c # s) = 0"
  by (simp add: space_len_def)

text \<open>A string whose ends are ASCII and not spaces is left alone; evaluation uses this.\<close>

definition plain_char :: "char \<Rightarrow> bool" where
  "plain_char c \<longleftrightarrow> byte c < 128 \<and> \<not> ascii_space c"

lemma strip_left_plain: "s = [] \<or> plain_char (hd s) \<Longrightarrow> strip_left ws s = s"
  by (cases s) (auto simp: plain_char_def intro!: strip_left_id simp: space_len_def)

lemma trim_space_plain:
  assumes "s = [] \<or> plain_char (hd s) \<and> plain_char (last s)"
  shows "trim_space s = s"
  using assms by (auto simp: trim_space_def strip_left_plain hd_rev)

lemma trim_space_code [code]:
  "trim_space s =
     (if s = [] \<or> plain_char (hd s) \<and> plain_char (last s) then s
      else rev (strip_left (map rev wide_spaces) (rev (strip_left wide_spaces s))))"
  by (simp add: trim_space_plain) (simp add: trim_space_def)

lemma trim_space_Nil [simp]: "trim_space [] = []"
  by (simp add: trim_space_def strip_left_id space_len_def)

section \<open>Go maps\<close>

type_synonym 'v gomap = "(string \<times> 'v) list"

definition gomap_ok :: "('k \<times> 'v) list \<Rightarrow> bool" where
  "gomap_ok m \<longleftrightarrow> distinct (map fst m)"

abbreviation gkeys :: "('k \<times> 'v) list \<Rightarrow> 'k list" where
  "gkeys m \<equiv> map fst m"

abbreviation glookup :: "('k \<times> 'v) list \<Rightarrow> 'k \<Rightarrow> 'v option" where
  "glookup m k \<equiv> map_of m k"

definition ghas :: "('k \<times> 'v) list \<Rightarrow> 'k \<Rightarrow> bool" where
  "ghas m k \<longleftrightarrow> map_of m k \<noteq> None"

text \<open>Reading a missing key gives the zero value, here the empty list of a slice.\<close>

definition gslice :: "('k \<times> 'v list) list \<Rightarrow> 'k \<Rightarrow> 'v list" where
  "gslice m k = (case map_of m k of None \<Rightarrow> [] | Some xs \<Rightarrow> xs)"

definition gmap_values :: "('k \<Rightarrow> 'a \<Rightarrow> 'b) \<Rightarrow> ('k \<times> 'a) list \<Rightarrow> ('k \<times> 'b) list" where
  "gmap_values f m = map (\<lambda>(k, v). (k, f k v)) m"

lemma ghas_iff [go_map]: "ghas m k \<longleftrightarrow> k \<in> set (gkeys m)"
  by (simp add: ghas_def map_of_eq_None_iff)

lemma ghas_eq_Some: "ghas m k \<longleftrightarrow> (\<exists>v. map_of m k = Some v)"
  by (simp add: ghas_def)

lemma gmap_values_keys [simp]: "gkeys (gmap_values f m) = gkeys m"
  by (induction m) (auto simp: gmap_values_def)

lemma gmap_values_lookup [simp]: "map_of (gmap_values f m) k = map_option (f k) (map_of m k)"
  by (induction m) (auto simp: gmap_values_def)

lemma gmap_values_ok [simp]: "gomap_ok (gmap_values f m) = gomap_ok m"
  by (simp add: gomap_ok_def)

lemma gomap_lookup_in: "gomap_ok m \<Longrightarrow> map_of m k = Some v \<longleftrightarrow> (k, v) \<in> set m"
  by (auto simp: gomap_ok_def map_of_eq_Some_iff)

section \<open>Loops over a slice with continue and return\<close>

datatype ('s, 'r) ctl = Continue 's | Return 'r

fun for_range :: "('c \<Rightarrow> 's \<Rightarrow> ('s, 'r) ctl) \<Rightarrow> 'c list \<Rightarrow> 's \<Rightarrow> ('s, 'r) ctl" where
  "for_range f [] s = Continue s"
| "for_range f (c # cs) s =
     (case f c s of Continue s' \<Rightarrow> for_range f cs s' | Return r \<Rightarrow> Return r)"

lemma for_range_append:
  "for_range f (cs @ ds) s =
     (case for_range f cs s of Continue s' \<Rightarrow> for_range f ds s' | Return r \<Rightarrow> Return r)"
  by (induction cs arbitrary: s) (auto split: ctl.split)

text \<open>A returning loop returned in one iteration; the iterations before it all continued.\<close>

lemma for_range_Return_split:
  "for_range f cs s = Return r \<longleftrightarrow>
     (\<exists>ds c es s'. cs = ds @ c # es \<and> for_range f ds s = Continue s' \<and> f c s' = Return r)"
proof (induction cs arbitrary: s)
  case Nil
  then show ?case by simp
next
  case (Cons c cs)
  show ?case
  proof (cases "f c s")
    case (Return r')
    have "(\<exists>ds d es s'. c # cs = ds @ d # es \<and> for_range f ds s = Continue s' \<and> f d s' = Return r)
        \<longleftrightarrow> r' = r"
    proof
      assume "\<exists>ds d es s'. c # cs = ds @ d # es \<and> for_range f ds s = Continue s' \<and> f d s' = Return r"
      then obtain ds d es s' where h: "c # cs = ds @ d # es" "for_range f ds s = Continue s'"
        "f d s' = Return r" by blast
      with Return show "r' = r" by (cases ds) auto
    next
      assume "r' = r"
      with Return show "\<exists>ds d es s'. c # cs = ds @ d # es \<and> for_range f ds s = Continue s' \<and>
          f d s' = Return r"
        by (intro exI [of _ "[]"]) auto
    qed
    with Return show ?thesis by simp
  next
    case (Continue s1)
    have "(\<exists>ds d es s'. c # cs = ds @ d # es \<and> for_range f ds s = Continue s' \<and> f d s' = Return r)
        \<longleftrightarrow> (\<exists>ds d es s'. cs = ds @ d # es \<and> for_range f ds s1 = Continue s' \<and> f d s' = Return r)"
      (is "?L \<longleftrightarrow> ?R")
    proof
      assume ?L
      then obtain ds d es s' where h: "c # cs = ds @ d # es" "for_range f ds s = Continue s'"
        "f d s' = Return r" by blast
      then show ?R using Continue by (cases ds) auto
    next
      assume ?R
      then obtain ds d es s' where h: "cs = ds @ d # es" "for_range f ds s1 = Continue s'"
        "f d s' = Return r" by blast
      with Continue have "for_range f (c # ds) s = Continue s'" by simp
      with h show ?L by (metis append_Cons)
    qed
    with Continue Cons.IH [of s1] show ?thesis by simp
  qed
qed

lemma for_range_invariant:
  assumes "P s" and "\<And>c s s'. P s \<Longrightarrow> c \<in> set cs \<Longrightarrow> f c s = Continue s' \<Longrightarrow> P s'"
    and "for_range f cs s = Continue s'"
  shows "P s'"
  using assms
proof (induction cs arbitrary: s)
  case Nil
  then show ?case by simp
next
  case (Cons c cs)
  from Cons.prems(3) obtain s1 where s1: "f c s = Continue s1" and rest: "for_range f cs s1 = Continue s'"
    by (auto split: ctl.splits)
  have "P s1" using Cons.prems(2) [OF Cons.prems(1) _ s1] by simp
  then show ?case using Cons.IH rest Cons.prems(2) by (meson list.set_intros(2))
qed

text \<open>A loop that returns the first error it finds.\<close>

fun first_error :: "('a \<Rightarrow> 'e option) \<Rightarrow> 'a list \<Rightarrow> 'e option" where
  "first_error f [] = None"
| "first_error f (x # xs) = (case f x of Some e \<Rightarrow> Some e | None \<Rightarrow> first_error f xs)"

lemma first_error_None [simp]: "first_error f xs = None \<longleftrightarrow> (\<forall>x \<in> set xs. f x = None)"
  by (induction xs) (auto split: option.split)

section \<open>64-bit integers\<close>

text \<open>\<open>int64\<close> arithmetic wraps around in two's complement.\<close>

definition wrap64 :: "int \<Rightarrow> int" where
  "wrap64 i = (i + 2 ^ 63) mod 2 ^ 64 - 2 ^ 63"

definition in_int64 :: "int \<Rightarrow> bool" where
  "in_int64 i \<longleftrightarrow> - (2 ^ 63) \<le> i \<and> i < 2 ^ 63"

lemma wrap64_in [simp]: "in_int64 (wrap64 i)"
  by (simp add: wrap64_def in_int64_def)

lemma wrap64_id: "in_int64 i \<Longrightarrow> wrap64 i = i"
  by (simp add: wrap64_def in_int64_def)

end
