(* ===== verification/Config_Env.thy ===== *)
theory Config_Env
  imports Go_Base
begin

text \<open>
  internal/config/env.go: the \<open>.env\<close> file, the precedence of the process environment over it,
  and the built-in defaults of a provider. The process environment is a parameter, the file is its
  text or \<^const>\<open>None\<close> when it cannot be opened.
\<close>

section \<open>The .env file\<close>

text \<open>\<open>bufio.Scanner\<close> with a buffer of 1 MiB: lines without their newline and one carriage
  return; a line that does not fit the buffer ends the scan.\<close>

fun split_lines :: "string \<Rightarrow> string list" where
  "split_lines [] = [[]]"
| "split_lines (c # cs) =
     (if c = CHR 0x0A then [] # split_lines cs
      else (case split_lines cs of [] \<Rightarrow> [[c]] | l # ls \<Rightarrow> (c # l) # ls))"

definition drop_cr :: "string \<Rightarrow> string" where
  "drop_cr l = (if l \<noteq> [] \<and> last l = CHR 0x0D then butlast l else l)"

definition scanner_lines :: "string \<Rightarrow> string list" where
  "scanner_lines s =
     (let ls = split_lines s;
          ls' = (if last ls = [] then butlast ls else ls)
      in map drop_cr (takeWhile (\<lambda>l. length l < 1024 * 1024) ls'))"

definition strip_quotes :: "string \<Rightarrow> string" where
  "strip_quotes v =
     (if 2 \<le> length v \<and>
         ((hd v = CHR 0x22 \<and> last v = CHR 0x22) \<or> (hd v = CHR 0x27 \<and> last v = CHR 0x27))
      then butlast (tl v) else v)"

text \<open>One line: the key and value it sets, if it sets one.\<close>

definition dotenv_line :: "string \<Rightarrow> (string \<times> string) option" where
  "dotenv_line text =
     (let line0 = trim_space text in
      if line0 = [] \<or> has_prefix line0 ''#'' then None
      else
        (let line = (if has_prefix line0 ''export '' then trim_space (trim_prefix line0 ''export '')
                     else line0) in
         case index_byte line (CHR ''='') of
           None \<Rightarrow> None
         | Some eq \<Rightarrow>
             (let k = trim_space (take eq line);
                  v = strip_quotes (trim_space (drop (eq + 1) line))
              in if k = [] then None else Some (k, v))))"

definition load_dotenv :: "string option \<Rightarrow> string gomap" where
  "load_dotenv file =
     (case file of
        None \<Rightarrow> []
      | Some text \<Rightarrow>
          foldl (\<lambda>out l. case dotenv_line l of None \<Rightarrow> out | Some (k, v) \<Rightarrow> AList.update k v out)
            [] (scanner_lines text))"

section \<open>Lookup\<close>

definition lookup_env :: "(string \<Rightarrow> string option) \<Rightarrow> string \<Rightarrow> string gomap \<Rightarrow> string option" where
  "lookup_env env key dotenv =
     (case env key of
        Some v \<Rightarrow>
          if trim_space v \<noteq> [] then Some (trim_space v)
          else (case map_of dotenv key of
                  Some w \<Rightarrow> if trim_space w \<noteq> [] then Some (trim_space w) else None
                | None \<Rightarrow> None)
      | None \<Rightarrow>
          (case map_of dotenv key of
             Some w \<Rightarrow> if trim_space w \<noteq> [] then Some (trim_space w) else None
           | None \<Rightarrow> None))"

text \<open>The string a caller gets that ignores the boolean of \<open>LookupEnv\<close>.\<close>

definition env_value :: "(string \<Rightarrow> string option) \<Rightarrow> string \<Rightarrow> string gomap \<Rightarrow> string" where
  "env_value env key dotenv = (case lookup_env env key dotenv of None \<Rightarrow> [] | Some v \<Rightarrow> v)"

definition default_api_key_env :: "string \<Rightarrow> string" where
  "default_api_key_env provider_id =
     to_upper (replace_all provider_id ''-'' ''_'') @ ''_API_KEY''"

definition builtin_provider_default :: "string \<Rightarrow> string \<times> string" where
  "builtin_provider_default pid =
     (if pid = ''zen'' then (''https://opencode.ai/zen/v1'', ''OPENCODE_API_KEY'')
      else if pid = ''nvidia'' then (''https://integrate.api.nvidia.com/v1'', ''NVIDIA_API_KEY'')
      else if pid = ''gemini'' then
        (''https://generativelanguage.googleapis.com/v1beta/openai/'', ''GEMINI_API_KEY'')
      else if pid = ''openrouter'' then (''https://openrouter.ai/api/v1'', ''OPENROUTER_API_KEY'')
      else ([], default_api_key_env pid))"

section \<open>Lemmas\<close>

lemma split_lines_nonempty [simp]: "split_lines s \<noteq> []"
  by (induction s) (auto split: list.split)

lemma load_dotenv_ok: "gomap_ok (load_dotenv file)"
proof -
  have "gomap_ok (foldl (\<lambda>out l. case dotenv_line l of None \<Rightarrow> out | Some (k, v) \<Rightarrow> AList.update k v out)
      m ls)" if "gomap_ok m" for m ls
    using that
  proof (induction ls arbitrary: m)
    case Nil
    then show ?case by simp
  next
    case (Cons l ls)
    have "gomap_ok (case dotenv_line l of None \<Rightarrow> m | Some (k, v) \<Rightarrow> AList.update k v m)"
      using Cons.prems by (auto simp: gomap_ok_def distinct_update split: option.split)
    then show ?case using Cons.IH by simp
  qed
  then show ?thesis by (auto simp: load_dotenv_def gomap_ok_def split: option.split)
qed

lemma lookup_env_process:
  "env key = Some v \<Longrightarrow> trim_space v \<noteq> [] \<Longrightarrow> lookup_env env key dotenv = Some (trim_space v)"
  by (simp add: lookup_env_def)

lemma lookup_env_dotenv:
  "env key = None \<or> trim_space (the (env key)) = [] \<Longrightarrow>
   lookup_env env key dotenv =
     (case map_of dotenv key of
        Some w \<Rightarrow> if trim_space w \<noteq> [] then Some (trim_space w) else None
      | None \<Rightarrow> None)"
  by (auto simp: lookup_env_def split: option.split)

lemma lookup_env_nonempty: "lookup_env env key dotenv = Some v \<Longrightarrow> v \<noteq> []"
  by (auto simp: lookup_env_def split: option.splits if_splits)

end
