(* ===== verification/Json.thy ===== *)
theory Json
  imports Go_Base
begin

text \<open>
  What the code uses of package encoding/json: the scanner (\<open>json_parse\<close>), decoding into Go
  values (\<open>dec_...\<close>: exact field name first, then case-insensitive; \<open>null\<close> is a no-op on
  values and resets pointers; a later duplicate wins and merges into a struct; a type mismatch
  makes the call return an error) and encoding (\<open>marshal\<close>). A \<open>json.RawMessage\<close> is the pair
  of its bytes and its tree, so that code which looks at the bytes and code which decodes them
  read the same value. Payloads are taken to be valid UTF-8, and the scanner's nesting limit of
  10000 is not modelled.
\<close>

section \<open>Trees and raw messages\<close>

datatype json =
    JNull
  | JBool bool
  | JNum string
  | JStr string
  | JArr "(string \<times> json) list"
  | JObj "(string \<times> (string \<times> json)) list"

type_synonym raw_message = "string \<times> json"

section \<open>The scanner\<close>

definition json_space :: "char \<Rightarrow> bool" where
  "json_space c \<longleftrightarrow> byte c \<in> {9, 10, 13, 32}"

definition skip_space :: "string \<Rightarrow> string" where
  "skip_space s = dropWhile json_space s"

definition is_digit :: "char \<Rightarrow> bool" where
  "is_digit c \<longleftrightarrow> 48 \<le> byte c \<and> byte c \<le> 57"

definition hex_value :: "char \<Rightarrow> nat option" where
  "hex_value c =
     (if is_digit c then Some (byte c - 48)
      else if 97 \<le> byte c \<and> byte c \<le> 102 then Some (byte c - 87)
      else if 65 \<le> byte c \<and> byte c \<le> 70 then Some (byte c - 55)
      else None)"

definition hex4 :: "char \<Rightarrow> char \<Rightarrow> char \<Rightarrow> char \<Rightarrow> nat option" where
  "hex4 a b c d =
     (case (hex_value a, hex_value b, hex_value c, hex_value d) of
        (Some w, Some x, Some y, Some z) \<Rightarrow> Some (((w * 16 + x) * 16 + y) * 16 + z)
      | _ \<Rightarrow> None)"

definition utf8 :: "nat \<Rightarrow> string" where
  "utf8 n =
     (if n < 0x80 then [char_of n]
      else if n < 0x800 then [char_of (0xC0 + n div 64), char_of (0x80 + n mod 64)]
      else if n < 0x10000 then
        [char_of (0xE0 + n div 4096), char_of (0x80 + n div 64 mod 64), char_of (0x80 + n mod 64)]
      else
        [char_of (0xF0 + n div 262144), char_of (0x80 + n div 4096 mod 64),
         char_of (0x80 + n div 64 mod 64), char_of (0x80 + n mod 64)])"

text \<open>
  A string body is a list of bytes and \<open>\u\<close> escapes; a surrogate pair is one code point, a lone
  surrogate becomes U+FFFD.
\<close>

datatype str_unit = Byte char | Unit nat

fun join_units :: "str_unit list \<Rightarrow> string" where
  "join_units [] = []"
| "join_units (Byte c # us) = c # join_units us"
| "join_units (Unit n # us) =
     (if 0xD800 \<le> n \<and> n < 0xE000 then
        (case us of
           Unit m # vs \<Rightarrow>
             if n < 0xDC00 \<and> 0xDC00 \<le> m \<and> m < 0xE000
             then utf8 (0x10000 + (n - 0xD800) * 1024 + (m - 0xDC00)) @ join_units vs
             else utf8 0xFFFD @ join_units us
         | _ \<Rightarrow> utf8 0xFFFD @ join_units us)
      else utf8 n @ join_units us)"

definition simple_escape :: "char \<Rightarrow> char option" where
  "simple_escape e =
     (if e = CHR 0x22 \<or> e = CHR 0x5C \<or> e = CHR 0x2F then Some e
      else if e = CHR ''b'' then Some (CHR 0x08)
      else if e = CHR ''f'' then Some (CHR 0x0C)
      else if e = CHR ''n'' then Some (CHR 0x0A)
      else if e = CHR ''r'' then Some (CHR 0x0D)
      else if e = CHR ''t'' then Some (CHR 0x09)
      else None)"

text \<open>The body of a string literal after its opening quote, up to the closing one.\<close>

fun scan_string :: "string \<Rightarrow> (str_unit list \<times> string) option" where
  "scan_string [] = None"
| "scan_string (c # s) =
     (if c = CHR 0x22 then Some ([], s)
      else if c = CHR 0x5C then
        (case s of
           [] \<Rightarrow> None
         | e # t \<Rightarrow>
             if e = CHR ''u'' then
               (case t of
                  h1 # h2 # h3 # h4 # t' \<Rightarrow>
                    (case hex4 h1 h2 h3 h4 of
                       None \<Rightarrow> None
                     | Some n \<Rightarrow> map_option (\<lambda>(us, r). (Unit n # us, r)) (scan_string t'))
                | _ \<Rightarrow> None)
             else
               (case simple_escape e of
                  None \<Rightarrow> None
                | Some b \<Rightarrow> map_option (\<lambda>(us, r). (Byte b # us, r)) (scan_string t)))
      else if byte c < 32 then None
      else map_option (\<lambda>(us, r). (Byte c # us, r)) (scan_string s))"

text \<open>A number literal: sign, integer part without leading zeros, fraction, exponent.\<close>

definition scan_digits :: "string \<Rightarrow> string \<times> string" where
  "scan_digits s = (takeWhile is_digit s, dropWhile is_digit s)"

definition scan_exponent :: "string \<Rightarrow> (string \<times> string) option" where
  "scan_exponent s =
     (case s of
        [] \<Rightarrow> Some ([], [])
      | e # t \<Rightarrow>
          if e = CHR ''e'' \<or> e = CHR ''E'' then
            (let (sign, t') =
               (case t of
                  [] \<Rightarrow> ([], [])
                | g # u \<Rightarrow> if g = CHR ''+'' \<or> g = CHR ''-'' then ([g], u) else ([], t));
               (ds, r) = scan_digits t'
             in if ds = [] then None else Some (e # sign @ ds, r))
          else Some ([], s))"

definition scan_fraction :: "string \<Rightarrow> (string \<times> string) option" where
  "scan_fraction s =
     (case s of
        [] \<Rightarrow> Some ([], [])
      | d # t \<Rightarrow>
          if d = CHR ''.'' then
            (let (ds, r) = scan_digits t in if ds = [] then None else Some (d # ds, r))
          else Some ([], s))"

definition scan_number :: "string \<Rightarrow> (string \<times> string) option" where
  "scan_number s =
     (let (sign, s1) =
        (case s of [] \<Rightarrow> ([], []) | c # t \<Rightarrow> if c = CHR ''-'' then ([c], t) else ([], s));
        (ds, s2) = scan_digits s1
      in if ds = [] \<or> (hd ds = CHR ''0'' \<and> 1 < length ds) then None
         else (case scan_fraction s2 of
                 None \<Rightarrow> None
               | Some (fr, s3) \<Rightarrow>
                   (case scan_exponent s3 of
                      None \<Rightarrow> None
                    | Some (ex, s4) \<Rightarrow> Some (sign @ ds @ fr @ ex, s4))))"

text \<open>
  Values, array elements and object members. The fuel is spent once per call; \<open>json_parse\<close>
  gives two units for every byte, more than the calls on any path can use.
\<close>

definition consumed :: "string \<Rightarrow> string \<Rightarrow> string" where
  "consumed s r = take (length s - length r) s"

fun scan_value :: "nat \<Rightarrow> string \<Rightarrow> (json \<times> string) option"
  and scan_elements :: "nat \<Rightarrow> string \<Rightarrow> ((string \<times> json) list \<times> string) option"
  and scan_members :: "nat \<Rightarrow> string \<Rightarrow> ((string \<times> (string \<times> json)) list \<times> string) option" where
  "scan_value 0 s = None"
| "scan_value (Suc n) s =
     (case s of
        [] \<Rightarrow> None
      | c # t \<Rightarrow>
          if c = CHR 0x22 then map_option (\<lambda>(us, r). (JStr (join_units us), r)) (scan_string t)
          else if c = CHR ''['' then
            (case skip_space t of
               [] \<Rightarrow> None
             | d # u \<Rightarrow>
                 if d = CHR '']'' then Some (JArr [], u)
                 else map_option (\<lambda>(vs, r). (JArr vs, r)) (scan_elements n (d # u)))
          else if c = CHR ''{'' then
            (case skip_space t of
               [] \<Rightarrow> None
             | d # u \<Rightarrow>
                 if d = CHR ''}'' then Some (JObj [], u)
                 else map_option (\<lambda>(vs, r). (JObj vs, r)) (scan_members n (d # u)))
          else if has_prefix s ''null'' then Some (JNull, drop 4 s)
          else if has_prefix s ''true'' then Some (JBool True, drop 4 s)
          else if has_prefix s ''false'' then Some (JBool False, drop 5 s)
          else map_option (\<lambda>(l, r). (JNum l, r)) (scan_number s))"
| "scan_elements 0 s = None"
| "scan_elements (Suc n) s =
     (case scan_value n s of
        None \<Rightarrow> None
      | Some (v, r) \<Rightarrow>
          (case skip_space r of
             [] \<Rightarrow> None
           | c # t \<Rightarrow>
               if c = CHR '']'' then Some ([(consumed s r, v)], t)
               else if c = CHR '','' then
                 map_option (\<lambda>(vs, q). ((consumed s r, v) # vs, q)) (scan_elements n (skip_space t))
               else None))"
| "scan_members 0 s = None"
| "scan_members (Suc n) s =
     (case s of
        [] \<Rightarrow> None
      | q # t \<Rightarrow>
          if q \<noteq> CHR 0x22 then None
          else (case scan_string t of
                  None \<Rightarrow> None
                | Some (us, r) \<Rightarrow>
                    (case skip_space r of
                       [] \<Rightarrow> None
                     | c # u \<Rightarrow>
                         if c \<noteq> CHR '':'' then None
                         else (case scan_value n (skip_space u) of
                                 None \<Rightarrow> None
                               | Some (v, r') \<Rightarrow>
                                   (let m = (join_units us, (consumed (skip_space u) r', v)) in
                                    case skip_space r' of
                                      [] \<Rightarrow> None
                                    | d # w \<Rightarrow>
                                        if d = CHR ''}'' then Some ([m], w)
                                        else if d = CHR '','' then
                                          map_option (\<lambda>(ms, q'). (m # ms, q'))
                                            (scan_members n (skip_space w))
                                        else None)))))"

definition json_parse :: "string \<Rightarrow> json option" where
  "json_parse s =
     (case scan_value (2 * length s + 2) (skip_space s) of
        None \<Rightarrow> None
      | Some (v, r) \<Rightarrow> if skip_space r = [] then Some v else None)"

text \<open>\<open>json.Valid\<close>.\<close>

definition json_valid :: "string \<Rightarrow> bool" where
  "json_valid s \<longleftrightarrow> json_parse s \<noteq> None"

section \<open>Decoding into Go values\<close>

text \<open>
  The members of an object that decode into the field named \<open>f\<close> of a struct with the field
  names \<open>names\<close>, in document order.
\<close>

definition field_of :: "string list \<Rightarrow> string \<Rightarrow> string option" where
  "field_of names k =
     (if k \<in> set names then Some k else find (\<lambda>f. equal_fold f k) names)"

definition field_values ::
    "string list \<Rightarrow> string \<Rightarrow> (string \<times> raw_message) list \<Rightarrow> raw_message list" where
  "field_values names f ms = map snd (filter (\<lambda>(k, _). field_of names k = Some f) ms)"

text \<open>
  Each decoder takes the values given to a field, in order; \<open>None\<close> is a type mismatch.
\<close>

fun dec_string :: "string \<Rightarrow> raw_message list \<Rightarrow> string option" where
  "dec_string s [] = Some s"
| "dec_string s ((_, JNull) # vs) = dec_string s vs"
| "dec_string s ((_, JStr t) # vs) = dec_string t vs"
| "dec_string s (_ # vs) = None"

fun dec_bool :: "bool \<Rightarrow> raw_message list \<Rightarrow> bool option" where
  "dec_bool b [] = Some b"
| "dec_bool b ((_, JNull) # vs) = dec_bool b vs"
| "dec_bool b ((_, JBool c) # vs) = dec_bool c vs"
| "dec_bool b (_ # vs) = None"

definition digits_value :: "string \<Rightarrow> int" where
  "digits_value ds = foldl (\<lambda>n d. 10 * n + (int (byte d) - 48)) 0 ds"

text \<open>A number literal as an integer: digits only, within int64.\<close>

definition int64_literal :: "string \<Rightarrow> int option" where
  "int64_literal l =
     (let neg = (case l of [] \<Rightarrow> False | c # _ \<Rightarrow> c = CHR ''-'');
          ds = (if neg then tl l else l);
          i = (if neg then - digits_value ds else digits_value ds)
      in if ds \<noteq> [] \<and> list_all is_digit ds \<and> in_int64 i then Some i else None)"

fun dec_int :: "int \<Rightarrow> raw_message list \<Rightarrow> int option" where
  "dec_int i [] = Some i"
| "dec_int i ((_, JNull) # vs) = dec_int i vs"
| "dec_int i ((_, JNum l) # vs) =
     (case int64_literal l of None \<Rightarrow> None | Some j \<Rightarrow> dec_int j vs)"
| "dec_int i (_ # vs) = None"

text \<open>Pointers: \<open>null\<close> resets them.\<close>

fun dec_string_ptr :: "string option \<Rightarrow> raw_message list \<Rightarrow> string option option" where
  "dec_string_ptr s [] = Some s"
| "dec_string_ptr s ((_, JNull) # vs) = dec_string_ptr None vs"
| "dec_string_ptr s ((_, JStr t) # vs) = dec_string_ptr (Some t) vs"
| "dec_string_ptr s (_ # vs) = None"

fun dec_bool_ptr :: "bool option \<Rightarrow> raw_message list \<Rightarrow> bool option option" where
  "dec_bool_ptr b [] = Some b"
| "dec_bool_ptr b ((_, JNull) # vs) = dec_bool_ptr None vs"
| "dec_bool_ptr b ((_, JBool c) # vs) = dec_bool_ptr (Some c) vs"
| "dec_bool_ptr b (_ # vs) = None"

fun dec_int_ptr :: "int option \<Rightarrow> raw_message list \<Rightarrow> int option option" where
  "dec_int_ptr i [] = Some i"
| "dec_int_ptr i ((_, JNull) # vs) = dec_int_ptr None vs"
| "dec_int_ptr i ((_, JNum l) # vs) =
     (case int64_literal l of None \<Rightarrow> None | Some j \<Rightarrow> dec_int_ptr (Some j) vs)"
| "dec_int_ptr i (_ # vs) = None"

text \<open>A \<open>json.RawMessage\<close> field keeps the last value, \<open>null\<close> included; absent is \<open>None\<close>.\<close>

definition dec_raw :: "raw_message list \<Rightarrow> raw_message option" where
  "dec_raw vs = (if vs = [] then None else Some (last vs))"

text \<open>Slices of raw messages or of structs: \<open>null\<close> gives nil, a later array replaces.\<close>

fun dec_slice :: "raw_message list \<Rightarrow> raw_message list \<Rightarrow> raw_message list option" where
  "dec_slice xs [] = Some xs"
| "dec_slice xs ((_, JNull) # vs) = dec_slice [] vs"
| "dec_slice xs ((_, JArr ys) # vs) = dec_slice ys vs"
| "dec_slice xs (_ # vs) = None"

text \<open>The members that reach a struct value, and a struct behind a pointer.\<close>

fun dec_struct :: "(string \<times> raw_message) list \<Rightarrow> raw_message list
    \<Rightarrow> (string \<times> raw_message) list option" where
  "dec_struct ms [] = Some ms"
| "dec_struct ms ((_, JNull) # vs) = dec_struct ms vs"
| "dec_struct ms ((_, JObj ns) # vs) = dec_struct (ms @ ns) vs"
| "dec_struct ms (_ # vs) = None"

fun dec_struct_ptr :: "(string \<times> raw_message) list option \<Rightarrow> raw_message list
    \<Rightarrow> (string \<times> raw_message) list option option" where
  "dec_struct_ptr ms [] = Some ms"
| "dec_struct_ptr ms ((_, JNull) # vs) = dec_struct_ptr None vs"
| "dec_struct_ptr ms ((_, JObj ns) # vs) =
     dec_struct_ptr (Some ((case ms of None \<Rightarrow> [] | Some ks \<Rightarrow> ks) @ ns)) vs"
| "dec_struct_ptr ms (_ # vs) = None"

text \<open>The members of a document decoded into a struct: the whole value is one raw message.\<close>

definition unmarshal_struct :: "string \<Rightarrow> (string \<times> raw_message) list option" where
  "unmarshal_struct s =
     (case json_parse s of None \<Rightarrow> None | Some v \<Rightarrow> dec_struct [] [(s, v)])"

text \<open>Decoding every element of a slice, and one string or integer field of an element.\<close>

fun dec_all :: "('a \<Rightarrow> 'b option) \<Rightarrow> 'a list \<Rightarrow> 'b list option" where
  "dec_all f [] = Some []"
| "dec_all f (x # xs) =
     (case f x of
        None \<Rightarrow> None
      | Some y \<Rightarrow> (case dec_all f xs of None \<Rightarrow> None | Some ys \<Rightarrow> Some (y # ys)))"

definition elem_string :: "string \<Rightarrow> raw_message \<Rightarrow> string option" where
  "elem_string f r =
     (case dec_struct [] [r] of
        None \<Rightarrow> None
      | Some ms \<Rightarrow> dec_string [] (field_values [f] f ms))"

text \<open>A map from names to raw messages: exact keys, the last duplicate wins.\<close>

definition map_lookup :: "(string \<times> raw_message) list \<Rightarrow> string \<Rightarrow> raw_message option" where
  "map_lookup ms k = map_of (rev ms) k"

section \<open>Encoding\<close>

text \<open>
  The values the code marshals: Go scalars, slices, structs and maps. The members of an object
  are in the order they are written: the field order of a struct, the sorted keys of a map
  (\<open>vmap\<close>).
\<close>

datatype jval =
    VNull
  | VBool bool
  | VInt int
  | VStr string
  | VArr "jval list"
  | VObj "(string \<times> jval) list"
  | VRaw string

fun str_less :: "string \<Rightarrow> string \<Rightarrow> bool" where
  "str_less [] t = (t \<noteq> [])"
| "str_less (c # s) [] = False"
| "str_less (c # s) (d # t) = (byte c < byte d \<or> (c = d \<and> str_less s t))"

fun insert_member :: "string \<times> 'v \<Rightarrow> (string \<times> 'v) list \<Rightarrow> (string \<times> 'v) list" where
  "insert_member m [] = [m]"
| "insert_member m (n # ns) =
     (if str_less (fst n) (fst m) then n # insert_member m ns else m # n # ns)"

definition sort_members :: "(string \<times> 'v) list \<Rightarrow> (string \<times> 'v) list" where
  "sort_members ms = foldr insert_member ms []"

text \<open>Sorting the members of a map does not change what is found in it.\<close>

lemma insert_member_set: "set (insert_member m ns) = insert m (set ns)"
  by (induction ns) auto

lemma insert_member_keys: "distinct (map fst (m # ns)) \<Longrightarrow> distinct (map fst (insert_member m ns))"
  by (induction ns) (auto simp: insert_member_set)

lemma sort_members_set: "set (sort_members ms) = set ms"
  by (induction ms) (auto simp: sort_members_def insert_member_set)

lemma sort_members_keys: "distinct (map fst ms) \<Longrightarrow> distinct (map fst (sort_members ms))"
proof (induction ms)
  case (Cons m ms)
  have "set (map fst (sort_members ms)) = set (map fst ms)" by (simp add: sort_members_set)
  then have "distinct (map fst (m # sort_members ms))" using Cons by auto
  from insert_member_keys [OF this] show ?case by (simp add: sort_members_def)
qed (simp add: sort_members_def)

lemma map_of_sort_members: "distinct (map fst ms) \<Longrightarrow> map_of (sort_members ms) = map_of ms"
  by (rule map_of_eqI) (auto simp: sort_members_set sort_members_keys dest: map_of_is_SomeI)

definition vmap :: "(string \<times> jval) list \<Rightarrow> jval" where
  "vmap ms = VObj (sort_members ms)"

definition hex_digit :: "nat \<Rightarrow> char" where
  "hex_digit n = (if n < 10 then char_of (48 + n) else char_of (87 + n))"

definition escape_char :: "char \<Rightarrow> string" where
  "escape_char c =
     (if c = CHR 0x22 \<or> c = CHR 0x5C then [CHR 0x5C, c]
      else if c = CHR 0x08 then [CHR 0x5C, CHR ''b'']
      else if c = CHR 0x0C then [CHR 0x5C, CHR ''f'']
      else if c = CHR 0x0A then [CHR 0x5C, CHR ''n'']
      else if c = CHR 0x0D then [CHR 0x5C, CHR ''r'']
      else if c = CHR 0x09 then [CHR 0x5C, CHR ''t'']
      else if byte c < 32 \<or> c = CHR ''<'' \<or> c = CHR ''>'' \<or> c = CHR 0x26
      then [CHR 0x5C, CHR ''u'', CHR ''0'', CHR ''0'', hex_digit (byte c div 16), hex_digit (byte c mod 16)]
      else [c])"

text \<open>U+2028 and U+2029 are escaped as well.\<close>

fun escape_string :: "string \<Rightarrow> string" where
  "escape_string [] = []"
| "escape_string [c] = escape_char c"
| "escape_string [c, d] = escape_char c @ escape_char d"
| "escape_string (c # d # e # s) =
     (if c = CHR 0xE2 \<and> d = CHR 0x80 \<and> (e = CHR 0xA8 \<or> e = CHR 0xA9)
      then [CHR 0x5C] @ (if e = CHR 0xA8 then ''u2028'' else ''u2029'') @ escape_string s
      else escape_char c @ escape_string (d # e # s))"

definition quote_string :: "string \<Rightarrow> string" where
  "quote_string s = CHR 0x22 # escape_string s @ [CHR 0x22]"

fun join_with :: "string \<Rightarrow> string list \<Rightarrow> string" where
  "join_with sep [] = []"
| "join_with sep [x] = x"
| "join_with sep (x # y # ys) = x @ sep @ join_with sep (y # ys)"

text \<open>Fields tagged \<open>omitempty\<close>.\<close>

definition omit_empty :: "string \<Rightarrow> string \<Rightarrow> (string \<times> jval) list" where
  "omit_empty k s = (if s = [] then [] else [(k, VStr s)])"

definition omit_none :: "('a \<Rightarrow> jval) \<Rightarrow> string \<Rightarrow> 'a option \<Rightarrow> (string \<times> jval) list" where
  "omit_none f k v = (case v of None \<Rightarrow> [] | Some x \<Rightarrow> [(k, f x)])"

text \<open>
  A \<open>json.RawMessage\<close> is copied without the blanks between its tokens, with the same characters
  escaped. The flags say whether the scanner is inside a string and behind a backslash.
\<close>

fun compact_from :: "bool \<Rightarrow> bool \<Rightarrow> string \<Rightarrow> string" where
  "compact_from inside esc [] = []"
| "compact_from inside esc (c # s) =
     (if \<not> inside \<and> json_space c then compact_from inside False s
      else if c = CHR 0xE2 \<and> take 2 s = [CHR 0x80, CHR 0xA8]
      then [CHR 0x5C] @ ''u2028'' @ compact_from inside False (drop 2 s)
      else if c = CHR 0xE2 \<and> take 2 s = [CHR 0x80, CHR 0xA9]
      then [CHR 0x5C] @ ''u2029'' @ compact_from inside False (drop 2 s)
      else (if c = CHR ''<'' \<or> c = CHR ''>'' \<or> c = CHR 0x26 then escape_char c else [c]) @
           compact_from (if c = CHR 0x22 \<and> \<not> esc then \<not> inside else inside)
             (inside \<and> c = CHR 0x5C \<and> \<not> esc) s)"

definition json_compact :: "string \<Rightarrow> string" where
  "json_compact s = compact_from False False s"

fun marshal :: "jval \<Rightarrow> string" where
  "marshal VNull = ''null''"
| "marshal (VRaw s) = json_compact s"
| "marshal (VBool b) = (if b then ''true'' else ''false'')"
| "marshal (VInt i) = itoa i"
| "marshal (VStr s) = quote_string s"
| "marshal (VArr vs) = ''['' @ join_with '','' (map marshal vs) @ '']''"
| "marshal (VObj ms) =
     ''{'' @ join_with '','' (map (\<lambda>(k, v). quote_string k @ '':'' @ marshal v) ms) @ ''}''"

end
