(* ===== verification/Config_Load.thy ===== *)
theory Config_Load
  imports Config_Env Json
begin

text \<open>
  internal/config/config.go and load.go: the configuration types, the defaults, and \<open>Parse\<close>. The
  TOML decoder (a third-party package) and \<open>time.ParseDuration\<close> are parameters of \<open>parse\<close>; the
  textual scan that recovers the document order of the groups is modelled as written.
\<close>

section \<open>Configuration types\<close>

datatype capability_state = CapabilityUnknown | CapabilitySupported | CapabilityUnsupported

fun parse_capability :: "bool option \<Rightarrow> capability_state" where
  "parse_capability None = CapabilityUnknown"
| "parse_capability (Some True) = CapabilitySupported"
| "parse_capability (Some False) = CapabilityUnsupported"

record server_config =
  srv_host :: string
  srv_port :: int
  srv_auth_token_env :: string

record timeouts_config =
  to_request :: int
  to_first_event :: int
  to_stream_idle :: int

record logging_config =
  log_level :: string
  log_format :: string

record provider_config =
  pc_base_url :: string
  pc_api_key_env :: string
  pc_wire_api :: string
  pc_headers :: "string gomap"

record model_capabilities =
  cap_tools :: capability_state
  cap_vision :: capability_state
  cap_reasoning :: capability_state

text \<open>A decoded \<open>any\<close> is a tree; a \<open>float64\<close> that is only copied is its literal.\<close>

record model_config =
  mc_provider :: string
  mc_upstream_model :: string
  mc_thinking_budget :: "int option"
  mc_capabilities :: model_capabilities
  mc_extra :: "json gomap"
  mc_input_price :: string
  mc_output_price :: string

record config =
  cfg_version :: int
  cfg_server :: server_config
  cfg_default_group :: string
  cfg_timeouts :: timeouts_config
  cfg_logging :: logging_config
  cfg_usage_enabled :: bool
  cfg_providers :: "provider_config gomap"
  cfg_models :: "model_config gomap"
  cfg_groups :: "string list gomap"
  cfg_group_ord :: "string list"

text \<open>Durations are in nanoseconds.\<close>

definition second :: int where
  "second = 1000000000"

definition defaults :: config where
  "defaults =
     \<lparr>cfg_version = 1,
      cfg_server = \<lparr>srv_host = ''127.0.0.1'', srv_port = 4567, srv_auth_token_env = []\<rparr>,
      cfg_default_group = [],
      cfg_timeouts = \<lparr>to_request = 180 * second, to_first_event = 45 * second,
                      to_stream_idle = 330 * second\<rparr>,
      cfg_logging = \<lparr>log_level = ''info'', log_format = ''text''\<rparr>,
      cfg_usage_enabled = True,
      cfg_providers = [], cfg_models = [], cfg_groups = [], cfg_group_ord = []\<rparr>"

section \<open>The decoded file\<close>

text \<open>An absent pointer is \<^const>\<open>None\<close>; an absent string is empty, an absent map nil.\<close>

record toml_capabilities =
  tc_tools :: "bool option"
  tc_vision :: "bool option"
  tc_reasoning :: "bool option"

record toml_provider =
  tp_base_url :: string
  tp_api_key_env :: string
  tp_wire_api :: string
  tp_headers :: "string gomap option"

record toml_model =
  tm_provider :: string
  tm_upstream_model :: string
  tm_thinking_budget :: "int option"
  tm_capabilities :: "toml_capabilities option"
  tm_extra :: "json gomap option"
  tm_input_price :: string
  tm_output_price :: string

record toml_server =
  ts_host :: string
  ts_port :: "int option"
  ts_auth_token_env :: string

record toml_timeouts =
  tt_request :: string
  tt_first_event :: string
  tt_stream_idle :: string

record toml_logging =
  tl_level :: string
  tl_format :: string

record toml_file =
  tf_version :: "int option"
  tf_server :: "toml_server option"
  tf_routing :: "string option"
  tf_timeouts :: "toml_timeouts option"
  tf_logging :: "toml_logging option"
  tf_usage_enabled :: "bool option"
  tf_providers :: "toml_provider gomap option"
  tf_models :: "toml_model gomap option"
  tf_groups :: "string list gomap option"

section \<open>The order of the groups\<close>

definition cfg_space :: "char \<Rightarrow> bool" where
  "cfg_space c \<longleftrightarrow> c = CHR '' '' \<or> c = CHR 0x09 \<or> c = CHR 0x0D"

definition cfg_trim :: "string \<Rightarrow> string" where
  "cfg_trim s = rev (dropWhile cfg_space (rev (dropWhile cfg_space s)))"

definition trim_quotes :: "string \<Rightarrow> string" where
  "trim_quotes s =
     (if 2 \<le> length s \<and>
         ((hd s = CHR 0x22 \<and> last s = CHR 0x22) \<or> (hd s = CHR 0x27 \<and> last s = CHR 0x27))
      then butlast (tl s) else s)"

definition cut_comment :: "string \<Rightarrow> string" where
  "cut_comment s = (case index_byte s (CHR ''#'') of Some i \<Rightarrow> take i s | None \<Rightarrow> s)"

text \<open>
  One line of the scan. The state is whether the line is under \<open>[groups]\<close> and the keys found so
  far; the map \<open>seen\<close> of the code holds exactly those keys.
\<close>

definition scan_group_line ::
    "string list gomap \<Rightarrow> bool \<times> string list \<Rightarrow> string \<Rightarrow> bool \<times> string list" where
  "scan_group_line groups st line =
     (case st of (in_groups, order) \<Rightarrow>
       let t = cfg_trim line in
       if t = [] \<or> hd t = CHR ''#'' then (in_groups, order)
       else if 1 < length t \<and> hd t = CHR ''['' then (cfg_trim (cut_comment t) = ''[groups]'', order)
       else if \<not> in_groups then (in_groups, order)
       else (case index_byte t (CHR ''='') of
               None \<Rightarrow> (in_groups, order)
             | Some eq \<Rightarrow>
                 (let k = cfg_trim (trim_quotes (cfg_trim (take eq t))) in
                  if ghas groups k \<and> k \<notin> set order then (in_groups, order @ [k])
                  else (in_groups, order))))"

definition ordered_group_keys :: "string \<Rightarrow> string list gomap \<Rightarrow> string list" where
  "ordered_group_keys data groups =
     (let order = snd (foldl (scan_group_line groups) (False, []) (split_lines data))
      in order @ filter (\<lambda>k. k \<notin> set order) (gkeys groups))"

section \<open>Parse\<close>

datatype parse_error =
    TomlParse string
  | TimeoutsRequest string
  | TimeoutsFirstEvent string
  | TimeoutsStreamIdle string

definition or_default :: "string \<Rightarrow> string \<Rightarrow> string" where
  "or_default s d = (if s = [] then d else s)"

definition parse_provider :: "string \<Rightarrow> toml_provider \<Rightarrow> provider_config" where
  "parse_provider pid p =
     (case builtin_provider_default pid of (def_base, def_env) \<Rightarrow>
       \<lparr>pc_base_url = or_default (tp_base_url p) def_base,
        pc_api_key_env = or_default (tp_api_key_env p) def_env,
        pc_wire_api = or_default (tp_wire_api p) ''responses'',
        pc_headers = (case tp_headers p of None \<Rightarrow> [] | Some h \<Rightarrow> h)\<rparr>)"

definition parse_model :: "string \<Rightarrow> toml_model \<Rightarrow> model_config" where
  "parse_model mid m =
     \<lparr>mc_provider = tm_provider m,
      mc_upstream_model = tm_upstream_model m,
      mc_thinking_budget = tm_thinking_budget m,
      mc_capabilities =
        (case tm_capabilities m of
           None \<Rightarrow> \<lparr>cap_tools = CapabilityUnknown, cap_vision = CapabilityUnknown,
                    cap_reasoning = CapabilityUnknown\<rparr>
         | Some c \<Rightarrow> \<lparr>cap_tools = parse_capability (tc_tools c),
                      cap_vision = parse_capability (tc_vision c),
                      cap_reasoning = parse_capability (tc_reasoning c)\<rparr>),
      mc_extra = (case tm_extra m of None \<Rightarrow> [] | Some x \<Rightarrow> x),
      mc_input_price = tm_input_price m,
      mc_output_price = tm_output_price m\<rparr>"

text \<open>A duration field: empty keeps the default, otherwise it must parse.\<close>

definition parse_timeout ::
    "(string \<Rightarrow> string + int) \<Rightarrow> (string \<Rightarrow> parse_error) \<Rightarrow> string \<Rightarrow> int \<Rightarrow> parse_error + int" where
  "parse_timeout parse_duration err s d =
     (if s = [] then Inr d
      else (case parse_duration s of Inl e \<Rightarrow> Inl (err e) | Inr n \<Rightarrow> Inr n))"

definition parse_timeouts ::
    "(string \<Rightarrow> string + int) \<Rightarrow> toml_timeouts option \<Rightarrow> timeouts_config
      \<Rightarrow> parse_error + timeouts_config" where
  "parse_timeouts parse_duration tt t =
     (case tt of
        None \<Rightarrow> Inr t
      | Some tt \<Rightarrow>
          (case parse_timeout parse_duration TimeoutsRequest (tt_request tt) (to_request t) of
             Inl e \<Rightarrow> Inl e
           | Inr r \<Rightarrow>
               (case parse_timeout parse_duration TimeoutsFirstEvent (tt_first_event tt) (to_first_event t) of
                  Inl e \<Rightarrow> Inl e
                | Inr f \<Rightarrow>
                    (case parse_timeout parse_duration TimeoutsStreamIdle (tt_stream_idle tt)
                            (to_stream_idle t) of
                       Inl e \<Rightarrow> Inl e
                     | Inr i \<Rightarrow> Inr \<lparr>to_request = r, to_first_event = f, to_stream_idle = i\<rparr>))))"

definition parse_server :: "toml_server option \<Rightarrow> server_config \<Rightarrow> server_config" where
  "parse_server ts s =
     (case ts of
        None \<Rightarrow> s
      | Some t \<Rightarrow>
          \<lparr>srv_host = or_default (ts_host t) (srv_host s),
           srv_port = (case ts_port t of None \<Rightarrow> srv_port s | Some p \<Rightarrow> p),
           srv_auth_token_env = trim_space (ts_auth_token_env t)\<rparr>)"

definition parse_logging :: "toml_logging option \<Rightarrow> logging_config \<Rightarrow> logging_config" where
  "parse_logging lg l =
     (case lg of
        None \<Rightarrow> l
      | Some t \<Rightarrow> \<lparr>log_level = or_default (tl_level t) (log_level l),
                   log_format = or_default (tl_format t) (log_format l)\<rparr>)"

definition parse ::
    "(string \<Rightarrow> string + toml_file) \<Rightarrow> (string \<Rightarrow> string + int) \<Rightarrow> string \<Rightarrow> parse_error + config" where
  "parse toml_decode parse_duration data =
     (case toml_decode data of
        Inl e \<Rightarrow> Inl (TomlParse e)
      | Inr tf \<Rightarrow>
          (case parse_timeouts parse_duration (tf_timeouts tf) (cfg_timeouts defaults) of
             Inl e \<Rightarrow> Inl e
           | Inr t \<Rightarrow>
               Inr
                 \<lparr>cfg_version = (case tf_version tf of None \<Rightarrow> cfg_version defaults | Some v \<Rightarrow> v),
                  cfg_server = parse_server (tf_server tf) (cfg_server defaults),
                  cfg_default_group =
                    (case tf_routing tf of None \<Rightarrow> cfg_default_group defaults | Some g \<Rightarrow> g),
                  cfg_timeouts = t,
                  cfg_logging = parse_logging (tf_logging tf) (cfg_logging defaults),
                  cfg_usage_enabled =
                    (case tf_usage_enabled tf of None \<Rightarrow> cfg_usage_enabled defaults | Some b \<Rightarrow> b),
                  cfg_providers =
                    (case tf_providers tf of None \<Rightarrow> [] | Some ps \<Rightarrow> gmap_values parse_provider ps),
                  cfg_models =
                    (case tf_models tf of None \<Rightarrow> [] | Some ms \<Rightarrow> gmap_values parse_model ms),
                  cfg_groups = (case tf_groups tf of None \<Rightarrow> [] | Some gs \<Rightarrow> gs),
                  cfg_group_ord =
                    (case tf_groups tf of None \<Rightarrow> [] | Some gs \<Rightarrow> ordered_group_keys data gs)\<rparr>))"

section \<open>Lemmas\<close>

lemma scan_group_line_inv:
  assumes "distinct order" "set order \<subseteq> set (gkeys groups)"
    and "scan_group_line groups (b, order) line = (b', order')"
  shows "distinct order' \<and> set order' \<subseteq> set (gkeys groups) \<and> (\<exists>zs. order' = order @ zs)"
proof -
  from assms(3) have "order' = order \<or> (\<exists>k. ghas groups k \<and> k \<notin> set order \<and> order' = order @ [k])"
    by (auto simp: scan_group_line_def Let_def split: if_splits option.splits)
  with assms(1,2) show ?thesis by (fastforce simp: ghas_iff)
qed

lemma scan_groups_inv:
  assumes "distinct order" "set order \<subseteq> set (gkeys groups)"
    and "foldl (scan_group_line groups) (b, order) ls = (b', order')"
  shows "distinct order' \<and> set order' \<subseteq> set (gkeys groups) \<and> (\<exists>zs. order' = order @ zs)"
  using assms
proof (induction ls arbitrary: b order)
  case Nil
  then show ?case by simp
next
  case (Cons l ls)
  obtain b1 o1 where l: "scan_group_line groups (b, order) l = (b1, o1)" by fastforce
  have o1: "distinct o1" "set o1 \<subseteq> set (gkeys groups)" and pre: "\<exists>zs. o1 = order @ zs"
    using scan_group_line_inv [OF Cons.prems(1,2) l] by auto
  have "foldl (scan_group_line groups) (b1, o1) ls = (b', order')"
    using Cons.prems(3) l by simp
  from Cons.IH [OF o1 this] pre show ?case by auto
qed

lemma ordered_group_keys_split:
  obtains order where "ordered_group_keys data groups = order @ filter (\<lambda>k. k \<notin> set order) (gkeys groups)"
    and "distinct order" and "set order \<subseteq> set (gkeys groups)"
    and "order = snd (foldl (scan_group_line groups) (False, []) (split_lines data))"
proof -
  obtain b order where st: "foldl (scan_group_line groups) (False, []) (split_lines data) = (b, order)"
    by fastforce
  have "distinct order" "set order \<subseteq> set (gkeys groups)"
    using scan_groups_inv [OF _ _ st] by auto
  then show ?thesis using that st by (simp add: ordered_group_keys_def)
qed

lemma ordered_group_keys_set: "set (ordered_group_keys data groups) = set (gkeys groups)"
  by (rule ordered_group_keys_split [of data groups]) auto

lemma ordered_group_keys_distinct: "gomap_ok groups \<Longrightarrow> distinct (ordered_group_keys data groups)"
  by (rule ordered_group_keys_split [of data groups]) (auto simp: gomap_ok_def)

lemma parse_Inr:
  assumes "parse toml_decode pd data = Inr cfg"
  obtains tf t where "toml_decode data = Inr tf"
    and "cfg_groups cfg = (case tf_groups tf of None \<Rightarrow> [] | Some gs \<Rightarrow> gs)"
    and "cfg_group_ord cfg = (case tf_groups tf of None \<Rightarrow> [] | Some gs \<Rightarrow> ordered_group_keys data gs)"
  using assms by (auto simp: parse_def split: sum.splits)

end
