(* ===== verification/Config_Store.thy ===== *)
theory Config_Store
  imports Config_Load
begin

text \<open>
  internal/config/validate.go and snapshot.go, and the reload callback of cmd/sleepyrouter: a
  configuration is validated before it is turned into the immutable snapshot that requests read,
  and a reload that fails leaves the active snapshot alone. \<open>url.ParseRequestURI\<close> accepting a base
  URL is a parameter.
\<close>

section \<open>Validate\<close>

datatype validation_error =
    UnsupportedVersion int
  | PortOutOfRange int
  | TimeoutsNotPositive
  | ProviderIdEmpty
  | ProviderBaseUrlEmpty string
  | ProviderBaseUrlInvalid string string
  | ProviderWireApiInvalid string
  | ModelIdEmpty
  | ModelProviderEmpty string
  | ModelProviderUnknown string string
  | ModelUpstreamEmpty string
  | ModelThinkingBudget string
  | GroupModelCollision string
  | GroupUnknownModel string nat string
  | GroupDuplicateModel string string
  | DefaultGroupMissing
  | DefaultGroupUnknown string

definition validate_provider ::
    "(string \<Rightarrow> bool) \<Rightarrow> string \<times> provider_config \<Rightarrow> validation_error option" where
  "validate_provider url_ok e =
     (case e of (pid, p) \<Rightarrow>
       if trim_space pid = [] then Some ProviderIdEmpty
       else if pc_base_url p = [] then Some (ProviderBaseUrlEmpty pid)
       else if \<not> url_ok (pc_base_url p) then Some (ProviderBaseUrlInvalid pid (pc_base_url p))
       else if pc_wire_api p \<noteq> [] \<and> pc_wire_api p \<noteq> ''responses'' \<and> pc_wire_api p \<noteq> ''chat_completions''
       then Some (ProviderWireApiInvalid pid)
       else None)"

definition validate_model ::
    "provider_config gomap \<Rightarrow> string \<times> model_config \<Rightarrow> validation_error option" where
  "validate_model providers e =
     (case e of (mid, m) \<Rightarrow>
       if trim_space mid = [] then Some ModelIdEmpty
       else if trim_space (mc_provider m) = [] then Some (ModelProviderEmpty mid)
       else if \<not> ghas providers (mc_provider m) then Some (ModelProviderUnknown mid (mc_provider m))
       else if trim_space (mc_upstream_model m) = [] then Some (ModelUpstreamEmpty mid)
       else if mc_thinking_budget m \<noteq> None then Some (ModelThinkingBudget mid)
       else None)"

text \<open>The members of one group, with the pairs \<open>seenInGroup[g][mid]\<close> recorded so far.\<close>

fun check_members ::
    "'m gomap \<Rightarrow> string \<Rightarrow> nat \<Rightarrow> string list \<Rightarrow> (string \<times> string) list
      \<Rightarrow> validation_error + (string \<times> string) list" where
  "check_members models g i [] seen = Inr seen"
| "check_members models g i (mid # mids) seen =
     (if \<not> ghas models mid then Inl (GroupUnknownModel g i mid)
      else if (g, mid) \<in> set seen then Inl (GroupDuplicateModel g mid)
      else check_members models g (Suc i) mids ((g, mid) # seen))"

fun check_groups ::
    "'m gomap \<Rightarrow> string list gomap \<Rightarrow> string list \<Rightarrow> (string \<times> string) list
      \<Rightarrow> validation_error option" where
  "check_groups models groups [] seen = None"
| "check_groups models groups (g # gs) seen =
     (case check_members models g 0 (gslice groups g) seen of
        Inl e \<Rightarrow> Some e
      | Inr seen' \<Rightarrow> check_groups models groups gs seen')"

fun check_known :: "'m gomap \<Rightarrow> string \<Rightarrow> nat \<Rightarrow> string list \<Rightarrow> validation_error option" where
  "check_known models g i [] = None"
| "check_known models g i (mid # mids) =
     (if \<not> ghas models mid then Some (GroupUnknownModel g i mid)
      else check_known models g (Suc i) mids)"

definition orelse :: "'e option \<Rightarrow> 'e option \<Rightarrow> 'e option" where
  "orelse e f = (case e of Some x \<Rightarrow> Some x | None \<Rightarrow> f)"

definition validate :: "(string \<Rightarrow> bool) \<Rightarrow> config \<Rightarrow> validation_error option" where
  "validate url_ok cfg =
     (if cfg_version cfg \<noteq> 1 then Some (UnsupportedVersion (cfg_version cfg))
      else if srv_port (cfg_server cfg) < 1 \<or> 65535 < srv_port (cfg_server cfg)
      then Some (PortOutOfRange (srv_port (cfg_server cfg)))
      else if to_request (cfg_timeouts cfg) \<le> 0 \<or> to_first_event (cfg_timeouts cfg) \<le> 0
              \<or> to_stream_idle (cfg_timeouts cfg) \<le> 0
      then Some TimeoutsNotPositive
      else
        orelse (first_error (validate_provider url_ok) (cfg_providers cfg))
        (orelse (first_error (validate_model (cfg_providers cfg)) (cfg_models cfg))
        (orelse (first_error (\<lambda>g. if ghas (cfg_models cfg) g then Some (GroupModelCollision g) else None)
                   (gkeys (cfg_groups cfg)))
        (orelse (check_groups (cfg_models cfg) (cfg_groups cfg) (cfg_group_ord cfg) [])
        (orelse (first_error
                   (\<lambda>(g, members). if g \<in> set (cfg_group_ord cfg) then None
                                  else check_known (cfg_models cfg) g 0 members)
                   (cfg_groups cfg))
        (if cfg_default_group cfg = [] then Some DefaultGroupMissing
         else if \<not> ghas (cfg_groups cfg) (cfg_default_group cfg)
         then Some (DefaultGroupUnknown (cfg_default_group cfg))
         else None))))))"

section \<open>The snapshot\<close>

record runtime_provider =
  rp_id :: string
  rp_base_url :: string
  rp_api_key :: string
  rp_wire_api :: string
  rp_headers :: "string gomap"

record runtime_model =
  rm_local_id :: string
  rm_provider_id :: string
  rm_upstream_model :: string
  rm_thinking_budget :: "int option"
  rm_capabilities :: model_capabilities
  rm_extra :: "json gomap"
  rm_input_price :: string
  rm_output_price :: string

record runtime_snapshot =
  sn_generation :: nat
  sn_server :: server_config
  sn_default_group :: string
  sn_timeouts :: timeouts_config
  sn_auth_required :: bool
  sn_auth_token :: string
  sn_providers :: "runtime_provider gomap"
  sn_models :: "runtime_model gomap"
  sn_groups :: "string list gomap"
  sn_group_order :: "string list"

definition build_provider ::
    "(string \<Rightarrow> string option) \<Rightarrow> string gomap \<Rightarrow> string \<Rightarrow> provider_config \<Rightarrow> runtime_provider" where
  "build_provider env dotenv pid p =
     (let env_name = or_default (pc_api_key_env p) (default_api_key_env pid) in
      \<lparr>rp_id = pid, rp_base_url = pc_base_url p, rp_api_key = env_value env env_name dotenv,
       rp_wire_api = pc_wire_api p, rp_headers = pc_headers p\<rparr>)"

definition build_model :: "string \<Rightarrow> model_config \<Rightarrow> runtime_model" where
  "build_model mid m =
     \<lparr>rm_local_id = mid, rm_provider_id = mc_provider m, rm_upstream_model = mc_upstream_model m,
      rm_thinking_budget = mc_thinking_budget m, rm_capabilities = mc_capabilities m,
      rm_extra = mc_extra m, rm_input_price = mc_input_price m, rm_output_price = mc_output_price m\<rparr>"

definition build_snapshot ::
    "(string \<Rightarrow> string option) \<Rightarrow> config \<Rightarrow> string gomap \<Rightarrow> nat \<Rightarrow> runtime_snapshot" where
  "build_snapshot env cfg dotenv generation =
     (let auth_env = srv_auth_token_env (cfg_server cfg) in
      \<lparr>sn_generation = generation,
       sn_server = cfg_server cfg,
       sn_default_group = cfg_default_group cfg,
       sn_timeouts = cfg_timeouts cfg,
       sn_auth_required = (auth_env \<noteq> []),
       sn_auth_token = (if auth_env \<noteq> [] then env_value env auth_env dotenv else []),
       sn_providers = gmap_values (build_provider env dotenv) (cfg_providers cfg),
       sn_models = gmap_values build_model (cfg_models cfg),
       sn_groups = cfg_groups cfg,
       sn_group_order = cfg_group_ord cfg\<rparr>)"

section \<open>The store and its reload\<close>

text \<open>The atomic pointer is the snapshot it holds, if any.\<close>

type_synonym store = "runtime_snapshot option"

definition store_generation :: "store \<Rightarrow> nat" where
  "store_generation s = (case s of None \<Rightarrow> 0 | Some snap \<Rightarrow> sn_generation snap)"

definition new_store ::
    "(string \<Rightarrow> bool) \<Rightarrow> (string \<Rightarrow> string option) \<Rightarrow> config \<Rightarrow> string gomap \<Rightarrow> nat
      \<Rightarrow> validation_error + store" where
  "new_store url_ok env cfg dotenv generation =
     (case validate url_ok cfg of
        Some e \<Rightarrow> Inl e
      | None \<Rightarrow> Inr (Some (build_snapshot env cfg dotenv generation)))"

definition try_reload ::
    "(string \<Rightarrow> bool) \<Rightarrow> (string \<Rightarrow> string option) \<Rightarrow> config \<Rightarrow> string gomap \<Rightarrow> nat \<Rightarrow> store
      \<Rightarrow> validation_error option \<times> store" where
  "try_reload url_ok env cfg dotenv generation s =
     (case validate url_ok cfg of
        Some e \<Rightarrow> (Some e, s)
      | None \<Rightarrow> (None, Some (build_snapshot env cfg dotenv generation)))"

text \<open>The command line overrides of \<open>serve\<close>.\<close>

record serve_opts =
  so_host :: string
  so_port :: int

definition apply_opts :: "serve_opts \<Rightarrow> config \<Rightarrow> config" where
  "apply_opts opts cfg =
     (let s = cfg_server cfg;
          s1 = (if so_host opts \<noteq> [] then s\<lparr>srv_host := so_host opts\<rparr> else s);
          s2 = (if so_port opts \<noteq> 0 then s1\<lparr>srv_port := so_port opts\<rparr> else s1)
      in cfg\<lparr>cfg_server := s2\<rparr>)"

text \<open>What one firing of the watcher finds: the two files and the process environment.\<close>

record reload_event =
  re_env :: "string \<Rightarrow> string option"
  re_dotenv_file :: "string option"
  re_config_file :: "string option"

record reload_state =
  rl_gen :: nat
  rl_store :: store

definition on_reload ::
    "(string \<Rightarrow> string + toml_file) \<Rightarrow> (string \<Rightarrow> string + int) \<Rightarrow> (string \<Rightarrow> bool) \<Rightarrow> serve_opts
      \<Rightarrow> reload_event \<Rightarrow> reload_state \<Rightarrow> reload_state" where
  "on_reload toml_decode parse_duration url_ok opts ev st =
     (let dotenv = load_dotenv (re_dotenv_file ev) in
      case re_config_file ev of
        None \<Rightarrow> st
      | Some data \<Rightarrow>
          (case parse toml_decode parse_duration data of
             Inl e \<Rightarrow> st
           | Inr cfg \<Rightarrow>
               (let gen = Suc (rl_gen st);
                    (err, s) = try_reload url_ok (re_env ev) (apply_opts opts cfg) dotenv gen (rl_store st)
                in \<lparr>rl_gen = gen, rl_store = s\<rparr>)))"

section \<open>What a valid configuration is\<close>

text \<open>
  The declarative reading of \<open>Validate\<close>. The pairs of a group and a member are listed in the order
  of \<open>GroupOrd\<close>; they must be distinct.
\<close>

definition provider_ok :: "(string \<Rightarrow> bool) \<Rightarrow> string \<Rightarrow> provider_config \<Rightarrow> bool" where
  "provider_ok url_ok pid p \<longleftrightarrow>
     trim_space pid \<noteq> [] \<and> pc_base_url p \<noteq> [] \<and> url_ok (pc_base_url p) \<and>
     pc_wire_api p \<in> {[], ''responses'', ''chat_completions''}"

definition model_ok :: "provider_config gomap \<Rightarrow> string \<Rightarrow> model_config \<Rightarrow> bool" where
  "model_ok providers mid m \<longleftrightarrow>
     trim_space mid \<noteq> [] \<and> trim_space (mc_provider m) \<noteq> [] \<and>
     mc_provider m \<in> set (gkeys providers) \<and> trim_space (mc_upstream_model m) \<noteq> [] \<and>
     mc_thinking_budget m = None"

definition group_pairs :: "string list gomap \<Rightarrow> string list \<Rightarrow> (string \<times> string) list" where
  "group_pairs groups gs = concat (map (\<lambda>g. map (Pair g) (gslice groups g)) gs)"

definition config_ok :: "(string \<Rightarrow> bool) \<Rightarrow> config \<Rightarrow> bool" where
  "config_ok url_ok cfg \<longleftrightarrow>
     cfg_version cfg = 1 \<and>
     srv_port (cfg_server cfg) \<in> {1..65535} \<and>
     0 < to_request (cfg_timeouts cfg) \<and> 0 < to_first_event (cfg_timeouts cfg) \<and>
     0 < to_stream_idle (cfg_timeouts cfg) \<and>
     (\<forall>(pid, p) \<in> set (cfg_providers cfg). provider_ok url_ok pid p) \<and>
     (\<forall>(mid, m) \<in> set (cfg_models cfg). model_ok (cfg_providers cfg) mid m) \<and>
     set (gkeys (cfg_groups cfg)) \<inter> set (gkeys (cfg_models cfg)) = {} \<and>
     snd ` set (group_pairs (cfg_groups cfg) (cfg_group_ord cfg)) \<subseteq> set (gkeys (cfg_models cfg)) \<and>
     distinct (group_pairs (cfg_groups cfg) (cfg_group_ord cfg)) \<and>
     (\<forall>(g, ms) \<in> set (cfg_groups cfg). g \<notin> set (cfg_group_ord cfg) \<longrightarrow>
        set ms \<subseteq> set (gkeys (cfg_models cfg))) \<and>
     cfg_default_group cfg \<noteq> [] \<and> cfg_default_group cfg \<in> set (gkeys (cfg_groups cfg))"

lemma orelse_None [simp]: "orelse a b = None \<longleftrightarrow> a = None \<and> b = None"
  by (simp add: orelse_def split: option.split)

lemma validate_provider_None:
  "validate_provider url_ok (pid, p) = None \<longleftrightarrow> provider_ok url_ok pid p"
  by (simp add: validate_provider_def provider_ok_def)

lemma validate_model_None:
  "validate_model providers (mid, m) = None \<longleftrightarrow> model_ok providers mid m"
  by (simp add: validate_model_def model_ok_def ghas_iff)

lemma check_members_Inr:
  "check_members models g i mids seen = Inr seen' \<longleftrightarrow>
     set mids \<subseteq> set (gkeys models) \<and> distinct mids \<and> (\<forall>m \<in> set mids. (g, m) \<notin> set seen) \<and>
     seen' = rev (map (Pair g) mids) @ seen"
  by (induction mids arbitrary: i seen) (auto simp: ghas_iff)

lemma check_groups_None:
  "check_groups models groups gs seen = None \<longleftrightarrow>
     snd ` set (group_pairs groups gs) \<subseteq> set (gkeys models) \<and>
     distinct (group_pairs groups gs) \<and> set (group_pairs groups gs) \<inter> set seen = {}"
proof (induction gs arbitrary: seen)
  case Nil
  then show ?case by (simp add: group_pairs_def)
next
  case (Cons g gs)
  have pairs: "group_pairs groups (g # gs) = map (Pair g) (gslice groups g) @ group_pairs groups gs"
    by (simp add: group_pairs_def)
  have dist: "distinct (map (Pair g) ms) = distinct ms" for ms :: "string list"
    by (simp add: distinct_map inj_on_def)
  show ?case
  proof (cases "check_members models g 0 (gslice groups g) seen")
    case (Inl e)
    then have "\<not> (set (gslice groups g) \<subseteq> set (gkeys models) \<and> distinct (gslice groups g) \<and>
        (\<forall>m \<in> set (gslice groups g). (g, m) \<notin> set seen))"
      using check_members_Inr [of models g 0 "gslice groups g" seen
          "rev (map (Pair g) (gslice groups g)) @ seen"] by auto
    with Inl show ?thesis
      by (auto simp: pairs dist image_Un image_image)
  next
    case (Inr seen')
    then have ok: "set (gslice groups g) \<subseteq> set (gkeys models)" "distinct (gslice groups g)"
      "\<forall>m \<in> set (gslice groups g). (g, m) \<notin> set seen"
      "seen' = rev (map (Pair g) (gslice groups g)) @ seen"
      by (simp_all add: check_members_Inr)
    show ?thesis
      using ok Inr Cons.IH [of seen']
      by (auto simp: pairs dist image_Un image_image)
  qed
qed

lemma check_known_None:
  "check_known models g i mids = None \<longleftrightarrow> set mids \<subseteq> set (gkeys models)"
  by (induction mids arbitrary: i) (auto simp: ghas_iff)

lemma validate_config_ok: "validate url_ok cfg = None \<longleftrightarrow> config_ok url_ok cfg"
proof -
  have p: "first_error (validate_provider url_ok) (cfg_providers cfg) = None \<longleftrightarrow>
      (\<forall>(pid, p) \<in> set (cfg_providers cfg). provider_ok url_ok pid p)"
    by (auto simp: validate_provider_None)
  have m: "first_error (validate_model (cfg_providers cfg)) (cfg_models cfg) = None \<longleftrightarrow>
      (\<forall>(mid, m) \<in> set (cfg_models cfg). model_ok (cfg_providers cfg) mid m)"
    by (auto simp: validate_model_None)
  have c: "first_error (\<lambda>g. if ghas (cfg_models cfg) g then Some (GroupModelCollision g) else None)
      (gkeys (cfg_groups cfg)) = None \<longleftrightarrow> set (gkeys (cfg_groups cfg)) \<inter> set (gkeys (cfg_models cfg)) = {}"
    by (auto simp: ghas_iff disjoint_iff)
  have g: "check_groups (cfg_models cfg) (cfg_groups cfg) (cfg_group_ord cfg) [] = None \<longleftrightarrow>
      snd ` set (group_pairs (cfg_groups cfg) (cfg_group_ord cfg)) \<subseteq> set (gkeys (cfg_models cfg)) \<and>
      distinct (group_pairs (cfg_groups cfg) (cfg_group_ord cfg))"
    by (simp add: check_groups_None)
  have k: "first_error (\<lambda>(g, members). if g \<in> set (cfg_group_ord cfg) then None
        else check_known (cfg_models cfg) g 0 members) (cfg_groups cfg) = None \<longleftrightarrow>
      (\<forall>(g, ms) \<in> set (cfg_groups cfg). g \<notin> set (cfg_group_ord cfg) \<longrightarrow>
        set ms \<subseteq> set (gkeys (cfg_models cfg)))"
    unfolding first_error_None by (rule ball_cong) (auto simp: check_known_None)
  show ?thesis
    unfolding validate_def config_ok_def
    using p m c g k by (simp add: ghas_iff not_less not_le del: first_error_None)
qed

section \<open>What an active snapshot promises\<close>

definition snapshot_ok :: "runtime_snapshot \<Rightarrow> bool" where
  "snapshot_ok snap \<longleftrightarrow>
     sn_default_group snap \<noteq> [] \<and> ghas (sn_groups snap) (sn_default_group snap) \<and>
     (\<forall>g ms. map_of (sn_groups snap) g = Some ms \<longrightarrow>
        distinct ms \<and> (\<forall>mid \<in> set ms. ghas (sn_models snap) mid)) \<and>
     (\<forall>mid m. map_of (sn_models snap) mid = Some m \<longrightarrow>
        trim_space mid \<noteq> [] \<and> rm_local_id m = mid \<and> trim_space (rm_upstream_model m) \<noteq> [] \<and>
        ghas (sn_providers snap) (rm_provider_id m)) \<and>
     (\<forall>pid p. map_of (sn_providers snap) pid = Some p \<longrightarrow> rp_id p = pid \<and> rp_base_url p \<noteq> []) \<and>
     0 < to_request (sn_timeouts snap) \<and> 0 < to_first_event (sn_timeouts snap) \<and>
     0 < to_stream_idle (sn_timeouts snap)"

lemma group_members_ok:
  assumes ok: "config_ok url_ok cfg" and ord: "set (gkeys (cfg_groups cfg)) \<subseteq> set (cfg_group_ord cfg)"
    and g: "map_of (cfg_groups cfg) g = Some ms"
  shows "distinct ms \<and> set ms \<subseteq> set (gkeys (cfg_models cfg))"
proof -
  have "g \<in> set (gkeys (cfg_groups cfg))" using g by (metis ghas_eq_Some ghas_iff)
  with ord obtain xs ys where split: "cfg_group_ord cfg = xs @ g # ys"
    by (meson split_list subsetD)
  have sl: "gslice (cfg_groups cfg) g = ms" using g by (simp add: gslice_def)
  have "group_pairs (cfg_groups cfg) (cfg_group_ord cfg) =
      group_pairs (cfg_groups cfg) xs @ map (Pair g) ms @ group_pairs (cfg_groups cfg) ys"
    by (simp add: split group_pairs_def sl)
  moreover have "distinct (group_pairs (cfg_groups cfg) (cfg_group_ord cfg))"
    "snd ` set (group_pairs (cfg_groups cfg) (cfg_group_ord cfg)) \<subseteq> set (gkeys (cfg_models cfg))"
    using ok by (simp_all add: config_ok_def)
  ultimately have "distinct (map (Pair g) ms)" "snd ` set (map (Pair g) ms) \<subseteq> set (gkeys (cfg_models cfg))"
    by (auto simp: image_Un)
  then show ?thesis by (simp add: distinct_map image_image)
qed

lemma build_snapshot_sel [simp]:
  "sn_generation (build_snapshot env cfg dotenv g) = g"
  "sn_default_group (build_snapshot env cfg dotenv g) = cfg_default_group cfg"
  "sn_timeouts (build_snapshot env cfg dotenv g) = cfg_timeouts cfg"
  "sn_groups (build_snapshot env cfg dotenv g) = cfg_groups cfg"
  "sn_group_order (build_snapshot env cfg dotenv g) = cfg_group_ord cfg"
  "sn_models (build_snapshot env cfg dotenv g) = gmap_values build_model (cfg_models cfg)"
  "sn_providers (build_snapshot env cfg dotenv g) = gmap_values (build_provider env dotenv) (cfg_providers cfg)"
  by (simp_all add: build_snapshot_def Let_def)

lemma build_model_sel [simp]:
  "rm_local_id (build_model mid m) = mid" "rm_provider_id (build_model mid m) = mc_provider m"
  "rm_upstream_model (build_model mid m) = mc_upstream_model m"
  by (simp_all add: build_model_def)

lemma build_provider_sel [simp]:
  "rp_id (build_provider env dotenv pid p) = pid"
  "rp_base_url (build_provider env dotenv pid p) = pc_base_url p"
  by (simp_all add: build_provider_def Let_def)

lemma config_ok_modelD:
  "config_ok url_ok cfg \<Longrightarrow> map_of (cfg_models cfg) mid = Some m \<Longrightarrow> model_ok (cfg_providers cfg) mid m"
  using map_of_SomeD unfolding config_ok_def by fast

lemma config_ok_providerD:
  "config_ok url_ok cfg \<Longrightarrow> map_of (cfg_providers cfg) pid = Some p \<Longrightarrow> provider_ok url_ok pid p"
  using map_of_SomeD unfolding config_ok_def by fast

lemma build_snapshot_ok:
  assumes ok: "config_ok url_ok cfg" and ord: "set (gkeys (cfg_groups cfg)) \<subseteq> set (cfg_group_ord cfg)"
  shows "snapshot_ok (build_snapshot env cfg dotenv generation)"
proof -
  have groups: "distinct ms \<and> (\<forall>mid \<in> set ms. mid \<in> set (gkeys (cfg_models cfg)))"
    if "map_of (cfg_groups cfg) g = Some ms" for g ms
    using group_members_ok [OF ok ord that] by blast
  have models: "trim_space mid \<noteq> [] \<and> rm_local_id m = mid \<and> trim_space (rm_upstream_model m) \<noteq> [] \<and>
      rm_provider_id m \<in> set (gkeys (cfg_providers cfg))"
    if mo: "map_of (gmap_values build_model (cfg_models cfg)) mid = Some m" for mid m
  proof -
    from mo obtain mc where "map_of (cfg_models cfg) mid = Some mc" "m = build_model mid mc" by auto
    with config_ok_modelD [OF ok] show ?thesis by (simp add: model_ok_def)
  qed
  have provs: "rp_id p = pid \<and> rp_base_url p \<noteq> []"
    if po: "map_of (gmap_values (build_provider env dotenv) (cfg_providers cfg)) pid = Some p" for pid p
  proof -
    from po obtain pc where "map_of (cfg_providers cfg) pid = Some pc" "p = build_provider env dotenv pid pc"
      by auto
    with config_ok_providerD [OF ok] show ?thesis by (simp add: provider_ok_def)
  qed
  have rest: "cfg_default_group cfg \<noteq> []" "ghas (cfg_groups cfg) (cfg_default_group cfg)"
    "0 < to_request (cfg_timeouts cfg)" "0 < to_first_event (cfg_timeouts cfg)"
    "0 < to_stream_idle (cfg_timeouts cfg)"
    using ok unfolding config_ok_def ghas_iff by blast+
  show ?thesis
    unfolding snapshot_ok_def build_snapshot_sel ghas_iff gmap_values_keys
    using groups models provs rest by (simp only: ghas_iff) blast
qed

lemma parse_group_ord_covers:
  assumes "parse toml_decode pd data = Inr cfg"
  shows "set (gkeys (cfg_groups cfg)) \<subseteq> set (cfg_group_ord cfg)"
proof -
  from assms obtain tf :: toml_file where
    "cfg_groups cfg = (case tf_groups tf of None \<Rightarrow> [] | Some gs \<Rightarrow> gs)"
    "cfg_group_ord cfg = (case tf_groups tf of None \<Rightarrow> [] | Some gs \<Rightarrow> ordered_group_keys data gs)"
    by (rule parse_Inr)
  then show ?thesis by (cases "tf_groups tf") (simp_all add: ordered_group_keys_set)
qed

section \<open>A store that only swaps in good values\<close>

text \<open>
  The contract of a hot-reloaded store with its readers: once a good value is active, every event
  leaves a good value active, and a value that replaces it has a higher generation.
\<close>

locale guarded_store =
  fixes step :: "'e \<Rightarrow> 'st \<Rightarrow> 'st"
    and active :: "'st \<Rightarrow> 'a option"
    and counter :: "'st \<Rightarrow> nat"
    and generation :: "'a \<Rightarrow> nat"
    and good :: "'a \<Rightarrow> bool"
  assumes step_good: "active s = Some a \<Longrightarrow> good a \<Longrightarrow> generation a \<le> counter s \<Longrightarrow>
      \<exists>a'. active (step e s) = Some a' \<and> good a' \<and> generation a' \<le> counter (step e s) \<and>
           (a' = a \<or> generation a < generation a')"
begin

lemma run_good:
  assumes "active s = Some a" and "good a" and "generation a \<le> counter s"
  shows "\<exists>a'. active (foldl (\<lambda>s e. step e s) s es) = Some a' \<and> good a' \<and>
      (a' = a \<or> generation a < generation a')"
  using assms
proof (induction es arbitrary: s a)
  case Nil
  then show ?case by simp
next
  case (Cons e es)
  obtain a1 where a1: "active (step e s) = Some a1" "good a1" "generation a1 \<le> counter (step e s)"
    "a1 = a \<or> generation a < generation a1"
    using step_good [OF Cons.prems, of e] by blast
  from Cons.IH [OF a1(1-3)] obtain a' where "active (foldl (\<lambda>s e. step e s) (step e s) es) = Some a'"
    "good a'" "a' = a1 \<or> generation a1 < generation a'" by blast
  with a1(4) show ?case by auto
qed

end

lemma apply_opts_groups [simp]:
  "cfg_groups (apply_opts opts cfg) = cfg_groups cfg"
  "cfg_group_ord (apply_opts opts cfg) = cfg_group_ord cfg"
  by (simp_all add: apply_opts_def Let_def)

lemma on_reload_step:
  assumes st: "rl_store st = Some a" "snapshot_ok a" "sn_generation a \<le> rl_gen st"
  shows "\<exists>a'. rl_store (on_reload toml_decode pd url_ok opts ev st) = Some a' \<and> snapshot_ok a' \<and>
      sn_generation a' \<le> rl_gen (on_reload toml_decode pd url_ok opts ev st) \<and>
      (a' = a \<or> sn_generation a < sn_generation a')"
proof (cases "re_config_file ev")
  case None
  then show ?thesis using st by (simp add: on_reload_def)
next
  case (Some data)
  note found = Some
  show ?thesis
  proof (cases "parse toml_decode pd data")
    case (Inl e)
    then show ?thesis using st found by (simp add: on_reload_def)
  next
    case (Inr cfg)
    let ?cfg = "apply_opts opts cfg" and ?dot = "load_dotenv (re_dotenv_file ev)"
    have cover: "set (gkeys (cfg_groups cfg)) \<subseteq> set (cfg_group_ord cfg)"
      using parse_group_ord_covers [OF Inr] .
    show ?thesis
    proof (cases "validate url_ok ?cfg")
      case (Some e)
      then show ?thesis using st found Inr by (simp add: on_reload_def try_reload_def)
    next
      case None
      then have "config_ok url_ok ?cfg" by (simp add: validate_config_ok)
      then have "snapshot_ok (build_snapshot (re_env ev) ?cfg ?dot (Suc (rl_gen st)))"
        using build_snapshot_ok cover by simp
      moreover have "sn_generation (build_snapshot (re_env ev) ?cfg ?dot (Suc (rl_gen st))) = Suc (rl_gen st)"
        by (simp add: build_snapshot_def Let_def)
      ultimately show ?thesis using None st found Inr by (simp add: on_reload_def try_reload_def)
    qed
  qed
qed

text \<open>The reload callback keeps the contract, whatever the files and the environment hold.\<close>

interpretation reload: guarded_store
  "on_reload toml_decode parse_duration url_ok opts" rl_store rl_gen sn_generation snapshot_ok
  for toml_decode parse_duration url_ok opts
  by unfold_locales (rule on_reload_step)

section \<open>Properties\<close>

text \<open>A small configuration for the witnesses: one provider, two models, one group.\<close>

definition sample_model :: "string \<Rightarrow> model_config" where
  "sample_model up =
     \<lparr>mc_provider = ''zen'', mc_upstream_model = up, mc_thinking_budget = None,
      mc_capabilities = \<lparr>cap_tools = CapabilityUnknown, cap_vision = CapabilityUnsupported,
                         cap_reasoning = CapabilitySupported\<rparr>,
      mc_extra = [], mc_input_price = ''0'', mc_output_price = ''0''\<rparr>"

definition sample_config :: config where
  "sample_config =
     defaults\<lparr>cfg_default_group := ''coding'',
              cfg_providers := [(''zen'', parse_provider ''zen''
                 \<lparr>tp_base_url = [], tp_api_key_env = [], tp_wire_api = [], tp_headers = None\<rparr>)],
              cfg_models := [(''zen/a'', sample_model ''a''), (''zen/b'', sample_model ''b'')],
              cfg_groups := [(''coding'', [''zen/b'', ''zen/a''])],
              cfg_group_ord := [''coding'']\<rparr>"

lemma sample_config_ok: "config_ok (\<lambda>u. True) sample_config"
proof -
  have "validate (\<lambda>u. True) sample_config = None" by code_simp
  then show ?thesis by (simp add: validate_config_ok)
qed

definition sample_snapshot :: runtime_snapshot where
  "sample_snapshot = build_snapshot (\<lambda>k. Some ''key'') sample_config [] 1"

lemma sample_snapshot_ok: "snapshot_ok sample_snapshot"
  unfolding sample_snapshot_def
  by (rule build_snapshot_ok [OF sample_config_ok]) (simp add: sample_config_def)

lemma sample_snapshot_lookups:
  "map_of (sn_models sample_snapshot) ''zen/a'' = Some (build_model ''zen/a'' (sample_model ''a''))"
  "map_of (sn_models sample_snapshot) ''zen/b'' = Some (build_model ''zen/b'' (sample_model ''b''))"
  "\<exists>p. map_of (sn_providers sample_snapshot) ''zen'' = Some p"
  "map_of (sn_groups sample_snapshot) ''coding'' = Some [''zen/b'', ''zen/a'']"
  by (simp_all add: sample_snapshot_def sample_config_def)

text \<open>
  C3 (validation). \<open>Validate\<close> accepts a configuration exactly when it satisfies the declarative
  \<open>config_ok\<close>: version and port in range, positive timeouts, well-formed providers and models,
  groups and models with disjoint names, groups of known models without repetition, an existing
  default group.
\<close>

theorem validate_accepts_iff: "validate url_ok cfg = None \<longleftrightarrow> config_ok url_ok cfg"
  by (rule validate_config_ok)

text \<open>
  C4 (a reload never takes the service down). After a successful start, any sequence of watcher
  firings, with any file contents, leaves a snapshot active that routing can rely on, and it is
  the initial one or has a higher generation.
\<close>

theorem reload_keeps_good_snapshot:
  assumes "parse toml_decode parse_duration data = Inr cfg"
    and "new_store url_ok env (apply_opts opts cfg) dotenv 1 = Inr s0"
  shows "\<exists>snap0 snap. s0 = Some snap0 \<and>
      rl_store (foldl (\<lambda>st ev. on_reload toml_decode parse_duration url_ok opts ev st)
        \<lparr>rl_gen = 1, rl_store = s0\<rparr> evs) = Some snap \<and>
      snapshot_ok snap \<and> (snap = snap0 \<or> sn_generation snap0 < sn_generation snap)"
proof -
  have valid: "validate url_ok (apply_opts opts cfg) = None"
    and s0: "s0 = Some (build_snapshot env (apply_opts opts cfg) dotenv 1)"
    using assms(2) by (auto simp: new_store_def split: option.splits)
  have good: "snapshot_ok (build_snapshot env (apply_opts opts cfg) dotenv 1)"
    using build_snapshot_ok valid parse_group_ord_covers [OF assms(1)] by (simp add: validate_config_ok)
  show ?thesis
    using reload.run_good [of "\<lparr>rl_gen = 1, rl_store = s0\<rparr>"
        "build_snapshot env (apply_opts opts cfg) dotenv 1" toml_decode parse_duration url_ok opts evs] good
    by (simp add: s0)
qed

text \<open>A file whose tables decode to the small configuration.\<close>

definition sample_toml :: toml_file where
  "sample_toml =
     \<lparr>tf_version = Some 1, tf_server = None, tf_routing = Some ''coding'', tf_timeouts = None,
      tf_logging = None, tf_usage_enabled = None,
      tf_providers = Some [(''zen'',
        \<lparr>tp_base_url = [], tp_api_key_env = [], tp_wire_api = [], tp_headers = None\<rparr>)],
      tf_models = Some [(''zen/a'',
        \<lparr>tm_provider = ''zen'', tm_upstream_model = ''a'', tm_thinking_budget = None,
         tm_capabilities = None, tm_extra = None, tm_input_price = ''0'', tm_output_price = ''0''\<rparr>)],
      tf_groups = Some [(''coding'', [''zen/a''])]\<rparr>"

definition sample_parsed :: config where
  "sample_parsed = projr (parse (\<lambda>d. Inr sample_toml) (\<lambda>s. Inr 1) ''[groups]'')"

theorem reload_keeps_good_snapshot_witness:
  "\<exists>snap. rl_store (foldl (\<lambda>st ev. on_reload (\<lambda>d. Inr sample_toml) (\<lambda>s. Inr 1) (\<lambda>u. True)
        \<lparr>so_host = [], so_port = 0\<rparr> ev st)
      \<lparr>rl_gen = 1, rl_store = Some (build_snapshot (\<lambda>k. None)
         (apply_opts \<lparr>so_host = [], so_port = 0\<rparr> sample_parsed) [] 1)\<rparr>
      [\<lparr>re_env = (\<lambda>k. None), re_dotenv_file = None, re_config_file = None\<rparr>,
       \<lparr>re_env = (\<lambda>k. Some k), re_dotenv_file = None, re_config_file = Some ''x''\<rparr>]) = Some snap \<and>
     snapshot_ok snap"
proof -
  have parsed: "parse (\<lambda>d. Inr sample_toml) (\<lambda>s. Inr 1) ''[groups]'' = Inr sample_parsed"
    by (simp add: sample_parsed_def parse_def sample_toml_def parse_timeouts_def)
  have "validate (\<lambda>u. True) (apply_opts \<lparr>so_host = [], so_port = 0\<rparr> sample_parsed) = None"
    by code_simp
  then have "new_store (\<lambda>u. True) (\<lambda>k. None) (apply_opts \<lparr>so_host = [], so_port = 0\<rparr> sample_parsed) [] 1 =
      Inr (Some (build_snapshot (\<lambda>k. None) (apply_opts \<lparr>so_host = [], so_port = 0\<rparr> sample_parsed) [] 1))"
    by (simp add: new_store_def)
  from reload_keeps_good_snapshot [OF parsed this] show ?thesis by blast
qed

text \<open>
  C5 (a failing reload changes nothing). One firing either keeps the active snapshot, or the file
  was read, parsed and validated, and the new snapshot is built from it under the next generation.
\<close>

theorem on_reload_swaps_only_valid:
  "(let st' = on_reload toml_decode parse_duration url_ok opts ev st in
    rl_store st' = rl_store st \<or>
    (\<exists>data cfg. re_config_file ev = Some data \<and> parse toml_decode parse_duration data = Inr cfg \<and>
       config_ok url_ok (apply_opts opts cfg) \<and> rl_gen st' = Suc (rl_gen st) \<and>
       rl_store st' = Some (build_snapshot (re_env ev) (apply_opts opts cfg)
         (load_dotenv (re_dotenv_file ev)) (Suc (rl_gen st)))))"
proof (cases "re_config_file ev")
  case None
  then show ?thesis by (simp add: on_reload_def)
next
  case (Some data)
  note found = Some
  show ?thesis
  proof (cases "parse toml_decode parse_duration data")
    case (Inl e)
    with found show ?thesis by (simp add: on_reload_def)
  next
    case (Inr cfg)
    with found show ?thesis
      by (cases "validate url_ok (apply_opts opts cfg)")
        (simp_all add: on_reload_def try_reload_def Let_def validate_config_ok [symmetric])
  qed
qed

end
