(* ===== verification/Routing.thy ===== *)
theory Routing
  imports Config_Store
begin

text \<open>
  internal/routing: resolving a requested model to an ordered list of candidates, the filter by
  capabilities, and the error classes that decide whether the next candidate is tried.
\<close>

section \<open>Requests, candidates, reasons\<close>

record requirements =
  rq_tools :: bool
  rq_vision :: bool
  rq_reasoning :: bool

record route_request =
  rr_requested_model :: string
  rr_requirements :: requirements

text \<open>The provider of a candidate is a pointer, which may be nil.\<close>

record candidate =
  cd_local_model_id :: string
  cd_provider_id :: string
  cd_upstream_model :: string
  cd_model :: runtime_model
  cd_provider :: "runtime_provider option"

datatype route_reason = ReasonGroup | ReasonDirect | ReasonDefault

fun reason_string :: "route_reason \<Rightarrow> string" where
  "reason_string ReasonGroup = ''model-group''"
| "reason_string ReasonDirect = ''direct-model''"
| "reason_string ReasonDefault = ''fallback-default-group''"

datatype route_error = MissingModel | UnknownModel string

fun is_unknown_model :: "route_error \<Rightarrow> bool" where
  "is_unknown_model MissingModel = False"
| "is_unknown_model (UnknownModel m) = True"

fun is_missing_model :: "route_error \<Rightarrow> bool" where
  "is_missing_model MissingModel = True"
| "is_missing_model (UnknownModel m) = False"

section \<open>Resolution\<close>

definition resolve ::
    "runtime_snapshot \<Rightarrow> string \<Rightarrow> route_error + string list \<times> route_reason" where
  "resolve snap requested =
     (let req = trim_space requested in
      if req = [] then Inl MissingModel
      else
        (case map_of (sn_groups snap) req of
           Some members \<Rightarrow> Inr (members, ReasonGroup)
         | None \<Rightarrow>
             if ghas (sn_models snap) req then Inr ([req], ReasonDirect)
             else if sn_default_group snap = [] then Inl (UnknownModel req)
             else
               (case map_of (sn_groups snap) (sn_default_group snap) of
                  None \<Rightarrow> Inl (UnknownModel req)
                | Some members \<Rightarrow> Inr (members, ReasonDefault))))"

definition excluded :: "requirements \<Rightarrow> runtime_model \<Rightarrow> bool" where
  "excluded req m \<longleftrightarrow>
     (rq_tools req \<and> cap_tools (rm_capabilities m) = CapabilityUnsupported) \<or>
     (rq_vision req \<and> cap_vision (rm_capabilities m) = CapabilityUnsupported) \<or>
     (rq_reasoning req \<and> cap_reasoning (rm_capabilities m) = CapabilityUnsupported)"

text \<open>One iteration of the filter: the candidate it appends, if it appends one.\<close>

definition candidate_for :: "runtime_snapshot \<Rightarrow> requirements \<Rightarrow> string \<Rightarrow> candidate option" where
  "candidate_for snap req mid =
     (case map_of (sn_models snap) mid of
        None \<Rightarrow> None
      | Some m \<Rightarrow>
          (case map_of (sn_providers snap) (rm_provider_id m) of
             None \<Rightarrow> None
           | Some p \<Rightarrow>
               if excluded req m then None
               else Some \<lparr>cd_local_model_id = mid, cd_provider_id = rm_provider_id m,
                          cd_upstream_model = rm_upstream_model m, cd_model = m,
                          cd_provider = Some p\<rparr>))"

fun filter_candidates :: "runtime_snapshot \<Rightarrow> string list \<Rightarrow> requirements \<Rightarrow> candidate list" where
  "filter_candidates snap [] req = []"
| "filter_candidates snap (mid # mids) req =
     (case candidate_for snap req mid of
        None \<Rightarrow> filter_candidates snap mids req
      | Some c \<Rightarrow> c # filter_candidates snap mids req)"

definition resolve_candidates ::
    "runtime_snapshot \<Rightarrow> route_request \<Rightarrow> route_error + candidate list \<times> route_reason" where
  "resolve_candidates snap r =
     (case resolve snap (rr_requested_model r) of
        Inl e \<Rightarrow> Inl e
      | Inr (ids, reason) \<Rightarrow> Inr (filter_candidates snap ids (rr_requirements r), reason))"

section \<open>Error classes\<close>

datatype error_class =
    ErrorClient
  | ErrorAuth
  | ErrorRateLimit
  | ErrorTimeout
  | ErrorNetwork
  | ErrorModelUnavailable
  | ErrorUnsupportedFeature
  | ErrorUpstream
  | ErrorUnknown

fun class_string :: "error_class \<Rightarrow> string" where
  "class_string ErrorClient = ''client''"
| "class_string ErrorAuth = ''auth''"
| "class_string ErrorRateLimit = ''rate_limit''"
| "class_string ErrorTimeout = ''timeout''"
| "class_string ErrorNetwork = ''network''"
| "class_string ErrorModelUnavailable = ''model_unavailable''"
| "class_string ErrorUnsupportedFeature = ''unsupported_feature''"
| "class_string ErrorUpstream = ''upstream''"
| "class_string ErrorUnknown = ''unknown''"

fun failoverable :: "error_class \<Rightarrow> bool" where
  "failoverable ErrorClient = False"
| "failoverable _ = True"

definition classify_status :: "int \<Rightarrow> error_class" where
  "classify_status status =
     (if status = 408 \<or> status = 409 then ErrorUpstream
      else if status = 429 then ErrorRateLimit
      else if status \<in> {500, 502, 503, 504} then ErrorUpstream
      else if status = 401 \<or> status = 403 then ErrorAuth
      else if status = 404 then ErrorModelUnavailable
      else if status = 400 \<or> status = 422 then ErrorUnknown
      else if 500 \<le> status then ErrorUpstream
      else if 400 \<le> status then ErrorClient
      else ErrorUnknown)"

definition unsupported_hints :: "string list" where
  "unsupported_hints =
     [''unsupported'', ''not supported'', ''does not support'', ''unsupported parameter'',
      ''unknown parameter'', ''invalid tool'', ''tool_choice'', ''reasoning'', ''thinking'',
      ''response_format'', ''parallel_tool_calls'', ''max_tokens'', ''model_not_found'',
      ''model not found'', ''no such model'']"

definition model_hints :: "string list" where
  "model_hints = [''overloaded'', ''capacity'', ''unavailable'', ''try again'']"

definition classify_body :: "int \<Rightarrow> string \<Rightarrow> string \<Rightarrow> string \<Rightarrow> error_class" where
  "classify_body status err_type code message =
     (let base = classify_status status in
      if status \<noteq> 400 \<and> status \<noteq> 422 then base
      else
        (let hay = to_lower (err_type @ '' '' @ code @ '' '' @ message) in
         if list_ex (str_contains hay) unsupported_hints then ErrorUnsupportedFeature
         else if list_ex (str_contains hay) model_hints then ErrorModelUnavailable
         else ErrorClient))"

fun classify_net_err :: "bool \<Rightarrow> error_class" where
  "classify_net_err True = ErrorTimeout"
| "classify_net_err False = ErrorNetwork"

text \<open>One failed or skipped candidate.\<close>

record attempt_error =
  ae_candidate :: string
  ae_provider :: string
  ae_status_code :: int
  ae_class :: error_class
  ae_safe_message :: string
  ae_duration :: int
  ae_skipped :: bool
  ae_skip_reason :: string

definition mk_attempt :: "string \<Rightarrow> string \<Rightarrow> error_class \<Rightarrow> string \<Rightarrow> attempt_error" where
  "mk_attempt mid pid cls msg =
     \<lparr>ae_candidate = mid, ae_provider = pid, ae_status_code = 0, ae_class = cls,
      ae_safe_message = msg, ae_duration = 0, ae_skipped = False, ae_skip_reason = []\<rparr>"

section \<open>Lemmas\<close>

lemma failoverable_iff: "failoverable c \<longleftrightarrow> c \<noteq> ErrorClient"
  by (cases c) auto

lemma filter_candidates_map_filter:
  "filter_candidates snap ids req = List.map_filter (candidate_for snap req) ids"
  by (induction ids) (auto simp: List.map_filter_simps split: option.split)

lemma candidate_for_Some:
  "candidate_for snap req mid = Some c \<longleftrightarrow>
     (\<exists>m p. map_of (sn_models snap) mid = Some m \<and> map_of (sn_providers snap) (rm_provider_id m) = Some p \<and>
        \<not> excluded req m \<and>
        c = \<lparr>cd_local_model_id = mid, cd_provider_id = rm_provider_id m,
             cd_upstream_model = rm_upstream_model m, cd_model = m, cd_provider = Some p\<rparr>)"
  by (auto simp: candidate_for_def split: option.split)

lemma candidate_for_id: "candidate_for snap req mid = Some c \<Longrightarrow> cd_local_model_id c = mid"
  by (auto simp: candidate_for_Some)

lemma filter_candidates_ids:
  "map cd_local_model_id (filter_candidates snap ids req) =
     filter (\<lambda>mid. candidate_for snap req mid \<noteq> None) ids"
  by (induction ids) (auto dest: candidate_for_id split: option.split)

lemma filter_candidates_set:
  "c \<in> set (filter_candidates snap ids req) \<longleftrightarrow>
     (\<exists>mid \<in> set ids. candidate_for snap req mid = Some c)"
  by (induction ids) (auto split: option.split)

lemma filter_candidates_append:
  "filter_candidates snap (xs @ ys) req = filter_candidates snap xs req @ filter_candidates snap ys req"
  by (induction xs) (auto split: option.split)

text \<open>Under a good snapshot the only reason to drop a configured model is a capability.\<close>

lemma candidate_for_snapshot_ok:
  assumes "snapshot_ok snap" and "ghas (sn_models snap) mid"
  shows "candidate_for snap req mid = None \<longleftrightarrow>
      (\<exists>m. map_of (sn_models snap) mid = Some m \<and> excluded req m)"
proof -
  obtain m where m: "map_of (sn_models snap) mid = Some m"
    using assms(2) by (auto simp: ghas_eq_Some)
  with assms(1) have "ghas (sn_providers snap) (rm_provider_id m)"
    unfolding snapshot_ok_def by blast
  then obtain p where "map_of (sn_providers snap) (rm_provider_id m) = Some p"
    by (auto simp: ghas_eq_Some)
  with m show ?thesis by (simp add: candidate_for_def)
qed

lemma snapshot_ok_group:
  "snapshot_ok snap \<Longrightarrow> map_of (sn_groups snap) g = Some ms \<Longrightarrow>
   distinct ms \<and> (\<forall>mid \<in> set ms. ghas (sn_models snap) mid)"
  unfolding snapshot_ok_def by blast

lemma snapshot_ok_default:
  assumes "snapshot_ok snap"
  obtains ds where "map_of (sn_groups snap) (sn_default_group snap) = Some ds" "sn_default_group snap \<noteq> []"
  using assms unfolding snapshot_ok_def ghas_eq_Some by blast

lemma resolve_ok:
  assumes "trim_space q \<noteq> []" "map_of (sn_groups snap) (sn_default_group snap) = Some ds"
    "sn_default_group snap \<noteq> []"
  shows "resolve snap q =
      Inr (case map_of (sn_groups snap) (trim_space q) of
             Some ms \<Rightarrow> (ms, ReasonGroup)
           | None \<Rightarrow> if ghas (sn_models snap) (trim_space q) then ([trim_space q], ReasonDirect)
                     else (ds, ReasonDefault))"
  using assms by (simp add: resolve_def Let_def split: option.split)

lemma resolve_ids_known:
  assumes ok: "snapshot_ok snap" and r: "resolve snap requested = Inr (ids, reason)"
  shows "distinct ids \<and> (\<forall>mid \<in> set ids. ghas (sn_models snap) mid)"
proof -
  obtain ds where ds: "map_of (sn_groups snap) (sn_default_group snap) = Some ds"
    "sn_default_group snap \<noteq> []" using ok by (rule snapshot_ok_default)
  have q: "trim_space requested \<noteq> []" using r by (auto simp: resolve_def)
  note r' = r [unfolded resolve_ok [OF q ds]]
  show ?thesis
  proof (cases "map_of (sn_groups snap) (trim_space requested)")
    case None
    with r' snapshot_ok_group [OF ok ds(1)] show ?thesis by (auto split: if_splits)
  next
    case (Some ms)
    with r' snapshot_ok_group [OF ok Some] show ?thesis by simp
  qed
qed

section \<open>Properties\<close>

text \<open>
  C1 (routing is total and ordered). Under a snapshot the store can hold, every request whose model
  is not blank is routed: by the group of that name, else by the model of that name, else by the
  default group, never to an unknown model; the candidates are the listed models in the listed
  order, without repetition, less those that declare a required capability unsupported.
\<close>

theorem resolve_candidates_total:
  assumes "snapshot_ok snap" and "trim_space (rr_requested_model r) \<noteq> []"
  shows "\<exists>ids reason cands.
      resolve_candidates snap r = Inr (cands, reason) \<and>
      (reason = ReasonGroup \<longrightarrow> map_of (sn_groups snap) (trim_space (rr_requested_model r)) = Some ids) \<and>
      (reason = ReasonDirect \<longrightarrow> ids = [trim_space (rr_requested_model r)] \<and>
         \<not> ghas (sn_groups snap) (trim_space (rr_requested_model r))) \<and>
      (reason = ReasonDefault \<longrightarrow> map_of (sn_groups snap) (sn_default_group snap) = Some ids \<and>
         \<not> ghas (sn_groups snap) (trim_space (rr_requested_model r)) \<and>
         \<not> ghas (sn_models snap) (trim_space (rr_requested_model r))) \<and>
      map cd_local_model_id cands =
        filter (\<lambda>mid. \<exists>m. map_of (sn_models snap) mid = Some m \<and> \<not> excluded (rr_requirements r) m) ids \<and>
      distinct (map cd_local_model_id cands)"
proof -
  let ?q = "trim_space (rr_requested_model r)"
  obtain ds where ds: "map_of (sn_groups snap) (sn_default_group snap) = Some ds"
    "sn_default_group snap \<noteq> []" using assms(1) by (rule snapshot_ok_default)
  obtain ids reason where r: "resolve snap (rr_requested_model r) = Inr (ids, reason)"
    unfolding resolve_ok [OF assms(2) ds] by (metis surj_pair)
  note known = resolve_ids_known [OF assms(1) r]
  have reason: "(reason = ReasonGroup \<longrightarrow> map_of (sn_groups snap) ?q = Some ids) \<and>
      (reason = ReasonDirect \<longrightarrow> ids = [?q] \<and> \<not> ghas (sn_groups snap) ?q) \<and>
      (reason = ReasonDefault \<longrightarrow> map_of (sn_groups snap) (sn_default_group snap) = Some ids \<and>
         \<not> ghas (sn_groups snap) ?q \<and> \<not> ghas (sn_models snap) ?q)"
    using r ds(1) unfolding resolve_ok [OF assms(2) ds] ghas_def by (auto split: if_splits option.splits)
  have "candidate_for snap (rr_requirements r) mid \<noteq> None \<longleftrightarrow>
      (\<exists>m. map_of (sn_models snap) mid = Some m \<and> \<not> excluded (rr_requirements r) m)"
    if "mid \<in> set ids" for mid
  proof -
    have mem: "ghas (sn_models snap) mid" using known that by blast
    then obtain m where "map_of (sn_models snap) mid = Some m" by (auto simp: ghas_eq_Some)
    with candidate_for_snapshot_ok [OF assms(1) mem] show ?thesis by simp
  qed
  then have "map cd_local_model_id (filter_candidates snap ids (rr_requirements r)) =
      filter (\<lambda>mid. \<exists>m. map_of (sn_models snap) mid = Some m \<and> \<not> excluded (rr_requirements r) m) ids"
    unfolding filter_candidates_ids by (rule filter_cong [OF refl])
  moreover from this have "distinct (map cd_local_model_id (filter_candidates snap ids (rr_requirements r)))"
    using known by simp
  moreover have "resolve_candidates snap r = Inr (filter_candidates snap ids (rr_requirements r), reason)"
    by (simp add: resolve_candidates_def r)
  ultimately show ?thesis using reason by blast
qed

theorem resolve_candidates_total_witness:
  "snapshot_ok sample_snapshot \<and>
   (\<exists>cands reason. resolve_candidates sample_snapshot
        \<lparr>rr_requested_model = ''gpt-5'',
         rr_requirements = \<lparr>rq_tools = True, rq_vision = False, rq_reasoning = False\<rparr>\<rparr> = Inr (cands, reason) \<and>
      distinct (map cd_local_model_id cands))"
proof -
  have "trim_space ''gpt-5'' \<noteq> []" by code_simp
  then show ?thesis
    using resolve_candidates_total [OF sample_snapshot_ok, of "\<lparr>rr_requested_model = ''gpt-5'',
         rr_requirements = \<lparr>rq_tools = True, rq_vision = False, rq_reasoning = False\<rparr>\<rparr>"] sample_snapshot_ok
    by fastforce
qed

text \<open>
  C2 (error classes). A 400 or 422 whose text names no unsupported feature and no busy model is
  the client's fault; apart from those, the classes that stop failover are exactly the 4xx codes
  the table does not name.
\<close>

theorem classify_body_client_iff:
  "classify_body status t c m = ErrorClient \<longleftrightarrow>
     (if status = 400 \<or> status = 422
      then \<not> (\<exists>h \<in> set unsupported_hints \<union> set model_hints.
               \<exists>u v. to_lower (t @ '' '' @ c @ '' '' @ m) = u @ h @ v)
      else 400 \<le> status \<and> status < 500 \<and> status \<notin> {401, 403, 404, 408, 409, 429})"
proof (cases "status = 400 \<or> status = 422")
  case True
  then show ?thesis
    by (auto simp: classify_body_def Let_def list_ex_iff str_contains_iff)
next
  case False
  then show ?thesis by (auto simp: classify_body_def classify_status_def Let_def)
qed

end
