(* ===== verification/Affinity.thy ===== *)
theory Affinity
  imports Routing
begin

text \<open>
  Response affinity: \<open>internal/state/memory.go\<close> and \<open>affinity.go\<close>, a map from response ids to the
  candidate that produced them, with a time to live, and its use by \<open>resolveWithAffinity\<close> in
  \<open>internal/server/responses.go\<close>. The clock is an argument (nanoseconds). \<open>Get\<close> takes the read
  lock, releases it, and takes the write lock to delete an expired entry; \<open>mem_get\<close> is \<open>Get\<close>
  without interference, and \<open>aff_step\<close> splits it where another goroutine can run.
\<close>

section \<open>The store\<close>

text \<open>\<open>time.Time{}\<close>: midnight of 1 January of year 1, in nanoseconds from 1970.\<close>

definition zero_time :: int where
  "zero_time = - 62135596800 * second"

text \<open>\<open>time.Since\<close> saturates at the bounds of \<open>time.Duration\<close>.\<close>

definition since :: "int \<Rightarrow> int \<Rightarrow> int" where
  "since now t = max (- (2 ^ 63)) (min (2 ^ 63 - 1) (now - t))"

record response_affinity =
  ra_response_id :: string
  ra_provider_id :: string
  ra_local_model_id :: string
  ra_upstream_model :: string
  ra_created_at :: int

record memory =
  mem_data :: "string \<Rightarrow> response_affinity option"
  mem_ttl :: int

definition new_memory :: "int \<Rightarrow> memory" where
  "new_memory ttl =
     \<lparr>mem_data = (\<lambda>k. None), mem_ttl = (if ttl \<le> 0 then 30 * 24 * 3600 * second else ttl)\<rparr>"

definition new_affinity :: memory where
  "new_affinity = new_memory 0"

definition stamped :: "int \<Rightarrow> response_affinity \<Rightarrow> response_affinity" where
  "stamped now a = (if ra_created_at a = zero_time then a\<lparr>ra_created_at := now\<rparr> else a)"

definition mem_set :: "int \<Rightarrow> response_affinity \<Rightarrow> memory \<Rightarrow> memory" where
  "mem_set now a m =
     m\<lparr>mem_data := (mem_data m)(ra_response_id a := Some (stamped now a))\<rparr>"

definition expired :: "int \<Rightarrow> int \<Rightarrow> response_affinity \<Rightarrow> bool" where
  "expired now ttl a \<longleftrightarrow> ttl < since now (ra_created_at a)"

definition mem_delete :: "string \<Rightarrow> memory \<Rightarrow> memory" where
  "mem_delete rid m = m\<lparr>mem_data := (mem_data m)(rid := None)\<rparr>"

definition mem_get :: "int \<Rightarrow> string \<Rightarrow> memory \<Rightarrow> response_affinity option \<times> memory" where
  "mem_get now rid m =
     (case mem_data m rid of
        None \<Rightarrow> (None, m)
      | Some a \<Rightarrow> if expired now (mem_ttl m) a then (None, mem_delete rid m) else (Some a, m))"

section \<open>Routing with a previous response\<close>

datatype resolve_error = RouteErr route_error | AffinityGone

definition resolve_with_affinity ::
    "runtime_snapshot \<Rightarrow> int \<Rightarrow> memory \<Rightarrow> string \<Rightarrow> requirements \<Rightarrow> string
      \<Rightarrow> (resolve_error + candidate list \<times> route_reason) \<times> memory" where
  "resolve_with_affinity snap now m requested req prev =
     (let route = resolve_candidates snap \<lparr>rr_requested_model = requested, rr_requirements = req\<rparr> in
      if prev \<noteq> [] then
        (case mem_get now prev m of
           (Some aff, m') \<Rightarrow>
             (case map_of (sn_models snap) (ra_local_model_id aff) of
                None \<Rightarrow> (Inl AffinityGone, m')
              | Some mo \<Rightarrow>
                  (case map_of (sn_providers snap) (ra_provider_id aff) of
                     None \<Rightarrow> (Inl AffinityGone, m')
                   | Some p \<Rightarrow>
                       if filter_candidates snap [ra_local_model_id aff] req = []
                       then (Inl AffinityGone, m')
                       else
                         (Inr ([\<lparr>cd_local_model_id = ra_local_model_id aff,
                                 cd_provider_id = ra_provider_id aff,
                                 cd_upstream_model = rm_upstream_model mo, cd_model = mo,
                                 cd_provider = Some p\<rparr>], ReasonDirect), m')))
         | (None, m') \<Rightarrow>
             (case route of
                Inl e \<Rightarrow> (Inl (RouteErr e), m')
              | Inr (cands, reason) \<Rightarrow> (Inr (take 1 cands, reason), m')))
      else
        (case route of Inl e \<Rightarrow> (Inl (RouteErr e), m) | Inr r \<Rightarrow> (Inr r, m)))"

section \<open>The contract of a store with a time to live\<close>

text \<open>A history: writes, and reads of any key, each at its time.\<close>

fun run_history :: "(int \<Rightarrow> 'v \<Rightarrow> 'm \<Rightarrow> 'm) \<Rightarrow> (int \<Rightarrow> 'k \<Rightarrow> 'm \<Rightarrow> 'w \<times> 'm)
    \<Rightarrow> (int \<times> ('v + 'k)) list \<Rightarrow> 'm \<Rightarrow> 'm" where
  "run_history put get [] m = m"
| "run_history put get ((now, Inl v) # ops) m = run_history put get ops (put now v m)"
| "run_history put get ((now, Inr k) # ops) m = run_history put get ops (snd (get now k m))"

text \<open>What the history last wrote for a key.\<close>

fun written :: "('v \<Rightarrow> 'k) \<Rightarrow> (int \<times> ('v + 'k)) list \<Rightarrow> 'k \<Rightarrow> (int \<times> 'v) option \<Rightarrow> (int \<times> 'v) option" where
  "written key [] k w = w"
| "written key ((now, Inl v) # ops) k w = written key ops k (if k = key v then Some (now, v) else w)"
| "written key ((now, Inr k') # ops) k w = written key ops k w"

text \<open>
  \<open>live t m k\<close> is what a reader at time \<open>t\<close> finds. Reading may drop entries, but none that is
  still alive for the reader or for a later one.
\<close>

locale ttl_store =
  fixes put :: "int \<Rightarrow> 'v \<Rightarrow> 'm \<Rightarrow> 'm"
    and get :: "int \<Rightarrow> 'k \<Rightarrow> 'm \<Rightarrow> 'v option \<times> 'm"
    and live :: "int \<Rightarrow> 'm \<Rightarrow> 'k \<Rightarrow> 'v option"
    and key :: "'v \<Rightarrow> 'k"
    and fresh :: "int \<Rightarrow> int \<Rightarrow> 'm \<Rightarrow> 'v \<Rightarrow> 'v option"
  assumes live_put: "live t (put now v m) k = (if k = key v then fresh now t m v else live t m k)"
    and get_live: "fst (get now k m) = live now m k"
    and live_get: "now \<le> t \<Longrightarrow> live t (snd (get now k m)) k' = live t m k'"
    and fresh_get: "fresh n t (snd (get now k m)) = fresh n t m"
    and fresh_put: "fresh n t (put now v m) = fresh n t m"
begin

lemma live_run:
  assumes "\<forall>(n, _) \<in> set ops. n \<le> t"
    and "live t m k = (case w of None \<Rightarrow> None | Some (now, v) \<Rightarrow> fresh now t m v)"
  shows "live t (run_history put get ops m) k =
      (case written key ops k w of None \<Rightarrow> None | Some (now, v) \<Rightarrow> fresh now t m v)"
  using assms
proof (induction ops arbitrary: m w)
  case Nil
  then show ?case by simp
next
  case (Cons op ops)
  obtain now e where op: "op = (now, e)" by (cases op)
  have le: "now \<le> t" "\<forall>(n, _) \<in> set ops. n \<le> t" using Cons.prems(1) by (simp_all add: op)
  show ?case
  proof (cases e)
    case (Inl v)
    have "live t (put now v m) k =
        (case (if k = key v then Some (now, v) else w) of
           None \<Rightarrow> None | Some (now', v') \<Rightarrow> fresh now' t (put now v m) v')"
      using Cons.prems(2) by (simp add: live_put fresh_put split: option.split)
    from Cons.IH [OF le(2) this] show ?thesis
      by (simp only: op Inl run_history.simps written.simps fresh_put)
  next
    case (Inr k')
    have "live t (snd (get now k' m)) k =
        (case w of None \<Rightarrow> None | Some (now', v') \<Rightarrow> fresh now' t (snd (get now k' m)) v')"
      using Cons.prems(2) le(1) by (simp add: live_get fresh_get split: option.split)
    from Cons.IH [OF le(2) this] show ?thesis
      by (simp only: op Inr run_history.simps written.simps fresh_get)
  qed
qed

lemma get_run:
  assumes "\<forall>(n, _) \<in> set ops. n \<le> now"
    and "live now m k = None"
  shows "fst (get now k (run_history put get ops m)) =
      (case written key ops k None of None \<Rightarrow> None | Some (n, v) \<Rightarrow> fresh n now m v)"
  using live_run [where t = now and m = m and k = k and w = None, OF assms(1)] assms(2)
  by (simp add: get_live)

end

definition mem_live :: "int \<Rightarrow> memory \<Rightarrow> string \<Rightarrow> response_affinity option" where
  "mem_live t m rid =
     (case mem_data m rid of
        None \<Rightarrow> None
      | Some a \<Rightarrow> if expired t (mem_ttl m) a then None else Some a)"

definition mem_fresh :: "int \<Rightarrow> int \<Rightarrow> memory \<Rightarrow> response_affinity \<Rightarrow> response_affinity option" where
  "mem_fresh n t m a = (if expired t (mem_ttl m) (stamped n a) then None else Some (stamped n a))"

lemma expired_mono: "now \<le> t \<Longrightarrow> expired now ttl a \<Longrightarrow> expired t ttl a"
  by (auto simp: expired_def since_def)

lemma mem_get_sel [simp]:
  "mem_ttl (snd (mem_get now rid m)) = mem_ttl m"
  by (simp add: mem_get_def mem_delete_def split: option.split)

interpretation affinity: ttl_store mem_set mem_get mem_live ra_response_id mem_fresh
proof
  fix now t :: int and a :: response_affinity and m :: memory and k k' :: string and n :: int
  show "mem_live t (mem_set now a m) k =
      (if k = ra_response_id a then mem_fresh now t m a else mem_live t m k)"
    by (simp add: mem_live_def mem_set_def mem_fresh_def split: option.split)
  show "fst (mem_get now k m) = mem_live now m k"
    by (simp add: mem_get_def mem_live_def split: option.split)
  show "mem_live t (snd (mem_get now k m)) k' = mem_live t m k'" if "now \<le> t"
    using expired_mono [OF that]
    by (auto simp: mem_get_def mem_live_def mem_delete_def split: option.splits)
  show "mem_fresh n t (snd (mem_get now k m)) = mem_fresh n t m"
    by (rule ext) (simp add: mem_fresh_def)
  show "mem_fresh n t (mem_set now a m) = mem_fresh n t m"
    by (rule ext) (simp add: mem_fresh_def mem_set_def)
qed

text \<open>
  The weaker contract of a store that may forget, and may refuse a value: whatever a reader finds is
  the last value the store took under the key it asked for. \<open>ok\<close> is the store's invariant.
\<close>

definition taken :: "('v \<Rightarrow> bool) \<Rightarrow> (int \<times> ('v + 'k)) list \<Rightarrow> (int \<times> ('v + 'k)) list" where
  "taken takes ops = filter (\<lambda>(_, e). case e of Inl v \<Rightarrow> takes v | Inr _ \<Rightarrow> True) ops"

lemma taken_simps [simp]:
  "taken takes [] = []"
  "taken takes ((n, Inl v) # ops) = (if takes v then (n, Inl v) # taken takes ops else taken takes ops)"
  "taken takes ((n, Inr k) # ops) = (n, Inr k) # taken takes ops"
  by (simp_all add: taken_def)

locale sound_cache =
  fixes put :: "int \<Rightarrow> 'v \<Rightarrow> 'm \<Rightarrow> 'm"
    and get :: "int \<Rightarrow> 'k \<Rightarrow> 'm \<Rightarrow> 'w option \<times> 'm"
    and contents :: "'m \<Rightarrow> 'k \<Rightarrow> 'w option"
    and key :: "'v \<Rightarrow> 'k"
    and seen :: "int \<Rightarrow> 'v \<Rightarrow> 'w"
    and takes :: "'v \<Rightarrow> bool"
    and ok :: "'m \<Rightarrow> bool"
  assumes put_ok: "ok m \<Longrightarrow> ok (put now v m)"
    and get_ok: "ok m \<Longrightarrow> ok (snd (get now k m))"
    and put_contents: "ok m \<Longrightarrow> contents (put now v m) k = Some w \<Longrightarrow>
      (if k = key v \<and> takes v then w = seen now v else contents m k = Some w)"
    and get_contents: "ok m \<Longrightarrow> contents (snd (get now k m)) k' = Some w \<Longrightarrow> contents m k' = Some w"
    and get_hit: "ok m \<Longrightarrow> fst (get now k m) = Some w \<Longrightarrow> contents m k = Some w"
begin

lemma ok_run: "ok m \<Longrightarrow> ok (run_history put get ops m)"
proof (induction ops arbitrary: m)
  case (Cons op ops)
  obtain now e where "op = (now, e)" by (cases op)
  with Cons show ?case by (cases e) (simp_all add: put_ok get_ok)
qed simp

lemma contents_run:
  assumes "ok m" and "\<And>w. contents m k = Some w \<Longrightarrow> \<exists>n v. prev = Some (n, v) \<and> w = seen n v"
    and "contents (run_history put get ops m) k = Some w"
  shows "\<exists>n v. written key (taken takes ops) k prev = Some (n, v) \<and> w = seen n v"
  using assms
proof (induction ops arbitrary: m prev)
  case Nil
  then show ?case by simp
next
  case (Cons op ops)
  obtain now e where op: "op = (now, e)" by (cases op)
  show ?case
  proof (cases e)
    case (Inl v)
    let ?prev = "if k = key v \<and> takes v then Some (now, v) else prev"
    have "\<exists>n v'. ?prev = Some (n, v') \<and> w = seen n v'" if "contents (put now v m) k = Some w" for w
      using put_contents [OF Cons.prems(1) that] Cons.prems(2) by (auto split: if_splits)
    from Cons.IH [OF put_ok [OF Cons.prems(1)] this] Cons.prems(3) show ?thesis
      by (auto simp: op Inl split: if_splits)
  next
    case (Inr k')
    have "\<exists>n v. prev = Some (n, v) \<and> w = seen n v" if "contents (snd (get now k' m)) k = Some w" for w
      using get_contents [OF Cons.prems(1) that] Cons.prems(2) by blast
    from Cons.IH [OF get_ok [OF Cons.prems(1)] this] Cons.prems(3) show ?thesis by (simp add: op Inr)
  qed
qed

lemma hit_was_last:
  assumes "ok m" and "contents m k = None" and "fst (get now k (run_history put get ops m)) = Some w"
  shows "\<exists>n v. written key (taken takes ops) k None = Some (n, v) \<and> w = seen n v"
  using contents_run [OF assms(1) _ get_hit [OF ok_run [OF assms(1)] assms(3)]] assms(2) by simp

end

interpretation affinity_sound: sound_cache mem_set mem_get mem_data ra_response_id stamped "\<lambda>a. True" "\<lambda>m. True"
  by unfold_locales
    (auto simp: mem_set_def mem_get_def mem_delete_def split: if_splits option.splits)

section \<open>Interleaving\<close>

text \<open>
  With other goroutines running, \<open>Get\<close> of an expired entry is two steps: the read under the read
  lock, and later the \<open>delete\<close> under the write lock. The ids whose delete is pending are the second
  component of the state. Labels are what a caller observes; \<open>Got None\<close> of an expired entry is
  observed when its delete is done.
\<close>

datatype aff_event =
    DidSet int response_affinity
  | Got int string "response_affinity option"
  | ReadExpired int string

inductive aff_step :: "memory \<times> string list \<Rightarrow> aff_event \<Rightarrow> memory \<times> string list \<Rightarrow> bool" where
  set_step: "aff_step (m, ps) (DidSet now a) (mem_set now a m, ps)"
| hit_step: "mem_data m rid = Some a \<Longrightarrow> \<not> expired now (mem_ttl m) a \<Longrightarrow>
    aff_step (m, ps) (Got now rid (Some a)) (m, ps)"
| miss_step: "mem_data m rid = None \<Longrightarrow> aff_step (m, ps) (Got now rid None) (m, ps)"
| expired_step: "mem_data m rid = Some a \<Longrightarrow> expired now (mem_ttl m) a \<Longrightarrow>
    aff_step (m, ps) (ReadExpired now rid) (m, rid # ps)"
| delete_step: "rid \<in> set ps \<Longrightarrow>
    aff_step (m, ps) (Got now rid None) (mem_delete rid m, remove1 rid ps)"

inductive_simps aff_step_set [simp]: "aff_step s (DidSet now a) t"
inductive_cases aff_step_got: "aff_step s (Got now rid r) t"
inductive_cases aff_step_any: "aff_step s e t"

inductive aff_run :: "memory \<times> string list \<Rightarrow> aff_event list \<Rightarrow> memory \<times> string list \<Rightarrow> bool" where
  run_start: "aff_run s [] s"
| run_step: "aff_run s es t \<Longrightarrow> aff_step t e u \<Longrightarrow> aff_run s (es @ [e]) u"

text \<open>The entry last stored under an id in a history.\<close>

definition last_set :: "string \<Rightarrow> aff_event list \<Rightarrow> response_affinity option" where
  "last_set rid es =
     foldl (\<lambda>w e. case e of
              DidSet now a \<Rightarrow> if ra_response_id a = rid then Some (stamped now a) else w
            | _ \<Rightarrow> w) None es"

lemma last_set_snoc:
  "last_set rid (es @ [e]) =
     (case e of
        DidSet now a \<Rightarrow> if ra_response_id a = rid then Some (stamped now a) else last_set rid es
      | _ \<Rightarrow> last_set rid es)"
  by (cases e) (simp_all add: last_set_def)

lemma aff_step_ttl: "aff_step s e t \<Longrightarrow> mem_ttl (fst t) = mem_ttl (fst s)"
  by (induction rule: aff_step.induct) (simp_all add: mem_set_def mem_delete_def)

lemma aff_run_data:
  assumes "aff_run s es t" and "mem_data (fst s) = (\<lambda>k. None)"
  shows "mem_ttl (fst t) = mem_ttl (fst s) \<and>
    (\<forall>rid a. mem_data (fst t) rid = Some a \<longrightarrow> last_set rid es = Some a)"
  using assms
proof (induction rule: aff_run.induct)
  case (run_start s)
  then show ?case by simp
next
  case (run_step s es t e u)
  then have IH: "mem_ttl (fst t) = mem_ttl (fst s)"
    "\<And>rid a. mem_data (fst t) rid = Some a \<Longrightarrow> last_set rid es = Some a" by auto
  have "last_set rid (es @ [e]) = Some a" if "mem_data (fst u) rid = Some a" for rid a
    using run_step.hyps(2) that IH(2)
    by (cases rule: aff_step.cases)
      (auto simp: last_set_snoc mem_set_def mem_delete_def split: if_splits)
  with IH(1) aff_step_ttl [OF run_step.hyps(2)] show ?case by simp
qed

section \<open>Properties\<close>

definition sample_affinity :: response_affinity where
  "sample_affinity =
     \<lparr>ra_response_id = ''r1'', ra_provider_id = ''zen'', ra_local_model_id = ''zen/a'',
      ra_upstream_model = ''a'', ra_created_at = 5\<rparr>"

text \<open>
  C16 (the affinity store is a map with expiry). After any history of writes and reads at times up
  to \<open>now\<close>, reading an id at \<open>now\<close> gives the entry last written under it when that entry is not
  older than the time to live, and nothing otherwise.
\<close>

theorem affinity_get_after_history:
  assumes "\<forall>(n, _) \<in> set ops. n \<le> now"
  shows "fst (mem_get now rid (run_history mem_set mem_get ops (new_memory ttl))) =
      (case written ra_response_id ops rid None of
         None \<Rightarrow> None
       | Some (n, a) \<Rightarrow>
           if (if ttl \<le> 0 then 2592000 * second else ttl) < since now (ra_created_at (stamped n a))
           then None else Some (stamped n a))"
proof -
  have "mem_live now (new_memory ttl) rid = None" by (simp add: mem_live_def new_memory_def)
  from affinity.get_run [where ops = ops, OF assms this] show ?thesis
    by (simp add: mem_fresh_def expired_def new_memory_def split: option.split)
qed

theorem affinity_get_after_history_witness:
  "fst (mem_get 9 ''r1'' (run_history mem_set mem_get [(3, Inl sample_affinity), (7, Inr ''r2'')] (new_memory 0))) =
     Some sample_affinity"
  by (subst affinity_get_after_history)
    (auto simp: sample_affinity_def stamped_def zero_time_def second_def since_def)

text \<open>
  C17 (no goroutine reads a wrong or expired affinity). In every interleaving of \<open>Set\<close>s and split
  \<open>Get\<close>s from the empty store, a \<open>Get\<close> that succeeds returns the entry last stored under that id,
  and it is within its time to live.
\<close>

theorem affinity_concurrent_hit:
  assumes "aff_run (new_memory ttl, []) es s" and "aff_step s (Got now rid (Some a)) t"
  shows "last_set rid es = Some a \<and>
    since now (ra_created_at a) \<le> (if ttl \<le> 0 then 2592000 * second else ttl)"
proof -
  have start: "mem_data (fst (new_memory ttl, [] :: string list)) = (\<lambda>k. None)"
    by (simp add: new_memory_def)
  from assms(2) have hit: "mem_data (fst s) rid = Some a" "\<not> expired now (mem_ttl (fst s)) a"
    by (auto elim: aff_step_got)
  from aff_run_data [OF assms(1) start] hit show ?thesis
    by (auto simp: expired_def new_memory_def)
qed

theorem affinity_concurrent_hit_witness:
  "last_set ''r1'' [DidSet 6 sample_affinity] = Some sample_affinity"
proof -
  have "aff_run (new_memory 0, []) ([] @ [DidSet 6 sample_affinity])
      (mem_set 6 sample_affinity (new_memory 0), [])"
    by (rule aff_run.run_step [OF aff_run.run_start]) simp
  then have run: "aff_run (new_memory 0, []) [DidSet 6 sample_affinity]
      (mem_set 6 sample_affinity (new_memory 0), [])" by simp
  have "aff_step (mem_set 6 sample_affinity (new_memory 0), []) (Got 8 ''r1'' (Some sample_affinity))
      (mem_set 6 sample_affinity (new_memory 0), [])"
    by (rule aff_step.hit_step)
      (simp_all add: mem_set_def sample_affinity_def stamped_def zero_time_def second_def
        expired_def since_def new_memory_def)
  from affinity_concurrent_hit [OF run this] show ?thesis by simp
qed

text \<open>
  C18 (a renewed affinity can be lost). Because \<open>Get\<close> drops the lock between reading an expired
  entry and deleting it, there is an interleaving in which a fresh entry stored in between is
  deleted: a \<open>Get\<close> at the very time of the \<open>Set\<close> then finds nothing.
\<close>

theorem affinity_lost_update:
  "\<exists>es m old new now. aff_run (new_memory 10, []) es (m, []) \<and>
     es = [DidSet 1 old, ReadExpired now ''r1'', DidSet now new, Got now ''r1'' None] \<and>
     last_set ''r1'' es = Some new \<and> \<not> expired now 10 new \<and> mem_data m ''r1'' = None"
proof -
  let ?old = "sample_affinity\<lparr>ra_created_at := 1\<rparr>"
  let ?new = "sample_affinity\<lparr>ra_created_at := 20\<rparr>"
  let ?m1 = "mem_set 1 ?old (new_memory 10)"
  let ?m2 = "mem_set 20 ?new ?m1"
  let ?m3 = "mem_delete ''r1'' ?m2"
  have s1: "aff_step (new_memory 10, []) (DidSet 1 ?old) (?m1, [])" by simp
  have s2: "aff_step (?m1, []) (ReadExpired 20 ''r1'') (?m1, [''r1''])"
    by (rule aff_step.expired_step [where a = ?old])
      (simp_all add: mem_set_def sample_affinity_def stamped_def zero_time_def second_def
        expired_def since_def new_memory_def)
  have s3: "aff_step (?m1, [''r1'']) (DidSet 20 ?new) (?m2, [''r1''])" by simp
  have s4: "aff_step (?m2, [''r1'']) (Got 20 ''r1'' None) (?m3, [])"
    using aff_step.delete_step [of "''r1''" "[''r1'']" ?m2 20] by simp
  have "aff_run (new_memory 10, []) (((([] @ [DidSet 1 ?old]) @ [ReadExpired 20 ''r1'']) @ [DidSet 20 ?new])
      @ [Got 20 ''r1'' None]) (?m3, [])"
    by (rule run_step [OF run_step [OF run_step [OF run_step [OF run_start s1] s2] s3] s4])
  moreover have "last_set ''r1'' [DidSet 1 ?old, ReadExpired 20 ''r1'', DidSet 20 ?new, Got 20 ''r1'' None]
      = Some ?new"
    by (simp add: last_set_def sample_affinity_def stamped_def zero_time_def second_def)
  moreover have "\<not> expired 20 10 ?new" by (simp add: expired_def since_def)
  moreover have "mem_data ?m3 ''r1'' = None" by (simp add: mem_delete_def)
  ultimately show ?thesis by (metis append_Cons append_Nil)
qed

lemma resolve_live_error:
  assumes "prev \<noteq> []" and "fst (mem_get now prev m) = Some aff"
    and "fst (resolve_with_affinity snap now m requested req prev) = Inl err"
  shows "err = AffinityGone"
proof -
  obtain m' where "mem_get now prev m = (Some aff, m')" using assms(2) by (metis prod.collapse)
  with assms(1,3) show ?thesis
    by (auto simp: resolve_with_affinity_def Let_def simp del: filter_candidates.simps
        split: option.splits if_splits)
qed

lemma resolve_pinned:
  assumes "prev \<noteq> []" and "fst (mem_get now prev m) = Some aff"
    and "fst (resolve_with_affinity snap now m requested req prev) = Inr (cands, reason)"
  shows "reason = ReasonDirect \<and>
    (\<exists>mo c. cands = [c] \<and> cd_local_model_id c = ra_local_model_id aff \<and>
       cd_provider_id c = ra_provider_id aff \<and> map_of (sn_models snap) (ra_local_model_id aff) = Some mo \<and>
       cd_upstream_model c = rm_upstream_model mo \<and> \<not> excluded req mo)"
proof -
  obtain m' where g: "mem_get now prev m = (Some aff, m')" using assms(2) by (metis prod.collapse)
  obtain mo p where mo: "map_of (sn_models snap) (ra_local_model_id aff) = Some mo"
    and p: "map_of (sn_providers snap) (ra_provider_id aff) = Some p"
    and f: "filter_candidates snap [ra_local_model_id aff] req \<noteq> []"
    and c: "cands = [\<lparr>cd_local_model_id = ra_local_model_id aff, cd_provider_id = ra_provider_id aff,
              cd_upstream_model = rm_upstream_model mo, cd_model = mo, cd_provider = Some p\<rparr>]"
      "reason = ReasonDirect"
    using assms(1,3) g
    by (auto simp: resolve_with_affinity_def Let_def simp del: filter_candidates.simps
        split: option.splits if_splits)
  have "candidate_for snap req (ra_local_model_id aff) \<noteq> None"
    using f by (auto split: option.splits)
  then have "\<not> excluded req mo" using mo by (auto simp: candidate_for_def split: option.splits if_splits)
  with mo c show ?thesis by simp
qed

text \<open>
  A pinned conversation stays on its model. With a live affinity for the previous response the
  only candidate is the pinned model, or routing fails: there is never another model, and the
  request's model name plays no role.
\<close>

lemma resolve_with_affinity_pinned:
  assumes "prev \<noteq> []" and "fst (mem_get now prev m) = Some aff"
    and "fst (resolve_with_affinity snap now m requested req prev) = Inr (cands, reason)"
  shows "reason = ReasonDirect \<and>
    (\<exists>mo c. cands = [c] \<and> cd_local_model_id c = ra_local_model_id aff \<and>
       cd_provider_id c = ra_provider_id aff \<and> map_of (sn_models snap) (ra_local_model_id aff) = Some mo \<and>
       cd_upstream_model c = rm_upstream_model mo \<and> \<not> excluded req mo)"
  using assms by (rule resolve_pinned)

lemma resolve_with_affinity_pinned_witness:
  "\<exists>cands. fst (resolve_with_affinity sample_snapshot 9 (mem_set 6 sample_affinity new_affinity) ''gpt-5''
      \<lparr>rq_tools = False, rq_vision = False, rq_reasoning = False\<rparr> ''r1'') = Inr (cands, ReasonDirect) \<and>
     map cd_local_model_id cands = [''zen/a'']"
proof -
  have g: "fst (mem_get 9 ''r1'' (mem_set 6 sample_affinity new_affinity)) = Some sample_affinity"
    by code_simp
  let ?r = "fst (resolve_with_affinity sample_snapshot 9 (mem_set 6 sample_affinity new_affinity)
      ''gpt-5'' \<lparr>rq_tools = False, rq_vision = False, rq_reasoning = False\<rparr> ''r1'')"
  have "\<exists>cands. ?r = Inr (cands, ReasonDirect)"
  proof -
    obtain m' where g': "mem_get 9 ''r1'' (mem_set 6 sample_affinity new_affinity) = (Some sample_affinity, m')"
      using g by (metis prod.collapse)
    have aff: "ra_local_model_id sample_affinity = ''zen/a''" "ra_provider_id sample_affinity = ''zen''"
      by (simp_all add: sample_affinity_def)
    from sample_snapshot_lookups(3) obtain p where "map_of (sn_providers sample_snapshot) ''zen'' = Some p" ..
    moreover from this have "candidate_for sample_snapshot
        \<lparr>rq_tools = False, rq_vision = False, rq_reasoning = False\<rparr> ''zen/a'' \<noteq> None"
      by (simp add: candidate_for_def sample_snapshot_lookups sample_model_def excluded_def)
    ultimately show ?thesis
      by (auto simp: resolve_with_affinity_def Let_def g' aff sample_snapshot_lookups split: option.split)
  qed
  then obtain cands where c: "?r = Inr (cands, ReasonDirect)" ..
  have "map cd_local_model_id cands = [''zen/a'']"
    using resolve_with_affinity_pinned [OF _ g c] by (auto simp: sample_affinity_def)
  from c this show ?thesis by (intro exI conjI)
qed

end
