(* ===== verification/Continuations.thy ===== *)
theory Continuations
  imports Affinity
begin

text \<open>
  The cache of opaque reasoning state of \<open>internal/server/continuation.go\<close>: at most 512 entries
  and 8 MiB in all, at most 2 MiB an entry, 20 minutes to live, least recently touched entries
  evicted first. The mutex makes every operation atomic, so an operation is a function on the
  state; the order of \<open>cc_entries\<close> is the order of Go's \<open>range\<close>, which the theorems leave open.
\<close>

section \<open>State\<close>

record continuation_key =
  ck_session :: string
  ck_provider :: string
  ck_model :: string
  ck_fingerprint :: string

record reasoning_continuation =
  rc_chat_completions :: string
  rc_responses_items :: "string list"

record continuation_entry =
  ce_value :: reasoning_continuation
  ce_bytes :: int
  ce_expires :: int
  ce_touched :: int

record continuations =
  cc_entries :: "(continuation_key \<times> continuation_entry) list"
  cc_bytes :: int

definition continuation_ttl :: int where
  "continuation_ttl = 20 * 60 * second"

definition continuation_max_entries :: nat where
  "continuation_max_entries = 512"

definition continuation_max_bytes :: int where
  "continuation_max_bytes = 8 * 2 ^ 20"

definition continuation_max_entry :: int where
  "continuation_max_entry = 2 * 2 ^ 20"

definition new_continuations :: continuations where
  "new_continuations = \<lparr>cc_entries = [], cc_bytes = 0\<rparr>"

definition continuation_size :: "reasoning_continuation \<Rightarrow> int" where
  "continuation_size v =
     int (length (rc_chat_completions v)) + sum_list (map (int \<circ> length) (rc_responses_items v))"

section \<open>Operations\<close>

text \<open>\<open>delete(c.entries, key)\<close> with its adjustment of the byte count.\<close>

definition drop_entry :: "continuation_key \<Rightarrow> continuations \<Rightarrow> continuations" where
  "drop_entry k c =
     (case map_of (cc_entries c) k of
        None \<Rightarrow> c
      | Some e \<Rightarrow>
          \<lparr>cc_entries = filter (\<lambda>(k', _). k' \<noteq> k) (cc_entries c), cc_bytes = cc_bytes c - ce_bytes e\<rparr>)"

fun purge_loop :: "int \<Rightarrow> (continuation_key \<times> continuation_entry) list \<Rightarrow> continuations \<Rightarrow> continuations" where
  "purge_loop now [] c = c"
| "purge_loop now ((k, e) # es) c =
     purge_loop now es (if now < ce_expires e then c else drop_entry k c)"

definition purge_expired :: "int \<Rightarrow> continuations \<Rightarrow> continuations" where
  "purge_expired now c = purge_loop now (cc_entries c) c"

fun oldest_entry :: "(continuation_key \<times> continuation_entry) option
    \<Rightarrow> (continuation_key \<times> continuation_entry) list \<Rightarrow> (continuation_key \<times> continuation_entry) option" where
  "oldest_entry best [] = best"
| "oldest_entry None ((k, e) # es) = oldest_entry (Some (k, e)) es"
| "oldest_entry (Some (bk, be)) ((k, e) # es) =
     oldest_entry (Some (if ce_touched e < ce_touched be then (k, e) else (bk, be))) es"

definition evict_oldest :: "continuations \<Rightarrow> continuations option" where
  "evict_oldest c =
     (case oldest_entry None (cc_entries c) of
        None \<Rightarrow> None
      | Some (k, _) \<Rightarrow> Some (drop_entry k c))"

text \<open>The eviction loop of \<open>Store\<close>; the boolean says that there is room.\<close>

lemma oldest_entry_mem:
  "oldest_entry best es = Some x \<Longrightarrow> best = Some x \<or> x \<in> set es"
  by (induction best es rule: oldest_entry.induct) (auto split: if_splits)

lemma oldest_entry_None: "oldest_entry best es = None \<longleftrightarrow> best = None \<and> es = []"
  by (induction best es rule: oldest_entry.induct) auto

lemma evict_oldest_length:
  assumes "evict_oldest c = Some c'"
  shows "length (cc_entries c') < length (cc_entries c)"
proof -
  obtain k e where o: "oldest_entry None (cc_entries c) = Some (k, e)" and c': "c' = drop_entry k c"
    using assms by (auto simp: evict_oldest_def split: option.splits)
  have mem: "(k, e) \<in> set (cc_entries c)" using oldest_entry_mem [OF o] by simp
  then obtain e' where "map_of (cc_entries c) k = Some e'"
    by (metis map_of_eq_None_iff not_None_eq fst_conv imageI)
  moreover have "length (filter (\<lambda>(k', _). k' \<noteq> k) (cc_entries c)) < length (cc_entries c)"
    by (rule length_filter_less [OF mem]) simp
  ultimately show ?thesis by (simp add: c' drop_entry_def)
qed

function make_room :: "int \<Rightarrow> continuations \<Rightarrow> bool \<times> continuations" where
  "make_room sz c =
     (if continuation_max_entries \<le> length (cc_entries c) \<or> continuation_max_bytes < cc_bytes c + sz
      then (case evict_oldest c of None \<Rightarrow> (False, c) | Some c' \<Rightarrow> make_room sz c')
      else (True, c))"
  by pat_completeness auto
termination
  by (relation "measure (\<lambda>(sz, c). length (cc_entries c))") (auto dest: evict_oldest_length)

declare make_room.simps [simp del]

definition key_of :: "string \<Rightarrow> candidate \<Rightarrow> string \<Rightarrow> continuation_key" where
  "key_of session cand fingerprint =
     \<lparr>ck_session = session, ck_provider = cd_provider_id cand, ck_model = cd_upstream_model cand,
      ck_fingerprint = fingerprint\<rparr>"

definition complete_key :: "continuation_key \<Rightarrow> bool" where
  "complete_key k \<longleftrightarrow>
     ck_session k \<noteq> [] \<and> ck_provider k \<noteq> [] \<and> ck_model k \<noteq> [] \<and> ck_fingerprint k \<noteq> []"

text \<open>\<open>Store\<close> and \<open>Load\<close>, on the key they compute.\<close>

definition store_at :: "int \<Rightarrow> continuation_key \<Rightarrow> reasoning_continuation \<Rightarrow> continuations \<Rightarrow> continuations" where
  "store_at now k v c =
     (let sz = continuation_size v in
      if \<not> complete_key k then c
      else if sz = 0 \<or> continuation_max_entry < sz then c
      else
        (let c1 = drop_entry k (purge_expired now c) in
         case make_room sz c1 of
           (False, c2) \<Rightarrow> c2
         | (True, c2) \<Rightarrow>
             \<lparr>cc_entries = cc_entries c2 @
                [(k, \<lparr>ce_value = v, ce_bytes = sz, ce_expires = now + continuation_ttl, ce_touched = now\<rparr>)],
              cc_bytes = cc_bytes c2 + sz\<rparr>))"

definition load_at :: "int \<Rightarrow> continuation_key \<Rightarrow> continuations
    \<Rightarrow> reasoning_continuation option \<times> continuations" where
  "load_at now k c =
     (if \<not> complete_key k then (None, c)
      else
        (let c1 = purge_expired now c in
         case map_of (cc_entries c1) k of
           None \<Rightarrow> (None, c1)
         | Some e \<Rightarrow>
             (Some (ce_value e),
              c1\<lparr>cc_entries := map (\<lambda>(k', e'). (k', if k' = k then e'\<lparr>ce_touched := now\<rparr> else e')) (cc_entries c1)\<rparr>)))"

definition cont_store ::
    "int \<Rightarrow> string \<Rightarrow> candidate \<Rightarrow> string \<Rightarrow> reasoning_continuation \<Rightarrow> continuations \<Rightarrow> continuations" where
  "cont_store now session cand fingerprint v c = store_at now (key_of session cand fingerprint) v c"

definition cont_load ::
    "int \<Rightarrow> string \<Rightarrow> candidate \<Rightarrow> string \<Rightarrow> continuations \<Rightarrow> reasoning_continuation option \<times> continuations" where
  "cont_load now session cand fingerprint c = load_at now (key_of session cand fingerprint) c"

section \<open>The invariant\<close>

definition entry_ok :: "continuation_key \<Rightarrow> continuation_entry \<Rightarrow> bool" where
  "entry_ok k e \<longleftrightarrow>
     complete_key k \<and> ce_bytes e = continuation_size (ce_value e) \<and>
     0 < ce_bytes e \<and> ce_bytes e \<le> continuation_max_entry"

definition entries_bytes :: "(continuation_key \<times> continuation_entry) list \<Rightarrow> int" where
  "entries_bytes es = sum_list (map (ce_bytes \<circ> snd) es)"

definition cache_ok :: "continuations \<Rightarrow> bool" where
  "cache_ok c \<longleftrightarrow>
     distinct (map fst (cc_entries c)) \<and>
     list_all (\<lambda>(k, e). entry_ok k e) (cc_entries c) \<and>
     cc_bytes c = entries_bytes (cc_entries c) \<and>
     length (cc_entries c) \<le> continuation_max_entries \<and>
     cc_bytes c \<le> continuation_max_bytes"

lemma continuation_size_nonneg: "0 \<le> continuation_size v"
  unfolding continuation_size_def
  by (intro add_nonneg_nonneg sum_list_nonneg) auto

lemma entries_bytes_simps [simp]:
  "entries_bytes [] = 0"
  "entries_bytes ((k, e) # es) = ce_bytes e + entries_bytes es"
  "entries_bytes (es @ fs) = entries_bytes es + entries_bytes fs"
  by (simp_all add: entries_bytes_def)

lemma entries_bytes_nonneg:
  "list_all (\<lambda>(k, e). entry_ok k e) es \<Longrightarrow> 0 \<le> entries_bytes es"
  by (induction es) (auto simp: entry_ok_def)

lemma filter_other: "k \<notin> fst ` set es \<Longrightarrow> filter (\<lambda>(k', _). k' \<noteq> k) es = es"
  by (induction es) auto

lemma entries_bytes_filter:
  "distinct (map fst es) \<Longrightarrow> map_of es k = Some e \<Longrightarrow>
   entries_bytes (filter (\<lambda>(k', _). k' \<noteq> k) es) = entries_bytes es - ce_bytes e"
proof (induction es)
  case Nil
  then show ?case by simp
next
  case (Cons x es)
  obtain k1 e1 where x: "x = (k1, e1)" by (cases x)
  show ?case
  proof (cases "k1 = k")
    case True
    with Cons.prems have "k \<notin> fst ` set es" "e1 = e" by (simp_all add: x)
    with True show ?thesis by (simp add: x filter_other)
  next
    case False
    with Cons show ?thesis by (simp add: x)
  qed
qed

text \<open>Dropping an entry is the filter in every case.\<close>

lemma drop_entry_entries [simp]:
  "cc_entries (drop_entry k c) = filter (\<lambda>(k', _). k' \<noteq> k) (cc_entries c)"
  by (auto simp: drop_entry_def map_of_eq_None_iff filter_other split: option.split)

lemma cache_ok_drop: "cache_ok c \<Longrightarrow> cache_ok (drop_entry k c)"
proof (cases "map_of (cc_entries c) k")
  case None
  then show "cache_ok c \<Longrightarrow> cache_ok (drop_entry k c)" by (simp add: drop_entry_def)
next
  case (Some e)
  assume ok: "cache_ok c"
  have b: "cc_bytes (drop_entry k c) = entries_bytes (cc_entries (drop_entry k c))"
    using ok Some by (simp add: drop_entry_def cache_ok_def entries_bytes_filter)
  have "0 < ce_bytes e"
    using ok map_of_SomeD [OF Some] by (auto simp: cache_ok_def entry_ok_def list_all_iff)
  then have "cc_bytes (drop_entry k c) \<le> continuation_max_bytes"
    using ok Some by (simp add: drop_entry_def cache_ok_def)
  moreover have "length (cc_entries (drop_entry k c)) \<le> continuation_max_entries"
    using ok length_filter_le [of "\<lambda>(k', _). k' \<noteq> k" "cc_entries c"]
    unfolding drop_entry_entries cache_ok_def by linarith
  moreover have "list_all (\<lambda>(k, e). entry_ok k e) (cc_entries (drop_entry k c))"
    using ok by (auto simp: cache_ok_def list_all_iff)
  moreover have "distinct (map fst (cc_entries (drop_entry k c)))"
    using ok by (simp add: cache_ok_def distinct_map_filter)
  ultimately show ?thesis using b unfolding cache_ok_def by blast
qed

text \<open>Purging keeps the live entries, in order.\<close>

lemma purge_loop_entries:
  "cc_entries (purge_loop now es c) =
     filter (\<lambda>(k, _). \<forall>e. (k, e) \<in> set es \<longrightarrow> now < ce_expires e) (cc_entries c)"
proof (induction now es c rule: purge_loop.induct)
  case (1 now c)
  then show ?case by simp
next
  case (2 now k e es c)
  show ?case
  proof (cases "now < ce_expires e")
    case True
    with 2 show ?thesis by (auto intro!: filter_cong)
  next
    case False
    have "cc_entries (purge_loop now ((k, e) # es) c) =
        filter (\<lambda>(k, _). \<forall>e. (k, e) \<in> set es \<longrightarrow> now < ce_expires e)
          (filter (\<lambda>(k', _). k' \<noteq> k) (cc_entries c))"
      using 2 False by simp
    also have "\<dots> = filter (\<lambda>(k', _). \<forall>e'. (k', e') \<in> set ((k, e) # es) \<longrightarrow> now < ce_expires e') (cc_entries c)"
      unfolding filter_filter using False by (intro filter_cong) auto
    finally show ?thesis .
  qed
qed

lemma cache_ok_purge_loop: "cache_ok c \<Longrightarrow> cache_ok (purge_loop now es c)"
  by (induction now es c rule: purge_loop.induct) (simp_all add: cache_ok_drop)

lemma cache_ok_purge: "cache_ok c \<Longrightarrow> cache_ok (purge_expired now c)"
  by (simp add: purge_expired_def cache_ok_purge_loop)

lemma purge_expired_entries:
  assumes "distinct (map fst (cc_entries c))"
  shows "cc_entries (purge_expired now c) = filter (\<lambda>(k, e). now < ce_expires e) (cc_entries c)"
  unfolding purge_expired_def purge_loop_entries
  using assms by (intro filter_cong) (auto dest: eq_key_imp_eq_value)

lemma cache_ok_distinct: "cache_ok c \<Longrightarrow> distinct (map fst (cc_entries c))"
  by (simp add: cache_ok_def)

lemma map_of_filter_value:
  "distinct (map fst es) \<Longrightarrow> map_of (filter (\<lambda>(k, e). P e) es) k =
     (case map_of es k of None \<Rightarrow> None | Some e \<Rightarrow> if P e then Some e else None)"
  by (induction es) (auto simp: map_of_eq_None_iff split: option.split)

lemma map_of_filter_key:
  "map_of (filter (\<lambda>(k', _). k' \<noteq> k) es) k2 = (if k2 = k then None else map_of es k2)"
  by (induction es) auto

lemma purge_expired_lookup:
  "cache_ok c \<Longrightarrow> map_of (cc_entries (purge_expired now c)) k =
     (case map_of (cc_entries c) k of
        None \<Rightarrow> None | Some e \<Rightarrow> if now < ce_expires e then Some e else None)"
  by (simp add: purge_expired_entries cache_ok_distinct map_of_filter_value)

section \<open>Eviction\<close>

lemma oldest_entry_least:
  "oldest_entry best es = Some (k, e) \<Longrightarrow>
     (\<forall>b. best = Some b \<longrightarrow> ce_touched e \<le> ce_touched (snd b)) \<and>
     (\<forall>(k', e') \<in> set es. ce_touched e \<le> ce_touched e')"
  by (induction best es rule: oldest_entry.induct) (auto split: if_splits)

lemma evict_oldest_Some:
  assumes "evict_oldest c = Some c'"
  obtains k e where "(k, e) \<in> set (cc_entries c)" "c' = drop_entry k c"
    "\<forall>(k', e') \<in> set (cc_entries c). ce_touched e \<le> ce_touched e'"
proof -
  obtain k e where o: "oldest_entry None (cc_entries c) = Some (k, e)" "c' = drop_entry k c"
    using assms by (auto simp: evict_oldest_def split: option.splits)
  with oldest_entry_mem [OF o(1)] oldest_entry_least [OF o(1)] show ?thesis by (intro that) auto
qed

lemma evict_oldest_None: "evict_oldest c = None \<longleftrightarrow> cc_entries c = []"
  by (auto simp: evict_oldest_def oldest_entry_None split: option.split)

lemma make_room_evict:
  assumes "continuation_max_entries \<le> length (cc_entries c) \<or> continuation_max_bytes < cc_bytes c + sz"
    and "evict_oldest c = Some c1"
  shows "make_room sz c = make_room sz c1"
  using assms by (subst make_room.simps) simp

lemma make_room_done:
  assumes "\<not> (continuation_max_entries \<le> length (cc_entries c) \<or> continuation_max_bytes < cc_bytes c + sz)"
  shows "make_room sz c = (True, c)"
  using assms by (subst make_room.simps) auto

text \<open>
  With a size that fits an entry the loop always ends with room, in a cache of a subset of the
  entries; no entry left behind was touched before one that went.
\<close>

lemma make_room_ok:
  assumes "cache_ok c" and "0 \<le> sz" and "sz \<le> continuation_max_entry"
  shows "\<exists>c'. make_room sz c = (True, c') \<and> cache_ok c' \<and>
    length (cc_entries c') < continuation_max_entries \<and> cc_bytes c' + sz \<le> continuation_max_bytes \<and>
    set (cc_entries c') \<subseteq> set (cc_entries c) \<and>
    (\<forall>(k, e) \<in> set (cc_entries c) - set (cc_entries c'). \<forall>(k', e') \<in> set (cc_entries c'). ce_touched e \<le> ce_touched e') \<and>
    (length (cc_entries c) < continuation_max_entries \<and> cc_bytes c + sz \<le> continuation_max_bytes \<longrightarrow> c' = c)"
  using assms
proof (induction sz c rule: make_room.induct)
  case (1 sz c)
  show ?case
  proof (cases "continuation_max_entries \<le> length (cc_entries c) \<or> continuation_max_bytes < cc_bytes c + sz")
    case False
    with 1 show ?thesis by (auto simp: make_room_done)
  next
    case True
    have "cc_entries c \<noteq> []"
    proof
      assume e: "cc_entries c = []"
      with 1 have "cc_bytes c = 0" by (simp add: cache_ok_def)
      with True 1 e show False
        by (simp add: continuation_max_entries_def continuation_max_bytes_def continuation_max_entry_def)
    qed
    then obtain c1 where c1: "evict_oldest c = Some c1" using evict_oldest_None [of c] by blast
    obtain k e where k: "(k, e) \<in> set (cc_entries c)" "c1 = drop_entry k c"
      and least: "\<forall>(k', e') \<in> set (cc_entries c). ce_touched e \<le> ce_touched e'"
      using evict_oldest_Some [OF c1] by blast
    from 1(1) [OF True c1] 1(2-4) obtain c' where c':
      "make_room sz c1 = (True, c')" "cache_ok c'"
      "length (cc_entries c') < continuation_max_entries" "cc_bytes c' + sz \<le> continuation_max_bytes"
      "set (cc_entries c') \<subseteq> set (cc_entries c1)"
      "\<forall>(k, e) \<in> set (cc_entries c1) - set (cc_entries c'). \<forall>(k', e') \<in> set (cc_entries c'). ce_touched e \<le> ce_touched e'"
      using cache_ok_drop [of c k] by (auto simp: k(2))
    have sub: "set (cc_entries c1) \<subseteq> set (cc_entries c)" by (auto simp: k(2))
    have dropped: "e2 = e" if "(k, e2) \<in> set (cc_entries c)" for e2
      using cache_ok_distinct [OF 1(2)] that k(1) by (rule eq_key_imp_eq_value)
    have "\<forall>(k, e) \<in> set (cc_entries c) - set (cc_entries c'). \<forall>(k', e') \<in> set (cc_entries c'). ce_touched e \<le> ce_touched e'"
    proof (clarify)
      fix k2 e2 k' e'
      assume h: "(k2, e2) \<in> set (cc_entries c)" "(k2, e2) \<notin> set (cc_entries c')" "(k', e') \<in> set (cc_entries c')"
      show "ce_touched e2 \<le> ce_touched e'"
      proof (cases "(k2, e2) \<in> set (cc_entries c1)")
        case True
        with c'(6) h show ?thesis by blast
      next
        case False
        with h(1) have "k2 = k" by (auto simp: k(2))
        with dropped h(1) have "e2 = e" by simp
        with least h(3) c'(5) sub show ?thesis by blast
      qed
    qed
    with c' sub True show ?thesis by (auto simp: make_room_evict [OF True c1])
  qed
qed

lemma cache_ok_insert:
  assumes "cache_ok c" and "k \<notin> fst ` set (cc_entries c)" and "entry_ok k e"
    and "length (cc_entries c) < continuation_max_entries" and "cc_bytes c + ce_bytes e \<le> continuation_max_bytes"
  shows "cache_ok \<lparr>cc_entries = cc_entries c @ [(k, e)], cc_bytes = cc_bytes c + ce_bytes e\<rparr>"
  using assms by (simp add: cache_ok_def)

section \<open>Store and Load\<close>

lemma store_at_rejected:
  "\<not> complete_key k \<or> continuation_size v = 0 \<or> continuation_max_entry < continuation_size v \<Longrightarrow>
   store_at now k v c = c"
  by (simp add: store_at_def Let_def)

definition new_entry :: "int \<Rightarrow> reasoning_continuation \<Rightarrow> continuation_entry" where
  "new_entry now v =
     \<lparr>ce_value = v, ce_bytes = continuation_size v, ce_expires = now + continuation_ttl, ce_touched = now\<rparr>"

lemma store_at_accepted:
  assumes "cache_ok c" and "complete_key k" and "continuation_size v \<noteq> 0"
    and "continuation_size v \<le> continuation_max_entry"
  shows "\<exists>c2. make_room (continuation_size v) (drop_entry k (purge_expired now c)) = (True, c2) \<and>
    cache_ok c2 \<and> length (cc_entries c2) < continuation_max_entries \<and>
    cc_bytes c2 + continuation_size v \<le> continuation_max_bytes \<and>
    set (cc_entries c2) \<subseteq> set (cc_entries (drop_entry k (purge_expired now c))) \<and>
    store_at now k v c =
      \<lparr>cc_entries = cc_entries c2 @ [(k, new_entry now v)], cc_bytes = cc_bytes c2 + continuation_size v\<rparr>"
proof -
  have "cache_ok (drop_entry k (purge_expired now c))"
    by (intro cache_ok_drop cache_ok_purge assms)
  from make_room_ok [OF this continuation_size_nonneg assms(4)] obtain c2 where
    "make_room (continuation_size v) (drop_entry k (purge_expired now c)) = (True, c2)" "cache_ok c2"
    "length (cc_entries c2) < continuation_max_entries"
    "cc_bytes c2 + continuation_size v \<le> continuation_max_bytes"
    "set (cc_entries c2) \<subseteq> set (cc_entries (drop_entry k (purge_expired now c)))" by blast
  with assms show ?thesis by (simp add: store_at_def Let_def new_entry_def)
qed

lemma store_at_split:
  assumes "cache_ok c" and "complete_key k" and "continuation_size v \<noteq> 0"
    and "continuation_size v \<le> continuation_max_entry"
  obtains c2 where "set (cc_entries c2) \<subseteq> set (cc_entries (drop_entry k (purge_expired now c)))"
    and "cc_entries (store_at now k v c) = cc_entries c2 @ [(k, new_entry now v)]"
    and "cache_ok c2"
proof -
  obtain c2 where "cache_ok c2" "set (cc_entries c2) \<subseteq> set (cc_entries (drop_entry k (purge_expired now c)))"
    "store_at now k v c =
      \<lparr>cc_entries = cc_entries c2 @ [(k, new_entry now v)], cc_bytes = cc_bytes c2 + continuation_size v\<rparr>"
    using store_at_accepted [OF assms, of now] by blast
  then show ?thesis by (intro that) simp_all
qed

lemma cache_ok_store: "cache_ok c \<Longrightarrow> cache_ok (store_at now k v c)"
proof (cases "\<not> complete_key k \<or> continuation_size v = 0 \<or> continuation_max_entry < continuation_size v")
  case True
  then show "cache_ok c \<Longrightarrow> cache_ok (store_at now k v c)" by (simp add: store_at_rejected)
next
  case False
  assume ok: "cache_ok c"
  from False have acc: "complete_key k" "continuation_size v \<noteq> 0" "continuation_size v \<le> continuation_max_entry"
    by auto
  obtain c2 where c2: "cache_ok c2" "length (cc_entries c2) < continuation_max_entries"
    "cc_bytes c2 + continuation_size v \<le> continuation_max_bytes"
    "set (cc_entries c2) \<subseteq> set (cc_entries (drop_entry k (purge_expired now c)))"
    "store_at now k v c =
      \<lparr>cc_entries = cc_entries c2 @ [(k, new_entry now v)], cc_bytes = cc_bytes c2 + continuation_size v\<rparr>"
    using store_at_accepted [OF ok acc] by blast
  have "k \<notin> fst ` set (cc_entries c2)" using c2(4) by auto
  moreover have "entry_ok k (new_entry now v)"
    using acc continuation_size_nonneg [of v] by (simp add: entry_ok_def new_entry_def)
  ultimately show ?thesis
    using cache_ok_insert [of c2 k "new_entry now v"] c2 by (simp add: new_entry_def)
qed

lemma touch_keys: "map fst (map (\<lambda>(k', e'). (k', if k' = k then e'\<lparr>ce_touched := now\<rparr> else e')) es) = map fst es"
  by (induction es) auto

lemma touch_bytes: "entries_bytes (map (\<lambda>(k', e'). (k', if k' = k then e'\<lparr>ce_touched := now\<rparr> else e')) es) =
    entries_bytes es"
  by (induction es) auto

lemma touch_lookup: "map_of (map (\<lambda>(k', e'). (k', if k' = k then e'\<lparr>ce_touched := now\<rparr> else e')) es) k2 =
    map_option (\<lambda>e. if k2 = k then e\<lparr>ce_touched := now\<rparr> else e) (map_of es k2)"
  by (induction es) auto

lemma cache_ok_load: "cache_ok c \<Longrightarrow> cache_ok (snd (load_at now k c))"
proof -
  assume "cache_ok c"
  then have ok: "cache_ok (purge_expired now c)" by (rule cache_ok_purge)
  then have "cache_ok ((purge_expired now c)\<lparr>cc_entries :=
      map (\<lambda>(k', e'). (k', if k' = k then e'\<lparr>ce_touched := now\<rparr> else e')) (cc_entries (purge_expired now c))\<rparr>)"
    by (auto simp: cache_ok_def touch_keys touch_bytes list_all_iff entry_ok_def simp del: map_map)
  with ok \<open>cache_ok c\<close> show ?thesis
    by (simp add: load_at_def Let_def split: option.split)
qed

text \<open>What a reader finds at a time, and how the operations change it.\<close>

definition cc_find :: "int \<Rightarrow> continuations \<Rightarrow> continuation_key \<Rightarrow> reasoning_continuation option" where
  "cc_find t c k =
     (case map_of (cc_entries c) k of
        None \<Rightarrow> None
      | Some e \<Rightarrow> if complete_key k \<and> t < ce_expires e then Some (ce_value e) else None)"

lemma load_at_find: "cache_ok c \<Longrightarrow> fst (load_at now k c) = cc_find now c k"
  by (auto simp: load_at_def Let_def cc_find_def purge_expired_lookup split: option.split)

lemma store_at_lookup:
  assumes "cache_ok c" and "complete_key k" and "continuation_size v \<noteq> 0"
    and "continuation_size v \<le> continuation_max_entry"
  shows "map_of (cc_entries (store_at now k v c)) k = Some (new_entry now v)"
proof -
  obtain c2 where "set (cc_entries c2) \<subseteq> set (cc_entries (drop_entry k (purge_expired now c)))"
    and st: "cc_entries (store_at now k v c) = cc_entries c2 @ [(k, new_entry now v)]"
    and "cache_ok c2"
    by (rule store_at_split [OF assms, of now])
  then have "k \<notin> fst ` set (cc_entries c2)" by auto
  then have "map_of (cc_entries c2) k = None" by (simp add: map_of_eq_None_iff)
  then show ?thesis by (simp add: st map_add_def)
qed

lemma store_at_other:
  assumes "cache_ok c" and "map_of (cc_entries (store_at now k v c)) k' = Some e" and "k' \<noteq> k"
  shows "map_of (cc_entries c) k' = Some e"
proof (cases "\<not> complete_key k \<or> continuation_size v = 0 \<or> continuation_max_entry < continuation_size v")
  case True
  with assms show ?thesis by (simp add: store_at_rejected)
next
  case False
  then have acc: "complete_key k" "continuation_size v \<noteq> 0" "continuation_size v \<le> continuation_max_entry"
    by auto
  obtain c2 where sub: "set (cc_entries c2) \<subseteq> set (cc_entries (drop_entry k (purge_expired now c)))"
    and st: "cc_entries (store_at now k v c) = cc_entries c2 @ [(k, new_entry now v)]"
    and "cache_ok c2"
    by (rule store_at_split [OF assms(1) acc, of now])
  from assms(2,3) have "(k', e) \<in> set (cc_entries c2)"
    by (auto simp: st map_add_def split: option.splits if_splits dest: map_of_SomeD)
  with sub have "(k', e) \<in> set (cc_entries c)"
    by (auto simp: purge_expired_entries cache_ok_distinct [OF assms(1)])
  then show ?thesis using cache_ok_distinct [OF assms(1)] by simp
qed

definition cc_put :: "int \<Rightarrow> continuation_key \<times> reasoning_continuation \<Rightarrow> continuations \<Rightarrow> continuations" where
  "cc_put now kv c = store_at now (fst kv) (snd kv) c"

definition cc_contents :: "continuations \<Rightarrow> continuation_key \<Rightarrow> reasoning_continuation option" where
  "cc_contents c k = map_option ce_value (map_of (cc_entries c) k)"

lemma cache_ok_new: "cache_ok new_continuations"
  by (simp add: cache_ok_def new_continuations_def continuation_max_bytes_def)

text \<open>What \<open>Store\<close> takes; anything else leaves the cache as it is.\<close>

definition storable :: "continuation_key \<times> reasoning_continuation \<Rightarrow> bool" where
  "storable kv \<longleftrightarrow> complete_key (fst kv) \<and> 0 < continuation_size (snd kv) \<and>
     continuation_size (snd kv) \<le> 2097152"

lemma storable_iff:
  "storable (k, v) \<longleftrightarrow>
     \<not> (\<not> complete_key k \<or> continuation_size v = 0 \<or> continuation_max_entry < continuation_size v)"
  using continuation_size_nonneg [of v] by (auto simp: storable_def continuation_max_entry_def)

lemma store_at_key:
  assumes "cache_ok c" and "map_of (cc_entries (store_at now k v c)) k = Some e"
  shows "if storable (k, v) then e = new_entry now v else map_of (cc_entries c) k = Some e"
proof (cases "\<not> complete_key k \<or> continuation_size v = 0 \<or> continuation_max_entry < continuation_size v")
  case True
  with assms show ?thesis by (simp add: store_at_rejected storable_iff)
next
  case False
  with store_at_lookup [OF assms(1), of k v now] assms(2) show ?thesis by (simp add: storable_iff)
qed

interpretation continuation: sound_cache cc_put load_at cc_contents fst "\<lambda>now. snd" storable cache_ok
proof
  fix c :: continuations and now :: int and kv :: "continuation_key \<times> reasoning_continuation"
    and k k' :: continuation_key and w :: reasoning_continuation
  assume ok: "cache_ok c"
  show "cache_ok (cc_put now kv c)" by (simp add: cc_put_def cache_ok_store ok)
  show "cache_ok (snd (load_at now k c))" by (rule cache_ok_load [OF ok])
  show "if k = fst kv \<and> storable kv then w = snd kv else cc_contents c k = Some w"
    if stored: "cc_contents (cc_put now kv c) k = Some w"
  proof -
    obtain e where e: "map_of (cc_entries (store_at now (fst kv) (snd kv) c)) k = Some e" "ce_value e = w"
      using stored by (auto simp: cc_contents_def cc_put_def)
    show ?thesis
    proof (cases "k = fst kv")
      case True
      with store_at_key [OF ok, of now k "snd kv" e] e show ?thesis
        by (auto simp: cc_contents_def new_entry_def)
    next
      case False
      with store_at_other [OF ok e(1)] e(2) show ?thesis by (simp add: cc_contents_def)
    qed
  qed
  show "cc_contents c k' = Some w" if "cc_contents (snd (load_at now k c)) k' = Some w"
    using that ok
    by (auto simp: load_at_def Let_def cc_contents_def purge_expired_lookup touch_lookup
        split: option.splits if_splits)
  show "cc_contents c k = Some w" if "fst (load_at now k c) = Some w"
    using that ok
    by (auto simp: load_at_def Let_def cc_contents_def purge_expired_lookup split: option.splits if_splits)
qed

text \<open>
  There is no room for a value of the key: with the live entries of the other keys the cache would
  hold more than 512 entries or 8 MiB.
\<close>

definition other_live :: "int \<Rightarrow> continuation_key \<Rightarrow> continuations \<Rightarrow> (continuation_key \<times> continuation_entry) list" where
  "other_live now k c = filter (\<lambda>(k', e). k' \<noteq> k \<and> now < ce_expires e) (cc_entries c)"

definition crowded :: "int \<Rightarrow> continuation_key \<times> reasoning_continuation \<Rightarrow> continuations \<Rightarrow> bool" where
  "crowded now kv c \<longleftrightarrow>
     512 \<le> int (length (other_live now (fst kv) c)) \<or>
     8388608 < entries_bytes (other_live now (fst kv) c) + continuation_size (snd kv)"

lemma cleared_is_other_live:
  assumes "cache_ok c"
  shows "cc_entries (drop_entry k (purge_expired now c)) = other_live now k c"
    "cc_bytes (drop_entry k (purge_expired now c)) = entries_bytes (other_live now k c)"
proof -
  show e: "cc_entries (drop_entry k (purge_expired now c)) = other_live now k c"
    by (auto simp: other_live_def purge_expired_entries [OF cache_ok_distinct [OF assms]] intro!: filter_cong)
  show "cc_bytes (drop_entry k (purge_expired now c)) = entries_bytes (other_live now k c)"
    using cache_ok_drop [OF cache_ok_purge [OF assms]] by (simp add: cache_ok_def flip: e)
qed

text \<open>
  The one way a live entry of another key goes: there is no room, and nothing that stays was touched
  before it.
\<close>

definition evicted_for_room ::
    "int \<Rightarrow> continuation_key \<times> reasoning_continuation \<Rightarrow> continuation_key \<Rightarrow> continuations \<Rightarrow> bool" where
  "evicted_for_room now kv k c \<longleftrightarrow>
     crowded now kv c \<and>
     (case map_of (cc_entries c) k of
        None \<Rightarrow> False
      | Some e \<Rightarrow> list_all (\<lambda>(k', e'). k' = fst kv \<or> ce_touched e \<le> ce_touched e')
          (cc_entries (cc_put now kv c)))"

lemma put_keeps_or_evicts:
  assumes "cache_ok c" and "map_of (cc_entries c) k = Some e" and "now < ce_expires e" and "k \<noteq> fst kv"
  shows "map_of (cc_entries (cc_put now kv c)) k = Some e \<or> evicted_for_room now kv k c"
proof (cases "storable kv")
  case False
  with assms show ?thesis using storable_iff [of "fst kv" "snd kv"] by (simp add: cc_put_def store_at_rejected)
next
  case True
  let ?k = "fst kv" and ?c1 = "drop_entry (fst kv) (purge_expired now c)"
  have acc: "complete_key ?k" "continuation_size (snd kv) \<noteq> 0" "continuation_size (snd kv) \<le> continuation_max_entry"
    using True storable_iff [of ?k "snd kv"] by auto
  have ok1: "cache_ok ?c1" by (intro cache_ok_drop cache_ok_purge assms)
  from make_room_ok [OF ok1 continuation_size_nonneg acc(3)] obtain c2 where
    room: "make_room (continuation_size (snd kv)) ?c1 = (True, c2)" and ok2: "cache_ok c2"
    and sub: "set (cc_entries c2) \<subseteq> set (cc_entries ?c1)"
    and lru: "\<forall>(k, e) \<in> set (cc_entries ?c1) - set (cc_entries c2).
        \<forall>(k', e') \<in> set (cc_entries c2). ce_touched e \<le> ce_touched e'"
    and kept: "length (cc_entries ?c1) < continuation_max_entries \<and>
        cc_bytes ?c1 + continuation_size (snd kv) \<le> continuation_max_bytes \<longrightarrow> c2 = ?c1"
    by blast
  have st: "cc_entries (cc_put now kv c) = cc_entries c2 @ [(?k, new_entry now (snd kv))]"
    using acc room by (simp add: cc_put_def store_at_def Let_def new_entry_def)
  have in1: "(k, e) \<in> set (cc_entries ?c1)"
    using assms(2-4) by (auto simp: purge_expired_entries [OF cache_ok_distinct [OF assms(1)]] dest: map_of_SomeD)
  show ?thesis
  proof (cases "(k, e) \<in> set (cc_entries c2)")
    case True
    then have "map_of (cc_entries c2) k = Some e" using cache_ok_distinct [OF ok2] by simp
    with assms(4) show ?thesis by (simp add: st map_add_def)
  next
    case False
    then have "c2 \<noteq> ?c1" using in1 by auto
    then have "crowded now kv c"
      using kept cleared_is_other_live [OF assms(1), where k = ?k and now = now]
      by (auto simp: crowded_def continuation_max_entries_def continuation_max_bytes_def)
    moreover have "list_all (\<lambda>(k', e'). k' = ?k \<or> ce_touched e \<le> ce_touched e') (cc_entries (cc_put now kv c))"
      using bspec [OF lru, of "(k, e)"] in1 False by (auto simp: st list_all_iff)
    ultimately show ?thesis using assms(2) by (simp add: evicted_for_room_def)
  qed
qed

lemma load_keeps_entry:
  assumes "cache_ok c" and "map_of (cc_entries c) k = Some e" and "now < ce_expires e"
  shows "\<exists>e'. map_of (cc_entries (snd (load_at now k' c))) k = Some e' \<and> ce_value e' = ce_value e \<and>
    ce_expires e' = ce_expires e"
  using assms by (auto simp: load_at_def Let_def purge_expired_lookup touch_lookup split: option.split)

lemma found_or_evicted:
  assumes "cache_ok c" and "map_of (cc_entries c) k = Some e" and "complete_key k" and "t < ce_expires e"
    and "list_all (\<lambda>(n, op). n \<le> t \<and> (case op of Inl kv \<Rightarrow> fst kv \<noteq> k | Inr _ \<Rightarrow> True)) ops"
  shows "fst (load_at t k (run_history cc_put load_at ops c)) = Some (ce_value e) \<or>
    (\<exists>pre n kv post. ops = pre @ (n, Inl kv) # post \<and>
       evicted_for_room n kv k (run_history cc_put load_at pre c))"
  using assms
proof (induction ops arbitrary: c e)
  case Nil
  then show ?case by (simp add: load_at_find cc_find_def)
next
  case (Cons x ops)
  obtain n op where x: "x = (n, op)" by (cases x)
  from Cons.prems(4,5) have n: "n < ce_expires e" by (simp add: x)
  show ?case
  proof (cases op)
    case (Inr k')
    obtain e' where e': "map_of (cc_entries (snd (load_at n k' c))) k = Some e'" "ce_value e' = ce_value e"
      "ce_expires e' = ce_expires e"
      using load_keeps_entry [OF Cons.prems(1,2) n] by blast
    from Cons.IH [OF cache_ok_load [OF Cons.prems(1)] e'(1) Cons.prems(3)] Cons.prems(4,5) e'(2,3)
    consider "fst (load_at t k (run_history cc_put load_at ops (snd (load_at n k' c)))) = Some (ce_value e)"
      | pre n2 kv2 post where "ops = pre @ (n2, Inl kv2) # post"
          "evicted_for_room n2 kv2 k (run_history cc_put load_at pre (snd (load_at n k' c)))"
      by (auto simp: x)
    then show ?thesis
    proof cases
      case 1
      then show ?thesis by (simp add: x Inr)
    next
      case 2
      then show ?thesis by (intro disjI2 exI [of _ "x # pre"] exI [of _ n2] exI [of _ kv2] exI [of _ post]) (simp add: x Inr)
    qed
  next
    case (Inl kv)
    with Cons.prems(5) have other: "k \<noteq> fst kv" by (auto simp: x)
    show ?thesis
    proof (cases "map_of (cc_entries (cc_put n kv c)) k = Some e")
      case True
      have "cache_ok (cc_put n kv c)" by (simp add: cc_put_def cache_ok_store Cons.prems(1))
      from Cons.IH [OF this True Cons.prems(3,4)] Cons.prems(5)
      consider "fst (load_at t k (run_history cc_put load_at ops (cc_put n kv c))) = Some (ce_value e)"
        | pre n2 kv2 post where "ops = pre @ (n2, Inl kv2) # post"
            "evicted_for_room n2 kv2 k (run_history cc_put load_at pre (cc_put n kv c))"
        by (auto simp: x)
      then show ?thesis
      proof cases
        case 1
        then show ?thesis by (simp add: x Inl)
      next
        case 2
        then show ?thesis by (intro disjI2 exI [of _ "x # pre"] exI [of _ n2] exI [of _ kv2] exI [of _ post]) (simp add: x Inl)
      qed
    next
      case False
      with put_keeps_or_evicts [OF Cons.prems(1,2) n other] have "evicted_for_room n kv k c" by blast
      then show ?thesis by (intro disjI2 exI [of _ "[]"] exI) (simp add: x Inl)
    qed
  qed
qed

lemma written_key:
  "written key ops k w = Some (n, v) \<Longrightarrow> w = Some (n, v) \<or> key v = k"
  by (induction key ops k w rule: written.induct) (auto split: if_splits)

section \<open>Properties\<close>

text \<open>
  C13 (the continuation cache is bounded). After any history of stores and loads, at any times, the
  cache holds at most 512 entries under distinct complete keys, its byte count is the sum of the
  sizes of its values and at most 8 MiB, and no value is larger than 2 MiB.
\<close>

theorem continuations_bounded:
  "let c = run_history cc_put load_at ops new_continuations in
     distinct (map fst (cc_entries c)) \<and> length (cc_entries c) \<le> 512 \<and>
     cc_bytes c = sum_list (map (continuation_size \<circ> ce_value \<circ> snd) (cc_entries c)) \<and>
     cc_bytes c \<le> 8388608 \<and>
     list_all (\<lambda>(k, e). complete_key k \<and> continuation_size (ce_value e) \<le> 2097152) (cc_entries c)"
proof -
  let ?c = "run_history cc_put load_at ops new_continuations"
  have ok: "cache_ok ?c" by (rule continuation.ok_run [OF cache_ok_new])
  have "entries_bytes es = sum_list (map (continuation_size \<circ> ce_value \<circ> snd) es)"
    if "list_all (\<lambda>(k, e). entry_ok k e) es" for es
    using that by (induction es) (auto simp: entry_ok_def)
  with ok show ?thesis
    by (auto simp: Let_def cache_ok_def entry_ok_def list_all_iff continuation_max_entries_def
        continuation_max_bytes_def continuation_max_entry_def)
qed

text \<open>
  C14 (reasoning state is not shared). Whatever \<open>Load\<close> returns after any history of stores and loads
  is the value that was last stored under exactly its session, provider, model and fingerprint, among
  the stores \<open>Store\<close> takes (a complete key, a value that is not empty and at most 2 MiB).
\<close>

theorem continuations_isolated:
  assumes "fst (cont_load now session cand fp (run_history cc_put load_at ops new_continuations)) = Some v"
  shows "\<exists>n k. written fst (taken storable ops) k None = Some (n, (k, v)) \<and> ck_session k = session \<and>
    ck_provider k = cd_provider_id cand \<and> ck_model k = cd_upstream_model cand \<and> ck_fingerprint k = fp"
proof -
  let ?k = "key_of session cand fp"
  have "cc_contents new_continuations ?k = None"
    by (simp add: cc_contents_def new_continuations_def)
  from continuation.hit_was_last [OF cache_ok_new this assms [unfolded cont_load_def]]
  obtain n kv where kv: "written fst (taken storable ops) ?k None = Some (n, kv)" "v = snd kv" by blast
  from written_key [OF kv(1)] have "fst kv = ?k" by simp
  then have "kv = (?k, v)" by (simp add: kv(2) prod_eq_iff)
  with kv(1) show ?thesis by (intro exI [of _ n] exI [of _ ?k]) (simp add: key_of_def)
qed


definition sample_candidate :: candidate where
  "sample_candidate =
     \<lparr>cd_local_model_id = ''zen/a'', cd_provider_id = ''zen'', cd_upstream_model = ''a'',
      cd_model = build_model ''zen/a'' (sample_model ''a''),
      cd_provider = Some \<lparr>rp_id = ''zen'', rp_base_url = ''https://opencode.ai/zen/v1'',
        rp_api_key = ''key'', rp_wire_api = ''responses'', rp_headers = []\<rparr>\<rparr>"

definition sample_reasoning :: reasoning_continuation where
  "sample_reasoning = \<lparr>rc_chat_completions = ''thought'', rc_responses_items = [''{}'']\<rparr>"

definition other_reasoning :: reasoning_continuation where
  "other_reasoning = \<lparr>rc_chat_completions = ''old'', rc_responses_items = []\<rparr>"

definition sample_history :: "(int \<times> (continuation_key \<times> reasoning_continuation + continuation_key)) list" where
  "sample_history =
     [(1, Inl (key_of ''s'' sample_candidate ''f'', other_reasoning)),
      (1, Inl (key_of ''s'' sample_candidate ''f'', sample_reasoning)),
      (2, Inl (key_of ''s'' sample_candidate ''g'', other_reasoning)),
      (2, Inr (key_of ''s'' sample_candidate ''g''))]"

theorem continuations_isolated_witness:
  "\<exists>n k. written fst (taken storable sample_history) k None = Some (n, (k, sample_reasoning)) \<and>
     ck_session k = ''s'' \<and> ck_fingerprint k = ''f''"
proof -
  have "fst (cont_load 3 ''s'' sample_candidate ''f'' (run_history cc_put load_at sample_history new_continuations)) =
      Some sample_reasoning"
    by code_simp
  from continuations_isolated [OF this] show ?thesis by blast
qed

lemma sample_not_evicted:
  "\<not> evicted_for_room 2 (key_of ''s'' sample_candidate ''g'', other_reasoning) (key_of ''s'' sample_candidate ''f'')
     (cont_store 1 ''s'' sample_candidate ''f'' sample_reasoning new_continuations)"
  by code_simp


text \<open>A full cache: four values of 2 MiB, touched at 1, 2, 3 and 4; a fifth drops the one touched first.\<close>

definition big_reasoning :: reasoning_continuation where
  "big_reasoning = \<lparr>rc_chat_completions = replicate 2097152 CHR ''a'', rc_responses_items = []\<rparr>"

definition full_cache :: continuations where
  "full_cache =
     \<lparr>cc_entries = map (\<lambda>(s, t). (key_of s sample_candidate ''f'', (new_entry 0 big_reasoning)\<lparr>ce_touched := t\<rparr>))
        [(''b'', 2), (''a'', 1), (''c'', 3), (''d'', 4)],
      cc_bytes = 8388608\<rparr>"

lemma big_reasoning_size: "continuation_size big_reasoning = 2097152"
  by (simp add: big_reasoning_def continuation_size_def)

lemma full_cache_evicts:
  "evicted_for_room 5 (key_of ''e'' sample_candidate ''f'', big_reasoning) (key_of ''a'' sample_candidate ''f'') full_cache"
  "map_of (cc_entries (cc_put 5 (key_of ''e'' sample_candidate ''f'', big_reasoning) full_cache))
     (key_of ''a'' sample_candidate ''f'') = None"
  by (simp_all add: evicted_for_room_def crowded_def other_live_def cc_put_def store_at_def Let_def big_reasoning_size
      full_cache_def key_of_def purge_expired_def drop_entry_def new_entry_def complete_key_def sample_candidate_def
      make_room.simps evict_oldest_def continuation_max_entries_def continuation_max_bytes_def
      continuation_max_entry_def continuation_ttl_def second_def)

end
