(* ===== verification/Upstream.thy ===== *)
theory Upstream
  imports Continuations Json
begin

text \<open>
  One attempt at one upstream: \<open>internal/provider\<close> (hooks and registry), \<open>internal/upstream\<close>
  (\<open>pool.go\<close>, \<open>defaults.go\<close>, \<open>stream.go\<close>, \<open>NormalizeError\<close> of \<open>execute.go\<close>) and the caller of
  \<open>internal/protocol/openai/sdkcaller.go\<close>. The OpenAI SDK, gjson and sjson are parameters: a
  client is made by \<open>new_client\<close>, a call gives an error or a result, \<open>jexists\<close> and \<open>jset\<close> look at
  and set a field of a raw body.
\<close>

section \<open>Errors\<close>

text \<open>\<open>openai.Error\<close> of the SDK.\<close>

record api_error =
  api_status :: int
  api_type :: string
  api_code :: string
  api_message :: string

text \<open>
  A Go \<open>error\<close> value: its text, what \<open>errors.Is\<close> and \<open>errors.As\<close> find in it, and the attempt error
  it carries if it has an \<open>AttemptError\<close> method.
\<close>

record go_error =
  ge_text :: string
  ge_canceled :: bool
  ge_deadline :: bool
  ge_api :: "api_error option"
  ge_attempt :: "attempt_error option"

definition plain_error :: "string \<Rightarrow> go_error" where
  "plain_error msg =
     \<lparr>ge_text = msg, ge_canceled = False, ge_deadline = False, ge_api = None, ge_attempt = None\<rparr>"

definition sdk_attempt_error :: "attempt_error \<Rightarrow> go_error" where
  "sdk_attempt_error ae = (plain_error (ae_safe_message ae))\<lparr>ge_attempt := Some ae\<rparr>"

definition trim_truncate :: "string \<Rightarrow> nat \<Rightarrow> string" where
  "trim_truncate s n = truncate_str (trim_space s) n"

definition network_hints :: "string list" where
  "network_hints = [''connection refused'', ''no such host'', ''dns'', ''connection reset'', ''tls'']"

text \<open>\<open>NormalizeError\<close> for an error that is not nil.\<close>

definition normalize_error ::
    "(int \<Rightarrow> string \<Rightarrow> string \<Rightarrow> string \<Rightarrow> error_class) \<Rightarrow> candidate \<Rightarrow> go_error \<Rightarrow> int \<Rightarrow> attempt_error" where
  "normalize_error classify c err dur =
     (let ae = (mk_attempt (cd_local_model_id c) (cd_provider_id c) ErrorClient [])\<lparr>ae_duration := dur\<rparr>;
          lower = to_lower (ge_text err) in
      if ge_canceled err \<or> str_contains lower ''context canceled''
      then ae\<lparr>ae_class := ErrorClient, ae_safe_message := ''request cancelled by client''\<rparr>
      else if ge_deadline err \<or> str_contains lower ''deadline exceeded'' \<or> str_contains lower ''timeout''
      then ae\<lparr>ae_class := ErrorTimeout, ae_safe_message := trim_truncate (ge_text err) 300\<rparr>
      else
        (case ge_api err of
           Some api \<Rightarrow>
             (let msg = trim_truncate (api_type api @ '': '' @ api_code api @ '': '' @ api_message api) 300 in
              ae\<lparr>ae_status_code := api_status api,
                 ae_class := classify (api_status api) (api_type api) (api_code api) (api_message api),
                 ae_safe_message := (if msg = [] then trim_truncate (ge_text err) 300 else msg)\<rparr>)
         | None \<Rightarrow>
             ae\<lparr>ae_class := (if list_ex (str_contains lower) network_hints then ErrorNetwork else ErrorUnknown),
                ae_safe_message := trim_truncate (ge_text err) 300\<rparr>))"

section \<open>Providers\<close>

record hook =
  hk_prepare :: "candidate \<Rightarrow> string \<Rightarrow> go_error option"
  hk_classify :: "int \<Rightarrow> string \<Rightarrow> string \<Rightarrow> string \<Rightarrow> error_class"

definition noop_hook :: hook where
  "noop_hook = \<lparr>hk_prepare = (\<lambda>c body. None), hk_classify = classify_body\<rparr>"

record profile =
  pf_id :: string
  pf_hook :: hook

type_synonym registry = "string \<Rightarrow> profile option"

definition default_profile :: "string \<Rightarrow> profile" where
  "default_profile pid = \<lparr>pf_id = pid, pf_hook = noop_hook\<rparr>"

definition profile_for_id :: "string \<Rightarrow> profile" where
  "profile_for_id pid =
     (if pid = ''zen'' then default_profile ''zen''
      else if pid = ''nvidia'' then default_profile ''nvidia''
      else if pid = ''gemini'' then default_profile ''gemini''
      else if pid = ''openrouter'' then default_profile ''openrouter''
      else default_profile pid)"

definition register :: "profile \<Rightarrow> registry \<Rightarrow> registry" where
  "register p r = r(pf_id p := Some p)"

definition default_registry :: registry where
  "default_registry =
     foldl (\<lambda>r pid. register (profile_for_id pid) r) (\<lambda>k. None)
       [''zen'', ''nvidia'', ''gemini'', ''openrouter'']"

definition registry_get :: "registry \<Rightarrow> string \<Rightarrow> profile" where
  "registry_get r pid = (case r pid of Some p \<Rightarrow> p | None \<Rightarrow> default_profile pid)"

section \<open>The client pool\<close>

text \<open>One client per provider of the snapshot that has a key and a base URL.\<close>

definition new_pool :: "(runtime_provider \<Rightarrow> 'cl) \<Rightarrow> runtime_snapshot \<Rightarrow> 'cl gomap" where
  "new_pool new_client snap =
     foldl (\<lambda>pool (pid, rp).
              if rp_api_key rp = [] \<or> rp_base_url rp = [] then pool
              else AList.update pid (new_client rp) pool)
       [] (sn_providers snap)"

definition pool_get ::
    "(runtime_provider \<Rightarrow> 'cl) \<Rightarrow> string \<Rightarrow> runtime_provider option \<Rightarrow> 'cl gomap
      \<Rightarrow> 'cl option \<times> 'cl gomap" where
  "pool_get new_client pid rp pool =
     (case map_of pool pid of
        Some cl \<Rightarrow> (Some cl, pool)
      | None \<Rightarrow>
          (case rp of
             None \<Rightarrow> (None, pool)
           | Some p \<Rightarrow>
               if rp_api_key p = [] then (None, pool)
               else (Some (new_client p), AList.update pid (new_client p) pool)))"

section \<open>Provider defaults and requirements\<close>

text \<open>\<open>ApplyProviderDefaults\<close>: the first failing set gives its error.\<close>

fun apply_provider_defaults ::
    "(string \<Rightarrow> string \<Rightarrow> bool) \<Rightarrow> (string \<Rightarrow> string \<Rightarrow> json \<Rightarrow> go_error + string)
      \<Rightarrow> (string \<times> json) list \<Rightarrow> string \<Rightarrow> go_error + string" where
  "apply_provider_defaults jexists jset [] body = Inr body"
| "apply_provider_defaults jexists jset ((k, v) # extra) body =
     (if k = [] \<or> k = ''model'' \<or> jexists body k
      then apply_provider_defaults jexists jset extra body
      else
        (case jset body k v of
           Inl e \<Rightarrow> Inl e
         | Inr body' \<Rightarrow> apply_provider_defaults jexists jset extra body'))"

definition no_requirements :: requirements where
  "no_requirements = \<lparr>rq_tools = False, rq_vision = False, rq_reasoning = False\<rparr>"

text \<open>\<open>DeriveRequirements\<close>: a body that does not decode needs nothing.\<close>

definition derive_requirements :: "string \<Rightarrow> requirements" where
  "derive_requirements raw =
     (let names = [''tools'', ''input'', ''reasoning''] in
      case unmarshal_struct raw of
        None \<Rightarrow> no_requirements
      | Some ms \<Rightarrow>
          (case (dec_slice [] (field_values names ''tools'' ms),
                 dec_struct_ptr None (field_values names ''reasoning'' ms)) of
             (Some tools, Some reasoning) \<Rightarrow>
               (case (case reasoning of
                        None \<Rightarrow> Some []
                      | Some rs \<Rightarrow> dec_string [] (field_values [''effort''] ''effort'' rs)) of
                  None \<Rightarrow> no_requirements
                | Some effort \<Rightarrow>
                    (let input = (case dec_raw (field_values names ''input'' ms) of
                                    None \<Rightarrow> [] | Some (s, _) \<Rightarrow> to_lower s) in
                     \<lparr>rq_tools = (tools \<noteq> []),
                      rq_vision = (input \<noteq> [] \<and> (str_contains input ''input_image'' \<or> str_contains input ''image_url'')),
                      rq_reasoning = (reasoning \<noteq> None \<and> trim_space effort \<noteq> [])\<rparr>))
           | _ \<Rightarrow> no_requirements))"

section \<open>Commit points of a stream\<close>

record precommit_config =
  pc_max_events :: nat
  pc_max_bytes :: nat

definition default_precommit :: precommit_config where
  "default_precommit = \<lparr>pc_max_events = 32, pc_max_bytes = 64 * 1024\<rparr>"

definition meaningful_types :: "string list" where
  "meaningful_types =
     [''response.output_text.delta'', ''response.refusal.delta'', ''response.refusal.done'',
      ''response.function_call_arguments.delta'', ''response.output_item.added'',
      ''response.content_part.added'', ''response.output_text.done'',
      ''response.function_call_arguments.done'', ''response.output_item.done'',
      ''response.completed'', ''response.failed'', ''response.incomplete'']"

definition is_meaningful_event :: "string \<Rightarrow> string \<Rightarrow> bool" where
  "is_meaningful_event typ p \<longleftrightarrow>
     trim_space typ \<in> set meaningful_types \<or>
     (str_contains p (quote_string ''delta'') \<and>
        (str_contains p (quote_string ''text'') \<or> str_contains p (quote_string ''arguments'') \<or>
         str_contains p (quote_string ''output_text''))) \<or>
     (str_contains p (quote_string ''output'') \<and>
        str_contains p (quote_string ''type'' @ '':'' @ quote_string ''function_call''))"

definition is_lifecycle_event :: "string \<Rightarrow> bool" where
  "is_lifecycle_event typ \<longleftrightarrow>
     trim_space typ \<in> {''response.created'', ''response.in_progress'', ''response.queued''}"

definition is_empty_completion :: "string \<Rightarrow> string \<Rightarrow> bool" where
  "is_empty_completion typ payload =
     (if trim_space typ \<noteq> ''response.completed'' then False
      else
        (case unmarshal_struct payload of
           None \<Rightarrow> False
         | Some ms \<Rightarrow>
             (case dec_struct_ptr None (field_values [''response''] ''response'' ms) of
                None \<Rightarrow> False
              | Some None \<Rightarrow> False
              | Some (Some rs) \<Rightarrow>
                  (case dec_slice [] (field_values [''output''] ''output'' rs) of
                     None \<Rightarrow> False
                   | Some items \<Rightarrow>
                       (case dec_all (elem_string ''type'') items of
                          None \<Rightarrow> False
                        | Some types \<Rightarrow> list_all (\<lambda>t. t = ''reasoning'') types)))))"

text \<open>\<open>ResponsesReasoningItems\<close>: the raw bytes of the reasoning items.\<close>

definition responses_reasoning_items :: "string \<Rightarrow> string list" where
  "responses_reasoning_items raw =
     (case unmarshal_struct raw of
        None \<Rightarrow> []
      | Some ms \<Rightarrow>
          (case dec_slice [] (field_values [''output''] ''output'' ms) of
             None \<Rightarrow> []
           | Some items \<Rightarrow>
               map fst (filter (\<lambda>item. elem_string ''type'' item = Some ''reasoning'') items)))"

section \<open>The caller\<close>

record upstream_result =
  ur_raw_body :: "string option"
  ur_reasoning_content :: string
  ur_reasoning_items :: "string list"
  ur_response_id :: string
  ur_input_tokens :: int
  ur_cached_input_tokens :: int
  ur_cache_write_input_tokens :: int
  ur_output_tokens :: int
  ur_model :: string
  ur_status :: string

definition missing_key_attempt :: "candidate \<Rightarrow> attempt_error" where
  "missing_key_attempt c =
     (mk_attempt [] [] ErrorUnknown (''API key missing for provider '' @ cd_provider_id c))
       \<lparr>ae_skipped := True, ae_skip_reason := ''missing_api_key''\<rparr>"

text \<open>The body as it is sent: model rewritten, provider defaults filled in.\<close>

definition prepare_body ::
    "(string \<Rightarrow> string \<Rightarrow> go_error + string) \<Rightarrow> (string \<Rightarrow> string \<Rightarrow> bool)
      \<Rightarrow> (string \<Rightarrow> string \<Rightarrow> json \<Rightarrow> go_error + string) \<Rightarrow> candidate \<Rightarrow> string \<Rightarrow> go_error + string" where
  "prepare_body rewrite_model jexists jset c raw =
     (case rewrite_model raw (cd_upstream_model c) of
        Inl e \<Rightarrow> Inl e
      | Inr body \<Rightarrow> apply_provider_defaults jexists jset (rm_extra (cd_model c)) body)"

text \<open>
  \<open>DoNonStream\<close>: \<open>execute\<close> is the call with the client, with its result and duration; the updated
  pool comes back.
\<close>

definition do_non_stream ::
    "(runtime_provider \<Rightarrow> 'cl) \<Rightarrow> (string \<Rightarrow> string \<Rightarrow> go_error + string) \<Rightarrow> (string \<Rightarrow> string \<Rightarrow> bool)
      \<Rightarrow> (string \<Rightarrow> string \<Rightarrow> json \<Rightarrow> go_error + string)
      \<Rightarrow> ('cl \<Rightarrow> candidate \<Rightarrow> string \<Rightarrow> (go_error + upstream_result) \<times> int)
      \<Rightarrow> registry \<Rightarrow> candidate \<Rightarrow> string \<Rightarrow> 'cl gomap \<Rightarrow> (go_error + upstream_result) \<times> 'cl gomap" where
  "do_non_stream new_client rewrite_model jexists jset execute reg c raw pool =
     (let hook = pf_hook (registry_get reg (cd_provider_id c)) in
      case pool_get new_client (cd_provider_id c) (cd_provider c) pool of
        (None, pool') \<Rightarrow> (Inl (sdk_attempt_error (missing_key_attempt c)), pool')
      | (Some cl, pool') \<Rightarrow>
          (case prepare_body rewrite_model jexists jset c raw of
             Inl e \<Rightarrow> (Inl e, pool')
           | Inr body \<Rightarrow>
               (case hk_prepare hook c body of
                  Some e \<Rightarrow> (Inl e, pool')
                | None \<Rightarrow>
                    (case execute cl c body of
                       (Inl e, dur) \<Rightarrow>
                         (Inl (sdk_attempt_error (normalize_error (hk_classify hook) c e dur)), pool')
                     | (Inr res, dur) \<Rightarrow> (Inr res, pool')))))"

text \<open>\<open>DoStream\<close>: it does not run \<open>PrepareRequest\<close>, and opens one of the two kinds of stream.\<close>

definition do_stream ::
    "(runtime_provider \<Rightarrow> 'cl) \<Rightarrow> (string \<Rightarrow> string \<Rightarrow> go_error + string) \<Rightarrow> (string \<Rightarrow> string \<Rightarrow> bool)
      \<Rightarrow> (string \<Rightarrow> string \<Rightarrow> json \<Rightarrow> go_error + string)
      \<Rightarrow> ('cl \<Rightarrow> candidate \<Rightarrow> string \<Rightarrow> go_error + 'st) \<Rightarrow> ('cl \<Rightarrow> candidate \<Rightarrow> string \<Rightarrow> go_error + 'st)
      \<Rightarrow> registry \<Rightarrow> candidate \<Rightarrow> string \<Rightarrow> 'cl gomap \<Rightarrow> (go_error + 'st) \<times> 'cl gomap" where
  "do_stream new_client rewrite_model jexists jset open_chat open_responses reg c raw pool =
     (let hook = pf_hook (registry_get reg (cd_provider_id c)) in
      case pool_get new_client (cd_provider_id c) (cd_provider c) pool of
        (None, pool') \<Rightarrow> (Inl (sdk_attempt_error (missing_key_attempt c)), pool')
      | (Some cl, pool') \<Rightarrow>
          (case prepare_body rewrite_model jexists jset c raw of
             Inl e \<Rightarrow> (Inl e, pool')
           | Inr body \<Rightarrow>
               (let opened =
                  (if (case cd_provider c of None \<Rightarrow> False | Some p \<Rightarrow> rp_wire_api p = ''chat_completions'')
                   then open_chat cl c body else open_responses cl c body) in
                case opened of
                  Inl e \<Rightarrow> (Inl (sdk_attempt_error (normalize_error (hk_classify hook) c e 0)), pool')
                | Inr st \<Rightarrow> (Inr st, pool'))))"

definition normalize_stream_error :: "registry \<Rightarrow> candidate \<Rightarrow> go_error \<Rightarrow> attempt_error" where
  "normalize_stream_error reg c err =
     normalize_error (hk_classify (pf_hook (registry_get reg (cd_provider_id c)))) c err 0"

section \<open>Lemmas\<close>

lemma normalize_error_ids [simp]:
  "ae_candidate (normalize_error f c err dur) = cd_local_model_id c"
  "ae_provider (normalize_error f c err dur) = cd_provider_id c"
  "ae_skipped (normalize_error f c err dur) = False"
  by (simp_all add: normalize_error_def Let_def mk_attempt_def split: option.split)

lemma registry_get_default: "registry_get default_registry pid = default_profile pid"
  by (simp add: registry_get_def default_registry_def register_def profile_for_id_def default_profile_def)

lemma registry_get_default_hook [simp]: "pf_hook (registry_get default_registry pid) = noop_hook"
  by (simp add: registry_get_default default_profile_def)

lemma new_pool_lookup:
  assumes "gomap_ok (sn_providers snap)"
  shows "map_of (new_pool new_client snap) pid =
    (case map_of (sn_providers snap) pid of
       None \<Rightarrow> None
     | Some rp \<Rightarrow> if rp_api_key rp = [] \<or> rp_base_url rp = [] then None else Some (new_client rp))"
proof -
  let ?f = "\<lambda>pool (pid, rp). if rp_api_key rp = [] \<or> rp_base_url rp = [] then pool
              else AList.update pid (new_client rp) pool"
  have "map_of (foldl ?f acc ps) pid =
      (case map_of ps pid of
         None \<Rightarrow> map_of acc pid
       | Some rp \<Rightarrow> if rp_api_key rp = [] \<or> rp_base_url rp = [] then map_of acc pid else Some (new_client rp))"
    if "distinct (map fst ps)" for acc ps
    using that
  proof (induction ps arbitrary: acc)
    case Nil
    then show ?case by simp
  next
    case (Cons x ps)
    obtain k rp where x: "x = (k, rp)" by (cases x)
    have "map_of ps k = None" using Cons.prems by (simp add: x map_of_eq_None_iff)
    with Cons show ?case by (simp add: x update_conv' split: option.split)
  qed
  from this [of "sn_providers snap" "[]"] assms show ?thesis
    by (simp add: new_pool_def gomap_ok_def split: option.split)
qed

text \<open>A pool that only holds clients of providers of the snapshot, with their keys.\<close>

definition pool_ok :: "(runtime_provider \<Rightarrow> 'cl) \<Rightarrow> runtime_snapshot \<Rightarrow> 'cl gomap \<Rightarrow> bool" where
  "pool_ok new_client snap pool \<longleftrightarrow>
     (\<forall>pid cl. map_of pool pid = Some cl \<longrightarrow>
        (\<exists>rp. map_of (sn_providers snap) pid = Some rp \<and> rp_api_key rp \<noteq> [] \<and> cl = new_client rp))"

lemma new_pool_ok: "gomap_ok (sn_providers snap) \<Longrightarrow> pool_ok new_client snap (new_pool new_client snap)"
  by (auto simp: pool_ok_def new_pool_lookup split: option.splits if_splits)

lemma pool_get_own:
  assumes "pool_ok new_client snap pool" and "map_of (sn_providers snap) pid = Some rp"
  shows "fst (pool_get new_client pid (Some rp) pool) =
      (if rp_api_key rp = [] then None else Some (new_client rp)) \<and>
    pool_ok new_client snap (snd (pool_get new_client pid (Some rp) pool))"
proof (cases "map_of pool pid")
  case None
  with assms show ?thesis by (auto simp: pool_get_def pool_ok_def update_conv')
next
  case (Some cl)
  with assms have "rp_api_key rp \<noteq> [] \<and> cl = new_client rp" unfolding pool_ok_def by force
  with Some assms(1) show ?thesis by (simp add: pool_get_def)
qed

section \<open>Properties\<close>

text \<open>
  Which upstream errors stop a request. An error ends failover as the client's fault exactly
  when it is a cancellation (by identity or by its text), or it is neither a timeout by identity or
  text nor anything but an API error whose status and body are classified as the client's.
\<close>

lemma normalize_error_client_iff:
  "ae_class (normalize_error classify c err dur) = ErrorClient \<longleftrightarrow>
     (ge_canceled err \<or> (\<exists>u v. to_lower (ge_text err) = u @ ''context canceled'' @ v)) \<or>
     (\<not> (ge_deadline err \<or> (\<exists>u v. to_lower (ge_text err) = u @ ''deadline exceeded'' @ v) \<or>
         (\<exists>u v. to_lower (ge_text err) = u @ ''timeout'' @ v)) \<and>
      (\<exists>api. ge_api err = Some api \<and>
         classify (api_status api) (api_type api) (api_code api) (api_message api) = ErrorClient))"
  unfolding normalize_error_def Let_def str_contains_iff mk_attempt_def
  by (cases "ge_canceled err \<or> (\<exists>u v. to_lower (ge_text err) = u @ ''context canceled'' @ v)";
      cases "ge_deadline err \<or> (\<exists>u v. to_lower (ge_text err) = u @ ''deadline exceeded'' @ v) \<or>
         (\<exists>u v. to_lower (ge_text err) = u @ ''timeout'' @ v)")
    (simp_all split: option.split)

text \<open>
  A failure message is short. The message of every normalized error has at most 300 bytes.
\<close>

lemma normalize_error_message_bounded:
  "length (ae_safe_message (normalize_error classify c err dur)) \<le> 300"
  using truncate_str_length [of _ 300]
  by (simp add: normalize_error_def Let_def trim_truncate_def mk_attempt_def split: option.split)

text \<open>
  A provider is only called with its own key. For a candidate of the snapshot, a call of the
  caller either fails with a skipped attempt because the provider has no key, or depends on nothing
  but the client made from that provider's own entry; the pool stays one of such clients.
\<close>

lemma do_non_stream_own_client:
  assumes "pool_ok new_client snap pool" and "map_of (sn_providers snap) (cd_provider_id c) = Some rp"
    and "cd_provider c = Some rp"
    and "\<And>body. execute (new_client rp) c body = execute' (new_client rp) c body"
  shows "do_non_stream new_client rewrite jexists jset execute reg c raw pool =
      do_non_stream new_client rewrite jexists jset execute' reg c raw pool \<and>
    (rp_api_key rp = [] \<longrightarrow> fst (do_non_stream new_client rewrite jexists jset execute reg c raw pool) =
       Inl (sdk_attempt_error (missing_key_attempt c))) \<and>
    pool_ok new_client snap (snd (do_non_stream new_client rewrite jexists jset execute reg c raw pool))"
proof -
  obtain clo pool' where g: "pool_get new_client (cd_provider_id c) (Some rp) pool = (clo, pool')"
    by (cases "pool_get new_client (cd_provider_id c) (Some rp) pool")
  with pool_get_own [OF assms(1,2)] have own: "clo = (if rp_api_key rp = [] then None else Some (new_client rp))"
    and ok: "pool_ok new_client snap pool'" by auto
  show ?thesis
  proof (cases "rp_api_key rp = []")
    case True
    with own ok g assms(3) show ?thesis by (simp add: do_non_stream_def Let_def)
  next
    case False
    with own ok g assms(3,4) show ?thesis
      by (simp add: do_non_stream_def Let_def split: sum.split option.split prod.split)
  qed
qed

definition sample_provider :: runtime_provider where
  "sample_provider =
     \<lparr>rp_id = ''zen'', rp_base_url = ''https://opencode.ai/zen/v1'', rp_api_key = ''key'',
      rp_wire_api = ''responses'', rp_headers = []\<rparr>"

lemma do_non_stream_own_client_witness:
  "\<exists>c. cd_provider c = map_of (sn_providers sample_snapshot) ''zen'' \<and>
     pool_ok rp_api_key sample_snapshot
       (snd (do_non_stream rp_api_key (\<lambda>b m. Inr b) (\<lambda>b k. False) (\<lambda>b k v. Inr b)
          (\<lambda>cl c b. (Inl (plain_error cl), 0)) default_registry c ''{}'' (new_pool rp_api_key sample_snapshot)))"
proof -
  have ok: "gomap_ok (sn_providers sample_snapshot)"
    by (simp add: sample_snapshot_def sample_config_def gomap_ok_def)
  from sample_snapshot_lookups(3) obtain p where p: "map_of (sn_providers sample_snapshot) ''zen'' = Some p" ..
  let ?c = "sample_candidate\<lparr>cd_provider := Some p\<rparr>"
  have "map_of (sn_providers sample_snapshot) (cd_provider_id ?c) = Some p"
    by (simp add: sample_candidate_def p)
  from do_non_stream_own_client [OF new_pool_ok [OF ok] this, where execute = "\<lambda>cl c b. (Inl (plain_error cl), 0)"
      and execute' = "\<lambda>cl c b. (Inl (plain_error cl), 0)" and rewrite = "\<lambda>b m. Inr b"
      and jexists = "\<lambda>b k. False" and jset = "\<lambda>b k v. Inr b" and reg = default_registry and raw = "''{}''"]
  show ?thesis by (intro exI [of _ ?c]) (simp add: p)
qed

text \<open>
  A completed event counts as empty exactly when its payload decodes to a
  response whose output items are all reasoning; such an event is still a commit point by its type,
  so the emptiness test has to come first.
\<close>

lemma is_empty_completion_iff:
  "is_empty_completion typ payload \<longleftrightarrow>
     trim_space typ = ''response.completed'' \<and>
     (\<exists>ms rs items types. unmarshal_struct payload = Some ms \<and>
        dec_struct_ptr None (field_values [''response''] ''response'' ms) = Some (Some rs) \<and>
        dec_slice [] (field_values [''output''] ''output'' rs) = Some items \<and>
        dec_all (elem_string ''type'') items = Some types \<and> set types \<subseteq> {''reasoning''}) \<and>
     is_meaningful_event typ payload"
  by (auto simp: is_empty_completion_def is_meaningful_event_def meaningful_types_def list_all_iff
      split: option.splits)

end
