(* ===== verification/Failover.thy ===== *)
theory Failover
  imports Upstream
begin

text \<open>
  The failover loop. Four places run it: \<open>ExecuteNonStream\<close> of \<open>internal/protocol/openai/handler.go\<close>
  and the three loops of \<open>internal/server\<close> (\<open>responses_stream.go\<close>, \<open>messages.go\<close>,
  \<open>messages_stream.go\<close>). What they share is the locale \<open>failover_loop\<close>: a provider that
  answered 401 or 403 is skipped from then on, a provider without a key is skipped, every
  candidate leaves one attempt, and a client error ends the loop. The upstream is an oracle: the
  outcome of the call made as the n-th attempt.
\<close>

section \<open>Skipping and recording\<close>

definition auth_skip_attempt :: "candidate \<Rightarrow> attempt_error" where
  "auth_skip_attempt c =
     (mk_attempt (cd_local_model_id c) (cd_provider_id c) ErrorAuth ''provider skipped after auth failure'')
       \<lparr>ae_skipped := True, ae_skip_reason := ''provider_auth_failed''\<rparr>"

definition key_skip_attempt :: "candidate \<Rightarrow> attempt_error" where
  "key_skip_attempt c =
     (mk_attempt (cd_local_model_id c) (cd_provider_id c) ErrorUnknown
        (''API key missing for provider '' @ cd_provider_id c))
       \<lparr>ae_skipped := True, ae_skip_reason := ''missing_api_key''\<rparr>"

text \<open>The two guards at the head of every loop body; \<open>auth\<close> is the set \<open>authFailed\<close>.\<close>

definition skip_attempt :: "string list \<Rightarrow> candidate \<Rightarrow> attempt_error option" where
  "skip_attempt auth c =
     (if cd_provider_id c \<in> set auth then Some (auth_skip_attempt c)
      else
        (case cd_provider c of
           None \<Rightarrow> Some (key_skip_attempt c)
         | Some p \<Rightarrow> if rp_api_key p = [] then Some (key_skip_attempt c) else None))"

definition auth_failure :: "attempt_error \<Rightarrow> bool" where
  "auth_failure ae \<longleftrightarrow> ae_class ae = ErrorAuth \<and> (ae_status_code ae = 401 \<or> ae_status_code ae = 403)"

definition note_auth :: "candidate \<Rightarrow> attempt_error \<Rightarrow> string list \<Rightarrow> string list" where
  "note_auth c ae auth = (if auth_failure ae then cd_provider_id c # auth else auth)"

text \<open>\<open>extractAttempt\<close> and \<open>classifyCallerError\<close>: the attempt a failed call leaves.\<close>

definition own_attempt :: "candidate \<Rightarrow> int \<Rightarrow> attempt_error \<Rightarrow> attempt_error" where
  "own_attempt c dur ae =
     ae\<lparr>ae_candidate := cd_local_model_id c, ae_provider := cd_provider_id c, ae_duration := dur\<rparr>"

definition extract_attempt :: "candidate \<Rightarrow> go_error \<Rightarrow> int \<Rightarrow> attempt_error" where
  "extract_attempt c err dur =
     own_attempt c dur
       (case ge_attempt err of
          Some ae \<Rightarrow> ae
        | None \<Rightarrow> mk_attempt [] [] ErrorUnknown (truncate_str (ge_text err) 300))"

definition classify_caller_error :: "candidate \<Rightarrow> go_error \<Rightarrow> int \<Rightarrow> attempt_error" where
  "classify_caller_error c err dur =
     own_attempt c dur
       (case ge_attempt err of
          Some ae \<Rightarrow> ae
        | None \<Rightarrow>
            (let msg = trim_space (ge_text err); lower = to_lower msg in
             mk_attempt [] []
               (if str_contains lower ''context canceled'' \<or> str_contains lower ''client closed'' then ErrorClient
                else if str_contains lower ''deadline exceeded'' \<or> str_contains lower ''timeout'' then ErrorTimeout
                else ErrorUnknown) msg))"

section \<open>The contract of a failover loop\<close>

locale failover_loop =
  fixes step :: "candidate \<Rightarrow> 's \<Rightarrow> ('s, 'r) ctl"
    and auth :: "'s \<Rightarrow> string list"
    and attempts :: "'s \<Rightarrow> attempt_error list"
  assumes skip_step: "skip_attempt (auth s) c = Some ae \<Longrightarrow>
      \<exists>s'. step c s = Continue s' \<and> attempts s' = attempts s @ [ae] \<and> auth s' = auth s"
    and fail_step: "skip_attempt (auth s) c = None \<Longrightarrow> step c s = Continue s' \<Longrightarrow>
      \<exists>ae. attempts s' = attempts s @ [ae] \<and> auth s' = note_auth c ae (auth s) \<and>
        ae_candidate ae = cd_local_model_id c \<and> ae_provider ae = cd_provider_id c \<and>
        ae_class ae \<noteq> ErrorClient"
begin

lemma continue_step:
  assumes "step c s = Continue s'"
  obtains ae where "attempts s' = attempts s @ [ae]" "ae_candidate ae = cd_local_model_id c"
    "ae_provider ae = cd_provider_id c" "ae_class ae \<noteq> ErrorClient"
    "skip_attempt (auth s) c = Some ae \<and> auth s' = auth s \<or>
     skip_attempt (auth s) c = None \<and> auth s' = note_auth c ae (auth s)"
proof (cases "skip_attempt (auth s) c")
  case None
  from fail_step [OF this assms] None that show ?thesis by blast
next
  case (Some ae)
  with skip_step [OF Some] assms have "attempts s' = attempts s @ [ae]" "auth s' = auth s" by auto
  moreover from Some have "ae_candidate ae = cd_local_model_id c" "ae_provider ae = cd_provider_id c"
    "ae_class ae \<noteq> ErrorClient"
    by (auto simp: skip_attempt_def auth_skip_attempt_def key_skip_attempt_def mk_attempt_def
        split: if_splits option.splits)
  ultimately show ?thesis using Some that by blast
qed

text \<open>One attempt per candidate, in order, none the client's fault.\<close>

lemma attempts_in_order:
  "for_range step cs s = Continue s' \<Longrightarrow>
   \<exists>new. attempts s' = attempts s @ new \<and> map ae_candidate new = map cd_local_model_id cs \<and>
     map ae_provider new = map cd_provider_id cs \<and> list_all (\<lambda>ae. ae_class ae \<noteq> ErrorClient) new"
proof (induction cs arbitrary: s)
  case Nil
  then show ?case by simp
next
  case (Cons c cs)
  from Cons.prems obtain s1 where s1: "step c s = Continue s1" and r: "for_range step cs s1 = Continue s'"
    by (auto split: ctl.splits)
  from s1 obtain ae where "attempts s1 = attempts s @ [ae]" "ae_candidate ae = cd_local_model_id c"
    "ae_provider ae = cd_provider_id c" "ae_class ae \<noteq> ErrorClient"
    by (rule continue_step) blast
  with Cons.IH [OF r] show ?case by (auto intro: exI [of _ "ae # _"])
qed

text \<open>The set of skipped providers is the set of those whose attempts failed authentication.\<close>

definition auth_inv :: "'s \<Rightarrow> bool" where
  "auth_inv s \<longleftrightarrow>
     set (auth s) = ae_provider ` set (filter auth_failure (attempts s)) \<and>
     (\<forall>i j. i < j \<longrightarrow> j < length (attempts s) \<longrightarrow> auth_failure (attempts s ! i) \<longrightarrow>
        ae_provider (attempts s ! i) = ae_provider (attempts s ! j) \<longrightarrow> ae_skipped (attempts s ! j))"

lemma auth_inv_step:
  assumes inv: "auth_inv s" and st: "step c s = Continue s'"
  shows "auth_inv s'"
proof -
  obtain ae where ae: "attempts s' = attempts s @ [ae]" "ae_candidate ae = cd_local_model_id c"
    "ae_provider ae = cd_provider_id c"
    and how: "skip_attempt (auth s) c = Some ae \<and> auth s' = auth s \<or>
     skip_attempt (auth s) c = None \<and> auth s' = note_auth c ae (auth s)"
    using st by (rule continue_step) blast
  have skipped: "ae_skipped ae \<and> \<not> auth_failure ae" if "skip_attempt (auth s) c = Some ae"
    using that by (auto simp: skip_attempt_def auth_skip_attempt_def key_skip_attempt_def mk_attempt_def
        auth_failure_def split: if_splits option.splits)
  have "set (auth s) = ae_provider ` set (filter auth_failure (attempts s))"
    using inv unfolding auth_inv_def by blast
  with how skipped ae have provs: "set (auth s') = ae_provider ` set (filter auth_failure (attempts s'))"
    by (cases "auth_failure ae") (auto simp: note_auth_def)
  have "ae_skipped (attempts s' ! j)"
    if "i < j" "j < length (attempts s')" "auth_failure (attempts s' ! i)"
      "ae_provider (attempts s' ! i) = ae_provider (attempts s' ! j)" for i j
  proof (cases "j < length (attempts s)")
    case True
    with that have "auth_failure (attempts s ! i)"
      "ae_provider (attempts s ! i) = ae_provider (attempts s ! j)" "attempts s' ! j = attempts s ! j"
      by (simp_all add: ae(1) nth_append)
    with True that(1) inv show ?thesis unfolding auth_inv_def by metis
  next
    case False
    with that have j: "j = length (attempts s)" by (simp add: ae(1))
    with that have "attempts s ! i \<in> set (attempts s)" "auth_failure (attempts s ! i)"
      "ae_provider (attempts s ! i) = cd_provider_id c"
      by (simp_all add: ae nth_append)
    then have "cd_provider_id c \<in> ae_provider ` set (filter auth_failure (attempts s))" by force
    then have "cd_provider_id c \<in> set (auth s)" using inv unfolding auth_inv_def by blast
    with how have "skip_attempt (auth s) c = Some ae" by (simp add: skip_attempt_def)
    with skipped show ?thesis by (simp add: ae(1) j)
  qed
  with provs show ?thesis unfolding auth_inv_def by blast
qed

lemma auth_inv_loop:
  "auth_inv s \<Longrightarrow> for_range step cs s = Continue s' \<Longrightarrow> auth_inv s'"
  by (rule for_range_invariant [where P = auth_inv]) (auto intro: auth_inv_step)

lemma auth_respected:
  assumes "attempts s = []" "auth s = []" "for_range step cs s = Continue s'"
    and "i < j" "j < length (attempts s')" "auth_failure (attempts s' ! i)"
    and "ae_provider (attempts s' ! i) = ae_provider (attempts s' ! j)"
  shows "ae_skipped (attempts s' ! j)"
proof -
  have "auth_inv s" using assms(1,2) by (simp add: auth_inv_def)
  from auth_inv_loop [OF this assms(3)] assms(4-7) show ?thesis unfolding auth_inv_def by blast
qed

text \<open>A loop that returns does so at a candidate with a key whose provider has not failed authentication.\<close>

lemma returns_at:
  assumes "for_range step cs s = Return r"
  obtains ds c es s' new where "cs = ds @ c # es" "step c s' = Return r"
    "for_range step ds s = Continue s'" "attempts s' = attempts s @ new"
    "map ae_candidate new = map cd_local_model_id ds" "list_all (\<lambda>ae. ae_class ae \<noteq> ErrorClient) new"
    "skip_attempt (auth s') c = None"
proof -
  obtain ds c es s' where h: "cs = ds @ c # es" "for_range step ds s = Continue s'" "step c s' = Return r"
    using assms [unfolded for_range_Return_split] by blast
  have "skip_attempt (auth s') c = None"
    using skip_step [of s' c] h(3) by (cases "skip_attempt (auth s') c") auto
  from attempts_in_order [OF h(2)] obtain new where "attempts s' = attempts s @ new"
    "map ae_candidate new = map cd_local_model_id ds" "list_all (\<lambda>ae. ae_class ae \<noteq> ErrorClient) new" by blast
  then show ?thesis
    using that [OF h(1) h(3) h(2) _ _ _ \<open>skip_attempt (auth s') c = None\<close>] by blast
qed

end

section \<open>ExecuteNonStream\<close>

record loop_state =
  ls_auth :: "string list"
  ls_attempts :: "attempt_error list"

definition loop_start :: loop_state where
  "loop_start = \<lparr>ls_auth = [], ls_attempts = []\<rparr>"

definition add_attempt :: "attempt_error \<Rightarrow> loop_state \<Rightarrow> loop_state" where
  "add_attempt ae s = s\<lparr>ls_attempts := ls_attempts s @ [ae]\<rparr>"

definition add_failure :: "candidate \<Rightarrow> attempt_error \<Rightarrow> loop_state \<Rightarrow> loop_state" where
  "add_failure c ae s = \<lparr>ls_auth = note_auth c ae (ls_auth s), ls_attempts = ls_attempts s @ [ae]\<rparr>"

lemma loop_state_sel [simp]:
  "ls_attempts (add_attempt ae s) = ls_attempts s @ [ae]"
  "ls_auth (add_attempt ae s) = ls_auth s"
  "ls_attempts (add_failure c ae s) = ls_attempts s @ [ae]"
  "ls_auth (add_failure c ae s) = note_auth c ae (ls_auth s)"
  "ls_auth loop_start = []" "ls_attempts loop_start = []"
  by (simp_all add: add_attempt_def add_failure_def loop_start_def)

text \<open>What a call comes back with: its result, how long it took, whether the context is done.\<close>

record call_outcome =
  co_result :: "go_error + upstream_result"
  co_duration :: int
  co_ctx_done :: bool

record outcome =
  oc_candidate :: "candidate option"
  oc_result :: "upstream_result option"
  oc_attempts :: "attempt_error list"

definition exec_step ::
    "(nat \<Rightarrow> candidate \<Rightarrow> call_outcome) \<Rightarrow> (string \<Rightarrow> string) option \<Rightarrow> candidate \<Rightarrow> loop_state
      \<Rightarrow> (loop_state, outcome \<times> attempt_error option) ctl" where
  "exec_step upstream rewrite c s =
     (case skip_attempt (ls_auth s) c of
        Some ae \<Rightarrow> Continue (add_attempt ae s)
      | None \<Rightarrow>
          (let r = upstream (length (ls_attempts s)) c in
           case co_result r of
             Inr res \<Rightarrow>
               (let res' = (case (rewrite, ur_raw_body res) of
                              (Some f, Some b) \<Rightarrow> res\<lparr>ur_raw_body := Some (f b)\<rparr>
                            | _ \<Rightarrow> res) in
                Return (\<lparr>oc_candidate = Some c, oc_result = Some res', oc_attempts = ls_attempts s\<rparr>, None))
           | Inl err \<Rightarrow>
               (let ae = classify_caller_error c err (co_duration r); s' = add_failure c ae s in
                if ae_class ae = ErrorClient
                then Return (\<lparr>oc_candidate = None, oc_result = None, oc_attempts = ls_attempts s'\<rparr>, Some ae)
                else if co_ctx_done r then
                  (let ce = mk_attempt (cd_local_model_id c) (cd_provider_id c) ErrorClient
                              ''request cancelled by client'' in
                   Return (\<lparr>oc_candidate = None, oc_result = None, oc_attempts = ls_attempts s' @ [ce]\<rparr>, Some ce))
                else Continue s')))"

definition execute_non_stream ::
    "(nat \<Rightarrow> candidate \<Rightarrow> call_outcome) \<Rightarrow> (string \<Rightarrow> string) option \<Rightarrow> candidate list
      \<Rightarrow> outcome \<times> attempt_error option" where
  "execute_non_stream upstream rewrite cands =
     (case for_range (exec_step upstream rewrite) cands loop_start of
        Return r \<Rightarrow> r
      | Continue s \<Rightarrow>
          (\<lparr>oc_candidate = None, oc_result = None, oc_attempts = ls_attempts s\<rparr>,
           Some (if ls_attempts s = [] then mk_attempt [] [] ErrorUnknown ''no usable candidates''
                 else last (ls_attempts s))))"

definition all_key_missing :: "attempt_error list \<Rightarrow> bool" where
  "all_key_missing atts \<longleftrightarrow> atts \<noteq> [] \<and> list_all ae_skipped atts"

lemma own_attempt_sel [simp]:
  "ae_candidate (own_attempt c d ae) = cd_local_model_id c"
  "ae_provider (own_attempt c d ae) = cd_provider_id c"
  "ae_class (own_attempt c d ae) = ae_class ae"
  "ae_skipped (own_attempt c d ae) = ae_skipped ae"
  "ae_duration (own_attempt c d ae) = d"
  "ae_safe_message (own_attempt c d ae) = ae_safe_message ae"
  "ae_status_code (own_attempt c d ae) = ae_status_code ae"
  by (simp_all add: own_attempt_def)

interpretation nonstream: failover_loop "exec_step upstream rewrite" ls_auth ls_attempts
proof
  fix s s' :: loop_state and c :: candidate and ae :: attempt_error
  show "\<exists>s'. exec_step upstream rewrite c s = Continue s' \<and> ls_attempts s' = ls_attempts s @ [ae] \<and>
      ls_auth s' = ls_auth s" if "skip_attempt (ls_auth s) c = Some ae"
    using that by (simp add: exec_step_def)
  show "\<exists>ae. ls_attempts s' = ls_attempts s @ [ae] \<and> ls_auth s' = note_auth c ae (ls_auth s) \<and>
      ae_candidate ae = cd_local_model_id c \<and> ae_provider ae = cd_provider_id c \<and> ae_class ae \<noteq> ErrorClient"
    if n: "skip_attempt (ls_auth s) c = None" and st: "exec_step upstream rewrite c s = Continue s'"
  proof -
    obtain err where err: "co_result (upstream (length (ls_attempts s)) c) = Inl err"
      using st n by (auto simp: exec_step_def Let_def split: sum.splits)
    let ?ae = "classify_caller_error c err (co_duration (upstream (length (ls_attempts s)) c))"
    have "s' = add_failure c ?ae s" "ae_class ?ae \<noteq> ErrorClient"
      using st n err by (simp_all add: exec_step_def Let_def split: if_splits)
    then show ?thesis by (intro exI [of _ ?ae]) (simp add: classify_caller_error_def)
  qed
qed

section \<open>Properties\<close>

lemma exec_step_Return:
  assumes "exec_step upstream rewrite c s = Return (oc, le)"
  obtains
    (answered) res where "skip_attempt (ls_auth s) c = None" "co_result (upstream (length (ls_attempts s)) c) = Inr res"
      "oc = \<lparr>oc_candidate = Some c,
             oc_result = Some (case rewrite of None \<Rightarrow> res | Some f \<Rightarrow> res\<lparr>ur_raw_body := map_option f (ur_raw_body res)\<rparr>),
             oc_attempts = ls_attempts s\<rparr>" "le = None"
  | (refused) err ae where "skip_attempt (ls_auth s) c = None" "co_result (upstream (length (ls_attempts s)) c) = Inl err"
      "ae = classify_caller_error c err (co_duration (upstream (length (ls_attempts s)) c))" "ae_class ae = ErrorClient"
      "oc = \<lparr>oc_candidate = None, oc_result = None, oc_attempts = ls_attempts s @ [ae]\<rparr>" "le = Some ae"
  | (cancelled) err ae ce where "skip_attempt (ls_auth s) c = None"
      "co_result (upstream (length (ls_attempts s)) c) = Inl err"
      "ae = classify_caller_error c err (co_duration (upstream (length (ls_attempts s)) c))" "ae_class ae \<noteq> ErrorClient"
      "co_ctx_done (upstream (length (ls_attempts s)) c)"
      "ce = mk_attempt (cd_local_model_id c) (cd_provider_id c) ErrorClient ''request cancelled by client''"
      "oc = \<lparr>oc_candidate = None, oc_result = None, oc_attempts = ls_attempts s @ [ae, ce]\<rparr>" "le = Some ce"
proof -
  have skip: "skip_attempt (ls_auth s) c = None"
    using assms by (cases "skip_attempt (ls_auth s) c") (simp_all add: exec_step_def)
  show ?thesis
  proof (cases "co_result (upstream (length (ls_attempts s)) c)")
    case (Inr res)
    have "(case (rewrite, ur_raw_body res) of (Some f, Some b) \<Rightarrow> res\<lparr>ur_raw_body := Some (f b)\<rparr> | _ \<Rightarrow> res) =
        (case rewrite of None \<Rightarrow> res | Some f \<Rightarrow> res\<lparr>ur_raw_body := map_option f (ur_raw_body res)\<rparr>)"
      by (cases res) (simp split: option.split)
    then show ?thesis using assms Inr skip by (intro answered [of res]) (simp_all add: exec_step_def Let_def)
  next
    case (Inl err)
    let ?ae = "classify_caller_error c err (co_duration (upstream (length (ls_attempts s)) c))"
    show ?thesis
    proof (cases "ae_class ?ae = ErrorClient")
      case True
      with assms Inl skip show ?thesis by (intro refused [of err ?ae]) (auto simp: exec_step_def Let_def)
    next
      case False
      with assms Inl skip show ?thesis
        by (intro cancelled [of err ?ae]) (auto simp: exec_step_def Let_def split: if_splits)
    qed
  qed
qed

text \<open>
  What the recorded attempts stand for: the i-th candidate was skipped, or the call made as the i-th
  attempt failed with the recorded error.
\<close>

definition explained :: "(nat \<Rightarrow> candidate \<Rightarrow> call_outcome) \<Rightarrow> nat \<Rightarrow> candidate \<Rightarrow> attempt_error \<Rightarrow> bool" where
  "explained upstream n c ae \<longleftrightarrow>
     ae = auth_skip_attempt c \<or> ae = key_skip_attempt c \<or>
     (case co_result (upstream n c) of
        Inl err \<Rightarrow> ae = classify_caller_error c err (co_duration (upstream n c))
      | Inr res \<Rightarrow> False)"

definition all_explained :: "(nat \<Rightarrow> candidate \<Rightarrow> call_outcome) \<Rightarrow> candidate list \<Rightarrow> attempt_error list \<Rightarrow> bool" where
  "all_explained upstream cs atts \<longleftrightarrow>
     length atts = length cs \<and>
     list_all (\<lambda>(i, c, ae). explained upstream i c ae) (List.enumerate 0 (zip cs atts)) \<and>
     list_all (\<lambda>ae. ae_class ae \<noteq> ErrorClient) atts"

lemma all_explained_Nil [simp]: "all_explained upstream [] []"
  by (simp add: all_explained_def)

lemma all_explained_snoc:
  "all_explained upstream cs atts \<Longrightarrow> explained upstream (length cs) c ae \<Longrightarrow> ae_class ae \<noteq> ErrorClient \<Longrightarrow>
     all_explained upstream (cs @ [c]) (atts @ [ae])"
  by (simp add: all_explained_def enumerate_append_eq)

lemma exec_step_Continue:
  assumes "exec_step upstream rewrite c s = Continue s'"
  obtains ae where "ls_attempts s' = ls_attempts s @ [ae]" "explained upstream (length (ls_attempts s)) c ae"
    "ae_class ae \<noteq> ErrorClient"
proof (cases "skip_attempt (ls_auth s) c")
  case (Some ae)
  with assms have "ls_attempts s' = ls_attempts s @ [ae]" by (auto simp: exec_step_def)
  moreover have "explained upstream (length (ls_attempts s)) c ae" "ae_class ae \<noteq> ErrorClient"
    using Some by (auto simp: explained_def skip_attempt_def auth_skip_attempt_def key_skip_attempt_def mk_attempt_def
        split: if_splits option.splits)
  ultimately show ?thesis by (rule that)
next
  case None
  then obtain err where err: "co_result (upstream (length (ls_attempts s)) c) = Inl err"
    using assms by (auto simp: exec_step_def Let_def split: sum.splits)
  let ?ae = "classify_caller_error c err (co_duration (upstream (length (ls_attempts s)) c))"
  have "s' = add_failure c ?ae s" "ae_class ?ae \<noteq> ErrorClient"
    using assms None err by (simp_all add: exec_step_def Let_def split: if_splits)
  then show ?thesis using err by (intro that [of ?ae]) (simp_all add: explained_def)
qed

lemma attempts_explained:
  "for_range (exec_step upstream rewrite) cs s = Continue s' \<Longrightarrow>
     all_explained upstream ds (ls_attempts s) \<Longrightarrow> all_explained upstream (ds @ cs) (ls_attempts s')"
proof (induction cs arbitrary: s ds)
  case (Cons c cs)
  from Cons.prems(1) obtain s1 where s1: "exec_step upstream rewrite c s = Continue s1"
    and r: "for_range (exec_step upstream rewrite) cs s1 = Continue s'"
    by (auto split: ctl.splits)
  from s1 obtain ae where "ls_attempts s1 = ls_attempts s @ [ae]" "explained upstream (length (ls_attempts s)) c ae"
    "ae_class ae \<noteq> ErrorClient"
    by (rule exec_step_Continue)
  then have "all_explained upstream (ds @ [c]) (ls_attempts s1)"
    using all_explained_snoc [OF Cons.prems(2)] Cons.prems(2) by (simp add: all_explained_def)
  from Cons.IH [OF r this] show ?case by simp
qed simp


text \<open>
  C10 (a provider that refused the key is not asked again). In every run, successful, failed, refused or
  cancelled: after an attempt of a provider failed with 401 or 403, every later attempt of that provider is a
  skip, except the note that the client cancelled during that very attempt, which ends the run; and the
  candidate that answers is never of such a provider.
\<close>

theorem execute_non_stream_auth:
  assumes "execute_non_stream upstream rewrite cands = (oc, le)"
    and "i < length (oc_attempts oc)" and "auth_failure (oc_attempts oc ! i)"
  shows "(\<forall>j. i < j \<longrightarrow> j < length (oc_attempts oc) \<longrightarrow>
      ae_provider (oc_attempts oc ! i) = ae_provider (oc_attempts oc ! j) \<longrightarrow>
      ae_skipped (oc_attempts oc ! j) \<or>
      (j = Suc i \<and> Suc j = length (oc_attempts oc) \<and> le = Some (oc_attempts oc ! j) \<and>
       oc_attempts oc ! j = mk_attempt (ae_candidate (oc_attempts oc ! i)) (ae_provider (oc_attempts oc ! i))
         ErrorClient ''request cancelled by client'')) \<and>
    (\<forall>c. oc_candidate oc = Some c \<longrightarrow> cd_provider_id c \<noteq> ae_provider (oc_attempts oc ! i))"
proof (cases "for_range (exec_step upstream rewrite) cands loop_start")
  case (Continue s)
  with assms(1) have "oc_attempts oc = ls_attempts s" "oc_candidate oc = None"
    by (auto simp: execute_non_stream_def)
  with nonstream.auth_respected [OF loop_state_sel(6,5) Continue] assms(2,3) show ?thesis by auto
next
  case (Return r)
  with assms(1) have r: "r = (oc, le)" by (simp add: execute_non_stream_def)
  obtain ds c es s' where h: "exec_step upstream rewrite c s' = Return (oc, le)"
    and run: "for_range (exec_step upstream rewrite) ds loop_start = Continue s'"
    and skip: "skip_attempt (ls_auth s') c = None"
    by (rule nonstream.returns_at [OF Return [unfolded r]])
  have "nonstream.auth_inv loop_start" by (simp add: nonstream.auth_inv_def)
  then have inv: "nonstream.auth_inv s'" using run by (rule nonstream.auth_inv_loop)
  let ?a = "ls_attempts s'"
  have fresh: "ae_provider (?a ! k) \<noteq> cd_provider_id c" if "k < length ?a" "auth_failure (?a ! k)" for k
  proof
    assume "ae_provider (?a ! k) = cd_provider_id c"
    then have "cd_provider_id c \<in> ae_provider ` set (filter auth_failure ?a)" using that by force
    with inv have "cd_provider_id c \<in> set (ls_auth s')" unfolding nonstream.auth_inv_def by blast
    with skip show False by (simp add: skip_attempt_def)
  qed
  have old: "ae_skipped (?a ! j)" if "i < j" "j < length ?a" "auth_failure (?a ! i)" "ae_provider (?a ! i) = ae_provider (?a ! j)" for j
    using inv that unfolding nonstream.auth_inv_def by blast
  have "\<not> auth_failure (mk_attempt m p ErrorClient t)" for m p t by (simp add: auth_failure_def mk_attempt_def)
  note no_auth = this
  from h show ?thesis
  proof (cases rule: exec_step_Return)
    case (answered res)
    with fresh old assms(2,3) show ?thesis by fastforce
  next
    case (refused err ae)
    then have ae: "ae_provider ae = cd_provider_id c" "\<not> auth_failure ae"
      by (simp_all add: classify_caller_error_def auth_failure_def)
    from refused assms(2,3) ae(2) have "i < length ?a" "auth_failure (?a ! i)"
      by (auto simp: nth_append less_Suc_eq split: if_splits)
    with refused(5) ae(1) fresh old show ?thesis by (auto simp: nth_append less_Suc_eq)
  next
    case (cancelled err ae ce)
    then have ae: "ae_provider ae = cd_provider_id c" "ae_candidate ae = cd_local_model_id c"
      by (simp_all add: classify_caller_error_def)
    have ce: "ae_provider ce = cd_provider_id c" "\<not> auth_failure ce"
      using no_auth cancelled(6) by (simp_all add: mk_attempt_def)
    have at: "oc_attempts oc = ?a @ [ae, ce]" using cancelled(7) by simp
    consider "i < length ?a" "auth_failure (?a ! i)" | "i = length ?a"
      using assms(2,3) ce(2) by (auto simp: at nth_append nth_Cons less_Suc_eq split: if_splits nat.splits)
    then show ?thesis
    proof cases
      case 1
      with fresh [OF 1] old ae(1) ce(1) cancelled(7) show ?thesis
        by (auto simp: at nth_append nth_Cons less_Suc_eq split: nat.splits)
    next
      case 2
      with cancelled ae show ?thesis by (auto simp: nth_append nth_Cons less_Suc_eq split: nat.splits)
    qed
  qed
qed

text \<open>Two models of one provider, the first of which is refused.\<close>

definition refused_upstream :: "nat \<Rightarrow> candidate \<Rightarrow> call_outcome" where
  "refused_upstream n c =
     \<lparr>co_result = Inl (sdk_attempt_error (normalize_error classify_body c
        ((plain_error ''401'')\<lparr>ge_api := Some \<lparr>api_status = 401, api_type = [], api_code = [],
           api_message = ''bad key''\<rparr>\<rparr>) 1)),
      co_duration = 1, co_ctx_done = False\<rparr>"

theorem execute_non_stream_auth_witness:
  "ae_skipped (oc_attempts (fst (execute_non_stream refused_upstream None
     [sample_candidate, sample_candidate\<lparr>cd_local_model_id := ''zen/b''\<rparr>])) ! 1)"
proof -
  let ?r = "execute_non_stream refused_upstream None
     [sample_candidate, sample_candidate\<lparr>cd_local_model_id := ''zen/b''\<rparr>]"
  have "map ae_provider (oc_attempts (fst ?r)) = [''zen'', ''zen'']" by code_simp
  then have p: "length (oc_attempts (fst ?r)) = 2"
    "ae_provider (oc_attempts (fst ?r) ! 0) = ''zen''" "ae_provider (oc_attempts (fst ?r) ! 1) = ''zen''"
    by (auto simp: map_eq_Cons_conv)
  have "auth_failure (oc_attempts (fst ?r) ! 0)" by code_simp
  moreover have "0 < length (oc_attempts (fst ?r))" using p by simp
  ultimately have "ae_skipped (oc_attempts (fst ?r) ! 1) \<or>
      snd ?r = Some (oc_attempts (fst ?r) ! 1) \<and> ae_class (oc_attempts (fst ?r) ! 1) = ErrorClient"
    using conjunct1 [OF execute_non_stream_auth [OF surjective_pairing, of 0 refused_upstream]] p
    by (fastforce simp: mk_attempt_def)
  moreover have "map_option ae_class (snd ?r) = Some ErrorAuth" by code_simp
  ultimately show ?thesis by auto
qed

end
