(* ===== verification/Server_Base.thy ===== *)
theory Server_Base
  imports Failover
begin

text \<open>
  What the handlers of \<open>internal/server\<close> share: the response writer of net/http, the error bodies
  of \<open>internal/protocol/openai/error.go\<close> and \<open>internal/protocol/anthropic/error.go\<close>, the debug
  headers, and the usage rows of \<open>internal/usage/types.go\<close>.
\<close>

section \<open>The response writer\<close>

text \<open>
  Headers count until the status line is sent, the first \<open>WriteHeader\<close> wins, and a \<open>Write\<close> before
  it sends 200. The body is the list of chunks written. Header names are those of the source.
\<close>

record response =
  rw_headers :: "(string \<times> string) list"
  rw_status :: "int option"
  rw_chunks :: "string list"

definition new_response :: response where
  "new_response = \<lparr>rw_headers = [], rw_status = None, rw_chunks = []\<rparr>"

definition set_header :: "string \<Rightarrow> string \<Rightarrow> response \<Rightarrow> response" where
  "set_header k v w = (if rw_status w = None then w\<lparr>rw_headers := AList.update k v (rw_headers w)\<rparr> else w)"

definition write_header :: "int \<Rightarrow> response \<Rightarrow> response" where
  "write_header st w = (if rw_status w = None then w\<lparr>rw_status := Some st\<rparr> else w)"

definition write_chunk :: "string \<Rightarrow> response \<Rightarrow> response" where
  "write_chunk b w = (write_header 200 w)\<lparr>rw_chunks := rw_chunks w @ [b]\<rparr>"

definition response_body :: "response \<Rightarrow> string" where
  "response_body w = concat (rw_chunks w)"

lemma write_header_sel [simp]:
  "rw_chunks (write_header st w) = rw_chunks w" "rw_headers (write_header st w) = rw_headers w"
  "rw_status (write_header st w) = (case rw_status w of None \<Rightarrow> Some st | Some s \<Rightarrow> Some s)"
  by (simp_all add: write_header_def split: option.split)

lemma set_header_sel [simp]:
  "rw_chunks (set_header k v w) = rw_chunks w" "rw_status (set_header k v w) = rw_status w"
  by (simp_all add: set_header_def)

lemma write_chunk_sel [simp]:
  "rw_chunks (write_chunk b w) = rw_chunks w @ [b]"
  "rw_headers (write_chunk b w) = rw_headers w"
  "rw_status (write_chunk b w) = (case rw_status w of None \<Rightarrow> Some 200 | Some s \<Rightarrow> Some s)"
  by (simp_all add: write_chunk_def)

section \<open>Error bodies\<close>

text \<open>\<open>json.Encoder.Encode\<close> ends the value with a newline.\<close>

definition json_encode :: "jval \<Rightarrow> string" where
  "json_encode v = marshal v @ [CHR 0x0A]"

definition openai_error_body :: "string \<Rightarrow> string \<Rightarrow> string \<Rightarrow> jval" where
  "openai_error_body msg typ code =
     VObj [(''error'', VObj [(''message'', VStr msg), (''type'', VStr typ), (''param'', VNull), (''code'', VStr code)])]"

definition write_json_error :: "int \<Rightarrow> jval \<Rightarrow> response \<Rightarrow> response" where
  "write_json_error st body w =
     write_chunk (json_encode body) (write_header st (set_header ''Content-Type'' ''application/json'' w))"

definition openai_write_error :: "int \<Rightarrow> string \<Rightarrow> string \<Rightarrow> response \<Rightarrow> response" where
  "openai_write_error st code msg w = write_json_error st (openai_error_body msg ''upstream_error'' code) w"

definition openai_write_bad_request :: "string \<Rightarrow> string \<Rightarrow> response \<Rightarrow> response" where
  "openai_write_bad_request code msg w = write_json_error 400 (openai_error_body msg ''invalid_request_error'' code) w"

definition anthropic_write_error :: "int \<Rightarrow> string \<Rightarrow> string \<Rightarrow> response \<Rightarrow> response" where
  "anthropic_write_error st typ msg w =
     write_json_error st (vmap [(''type'', VStr ''error''),
        (''error'', vmap [(''type'', VStr typ), (''message'', VStr msg)])]) w"

definition debug_headers :: "candidate \<Rightarrow> nat \<Rightarrow> nat \<Rightarrow> response \<Rightarrow> response" where
  "debug_headers c attempts gen w =
     set_header ''X-SleepyRouter-Config-Generation'' (itoa (int gen))
       (set_header ''X-SleepyRouter-Attempts'' (itoa (int attempts))
         (set_header ''X-SleepyRouter-Provider'' (cd_provider_id c)
           (set_header ''X-SleepyRouter-Model'' (cd_local_model_id c) w)))"

lemma write_json_error_sel [simp]:
  "rw_status (write_json_error st b w) = (case rw_status w of None \<Rightarrow> Some st | Some s \<Rightarrow> Some s)"
  "rw_chunks (write_json_error st b w) = rw_chunks w @ [json_encode b]"
  by (simp_all add: write_json_error_def split: option.split)

lemma debug_headers_sel [simp]:
  "rw_status (debug_headers c n g w) = rw_status w" "rw_chunks (debug_headers c n g w) = rw_chunks w"
  by (simp_all add: debug_headers_def)

section \<open>Usage rows\<close>

record usage_record =
  us_request_id :: string
  us_protocol :: string
  us_requested_model :: string
  us_routed_model :: string
  us_provider :: string
  us_attempts :: nat
  us_in_tokens :: int
  us_out_tokens :: int
  us_cached_in :: int
  us_cache_write_in :: int
  us_success :: bool
  us_error_class :: string
  us_duration_ms :: int
  us_session_id :: string
  us_config_gen :: nat

record usage_attempt =
  ua_request_id :: string
  ua_index :: nat
  ua_model :: string
  ua_provider :: string
  ua_duration_ms :: int
  ua_success :: bool
  ua_status_code :: int
  ua_error_class :: string

text \<open>\<open>Duration.Milliseconds\<close> truncates towards zero.\<close>

definition milliseconds :: "int \<Rightarrow> int" where
  "milliseconds d = (if 0 \<le> d then d div 1000000 else - ((- d) div 1000000))"

definition usage_attempt_of :: "string \<Rightarrow> nat \<Rightarrow> attempt_error \<Rightarrow> usage_attempt" where
  "usage_attempt_of req i a =
     \<lparr>ua_request_id = req, ua_index = i, ua_model = ae_candidate a, ua_provider = ae_provider a,
      ua_duration_ms = milliseconds (ae_duration a), ua_success = False, ua_status_code = ae_status_code a,
      ua_error_class = class_string (ae_class a)\<rparr>"

definition to_usage_attempts :: "string \<Rightarrow> attempt_error list \<Rightarrow> usage_attempt list" where
  "to_usage_attempts req atts =
     map (\<lambda>(i, a). usage_attempt_of req (Suc i) a) (List.enumerate 0 atts)"

type_synonym usage_rows = "usage_record \<times> usage_attempt list"

definition usage_row ::
    "string \<Rightarrow> string \<Rightarrow> string \<Rightarrow> string \<Rightarrow> string \<Rightarrow> int \<Rightarrow> int \<Rightarrow> int \<Rightarrow> int \<Rightarrow> nat \<Rightarrow> bool \<Rightarrow> string
      \<Rightarrow> int \<Rightarrow> string \<Rightarrow> nat \<Rightarrow> usage_attempt list \<Rightarrow> usage_rows" where
  "usage_row req protocol requested routed provider inT outT cachedT cacheWriteT attempts success errclass
      dur_ms session gen atts =
     (\<lparr>us_request_id = req, us_protocol = protocol, us_requested_model = requested,
       us_routed_model = routed, us_provider = provider, us_attempts = attempts, us_in_tokens = inT,
       us_out_tokens = outT, us_cached_in = cachedT, us_cache_write_in = cacheWriteT,
       us_success = success, us_error_class = errclass, us_duration_ms = dur_ms,
       us_session_id = session, us_config_gen = gen\<rparr>, atts)"

definition failure_row :: "string \<Rightarrow> string \<Rightarrow> string \<Rightarrow> nat \<Rightarrow> string \<Rightarrow> int \<Rightarrow> string \<Rightarrow> nat \<Rightarrow> usage_attempt list \<Rightarrow> usage_rows" where
  "failure_row req protocol requested attempts errclass dur_ms session gen atts =
     usage_row req protocol requested [] [] 0 0 0 0 attempts False errclass dur_ms session gen atts"

lemma to_usage_attempts_length [simp]: "length (to_usage_attempts req atts) = length atts"
  by (simp add: to_usage_attempts_def)

lemma to_usage_attempts_index:
  "map ua_index (to_usage_attempts req atts) = [1..<Suc (length atts)]"
proof -
  have "map ua_index (to_usage_attempts req atts) = map (Suc \<circ> fst) (List.enumerate 0 atts)"
    by (simp add: to_usage_attempts_def usage_attempt_of_def comp_def split_beta)
  also have "\<dots> = map Suc [0..<length atts]"
    by (metis map_map map_fst_enumerate add_0)
  finally show ?thesis by (simp add: map_Suc_upt)
qed

lemma to_usage_attempts_model:
  "map ua_model (to_usage_attempts req atts) = map ae_candidate atts"
  by (rule nth_equalityI) (simp_all add: to_usage_attempts_def usage_attempt_of_def nth_enumerate_eq)

end
