(* ===== verification/Hoard_Trace.thy ===== *)
theory Hoard_Trace
  imports Server_Base
begin

text \<open>
  The routing trace of the Hoard endpoint (\<open>internal/server/hoard.go\<close>): which candidates were
  tried, with what outcome and why, with provider keys removed from every reason. The trace is
  \<open>None\<close> on \<open>/v1/responses\<close>, where every hook is a no-op. sjson, which adds the trace to a body, is
  the parameter \<open>set_raw\<close>.
\<close>

section \<open>The trace\<close>

record trace_attempt =
  ta_index :: nat
  ta_model :: string
  ta_provider :: string
  ta_upstream_model :: string
  ta_outcome :: string
  ta_error_class :: string
  ta_status_code :: int
  ta_reason :: string
  ta_failed_over :: "bool option"
  ta_duration_ms :: int

record route_trace =
  rt_requested_model :: string
  rt_route_reason :: string
  rt_candidates :: "string list"
  rt_selected_model :: string
  rt_selected_provider :: string
  rt_attempts :: "trace_attempt list"
  rt_secrets :: "string list"

definition new_trace :: route_trace where
  "new_trace =
     \<lparr>rt_requested_model = [], rt_route_reason = [], rt_candidates = [], rt_selected_model = [],
      rt_selected_provider = [], rt_attempts = [], rt_secrets = []\<rparr>"

definition trace_set_requested :: "string \<Rightarrow> route_trace \<Rightarrow> route_trace" where
  "trace_set_requested requested t = t\<lparr>rt_requested_model := requested\<rparr>"

definition trace_set_route ::
    "runtime_snapshot \<Rightarrow> string \<Rightarrow> route_reason \<Rightarrow> candidate list \<Rightarrow> route_trace \<Rightarrow> route_trace" where
  "trace_set_route snap requested reason cands t =
     t\<lparr>rt_requested_model := requested, rt_route_reason := reason_string reason,
       rt_candidates := map cd_local_model_id cands,
       rt_secrets := filter (\<lambda>k. 4 \<le> length k) (map (rp_api_key \<circ> snd) (sn_providers snap))\<rparr>"

definition redacted :: string where
  "redacted = ''[redacted]''"

definition scrub :: "string list \<Rightarrow> string \<Rightarrow> string" where
  "scrub secrets msg = foldl (\<lambda>m k. replace_all m k redacted) msg secrets"

text \<open>\<open>http.StatusText\<close>.\<close>

definition status_texts :: "(int \<times> string) list" where
  "status_texts =
     [(100, ''Continue''), (101, ''Switching Protocols''), (102, ''Processing''), (103, ''Early Hints''),
      (200, ''OK''), (201, ''Created''), (202, ''Accepted''), (203, ''Non-Authoritative Information''),
      (204, ''No Content''), (205, ''Reset Content''), (206, ''Partial Content''), (207, ''Multi-Status''),
      (208, ''Already Reported''), (226, ''IM Used''),
      (300, ''Multiple Choices''), (301, ''Moved Permanently''), (302, ''Found''), (303, ''See Other''),
      (304, ''Not Modified''), (305, ''Use Proxy''), (307, ''Temporary Redirect''), (308, ''Permanent Redirect''),
      (400, ''Bad Request''), (401, ''Unauthorized''), (402, ''Payment Required''), (403, ''Forbidden''),
      (404, ''Not Found''), (405, ''Method Not Allowed''), (406, ''Not Acceptable''),
      (407, ''Proxy Authentication Required''), (408, ''Request Timeout''), (409, ''Conflict''), (410, ''Gone''),
      (411, ''Length Required''), (412, ''Precondition Failed''), (413, ''Request Entity Too Large''),
      (414, ''Request URI Too Long''), (415, ''Unsupported Media Type''),
      (416, ''Requested Range Not Satisfiable''), (417, ''Expectation Failed''),
      (418, ''I'' @ [CHR 0x27] @ ''m a teapot''), (421, ''Misdirected Request''), (422, ''Unprocessable Entity''),
      (423, ''Locked''), (424, ''Failed Dependency''), (425, ''Too Early''), (426, ''Upgrade Required''),
      (428, ''Precondition Required''), (429, ''Too Many Requests''),
      (431, ''Request Header Fields Too Large''), (451, ''Unavailable For Legal Reasons''),
      (500, ''Internal Server Error''), (501, ''Not Implemented''), (502, ''Bad Gateway''),
      (503, ''Service Unavailable''), (504, ''Gateway Timeout''), (505, ''HTTP Version Not Supported''),
      (506, ''Variant Also Negotiates''), (507, ''Insufficient Storage''), (508, ''Loop Detected''),
      (510, ''Not Extended''), (511, ''Network Authentication Required'')]"

definition status_text :: "int \<Rightarrow> string" where
  "status_text st = (case map_of status_texts st of None \<Rightarrow> [] | Some s \<Rightarrow> s)"

text \<open>The caller-facing reason: a message of nothing but colons and spaces is replaced.\<close>

definition trace_reason :: "string list \<Rightarrow> attempt_error \<Rightarrow> string" where
  "trace_reason secrets a =
     (let msg = trim_space (ae_safe_message a) in
      scrub secrets
        (if list_all (\<lambda>c. c = CHR '':'' \<or> c = CHR '' '') msg then
           (if ae_status_code a \<noteq> 0
            then ''HTTP '' @ itoa (ae_status_code a) @ '' '' @ status_text (ae_status_code a) @
                 '' from upstream (no error details in body)''
            else class_string (ae_class a) @ '' error (no details from upstream)'')
         else msg))"

text \<open>\<open>upstreamOf\<close>: the last candidate of a local id gives its upstream model.\<close>

definition upstream_of :: "candidate list \<Rightarrow> string \<Rightarrow> string" where
  "upstream_of cands mid =
     (case map_of (rev (map (\<lambda>c. (cd_local_model_id c, cd_upstream_model c)) cands)) mid of
        None \<Rightarrow> [] | Some u \<Rightarrow> u)"

definition failed_row ::
    "string list \<Rightarrow> candidate list \<Rightarrow> nat \<Rightarrow> bool \<Rightarrow> nat \<Rightarrow> attempt_error \<Rightarrow> trace_attempt" where
  "failed_row secrets cands n selected i a =
     (let row = \<lparr>ta_index = Suc i, ta_model = ae_candidate a, ta_provider = ae_provider a,
                 ta_upstream_model = upstream_of cands (ae_candidate a), ta_outcome = [],
                 ta_error_class = class_string (ae_class a), ta_status_code = ae_status_code a,
                 ta_reason = trace_reason secrets a, ta_failed_over = None,
                 ta_duration_ms = milliseconds (ae_duration a)\<rparr>
      in if ae_skipped a
         then row\<lparr>ta_outcome := ''skipped'',
                  ta_reason := (if ae_skip_reason a \<noteq> []
                                then ae_skip_reason a @ '': '' @ ta_reason row else ta_reason row)\<rparr>
         else row\<lparr>ta_outcome := ''failed'', ta_failed_over := Some (Suc i < n \<or> selected)\<rparr>)"

definition selected_row ::
    "string list \<Rightarrow> nat \<Rightarrow> candidate \<Rightarrow> string \<Rightarrow> attempt_error \<Rightarrow> trace_attempt" where
  "selected_row secrets n c outcome sel =
     (let row = \<lparr>ta_index = Suc n, ta_model = cd_local_model_id c, ta_provider = cd_provider_id c,
                 ta_upstream_model = cd_upstream_model c, ta_outcome = outcome, ta_error_class = [],
                 ta_status_code = 0, ta_reason = [], ta_failed_over = None,
                 ta_duration_ms = milliseconds (ae_duration sel)\<rparr>
      in if outcome = ''failed''
         then row\<lparr>ta_error_class := class_string (ae_class sel), ta_status_code := ae_status_code sel,
                  ta_reason := trace_reason secrets sel, ta_failed_over := Some False\<rparr>
         else row)"

definition trace_record ::
    "candidate list \<Rightarrow> attempt_error list \<Rightarrow> candidate option \<Rightarrow> string \<Rightarrow> attempt_error
      \<Rightarrow> route_trace \<Rightarrow> route_trace" where
  "trace_record cands failed selected outcome sel t =
     (let rows = map (\<lambda>(i, a). failed_row (rt_secrets t) cands (length failed) (selected \<noteq> None) i a)
                   (List.enumerate 0 failed)
      in case selected of
           None \<Rightarrow> t\<lparr>rt_attempts := rows, rt_selected_model := [], rt_selected_provider := []\<rparr>
         | Some c \<Rightarrow>
             t\<lparr>rt_attempts := rows @ [selected_row (rt_secrets t) (length failed) c outcome sel],
               rt_selected_model := cd_local_model_id c, rt_selected_provider := cd_provider_id c\<rparr>)"

definition trace_fail_selected :: "string \<Rightarrow> string \<Rightarrow> route_trace \<Rightarrow> route_trace" where
  "trace_fail_selected cls reason t =
     (if rt_attempts t \<noteq> [] \<and> ta_outcome (last (rt_attempts t)) = ''streaming''
      then t\<lparr>rt_attempts := butlast (rt_attempts t) @
               [(last (rt_attempts t))\<lparr>ta_outcome := ''failed'', ta_error_class := cls,
                  ta_reason := scrub (rt_secrets t) reason, ta_failed_over := Some False\<rparr>]\<rparr>
      else t)"

section \<open>Serialization\<close>

definition trace_attempt_json :: "trace_attempt \<Rightarrow> jval" where
  "trace_attempt_json a =
     VObj ([(''index'', VInt (int (ta_index a))), (''model'', VStr (ta_model a)),
            (''provider'', VStr (ta_provider a))] @
           omit_empty ''upstream_model'' (ta_upstream_model a) @
           [(''outcome'', VStr (ta_outcome a))] @
           omit_empty ''error_class'' (ta_error_class a) @
           (if ta_status_code a = 0 then [] else [(''status_code'', VInt (ta_status_code a))]) @
           omit_empty ''reason'' (ta_reason a) @
           (case ta_failed_over a of None \<Rightarrow> [] | Some b \<Rightarrow> [(''failed_over'', VBool b)]) @
           [(''duration_ms'', VInt (ta_duration_ms a))])"

definition trace_json :: "route_trace \<Rightarrow> string" where
  "trace_json t =
     marshal (VObj [(''routing'', VObj (
       [(''requested_model'', VStr (rt_requested_model t))] @
       omit_empty ''route_reason'' (rt_route_reason t) @
       [(''candidates'', VArr (map VStr (rt_candidates t)))] @
       omit_empty ''selected_model'' (rt_selected_model t) @
       omit_empty ''selected_provider'' (rt_selected_provider t) @
       [(''attempts'', VArr (map trace_attempt_json (rt_attempts t)))]))])"

definition inject_trace :: "(string \<Rightarrow> string \<Rightarrow> string \<Rightarrow> string option) \<Rightarrow> string \<Rightarrow> route_trace option \<Rightarrow> string" where
  "inject_trace set_raw body tr =
     (case tr of
        None \<Rightarrow> body
      | Some t \<Rightarrow> (case set_raw body ''sleepyrouter'' (trace_json t) of None \<Rightarrow> body | Some b \<Rightarrow> b))"

text \<open>A failing \<open>SetBytes\<close> leaves nil there.\<close>

definition routing_event_payload :: "(string \<Rightarrow> string \<Rightarrow> string \<Rightarrow> string option) \<Rightarrow> route_trace \<Rightarrow> string" where
  "routing_event_payload set_raw t =
     (case set_raw (trace_json t) ''type'' (quote_string ''sleepyrouter.routing'') of
        None \<Rightarrow> [] | Some b \<Rightarrow> b)"

definition write_responses_error ::
    "(string \<Rightarrow> string \<Rightarrow> string \<Rightarrow> string option) \<Rightarrow> route_trace option \<Rightarrow> int \<Rightarrow> string \<Rightarrow> string
      \<Rightarrow> response \<Rightarrow> response" where
  "write_responses_error set_raw tr st code msg w =
     (case tr of
        None \<Rightarrow> if st = 400 then openai_write_bad_request code msg w else openai_write_error st code msg w
      | Some t \<Rightarrow>
          write_chunk
            (inject_trace set_raw
               (marshal (openai_error_body msg
                  (if st = 400 then ''invalid_request_error'' else ''upstream_error'') code)) tr)
            (write_header st (set_header ''Content-Type'' ''application/json'' w)))"

section \<open>Redaction\<close>

lemma str_contains_append_sep:
  assumes "c \<notin> set k"
  shows "str_contains (u @ c # v) k \<longleftrightarrow> str_contains u k \<or> str_contains v k"
proof
  assume "str_contains (u @ c # v) k"
  then obtain x y where xy: "u @ c # v = x @ k @ y" by (auto simp: str_contains_iff)
  show "str_contains u k \<or> str_contains v k"
  proof (cases "length x + length k \<le> length u")
    case True
    have "u = take (length u) (x @ k @ y)" unfolding xy [symmetric] by simp
    also have "\<dots> = x @ k @ take (length u - length x - length k) y" using True by simp
    finally show ?thesis unfolding str_contains_iff by blast
  next
    case False
    show ?thesis
    proof (cases "length x \<le> length u")
      case True
      have d: "length u - length x < length k"
        using True \<open>\<not> length x + length k \<le> length u\<close> by arith
      have "c = (x @ k @ y) ! length u" unfolding xy [symmetric] by simp
      also have "\<dots> = k ! (length u - length x)"
        using True d by (simp add: nth_append)
      finally have "c \<in> set k" using d by simp
      with assms show ?thesis ..
    next
      case False
      have "v = drop (Suc (length u)) (x @ k @ y)" unfolding xy [symmetric] by simp
      also have "\<dots> = drop (Suc (length u)) x @ k @ y" using False by simp
      finally show ?thesis unfolding str_contains_iff by blast
    qed
  qed
next
  assume "str_contains u k \<or> str_contains v k"
  then show "str_contains (u @ c # v) k"
  proof
    assume "str_contains u k"
    then obtain x y where "u = x @ k @ y" by (auto simp: str_contains_iff)
    then have "u @ c # v = x @ k @ (y @ c # v)" by simp
    then show ?thesis unfolding str_contains_iff by blast
  next
    assume "str_contains v k"
    then obtain x y where "v = x @ k @ y" by (auto simp: str_contains_iff)
    then have "u @ c # v = (u @ c # x) @ k @ y" by simp
    then show ?thesis unfolding str_contains_iff by blast
  qed
qed

text \<open>A key that the replacement text cannot bring back.\<close>

definition plain_key :: "string \<Rightarrow> bool" where
  "plain_key k \<longleftrightarrow> k \<noteq> [] \<and> CHR ''['' \<notin> set k \<and> CHR '']'' \<notin> set k \<and>
     \<not> str_contains ''redacted'' k"

lemma contains_redacted:
  assumes "plain_key k"
  shows "str_contains (redacted @ v) k \<longleftrightarrow> str_contains v k"
proof -
  have "redacted @ v = [] @ CHR ''['' # (''redacted'' @ CHR '']'' # v)" by (simp add: redacted_def)
  moreover have "\<not> str_contains [] k" using assms by (simp add: plain_key_def)
  moreover have "\<not> str_contains ''redacted'' k" using assms unfolding plain_key_def by blast
  ultimately show ?thesis
    using assms str_contains_append_sep [of "CHR ''[''" k "[]"] str_contains_append_sep [of "CHR '']''" k "''redacted''" v]
    by (simp only: plain_key_def) blast
qed

lemma replace_all_Nil: "replace_all [] old new = []"
  by (subst replace_all.simps) simp

lemma replace_all_hit:
  "old \<noteq> [] \<Longrightarrow> has_prefix s old \<Longrightarrow> replace_all s old new = new @ replace_all (drop (length old) s) old new"
  by (subst replace_all.simps) (auto simp: has_prefix_def split: list.split)

lemma replace_all_miss:
  "\<not> (old \<noteq> [] \<and> has_prefix (c # cs) old) \<Longrightarrow> replace_all (c # cs) old new = c # replace_all cs old new"
  by (subst replace_all.simps) auto

lemma has_prefix_replace:
  "has_prefix (replace_all s old redacted) k \<Longrightarrow> CHR ''['' \<notin> set k \<Longrightarrow> has_prefix s k"
proof (induction s arbitrary: k)
  case Nil
  then show ?case by (simp add: replace_all_Nil)
next
  case (Cons c s)
  show ?case
  proof (cases "old \<noteq> [] \<and> has_prefix (c # s) old")
    case True
    with Cons.prems show ?thesis
      by (cases k) (auto simp: replace_all_hit redacted_def has_prefix_def)
  next
    case False
    then have "replace_all (c # s) old redacted = c # replace_all s old redacted"
      by (rule replace_all_miss)
    with Cons show ?thesis by (cases k) (auto simp: has_prefix_def)
  qed
qed

lemma replace_all_no_new:
  assumes "plain_key k"
  shows "str_contains (replace_all s old redacted) k \<Longrightarrow> str_contains s k"
proof (induction "length s" arbitrary: s rule: less_induct)
  case less
  show ?case
  proof (cases s)
    case Nil
    with less.prems assms show ?thesis by (simp add: replace_all_Nil)
  next
    case (Cons c cs)
    show ?thesis
    proof (cases "old \<noteq> [] \<and> has_prefix s old")
      case True
      then have "str_contains (replace_all (drop (length old) s) old redacted) k"
        using less.prems contains_redacted [OF assms] by (simp add: replace_all_hit)
      moreover have "length (drop (length old) s) < length s" using True Cons by simp
      ultimately have "str_contains (drop (length old) s) k" using less.hyps by blast
      then obtain u v where "drop (length old) s = u @ k @ v" by (auto simp: str_contains_iff)
      then have "s = (take (length old) s @ u) @ k @ v" by (metis append.assoc append_take_drop_id)
      then show ?thesis unfolding str_contains_iff by blast
    next
      case False
      then have r: "replace_all s old redacted = c # replace_all cs old redacted"
        unfolding Cons by (rule replace_all_miss)
      have "has_prefix s k" if "has_prefix (replace_all s old redacted) k"
        using has_prefix_replace [OF that] assms by (simp add: plain_key_def)
      with less.prems less.hyps [of cs] Cons r show ?thesis by auto
    qed
  qed
qed

lemma replace_all_removes:
  assumes "plain_key k"
  shows "\<not> str_contains (replace_all s k redacted) k"
proof (induction "length s" arbitrary: s rule: less_induct)
  case less
  have ne: "k \<noteq> []" using assms by (simp add: plain_key_def)
  show ?case
  proof (cases s)
    case Nil
    with ne show ?thesis by (simp add: replace_all_Nil)
  next
    case (Cons c cs)
    show ?thesis
    proof (cases "has_prefix s k")
      case True
      then have "replace_all s k redacted = redacted @ replace_all (drop (length k) s) k redacted"
        by (rule replace_all_hit [OF ne])
      with less [of "drop (length k) s"] ne Cons contains_redacted [OF assms] show ?thesis
        by (cases k) auto
    next
      case False
      then have r: "replace_all s k redacted = c # replace_all cs k redacted"
        unfolding Cons by (intro replace_all_miss) simp
      have "\<not> has_prefix (replace_all s k redacted) k"
        using has_prefix_replace [of s k k] False assms by (auto simp: plain_key_def)
      with less [of cs] Cons r show ?thesis by auto
    qed
  qed
qed

lemma scrub_no_new: "plain_key k \<Longrightarrow> str_contains (scrub secrets msg) k \<Longrightarrow> str_contains msg k"
proof (induction secrets arbitrary: msg)
  case Nil
  then show ?case by (simp add: scrub_def)
next
  case (Cons x xs)
  then have "str_contains (replace_all msg x redacted) k" by (simp add: scrub_def)
  with Cons.prems(1) show ?case by (rule replace_all_no_new)
qed

lemma scrub_removes: "plain_key k \<Longrightarrow> k \<in> set secrets \<Longrightarrow> \<not> str_contains (scrub secrets msg) k"
proof (induction secrets arbitrary: msg)
  case Nil
  then show ?case by simp
next
  case (Cons x xs)
  have s: "scrub (x # xs) msg = scrub xs (replace_all msg x redacted)" by (simp add: scrub_def)
  show ?case
  proof (cases "k \<in> set xs")
    case True
    with Cons show ?thesis by (simp add: s)
  next
    case False
    with Cons.prems have "x = k" by simp
    then have "\<not> str_contains (replace_all msg x redacted) k" using replace_all_removes [OF Cons.prems(1)] by simp
    with scrub_no_new [OF Cons.prems(1)] show ?thesis unfolding s by blast
  qed
qed

section \<open>Properties\<close>

lemma trace_reason_hides:
  "plain_key k \<Longrightarrow> k \<in> set secrets \<Longrightarrow> \<not> str_contains (trace_reason secrets a) k"
  by (simp add: trace_reason_def Let_def scrub_removes)

text \<open>
  The reason of a skipped candidate starts with one of two words of the gateway. A key in question is
  no part of these, and has no blank.
\<close>

definition skip_reasons :: "string list" where
  "skip_reasons = [[], ''provider_auth_failed'', ''missing_api_key'']"

definition trace_key :: "string \<Rightarrow> bool" where
  "trace_key k \<longleftrightarrow> plain_key k \<and> CHR '' '' \<notin> set k \<and>
     list_all (\<lambda>w. \<not> str_contains (w @ '':'') k) skip_reasons"

lemma contains_tagged:
  assumes "trace_key k" and "u \<in> set skip_reasons"
  shows "str_contains (u @ '': '' @ v) k \<longleftrightarrow> str_contains v k"
proof -
  have "\<not> str_contains (u @ '':'') k" and sep: "CHR '' '' \<notin> set k"
    using assms by (auto simp: trace_key_def list_all_iff)
  moreover have "u @ '': '' @ v = (u @ '':'') @ CHR '' '' # v" by simp
  ultimately show ?thesis by (simp only: str_contains_append_sep [OF sep]) blast
qed

lemma failed_row_hides:
  assumes "trace_key k" and "k \<in> set secrets" and "ae_skip_reason a \<in> set skip_reasons"
  shows "\<not> str_contains (ta_reason (failed_row secrets cands n sel i a)) k"
proof -
  have k: "plain_key k" using assms(1) by (simp add: trace_key_def)
  have "\<not> str_contains (ae_skip_reason a @ '': '' @ trace_reason secrets a) k"
    using contains_tagged [OF assms(1,3)] trace_reason_hides [OF k assms(2)] by blast
  then show ?thesis
    using trace_reason_hides [OF k assms(2)] by (simp add: failed_row_def Let_def)
qed

lemma trace_record_attempts:
  "rt_attempts (trace_record cands failed selected outcome sel t) =
     map (\<lambda>(i, a). failed_row (rt_secrets t) cands (length failed) (selected \<noteq> None) i a) (List.enumerate 0 failed) @
     (case selected of None \<Rightarrow> [] | Some c \<Rightarrow> [selected_row (rt_secrets t) (length failed) c outcome sel])"
  "rt_secrets (trace_record cands failed selected outcome sel t) = rt_secrets t"
  by (simp_all add: trace_record_def Let_def split: option.split)

text \<open>The attempts of a failover loop have a skip reason of the two words, or none.\<close>

lemma loop_skip_reasons:
  "skip_attempt auth c = Some ae \<Longrightarrow> ae_skip_reason ae \<in> set skip_reasons"
  "ae_skip_reason (mk_attempt m p cls msg) \<in> set skip_reasons"
  by (auto simp: skip_attempt_def auth_skip_attempt_def key_skip_attempt_def mk_attempt_def skip_reasons_def
      split: if_splits option.splits)

text \<open>
  C19 (the reasons of the trace leak no key). No reason of a row of the Hoard trace, as it is recorded
  and also after the selected candidate was marked failed, contains a provider key of the snapshot,
  whatever the upstream answered. It holds for keys of four or more characters (shorter ones are not
  masked) that the mask and the two skip reasons cannot spell: without blanks and brackets, and no part
  of the word redacted nor of a skip reason with its colon.
\<close>

theorem trace_hides_keys:
  assumes "trace_key k" and "4 \<le> length k" and "(pid, p) \<in> set (sn_providers snap)" and "rp_api_key p = k"
    and "list_all (\<lambda>a. ae_skip_reason a \<in> {[], ''provider_auth_failed'', ''missing_api_key''}) failed"
  shows "let t = trace_record cands failed selected outcome sel (trace_set_route snap requested why cands t0) in
    (\<forall>row \<in> set (rt_attempts t). \<not> str_contains (ta_reason row) k) \<and>
    (\<forall>row \<in> set (rt_attempts (trace_fail_selected cls msg t)). \<not> str_contains (ta_reason row) k)"
proof -
  have k: "plain_key k" using assms(1) by (simp add: trace_key_def)
  let ?start = "trace_set_route snap requested why cands t0"
  let ?t = "trace_record cands failed selected outcome sel ?start"
  have mem: "k \<in> set (rt_secrets ?start)" using assms(2-4) by (force simp: trace_set_route_def)
  have sel: "\<not> str_contains (ta_reason (selected_row (rt_secrets ?start) n c outcome sel)) k" for n c
    using trace_reason_hides [OF k mem] k by (simp add: selected_row_def Let_def plain_key_def)
  have "\<not> str_contains (ta_reason (failed_row (rt_secrets ?start) cands n b i a)) k" if "a \<in> set failed" for n b i a
    using failed_row_hides [OF assms(1) mem, of a] assms(5) that by (simp add: list_all_iff skip_reasons_def)
  then have "\<forall>row \<in> set (rt_attempts ?t). \<not> str_contains (ta_reason row) k"
    using sel by (auto simp: trace_record_attempts(1) in_set_enumerate_eq split: option.splits)
  moreover from this have "\<forall>row \<in> set (rt_attempts (trace_fail_selected cls msg ?t)). \<not> str_contains (ta_reason row) k"
    using scrub_removes [OF k mem] trace_record_attempts(2) [of cands failed selected outcome sel ?start]
    by (auto simp: trace_fail_selected_def dest: in_set_butlastD)
  ultimately show ?thesis by (simp add: Let_def)
qed

definition sample_trace :: route_trace where
  "sample_trace =
     trace_record [sample_candidate]
       [(mk_attempt ''zen/a'' ''zen'' ErrorAuth ''key k-12 refused, k-12 is unknown'')\<lparr>ae_status_code := 401\<rparr>]
       None [] (mk_attempt [] [] ErrorClient [])
       (trace_set_route (sample_snapshot\<lparr>sn_providers := [(''zen'', sample_provider\<lparr>rp_api_key := ''k-12''\<rparr>)]\<rparr>)
          ''coding'' ReasonGroup [sample_candidate] new_trace)"

theorem trace_hides_keys_witness:
  "list_all (\<lambda>row. \<not> str_contains (ta_reason row) ''k-12'') (rt_attempts sample_trace)"
proof -
  have "trace_key ''k-12''" by code_simp
  from trace_hides_keys [OF this, where snap = "sample_snapshot\<lparr>sn_providers := [(''zen'', sample_provider\<lparr>rp_api_key := ''k-12''\<rparr>)]\<rparr>"
      and pid = "''zen''" and p = "sample_provider\<lparr>rp_api_key := ''k-12''\<rparr>"
      and failed = "[(mk_attempt ''zen/a'' ''zen'' ErrorAuth ''key k-12 refused, k-12 is unknown'')\<lparr>ae_status_code := 401\<rparr>]"]
  have "\<forall>row \<in> set (rt_attempts sample_trace). \<not> str_contains (ta_reason row) ''k-12''"
    by (simp add: sample_trace_def Let_def mk_attempt_def)
  then show ?thesis by (simp only: list_all_iff)
qed

text \<open>
  The trace mirrors the attempts. A recorded trace has one row per attempt, in order and
  numbered from one, then the selected candidate; and every row but the last says that routing
  moved on, or that nothing was sent.
\<close>

lemma trace_mirrors_attempts:
  "let rows = rt_attempts (trace_record cands failed selected outcome sel t) in
     map ta_model rows = map ae_candidate failed @ (case selected of None \<Rightarrow> [] | Some c \<Rightarrow> [cd_local_model_id c]) \<and>
     map ta_index rows = [1..<Suc (length rows)] \<and>
     map ta_failed_over (butlast rows) =
       map (\<lambda>a. if ae_skipped a then None else Some True) (take (length rows - 1) failed) \<and>
     map ta_outcome (take (length failed) rows) = map (\<lambda>a. if ae_skipped a then ''skipped'' else ''failed'') failed"
proof -
  let ?b = "selected \<noteq> None"
  let ?f = "\<lambda>(i, a). failed_row (rt_secrets t) cands (length failed) ?b i a"
  let ?rows = "map ?f (List.enumerate 0 failed)"
  have nth: "?rows ! i = failed_row (rt_secrets t) cands (length failed) ?b i (failed ! i)"
    if "i < length failed" for i
    using that by (simp add: nth_enumerate_eq)
  have model: "map ta_model ?rows = map ae_candidate failed"
    by (rule nth_equalityI) (simp_all add: nth_enumerate_eq failed_row_def Let_def)
  have index: "map ta_index ?rows = [1..<Suc (length failed)]"
    by (rule nth_equalityI) (simp_all add: nth_enumerate_eq failed_row_def Let_def del: upt_Suc)
  have outcome: "map ta_outcome ?rows = map (\<lambda>a. if ae_skipped a then ''skipped'' else ''failed'') failed"
    by (rule nth_equalityI) (simp_all add: nth_enumerate_eq failed_row_def Let_def)
  have over: "map ta_failed_over (butlast ?rows) = map (\<lambda>a. if ae_skipped a then None else Some True) (butlast failed)"
    by (rule nth_equalityI) (simp_all add: nth_butlast nth_enumerate_eq failed_row_def Let_def less_diff_conv)
  have over': "?b \<Longrightarrow> map ta_failed_over ?rows = map (\<lambda>a. if ae_skipped a then None else Some True) failed"
    by (rule nth_equalityI) (simp_all add: nth_enumerate_eq failed_row_def Let_def)
  show ?thesis
  proof (cases selected)
    case None
    with model index outcome over show ?thesis
      by (simp add: Let_def trace_record_attempts(1) butlast_conv_take)
  next
    case (Some c)
    with model index outcome over' show ?thesis
      by (simp add: Let_def trace_record_attempts(1) butlast_append selected_row_def del: upt_Suc)
        (simp add: upt_Suc)
  qed
qed

end
