(* ===== verification/Responses_Stream.thy ===== *)
theory Responses_Stream
  imports Hoard_Trace
begin

text \<open>
  The streaming half of \<open>POST /v1/responses\<close> (\<open>internal/server/responses_stream.go\<close>): buffering
  until a meaningful event, then forwarding. A \<open>select\<close> loop is a function of the list of its
  iterations: what the clock said at the head of the loop, which ready case was taken, and what the
  clock said after a receive. The list covers every schedule; when it ends before the loop does,
  the result is \<open>None\<close>: still waiting. The first-output deadline is always set, as both
  callers do through \<open>candidateStreamContext\<close>. The reader goroutine hands over events in order
  over a channel, so it is the sequence of receives.
\<close>

section \<open>Select iterations\<close>

datatype input =
    CtxDone
  | FirstTimer
  | OutputDeadline
  | IdleTimer
  | PingTick
  | Recv string string
  | Closed "go_error option"

record tick =
  tk_expired_before :: bool
  tk_input :: input
  tk_expired_after :: bool

type_synonym sse_event = "string \<times> string"

definition timeout_attempt :: "string \<Rightarrow> attempt_error" where
  "timeout_attempt msg = mk_attempt [] [] ErrorTimeout msg"

definition no_output_msg :: string where
  "no_output_msg = ''no meaningful upstream output within 10 seconds''"

definition ended_msg :: string where
  "ended_msg = ''upstream stream ended before meaningful event''"

datatype precommit_result =
    PreBlocked
  | PreFailed attempt_error
  | PreCommit "sse_event list" "tick list"

definition buffer_full :: "sse_event list \<Rightarrow> bool" where
  "buffer_full buf \<longleftrightarrow>
     pc_max_events default_precommit \<le> length buf \<or>
     pc_max_bytes default_precommit \<le> sum_list (map (length \<circ> snd) buf)"

lemma buffer_full_code [code]:
  "buffer_full buf \<longleftrightarrow>
     (32 :: int) \<le> int (length buf) \<or> (65536 :: int) \<le> sum_list (map (\<lambda>e. int (length (snd e))) buf)"
proof -
  have "int (sum_list (map (length \<circ> snd) buf)) = sum_list (map (\<lambda>e. int (length (snd e))) buf)"
    by (induction buf) simp_all
  then have "65536 \<le> sum_list (map (length \<circ> snd) buf) \<longleftrightarrow>
      (65536 :: int) \<le> sum_list (map (\<lambda>e. int (length (snd e))) buf)" by linarith
  then show ?thesis by (simp add: buffer_full_def default_precommit_def)
qed

definition limit_attempt :: attempt_error where
  "limit_attempt = timeout_attempt ''precommit buffer limit reached before meaningful output''"

text \<open>
  The loop before the commit. \<open>classify\<close> is \<open>classifyStreamErr\<close>. With a non-empty buffer the first
  timer's channel is nil, so its case is never taken; the ping ticker is not part of this select.
\<close>

fun precommit_openai ::
    "(go_error \<Rightarrow> attempt_error) \<Rightarrow> sse_event list \<Rightarrow> tick list \<Rightarrow> precommit_result" where
  "precommit_openai classify buf [] = (if buffer_full buf then PreFailed limit_attempt else PreBlocked)"
| "precommit_openai classify buf (t # ts) =
     (if tk_expired_before t then PreFailed (timeout_attempt no_output_msg)
      else if buffer_full buf then PreFailed limit_attempt
      else
        (case tk_input t of
           CtxDone \<Rightarrow> PreFailed (mk_attempt [] [] ErrorClient ''request cancelled by client'')
         | FirstTimer \<Rightarrow>
             if buf = [] then PreFailed (timeout_attempt ''first event timeout'')
             else precommit_openai classify buf ts
         | OutputDeadline \<Rightarrow> PreFailed (timeout_attempt no_output_msg)
         | IdleTimer \<Rightarrow> PreFailed (timeout_attempt ''stream idle timeout'')
         | PingTick \<Rightarrow> precommit_openai classify buf ts
         | Closed err \<Rightarrow>
             if tk_expired_after t then PreFailed (timeout_attempt no_output_msg)
             else
               (case err of
                  Some e \<Rightarrow> PreFailed (classify e)
                | None \<Rightarrow> PreFailed (mk_attempt [] [] ErrorUpstream ended_msg))
         | Recv typ payload \<Rightarrow>
             if tk_expired_after t then PreFailed (timeout_attempt no_output_msg)
             else if typ = ''response.failed'' \<or> typ = ''error''
             then PreFailed (mk_attempt [] [] ErrorUpstream ''upstream response failed before output'')
             else if is_empty_completion typ payload
             then PreFailed (mk_attempt [] [] ErrorUpstream ''upstream returned empty response'')
             else if is_meaningful_event typ payload
             then PreCommit (buf @ [(typ, payload)]) ts
             else precommit_openai classify (buf @ [(typ, payload)]) ts))"

section \<open>Event metadata\<close>

text \<open>The usage struct of an event: input, output, cached and cache-write tokens.\<close>

definition dec_usage :: "(string \<times> raw_message) list \<Rightarrow> (int \<times> int \<times> int \<times> int) option" where
  "dec_usage ms =
     (let names = [''input_tokens'', ''output_tokens'', ''input_tokens_details''];
          dnames = [''cached_tokens'', ''cache_write_tokens''] in
      case (dec_int 0 (field_values names ''input_tokens'' ms),
            dec_int 0 (field_values names ''output_tokens'' ms),
            dec_struct [] (field_values names ''input_tokens_details'' ms)) of
        (Some i, Some out, Some ds) \<Rightarrow>
          (case (dec_int 0 (field_values dnames ''cached_tokens'' ds),
                 dec_int 0 (field_values dnames ''cache_write_tokens'' ds)) of
             (Some c, Some cw) \<Rightarrow> Some (i, out, c, cw)
           | _ \<Rightarrow> None)
      | _ \<Rightarrow> None)"

text \<open>The \<open>response\<close> member: its id and, if present, its usage.\<close>

definition dec_response_meta ::
    "(string \<times> raw_message) list \<Rightarrow> (string \<times> (int \<times> int \<times> int \<times> int) option) option" where
  "dec_response_meta ms =
     (let names = [''id'', ''usage''] in
      case (dec_string [] (field_values names ''id'' ms),
            dec_struct_ptr None (field_values names ''usage'' ms)) of
        (Some rid, Some None) \<Rightarrow> Some (rid, None)
      | (Some rid, Some (Some us)) \<Rightarrow>
          (case dec_usage us of None \<Rightarrow> None | Some u \<Rightarrow> Some (rid, Some u))
      | _ \<Rightarrow> None)"

definition unmarshal_map :: "string \<Rightarrow> (string \<times> raw_message) list option" where
  "unmarshal_map s = unmarshal_struct s"

definition parse_openai_event_meta :: "string \<Rightarrow> (int \<times> int \<times> int \<times> int) \<times> string" where
  "parse_openai_event_meta payload =
     (case unmarshal_map payload of
        None \<Rightarrow> ((0, 0, 0, 0), [])
      | Some ms \<Rightarrow>
          (let top = (case map_lookup ms ''usage'' of
                        None \<Rightarrow> (0, 0, 0, 0)
                      | Some u \<Rightarrow>
                          (case dec_struct [] [u] of
                             None \<Rightarrow> (0, 0, 0, 0)
                           | Some us \<Rightarrow> (case dec_usage us of None \<Rightarrow> (0, 0, 0, 0) | Some q \<Rightarrow> q)));
               nested = (case map_lookup ms ''response'' of
                           None \<Rightarrow> None
                         | Some r \<Rightarrow>
                             (case dec_struct [] [r] of None \<Rightarrow> None | Some rs \<Rightarrow> dec_response_meta rs));
               tokens = (case nested of Some (_, Some q) \<Rightarrow> q | _ \<Rightarrow> top);
               rid = (case nested of Some (i, _) \<Rightarrow> i | None \<Rightarrow> []);
               rid' = (case map_lookup ms ''id'' of
                         None \<Rightarrow> rid
                       | Some v \<Rightarrow>
                           (case dec_string [] [v] of
                              None \<Rightarrow> rid
                            | Some s \<Rightarrow>
                                if rid = [] \<and> 5 < length s \<and> take 5 s = ''resp_'' then s else rid))
           in (tokens, rid')))"

section \<open>After the commit\<close>

record stream_result =
  sr_success :: bool
  sr_in_tok :: int
  sr_cached_tok :: int
  sr_cache_write_tok :: int
  sr_out_tok :: int
  sr_response_id :: string
  sr_status_code :: int
  sr_err_class :: string

record open_stream =
  os_w :: response
  os_trace :: "route_trace option"
  os_tokens :: "int \<times> int \<times> int \<times> int"
  os_resp_id :: string
  os_last_seq :: int
  os_terminal :: bool
  os_success :: bool
  os_err_class :: string

definition sse_frame :: "string \<Rightarrow> string \<Rightarrow> string" where
  "sse_frame typ data =
     (if typ \<noteq> [] then ''event: '' @ typ @ [CHR 0x0A] else []) @ ''data: '' @ data @ [CHR 0x0A, CHR 0x0A]"

text \<open>\<open>StreamErrorEvent\<close> and \<open>RewriteStreamEventModel\<close> of \<open>internal/protocol/openai/response.go\<close>.\<close>

definition stream_error_event :: "string \<Rightarrow> int \<Rightarrow> string" where
  "stream_error_event msg seq =
     marshal (VObj [(''type'', VStr ''error''), (''code'', VStr ''upstream_error''), (''message'', VStr msg),
       (''param'', VNull), (''sequence_number'', VInt seq)])"

definition rewrite_stream_event_model ::
    "(string \<Rightarrow> string \<Rightarrow> bool) \<Rightarrow> (string \<Rightarrow> string \<Rightarrow> string \<Rightarrow> string option) \<Rightarrow> string \<Rightarrow> string \<Rightarrow> string" where
  "rewrite_stream_event_model jexists jset_str payload model =
     (if model = [] \<or> \<not> jexists payload ''response.model'' then payload
      else (case jset_str payload ''response.model'' model of None \<Rightarrow> payload | Some b \<Rightarrow> b))"

text \<open>\<open>observe\<close>: sequence number and terminal state.\<close>

definition sequence_number :: "string \<Rightarrow> int option" where
  "sequence_number payload =
     (case unmarshal_struct payload of
        None \<Rightarrow> None
      | Some ms \<Rightarrow>
          (case dec_int_ptr None (field_values [''sequence_number''] ''sequence_number'' ms) of
             None \<Rightarrow> None | Some n \<Rightarrow> n))"

definition observe :: "string \<Rightarrow> string \<Rightarrow> open_stream \<Rightarrow> open_stream" where
  "observe typ payload s =
     (let s1 = (case sequence_number payload of None \<Rightarrow> s | Some n \<Rightarrow> s\<lparr>os_last_seq := n\<rparr>) in
      if typ = ''response.completed'' then s1\<lparr>os_terminal := True, os_success := True\<rparr>
      else if typ \<in> {''response.failed'', ''response.incomplete'', ''error''}
      then s1\<lparr>os_terminal := True, os_success := False, os_err_class := typ\<rparr>
      else s1)"

definition max64 :: "int \<Rightarrow> int \<Rightarrow> int" where
  "max64 a b = (if b < a then a else b)"

definition note_meta :: "string \<Rightarrow> open_stream \<Rightarrow> open_stream" where
  "note_meta payload s =
     (let ((i, out, c, cw), rid) = parse_openai_event_meta payload; (i0, o0, c0, cw0) = os_tokens s in
      s\<lparr>os_tokens := (max64 i0 i, max64 o0 out, max64 c0 c, max64 cw0 cw),
        os_resp_id := (if rid \<noteq> [] then rid else os_resp_id s)\<rparr>)"

text \<open>The third-party JSON functions the handler calls.\<close>

record json_lib =
  jl_exists :: "string \<Rightarrow> string \<Rightarrow> bool"
  jl_set_str :: "string \<Rightarrow> string \<Rightarrow> string \<Rightarrow> string option"
  jl_set_raw :: "string \<Rightarrow> string \<Rightarrow> string \<Rightarrow> string option"

definition rewritten :: "json_lib \<Rightarrow> string \<Rightarrow> string \<Rightarrow> string" where
  "rewritten jl model payload = rewrite_stream_event_model (jl_exists jl) (jl_set_str jl) payload model"

text \<open>The commit: headers, the routing event of the Hoard endpoint, and the buffered events.\<close>

definition replay :: "json_lib \<Rightarrow> string \<Rightarrow> sse_event \<Rightarrow> open_stream \<Rightarrow> open_stream" where
  "replay jl model ev s =
     (let s1 = note_meta (snd ev) (observe (fst ev) (snd ev) s) in
      s1\<lparr>os_w := write_chunk (sse_frame (fst ev) (rewritten jl model (snd ev))) (os_w s1)\<rparr>)"

definition commit_stream ::
    "json_lib \<Rightarrow> string \<Rightarrow> candidate \<Rightarrow> nat \<Rightarrow> nat \<Rightarrow> route_trace option \<Rightarrow> sse_event list \<Rightarrow> response \<Rightarrow> open_stream" where
  "commit_stream jl model c attempt_no gen tr buf w =
     (let w1 = write_header 200 (set_header ''Cache-Control'' ''no-cache''
                 (set_header ''Content-Type'' ''text/event-stream'' (debug_headers c attempt_no gen w)));
          w2 = (case tr of
                  None \<Rightarrow> w1
                | Some t \<Rightarrow> write_chunk (sse_frame ''sleepyrouter.routing'' (routing_event_payload (jl_set_raw jl) t)) w1)
      in fold (replay jl model) buf
           \<lparr>os_w = w2, os_trace = tr, os_tokens = (0, 0, 0, 0), os_resp_id = [], os_last_seq = -1,
            os_terminal = False, os_success = False, os_err_class = []\<rparr>)"

text \<open>\<open>errorEvent\<close>, written as an SSE error frame.\<close>

definition write_error_event :: "json_lib \<Rightarrow> string \<Rightarrow> string \<Rightarrow> open_stream \<Rightarrow> open_stream" where
  "write_error_event jl msg cls s =
     (let tr = map_option (trace_fail_selected cls msg) (os_trace s) in
      s\<lparr>os_trace := tr,
        os_w := write_chunk (sse_frame ''error''
          (inject_trace (jl_set_raw jl) (stream_error_event msg (wrap64 (os_last_seq s + 1))) tr)) (os_w s)\<rparr>)"

definition forward_event :: "json_lib \<Rightarrow> string \<Rightarrow> string \<Rightarrow> string \<Rightarrow> open_stream \<Rightarrow> open_stream" where
  "forward_event jl model typ payload s =
     (let s1 = note_meta payload (observe typ payload s) in
      if os_trace s1 \<noteq> None \<and> is_empty_completion typ payload then
        write_error_event jl ''upstream returned empty response'' ''upstream''
          (s1\<lparr>os_terminal := True, os_success := False, os_err_class := ''upstream''\<rparr>)
      else s1\<lparr>os_w := write_chunk (sse_frame typ (rewritten jl model payload)) (os_w s1)\<rparr>)"

definition result_of :: "open_stream \<Rightarrow> stream_result" where
  "result_of s =
     (let (i, out, c, cw) = os_tokens s in
      \<lparr>sr_success = os_success s, sr_in_tok = i, sr_cached_tok = c, sr_cache_write_tok = cw,
       sr_out_tok = out, sr_response_id = os_resp_id s, sr_status_code = 0, sr_err_class = os_err_class s\<rparr>)"

definition end_with :: "bool \<Rightarrow> string \<Rightarrow> open_stream \<Rightarrow> open_stream" where
  "end_with ok cls s = s\<lparr>os_success := ok, os_err_class := cls\<rparr>"

text \<open>The loop after the commit; timers and tickers it does not select on are passed over.\<close>

fun drain_openai :: "json_lib \<Rightarrow> string \<Rightarrow> input list \<Rightarrow> open_stream \<Rightarrow> open_stream option" where
  "drain_openai jl model [] s = None"
| "drain_openai jl model (CtxDone # ins) s = Some (end_with False ''client'' s)"
| "drain_openai jl model (Recv typ payload # ins) s =
     (let s' = forward_event jl model typ payload s in
      if os_terminal s' then Some s' else drain_openai jl model ins s')"
| "drain_openai jl model (Closed err # ins) s =
     (let s1 = (if err \<noteq> None then end_with False ''upstream'' s
                else if \<not> os_terminal s then end_with False ''upstream_eof'' s else s)
      in Some (if os_terminal s1 then s1
               else write_error_event jl ''upstream stream ended before completion'' (os_err_class s1) s1))"
| "drain_openai jl model (IdleTimer # ins) s =
     (let s1 = end_with False ''timeout'' s
      in Some (if os_terminal s1 then s1
               else write_error_event jl ''upstream stream idle timeout'' ''timeout'' s1))"
| "drain_openai jl model (FirstTimer # ins) s = drain_openai jl model ins s"
| "drain_openai jl model (OutputDeadline # ins) s = drain_openai jl model ins s"
| "drain_openai jl model (PingTick # ins) s = drain_openai jl model ins s"

text \<open>\<open>precommitAndStreamOpenAI\<close>: not committed with its error, or the finished stream.\<close>

datatype attempt_end = NotCommitted attempt_error | Committed open_stream

definition precommit_and_stream_openai ::
    "json_lib \<Rightarrow> (go_error \<Rightarrow> attempt_error) \<Rightarrow> string \<Rightarrow> candidate \<Rightarrow> nat \<Rightarrow> nat \<Rightarrow> route_trace option
      \<Rightarrow> tick list \<Rightarrow> response \<Rightarrow> attempt_end option" where
  "precommit_and_stream_openai jl classify model c attempt_no gen tr ticks w =
     (case precommit_openai classify [] ticks of
        PreBlocked \<Rightarrow> None
      | PreFailed ae \<Rightarrow> Some (NotCommitted ae)
      | PreCommit buf rest \<Rightarrow>
          (let s = commit_stream jl model c attempt_no gen tr buf w in
           if os_terminal s then Some (Committed s)
           else map_option Committed (drain_openai jl model (map tk_input rest) s)))"

section \<open>Lemmas\<close>

fun recv_of :: "input \<Rightarrow> sse_event option" where
  "recv_of (Recv typ payload) = Some (typ, payload)"
| "recv_of _ = None"

definition recvs :: "input list \<Rightarrow> sse_event list" where
  "recvs ins = List.map_filter recv_of ins"

lemma recvs_simps [simp]:
  "recvs [] = []" "recvs (Recv typ payload # ins) = (typ, payload) # recvs ins"
  "recvs (CtxDone # ins) = recvs ins" "recvs (FirstTimer # ins) = recvs ins"
  "recvs (OutputDeadline # ins) = recvs ins" "recvs (IdleTimer # ins) = recvs ins"
  "recvs (PingTick # ins) = recvs ins" "recvs (Closed err # ins) = recvs ins"
  "recvs (ins @ ins') = recvs ins @ recvs ins'"
  by (simp_all add: recvs_def List.map_filter_def)

definition terminal_type :: "string \<Rightarrow> bool" where
  "terminal_type typ \<longleftrightarrow> typ \<in> {''response.completed'', ''response.failed'', ''response.incomplete'', ''error''}"

text \<open>What precommit buffered when it waits, and when it commits.\<close>

lemma precommit_blocked:
  "precommit_openai f buf ts = PreBlocked \<Longrightarrow> \<not> buffer_full (buf @ recvs (map tk_input ts))"
proof (induction f buf ts rule: precommit_openai.induct)
  case (1 f buf)
  then show ?case by (auto split: if_splits)
next
  case (2 f buf t ts)
  then show ?case by (cases "tk_input t") (auto split: if_splits option.splits)
qed

definition commits_at ::
    "sse_event list \<Rightarrow> tick list \<Rightarrow> sse_event list \<Rightarrow> tick list \<Rightarrow> tick list \<Rightarrow> tick \<Rightarrow> sse_event \<Rightarrow> bool" where
  "commits_at buf ts buf' rest pre t ev \<longleftrightarrow>
     ts = pre @ t # rest \<and> tk_input t = Recv (fst ev) (snd ev) \<and>
     buf' = buf @ recvs (map tk_input pre) @ [ev] \<and>
     is_meaningful_event (fst ev) (snd ev) \<and> \<not> is_empty_completion (fst ev) (snd ev) \<and>
     fst ev \<noteq> ''response.failed'' \<and> fst ev \<noteq> ''error'' \<and>
     (\<forall>e \<in> set (recvs (map tk_input pre)). \<not> is_meaningful_event (fst e) (snd e) \<and> fst e \<noteq> ''error'') \<and>
     \<not> buffer_full (buf @ recvs (map tk_input pre)) \<and>
     list_all (\<lambda>t. \<not> tk_expired_before t) (pre @ [t]) \<and> \<not> tk_expired_after t"

lemma commits_at_later:
  assumes "commits_at (buf @ recvs [tk_input t]) ts buf' rest pre t' ev"
    and "\<forall>e \<in> set (recvs [tk_input t]). \<not> is_meaningful_event (fst e) (snd e) \<and> fst e \<noteq> ''error''"
    and "\<not> tk_expired_before t"
  shows "commits_at buf (t # ts) buf' rest (t # pre) t' ev"
proof -
  have "recvs (map tk_input (t # pre)) = recvs [tk_input t] @ recvs (map tk_input pre)"
    using recvs_simps(9) [of "[tk_input t]" "map tk_input pre"] by simp
  with assms show ?thesis unfolding commits_at_def by auto
qed

lemma precommit_commit:
  "precommit_openai f buf ts = PreCommit buf' rest \<Longrightarrow> \<exists>pre t ev. commits_at buf ts buf' rest pre t ev"
proof (induction f buf ts arbitrary: buf' rest rule: precommit_openai.induct)
  case (1 f buf)
  then show ?case by (auto split: if_splits)
next
  case (2 f buf t ts)
  have nb: "\<not> tk_expired_before t" "\<not> buffer_full buf" using 2(4) by (auto split: if_splits)
  show ?case
  proof (cases "tk_input t")
    case (Recv ty p)
    show ?thesis
    proof (cases "is_meaningful_event ty p")
      case True
      with 2(4) nb Recv have "buf' = buf @ [(ty, p)]" "rest = ts" "\<not> tk_expired_after t"
        "ty \<noteq> ''response.failed''" "ty \<noteq> ''error''" "\<not> is_empty_completion ty p"
        by (auto split: if_splits)
      with True nb Recv have "commits_at buf (t # ts) buf' rest [] t (ty, p)"
        by (simp add: commits_at_def)
      then show ?thesis by blast
    next
      case False
      with 2(4) nb Recv have n: "\<not> tk_expired_after t" "ty \<noteq> ''response.failed''" "ty \<noteq> ''error''"
        "\<not> is_empty_completion ty p" and r: "precommit_openai f (buf @ [(ty, p)]) ts = PreCommit buf' rest"
        by (auto split: if_splits)
      from 2(3) [OF nb Recv n(1) _ n(4) False r] n nb obtain pre t' ev where
        "commits_at (buf @ [(ty, p)]) ts buf' rest pre t' ev" by auto
      then have "commits_at buf (t # ts) buf' rest (t # pre) t' ev"
        using Recv False n nb by (intro commits_at_later) auto
      then show ?thesis by blast
    qed
  next
    case FirstTimer
    with 2(1,4) nb obtain pre t' ev where "commits_at buf ts buf' rest pre t' ev" by (auto split: if_splits)
    then have "commits_at buf (t # ts) buf' rest (t # pre) t' ev"
      using FirstTimer nb by (intro commits_at_later) auto
    then show ?thesis by blast
  next
    case PingTick
    with 2(2,4) nb obtain pre t' ev where "commits_at buf ts buf' rest pre t' ev" by (auto split: if_splits)
    then have "commits_at buf (t # ts) buf' rest (t # pre) t' ev"
      using PingTick nb by (intro commits_at_later) auto
    then show ?thesis by blast
  qed (use 2(4) nb in \<open>auto split: if_splits option.splits\<close>)
qed

lemma observe_sel [simp]:
  "os_w (observe ty p s) = os_w s" "os_trace (observe ty p s) = os_trace s"
  "os_tokens (observe ty p s) = os_tokens s" "os_resp_id (observe ty p s) = os_resp_id s"
  "os_terminal (observe ty p s) \<longleftrightarrow> os_terminal s \<or> terminal_type ty"
  "os_success (observe ty p s) \<longleftrightarrow> (if terminal_type ty then ty = ''response.completed'' else os_success s)"
  by (simp_all add: observe_def Let_def terminal_type_def split: option.split)

lemma note_meta_sel [simp]:
  "os_w (note_meta p s) = os_w s" "os_trace (note_meta p s) = os_trace s"
  "os_last_seq (note_meta p s) = os_last_seq s" "os_terminal (note_meta p s) = os_terminal s"
  "os_success (note_meta p s) = os_success s" "os_err_class (note_meta p s) = os_err_class s"
  by (simp_all add: note_meta_def split: prod.split)

lemma end_with_sel [simp]:
  "os_w (end_with b cls s) = os_w s" "os_trace (end_with b cls s) = os_trace s"
  "os_terminal (end_with b cls s) = os_terminal s" "os_success (end_with b cls s) = b"
  "os_err_class (end_with b cls s) = cls" "os_tokens (end_with b cls s) = os_tokens s"
  by (simp_all add: end_with_def)

lemma write_error_event_sel [simp]:
  "os_terminal (write_error_event jl msg cls s) = os_terminal s"
  "os_success (write_error_event jl msg cls s) = os_success s"
  "os_err_class (write_error_event jl msg cls s) = os_err_class s"
  "os_tokens (write_error_event jl msg cls s) = os_tokens s"
  "rw_status (os_w (write_error_event jl msg cls s)) =
     (case rw_status (os_w s) of None \<Rightarrow> Some 200 | Some st \<Rightarrow> Some st)"
  by (simp_all add: write_error_event_def Let_def)

lemma write_error_event_chunks:
  "\<exists>d. rw_chunks (os_w (write_error_event jl msg cls s)) = rw_chunks (os_w s) @ [sse_frame ''error'' d]"
  unfolding write_error_event_def Let_def by (simp, blast)

abbreviation event_frame :: "json_lib \<Rightarrow> string \<Rightarrow> sse_event \<Rightarrow> string" where
  "event_frame jl model ev \<equiv> sse_frame (fst ev) (rewritten jl model (snd ev))"

lemma replay_fold:
  "rw_status (os_w s) = Some 200 \<Longrightarrow> rw_status (os_w (fold (replay jl model) evs s)) = Some 200 \<and>
   rw_chunks (os_w (fold (replay jl model) evs s)) = rw_chunks (os_w s) @ map (event_frame jl model) evs \<and>
   os_trace (fold (replay jl model) evs s) = os_trace s \<and>
   (os_terminal (fold (replay jl model) evs s) \<longleftrightarrow> os_terminal s \<or> (\<exists>ev \<in> set evs. terminal_type (fst ev)))"
  by (induction evs arbitrary: s) (auto simp: replay_def Let_def)

text \<open>The response id of a stream: the last one its events name.\<close>

definition stream_id :: "sse_event list \<Rightarrow> string" where
  "stream_id evs =
     (let rs = filter (\<lambda>r. r \<noteq> []) (map (\<lambda>ev. snd (parse_openai_event_meta (snd ev))) evs) in
      if rs = [] then [] else last rs)"

lemma stream_id_Nil [simp]: "stream_id [] = []"
  by (simp add: stream_id_def)

lemma stream_id_snoc:
  "stream_id (evs @ [ev]) =
     (let r = snd (parse_openai_event_meta (snd ev)) in if r \<noteq> [] then r else stream_id evs)"
  by (simp add: stream_id_def Let_def)

lemma resp_id_sel [simp]:
  "os_resp_id (observe ty p s) = os_resp_id s"
  "os_resp_id (end_with b cls s) = os_resp_id s"
  "os_resp_id (write_error_event jl msg cls s) = os_resp_id s"
  by (simp_all add: observe_def Let_def end_with_def write_error_event_def split: option.split)

lemma note_meta_id:
  "os_resp_id s = stream_id evs \<Longrightarrow> os_resp_id (note_meta p s) = stream_id (evs @ [(ty, p)])"
  by (simp add: note_meta_def stream_id_snoc Let_def split: prod.split)

lemma replay_fold_id:
  "os_resp_id s = stream_id evs \<Longrightarrow>
   os_resp_id (fold (replay jl model) evs2 s) = stream_id (evs @ evs2)"
proof (induction evs2 arbitrary: s evs)
  case (Cons ev evs2)
  have "os_resp_id (replay jl model ev s) = stream_id (evs @ [ev])"
    using note_meta_id [of "observe (fst ev) (snd ev) s" evs "snd ev" "fst ev"] Cons.prems
    by (simp add: replay_def Let_def)
  from Cons.IH [OF this] show ?case by simp
qed simp

text \<open>
  A stream that has forwarded the events \<open>evs\<close>: the frames after \<open>base\<close> are theirs, in order, then
  perhaps a frame of the gateway, and success is a completed event at the end and no such frame.
\<close>

definition has_sent :: "json_lib \<Rightarrow> string \<Rightarrow> string list \<Rightarrow> sse_event list \<Rightarrow> string list \<Rightarrow> open_stream \<Rightarrow> bool" where
  "has_sent jl model base evs errs s \<longleftrightarrow>
     rw_status (os_w s) = Some 200 \<and> rw_chunks (os_w s) = base @ map (event_frame jl model) evs @ errs \<and>
     evs \<noteq> [] \<and> (\<forall>ev \<in> set (butlast evs). \<not> terminal_type (fst ev)) \<and>
     (errs = [] \<or> (\<exists>d. errs = [sse_frame ''error'' d]) \<and> \<not> terminal_type (fst (last evs))) \<and>
     (os_success s \<longleftrightarrow> fst (last evs) = ''response.completed'') \<and>
     (os_success s \<longrightarrow> os_resp_id s = stream_id evs)"

text \<open>It is still open: nothing terminal so far.\<close>

definition open_after :: "json_lib \<Rightarrow> string \<Rightarrow> string list \<Rightarrow> sse_event list \<Rightarrow> open_stream \<Rightarrow> bool" where
  "open_after jl model base evs s \<longleftrightarrow>
     rw_status (os_w s) = Some 200 \<and> rw_chunks (os_w s) = base @ map (event_frame jl model) evs \<and>
     evs \<noteq> [] \<and> (\<forall>ev \<in> set evs. \<not> terminal_type (fst ev)) \<and> \<not> os_terminal s \<and> \<not> os_success s \<and>
     os_resp_id s = stream_id evs"

lemma open_after_not_completed:
  "open_after jl model base evs s \<Longrightarrow> fst (last evs) \<noteq> ''response.completed'' \<and> \<not> terminal_type (fst (last evs))"
  unfolding open_after_def by (auto simp: terminal_type_def dest!: bspec [of _ _ "last evs"])

lemma open_after_ends:
  assumes "open_after jl model base evs s"
  shows "has_sent jl model base evs [] (end_with False cls s)"
    and "\<exists>errs. has_sent jl model base evs errs (write_error_event jl msg cls' (end_with False cls s))"
  using assms open_after_not_completed [OF assms] write_error_event_chunks [of jl msg cls' "end_with False cls s"]
  by (auto simp: has_sent_def open_after_def dest: in_set_butlastD)

lemma open_after_forward:
  assumes "open_after jl model base evs s"
  shows "(if os_terminal (forward_event jl model ty p s)
    then \<exists>evs' errs. (evs' = evs @ [(ty, p)] \<and> errs = [] \<or> evs' = evs) \<and>
      has_sent jl model base evs' errs (forward_event jl model ty p s)
    else open_after jl model base (evs @ [(ty, p)]) (forward_event jl model ty p s))"
proof (cases "os_trace s \<noteq> None \<and> is_empty_completion ty p")
  case True
  let ?s = "(note_meta p (observe ty p s))\<lparr>os_terminal := True, os_success := False, os_err_class := ''upstream''\<rparr>"
  have f: "forward_event jl model ty p s = write_error_event jl ''upstream returned empty response'' ''upstream'' ?s"
    using True by (simp add: forward_event_def Let_def)
  have "os_w ?s = os_w s" by simp
  with assms open_after_not_completed [OF assms] write_error_event_chunks [of jl "''upstream returned empty response''" "''upstream''" ?s]
  have "\<exists>errs. has_sent jl model base evs errs (forward_event jl model ty p s)"
    unfolding f by (auto simp: has_sent_def open_after_def dest: in_set_butlastD)
  then show ?thesis by (auto simp: f)
next
  case False
  then have f: "forward_event jl model ty p s =
      (note_meta p (observe ty p s))\<lparr>os_w := write_chunk (event_frame jl model (ty, p)) (os_w s)\<rparr>"
    by (cases "os_trace s") (simp_all add: forward_event_def Let_def)
  have rid: "os_resp_id (forward_event jl model ty p s) = stream_id (evs @ [(ty, p)])"
    using assms note_meta_id [of "observe ty p s" evs p ty] by (simp add: f open_after_def)
  show ?thesis
  proof (cases "terminal_type ty")
    case True
    with assms rid have "has_sent jl model base (evs @ [(ty, p)]) [] (forward_event jl model ty p s)"
      by (auto simp: f has_sent_def open_after_def)
    with True show ?thesis by (auto simp: f)
  next
    case False
    with assms rid show ?thesis by (auto simp: f open_after_def)
  qed
qed

text \<open>Off the Hoard endpoint an event is forwarded as it is.\<close>

lemma forward_plain:
  assumes "os_trace s = None"
  shows "os_trace (forward_event jl model ty p s) = None"
    "os_terminal (forward_event jl model ty p s) \<longleftrightarrow> os_terminal s \<or> terminal_type ty"
    "os_success (forward_event jl model ty p s) \<longleftrightarrow>
       (if terminal_type ty then ty = ''response.completed'' else os_success s)"
  using assms by (simp_all add: forward_event_def Let_def)

lemma drain_sent:
  "drain_openai jl model ins s = Some s' \<Longrightarrow> open_after jl model base evs s \<Longrightarrow>
   \<exists>more rest errs. recvs ins = more @ rest \<and> has_sent jl model base (evs @ more) errs s'"
proof (induction jl model ins s arbitrary: evs rule: drain_openai.induct)
  case (1 jl model s)
  then show ?case by simp
next
  case (2 jl model ins s)
  then have "has_sent jl model base (evs @ []) [] s'"
    using open_after_ends(1) [OF 2(2), of "''client''"] by simp
  then show ?case unfolding recvs_simps by (metis append_Nil)
next
  case (3 jl model ty p ins s)
  let ?f = "forward_event jl model ty p s"
  show ?case
  proof (cases "os_terminal ?f")
    case True
    with 3(2) have s': "s' = ?f" by (simp add: Let_def)
    from open_after_forward [OF 3(3), of ty p] True obtain evs' errs where
      "evs' = evs @ [(ty, p)] \<and> errs = [] \<or> evs' = evs" "has_sent jl model base evs' errs ?f" by auto
    then consider "has_sent jl model base (evs @ [(ty, p)]) errs ?f" | "has_sent jl model base (evs @ []) errs ?f"
      by auto
    then show ?thesis
    proof cases
      case 1
      then show ?thesis unfolding s' by (intro exI [of _ "[(ty, p)]"] exI [of _ "recvs ins"]) auto
    next
      case 2
      then show ?thesis unfolding s' recvs_simps by (metis append_Nil)
    qed
  next
    case False
    with 3(2) have "drain_openai jl model ins ?f = Some s'" by (simp add: Let_def)
    moreover have "open_after jl model base (evs @ [(ty, p)]) ?f"
      using open_after_forward [OF 3(3), of ty p] False by simp
    ultimately obtain more rest errs where "recvs ins = more @ rest"
      "has_sent jl model base ((evs @ [(ty, p)]) @ more) errs s'" using 3(1) [OF refl False] by blast
    then show ?thesis by (intro exI [of _ "(ty, p) # more", OF exI [of _ rest]]) auto
  qed
next
  case (4 jl model err ins s)
  have nt: "\<not> os_terminal s" using 4(2) by (simp add: open_after_def)
  then obtain cls where "s' = write_error_event jl ''upstream stream ended before completion'' cls (end_with False cls s)"
    using 4(1) by (cases err) (auto simp: Let_def)
  with open_after_ends(2) [OF 4(2)] have "\<exists>errs. has_sent jl model base (evs @ []) errs s'" by simp
  then show ?case unfolding recvs_simps by (metis append_Nil)
next
  case (5 jl model ins s)
  have "\<not> os_terminal s" using 5(2) by (simp add: open_after_def)
  then have "s' = write_error_event jl ''upstream stream idle timeout'' ''timeout'' (end_with False ''timeout'' s)"
    using 5(1) by (simp add: Let_def)
  with open_after_ends(2) [OF 5(2)] have "\<exists>errs. has_sent jl model base (evs @ []) errs s'" by simp
  then show ?case unfolding recvs_simps by (metis append_Nil)
qed auto

section \<open>Properties\<close>

lemma trim_space_types:
  "trim_space ''response.completed'' = ''response.completed''"
  "trim_space ''response.failed'' = ''response.failed''"
  "trim_space ''response.incomplete'' = ''response.incomplete''"
  by code_simp+

lemma types_meaningful:
  "''response.completed'' \<in> set meaningful_types" "''response.failed'' \<in> set meaningful_types"
  "''response.incomplete'' \<in> set meaningful_types"
  by code_simp+

lemma terminal_meaningful:
  assumes "terminal_type ty" and "ty \<noteq> ''error''"
  shows "is_meaningful_event ty p"
proof -
  from assms consider "ty = ''response.completed''" | "ty = ''response.failed''" | "ty = ''response.incomplete''"
    unfolding terminal_type_def by blast
  then have "trim_space ty \<in> set meaningful_types"
    by cases (simp_all only: trim_space_types types_meaningful)
  then show ?thesis unfolding is_meaningful_event_def by blast
qed

lemma attempt_class [simp]:
  "ae_class (mk_attempt a b cls msg) = cls" "ae_class (timeout_attempt msg) = ErrorTimeout"
  "ae_class limit_attempt = ErrorTimeout"
  by (simp_all add: mk_attempt_def timeout_attempt_def limit_attempt_def)

lemma not_buffer_full:
  "\<not> buffer_full buf \<longleftrightarrow> length buf < 32 \<and> sum_list (map (length \<circ> snd) buf) < 65536"
  by (auto simp: buffer_full_def default_precommit_def)

definition routing_frames :: "json_lib \<Rightarrow> route_trace option \<Rightarrow> string list" where
  "routing_frames jl tr =
     (case tr of
        None \<Rightarrow> []
      | Some t \<Rightarrow> [sse_frame ''sleepyrouter.routing'' (routing_event_payload (jl_set_raw jl) t)])"

lemma commit_stream_sent:
  assumes "rw_status w = None" and "pre @ [ev] = buf"
    and "\<forall>e \<in> set pre. \<not> is_meaningful_event (fst e) (snd e) \<and> fst e \<noteq> ''error''" and "fst ev \<noteq> ''error''"
  shows "if os_terminal (commit_stream jl model c n gen tr buf w)
    then has_sent jl model (rw_chunks w @ routing_frames jl tr) buf [] (commit_stream jl model c n gen tr buf w)
    else open_after jl model (rw_chunks w @ routing_frames jl tr) buf (commit_stream jl model c n gen tr buf w)"
proof -
  obtain s0 where s0: "\<And>es. commit_stream jl model c n gen tr es w = fold (replay jl model) es s0"
    and w0: "rw_status (os_w s0) = Some 200" "rw_chunks (os_w s0) = rw_chunks w @ routing_frames jl tr"
      "\<not> os_terminal s0" "\<not> os_success s0" "os_resp_id s0 = stream_id []"
    using assms(1) by (auto simp: commit_stream_def Let_def routing_frames_def split: option.split)
  have pre: "\<forall>e \<in> set pre. \<not> terminal_type (fst e)" using assms(3) terminal_meaningful by blast
  let ?s1 = "fold (replay jl model) pre s0"
  have pre_s: "\<not> os_success (fold (replay jl model) es s)" if "\<forall>e \<in> set es. \<not> terminal_type (fst e)" "\<not> os_success s" for es s
    using that by (induction es arbitrary: s) (simp_all add: replay_def Let_def)
  have s: "commit_stream jl model c n gen tr buf w = replay jl model ev ?s1" unfolding s0 assms(2) [symmetric] by simp
  have f: "rw_status (os_w ?s1) = Some 200" "rw_chunks (os_w ?s1) = rw_chunks (os_w s0) @ map (event_frame jl model) pre"
    "\<not> os_terminal ?s1"
    using replay_fold [OF w0(1), of jl model pre] pre w0(3) by auto
  have succ: "\<not> os_success ?s1" by (rule pre_s [OF pre w0(4)])
  have rid: "os_resp_id (replay jl model ev ?s1) = stream_id buf"
    using replay_fold_id [OF w0(5), of jl model buf] by (simp flip: assms(2))
  show ?thesis
  proof (cases "terminal_type (fst ev)")
    case True
    with f w0 pre rid show ?thesis
      unfolding s by (auto simp: replay_def Let_def has_sent_def simp flip: assms(2))
  next
    case False
    with f w0 pre succ rid show ?thesis
      unfolding s by (auto simp: replay_def Let_def open_after_def simp flip: assms(2))
  qed
qed

text \<open>
  C11 (the commit decision is bounded). Waiting, the gateway has buffered fewer than 32 events and
  64 KiB; it commits at the first meaningful event, which is not an empty completion, with at most
  32 events; and it gives up with a timeout, an upstream error, a client cancellation or the
  class of the stream's error.
\<close>

theorem precommit_bounded:
  "case precommit_openai classify [] ticks of
     PreBlocked \<Rightarrow> length (recvs (map tk_input ticks)) < 32 \<and>
       sum_list (map (length \<circ> snd) (recvs (map tk_input ticks))) < 65536
   | PreFailed ae \<Rightarrow> ae_class ae = ErrorTimeout \<or> ae_class ae = ErrorUpstream \<or>
       ae = mk_attempt [] [] ErrorClient ''request cancelled by client'' \<or> (\<exists>e. ae = classify e)
   | PreCommit buf rest \<Rightarrow> buf \<noteq> [] \<and> length buf \<le> 32 \<and>
       recvs (map tk_input ticks) = buf @ recvs (map tk_input rest) \<and>
       sum_list (map (length \<circ> snd) (butlast buf)) < 65536 \<and>
       list_all (\<lambda>e. \<not> is_meaningful_event (fst e) (snd e)) (butlast buf) \<and>
       is_meaningful_event (fst (last buf)) (snd (last buf)) \<and>
       \<not> is_empty_completion (fst (last buf)) (snd (last buf))"
proof (cases "precommit_openai classify [] ticks")
  case PreBlocked
  with precommit_blocked [OF PreBlocked] show ?thesis by (simp add: not_buffer_full)
next
  case (PreFailed ae)
  have "ae_class ae = ErrorTimeout \<or> ae_class ae = ErrorUpstream \<or>
       ae = mk_attempt [] [] ErrorClient ''request cancelled by client'' \<or> (\<exists>e. ae = classify e)"
    if "precommit_openai classify buf ts = PreFailed ae" for buf ts
    using that
  proof (induction classify buf ts rule: precommit_openai.induct)
    case (1 f buf)
    then show ?case by (auto split: if_splits)
  next
    case (2 f buf t ts)
    then show ?case by (cases "tk_input t") (auto split: if_splits option.splits)
  qed
  with PreFailed show ?thesis by simp
next
  case (PreCommit buf rest)
  obtain pre t ev where "commits_at [] ticks buf rest pre t ev" using precommit_commit [OF PreCommit] by blast
  with PreCommit show ?thesis
    by (auto simp: commits_at_def not_buffer_full list_all_iff)
qed

lemma committed_sent:
  assumes "precommit_and_stream_openai jl classify model c n gen tr ticks w = Some (Committed s)"
    and "rw_status w = None"
  shows "\<exists>evs rest errs. recvs (map tk_input ticks) = evs @ rest \<and>
    has_sent jl model (rw_chunks w @ routing_frames jl tr) evs errs s"
proof -
  obtain buf rest where pc: "precommit_openai classify [] ticks = PreCommit buf rest"
    using assms(1) by (auto simp: precommit_and_stream_openai_def split: precommit_result.splits)
  obtain pre t ev where at: "commits_at [] ticks buf rest pre t ev" using precommit_commit [OF pc] by blast
  let ?pre = "recvs (map tk_input pre)" and ?base = "rw_chunks w @ routing_frames jl tr"
    and ?s = "commit_stream jl model c n gen tr buf w"
  have buf: "?pre @ [ev] = buf" and all: "recvs (map tk_input ticks) = buf @ recvs (map tk_input rest)"
    using at by (auto simp: commits_at_def)
  have "\<forall>e \<in> set ?pre. \<not> is_meaningful_event (fst e) (snd e) \<and> fst e \<noteq> ''error''" "fst ev \<noteq> ''error''"
    using at by (auto simp: commits_at_def)
  note committed = commit_stream_sent [OF assms(2) buf this, of jl model c n gen tr]
  show ?thesis
  proof (cases "os_terminal ?s")
    case True
    with assms(1) pc have "s = ?s" by (simp add: precommit_and_stream_openai_def Let_def)
    with committed True have "has_sent jl model ?base buf [] s" by simp
    with all show ?thesis by blast
  next
    case False
    with assms(1) pc have "drain_openai jl model (map tk_input rest) ?s = Some s"
      by (auto simp: precommit_and_stream_openai_def Let_def)
    moreover have "open_after jl model ?base buf ?s" using committed False by simp
    ultimately obtain more rest' errs where
      "recvs (map tk_input rest) = more @ rest'" "has_sent jl model ?base (buf @ more) errs s"
      using drain_sent [of jl model "map tk_input rest" ?s s ?base buf] by metis
    with all show ?thesis by (metis append.assoc)
  qed
qed

text \<open>
  C12 (a committed stream is the upstream's). What the client of a committed stream reads is, after
  the routing event of the Hoard endpoint, the upstream's events from the first one on, in order and
  without gap, with only the model rewritten, then at most one error frame of the gateway. Nothing
  follows a terminal event, and the stream counts as a success exactly if it ends with a completed
  response.
\<close>

theorem committed_stream_output:
  assumes "precommit_and_stream_openai jl classify model c n gen tr ticks w = Some (Committed s)"
    and "rw_status w = None"
  shows "\<exists>evs rest errs. recvs (map tk_input ticks) = evs @ rest \<and> evs \<noteq> [] \<and>
    rw_status (os_w s) = Some 200 \<and>
    rw_chunks (os_w s) = rw_chunks w @ routing_frames jl tr @
      map (\<lambda>ev. sse_frame (fst ev) (rewritten jl model (snd ev))) evs @ errs \<and>
    (\<forall>ev \<in> set (butlast evs). \<not> terminal_type (fst ev)) \<and>
    (errs = [] \<or> (\<exists>d. errs = [sse_frame ''error'' d]) \<and> \<not> terminal_type (fst (last evs))) \<and>
    (os_success s \<longleftrightarrow> fst (last evs) = ''response.completed'')"
  using committed_sent [OF assms] by (auto simp: has_sent_def)

text \<open>A stream that is announced, speaks and completes.\<close>

definition plain_lib :: json_lib where
  "plain_lib = \<lparr>jl_exists = (\<lambda>b k. False), jl_set_str = (\<lambda>b k v. Some b), jl_set_raw = (\<lambda>b k v. Some b)\<rparr>"

definition on_time :: "input \<Rightarrow> tick" where
  "on_time i = \<lparr>tk_expired_before = False, tk_input = i, tk_expired_after = False\<rparr>"

definition sample_ticks :: "tick list" where
  "sample_ticks = map on_time
     [Recv ''response.created'' ''{}'', Recv ''response.output_text.delta'' ''{}'', PingTick,
      Recv ''response.completed'' ''{}'', Closed None]"

lemma sample_ticks_precommit:
  "precommit_openai classify [] sample_ticks =
     PreCommit [(''response.created'', ''{}''), (''response.output_text.delta'', ''{}'')]
       (map on_time [PingTick, Recv ''response.completed'' ''{}'', Closed None])"
  by code_simp

lemma sample_ticks_committed:
  "\<exists>s. precommit_and_stream_openai jl classify model c n gen None sample_ticks w = Some (Committed s) \<and>
     os_success s"
proof -
  let ?s = "commit_stream jl model c n gen None
      [(''response.created'', ''{}''), (''response.output_text.delta'', ''{}'')] w"
  have "os_trace ?s = None" "\<not> os_terminal ?s"
    by (simp_all add: commit_stream_def Let_def replay_def terminal_type_def)
  then show ?thesis
    by (auto simp: precommit_and_stream_openai_def sample_ticks_precommit Let_def on_time_def forward_plain
        terminal_type_def)
qed

theorem committed_stream_output_witness:
  "\<exists>s evs. precommit_and_stream_openai plain_lib (\<lambda>e. mk_attempt [] [] ErrorUpstream (ge_text e)) ''m''
      sample_candidate 1 1 None sample_ticks new_response = Some (Committed s) \<and>
     recvs (map tk_input sample_ticks) = evs \<and> length evs = 3 \<and> os_success s"
proof -
  obtain s where s: "precommit_and_stream_openai plain_lib (\<lambda>e. mk_attempt [] [] ErrorUpstream (ge_text e)) ''m''
      sample_candidate 1 1 None sample_ticks new_response = Some (Committed s)" "os_success s"
    using sample_ticks_committed by blast
  have "rw_status new_response = None" by (simp add: new_response_def)
  from committed_stream_output [OF s(1) this] s show ?thesis by (auto simp: sample_ticks_def on_time_def)
qed

end
