(* ===== verification/Anthropic_Request.thy ===== *)
theory Anthropic_Request
  imports Complex_Main "HOL-Library.Monad_Syntax" Upstream
begin

text \<open>
  \<open>internal/protocol/anthropic/request.go\<close> and \<open>tokens.go\<close>: parsing and validating a Messages request.
  A \<open>json.RawMessage\<close> is \<open>None\<close> when it is absent. The faults are values with the parameters of their
  messages. A JSON number behind a \<open>*float64\<close> is read by the argument \<open>fl\<close>, the value of the nearest
  float64 as a rational, \<open>None\<close> when it is out of range.
\<close>

section \<open>The typed request\<close>

record content_block =
  cb_type :: string
  cb_text :: string
  cb_id :: string
  cb_name :: string
  cb_input :: "raw_message option"
  cb_tool_use_id :: string
  cb_content :: "raw_message option"
  cb_source :: "raw_message option"
  cb_is_error :: bool
  cb_title :: string

record message =
  ms_role :: string
  ms_content :: "raw_message option"
  ms_output_config :: "raw_message option"

record tool_def =
  td_name :: string
  td_type :: string
  td_description :: string
  td_input_schema :: "raw_message option"
  td_strict :: "bool option"
  td_defer_loading :: "bool option"

record message_request =
  mr_model :: string
  mr_max_tokens :: int
  mr_messages :: "message list"
  mr_system :: "raw_message option"
  mr_tools :: "tool_def list"
  mr_tool_choice :: "raw_message option"
  mr_stream :: bool
  mr_thinking :: "raw_message option"
  mr_output_config :: "raw_message option"
  mr_temperature :: "rat option"
  mr_top_p :: "rat option"
  mr_stop_sequences :: "string list"
  mr_metadata :: "raw_message option"

record parsed =
  pa_raw :: string
  pa_typed :: message_request
  pa_requested_model :: string
  pa_stream :: bool
  pa_requirements :: requirements
  pa_session_id :: string

section \<open>Decoding\<close>

definition raw_bytes :: "raw_message option \<Rightarrow> string" where
  "raw_bytes r = (case r of None \<Rightarrow> [] | Some (s, _) \<Rightarrow> s)"

text \<open>The bytes of a message without the blanks around them.\<close>

definition raw_trim :: "raw_message option \<Rightarrow> string" where
  "raw_trim r = trim_space (raw_bytes r)"

definition is_json_null :: "raw_message option \<Rightarrow> bool" where
  "is_json_null r \<longleftrightarrow> raw_trim r = ''null''"

text \<open>The guard \<open>len(raw) > 0 && !isJSONNull(raw)\<close>.\<close>

definition given :: "raw_message option \<Rightarrow> bool" where
  "given r \<longleftrightarrow> raw_bytes r \<noteq> [] \<and> \<not> is_json_null r"

text \<open>Unmarshalling a message as a whole: nothing is a syntax error.\<close>

definition raw_string :: "raw_message option \<Rightarrow> string option" where
  "raw_string r = (case r of None \<Rightarrow> None | Some m \<Rightarrow> dec_string [] [m])"

definition raw_struct :: "raw_message option \<Rightarrow> (string \<times> raw_message) list option" where
  "raw_struct r = (case r of None \<Rightarrow> None | Some m \<Rightarrow> dec_struct [] [m])"

text \<open>A map, not nil.\<close>

definition raw_object :: "raw_message option \<Rightarrow> (string \<times> raw_message) list option" where
  "raw_object r = (case r of Some (_, JObj ms) \<Rightarrow> Some ms | _ \<Rightarrow> None)"

fun dec_float_ptr :: "(string \<Rightarrow> rat option) \<Rightarrow> rat option \<Rightarrow> raw_message list \<Rightarrow> rat option option" where
  "dec_float_ptr fl x [] = Some x"
| "dec_float_ptr fl x ((_, JNull) # vs) = dec_float_ptr fl None vs"
| "dec_float_ptr fl x ((_, JNum l) # vs) =
     (case fl l of None \<Rightarrow> None | Some y \<Rightarrow> dec_float_ptr fl (Some y) vs)"
| "dec_float_ptr fl x (_ # vs) = None"

definition content_block_names :: "string list" where
  "content_block_names =
     [''type'', ''text'', ''id'', ''name'', ''input'', ''tool_use_id'', ''content'', ''source'', ''is_error'', ''title'']"

definition dec_content_block :: "raw_message \<Rightarrow> content_block option" where
  "dec_content_block r =
     (case dec_struct [] [r] of
        None \<Rightarrow> None
      | Some ms \<Rightarrow>
          (let f = (\<lambda>k. field_values content_block_names k ms) in
           do { ty \<leftarrow> dec_string [] (f ''type''); tx \<leftarrow> dec_string [] (f ''text'');
                i \<leftarrow> dec_string [] (f ''id''); n \<leftarrow> dec_string [] (f ''name'');
                tu \<leftarrow> dec_string [] (f ''tool_use_id''); er \<leftarrow> dec_bool False (f ''is_error'');
                ti \<leftarrow> dec_string [] (f ''title'');
                Some \<lparr>cb_type = ty, cb_text = tx, cb_id = i, cb_name = n, cb_input = dec_raw (f ''input''),
                      cb_tool_use_id = tu, cb_content = dec_raw (f ''content''), cb_source = dec_raw (f ''source''),
                      cb_is_error = er, cb_title = ti\<rparr> }))"

definition raw_blocks :: "raw_message option \<Rightarrow> content_block list option" where
  "raw_blocks r =
     (case r of
        None \<Rightarrow> None
      | Some m \<Rightarrow> (case dec_slice [] [m] of None \<Rightarrow> None | Some xs \<Rightarrow> dec_all dec_content_block xs))"

definition dec_message :: "raw_message \<Rightarrow> message option" where
  "dec_message r =
     (case dec_struct [] [r] of
        None \<Rightarrow> None
      | Some ms \<Rightarrow>
          (let f = (\<lambda>k. field_values [''role'', ''content'', ''output_config''] k ms) in
           case dec_string [] (f ''role'') of
             None \<Rightarrow> None
           | Some role \<Rightarrow>
               Some \<lparr>ms_role = role, ms_content = dec_raw (f ''content''), ms_output_config = dec_raw (f ''output_config'')\<rparr>))"

definition dec_tool :: "raw_message \<Rightarrow> tool_def option" where
  "dec_tool r =
     (case dec_struct [] [r] of
        None \<Rightarrow> None
      | Some ms \<Rightarrow>
          (let f = (\<lambda>k. field_values [''name'', ''type'', ''description'', ''input_schema'', ''strict'', ''defer_loading''] k ms) in
           do { n \<leftarrow> dec_string [] (f ''name''); ty \<leftarrow> dec_string [] (f ''type'');
                d \<leftarrow> dec_string [] (f ''description''); st \<leftarrow> dec_bool_ptr None (f ''strict'');
                df \<leftarrow> dec_bool_ptr None (f ''defer_loading'');
                Some \<lparr>td_name = n, td_type = ty, td_description = d, td_input_schema = dec_raw (f ''input_schema''),
                      td_strict = st, td_defer_loading = df\<rparr> }))"

definition dec_list :: "(raw_message \<Rightarrow> 'a option) \<Rightarrow> raw_message list \<Rightarrow> 'a list option" where
  "dec_list f vs = (case dec_slice [] vs of None \<Rightarrow> None | Some xs \<Rightarrow> dec_all f xs)"

definition message_request_names :: "string list" where
  "message_request_names =
     [''model'', ''max_tokens'', ''messages'', ''system'', ''tools'', ''tool_choice'', ''stream'', ''thinking'',
      ''output_config'', ''temperature'', ''top_p'', ''stop_sequences'', ''metadata'']"

definition dec_message_request ::
    "(string \<Rightarrow> rat option) \<Rightarrow> (string \<times> raw_message) list \<Rightarrow> message_request option" where
  "dec_message_request fl ms =
     (let f = (\<lambda>k. field_values message_request_names k ms) in
      do { md \<leftarrow> dec_string [] (f ''model''); mx \<leftarrow> dec_int 0 (f ''max_tokens'');
           mm \<leftarrow> dec_list dec_message (f ''messages''); tt \<leftarrow> dec_list dec_tool (f ''tools'');
           st \<leftarrow> dec_bool False (f ''stream''); te \<leftarrow> dec_float_ptr fl None (f ''temperature'');
           tp \<leftarrow> dec_float_ptr fl None (f ''top_p'');
           ss \<leftarrow> dec_list (\<lambda>r. dec_string [] [r]) (f ''stop_sequences'');
           Some \<lparr>mr_model = md, mr_max_tokens = mx, mr_messages = mm, mr_system = dec_raw (f ''system''),
                 mr_tools = tt, mr_tool_choice = dec_raw (f ''tool_choice''), mr_stream = st,
                 mr_thinking = dec_raw (f ''thinking''), mr_output_config = dec_raw (f ''output_config''),
                 mr_temperature = te, mr_top_p = tp, mr_stop_sequences = ss, mr_metadata = dec_raw (f ''metadata'')\<rparr> })"

section \<open>Requirements\<close>

definition needs_vision :: "content_block \<Rightarrow> bool" where
  "needs_vision b \<longleftrightarrow> cb_type b \<in> {''image'', ''document''}"

definition nested_content_needs_vision :: "raw_message option \<Rightarrow> bool" where
  "nested_content_needs_vision r = (case raw_blocks r of None \<Rightarrow> False | Some bs \<Rightarrow> list_ex needs_vision bs)"

definition message_needs_vision :: "message \<Rightarrow> bool" where
  "message_needs_vision m =
     (if has_prefix (raw_trim (ms_content m)) [CHR 0x22] then False
      else
        (case raw_blocks (ms_content m) of
           None \<Rightarrow> False
         | Some bs \<Rightarrow>
             list_ex (\<lambda>b. needs_vision b \<or>
               cb_type b = ''tool_result'' \<and> nested_content_needs_vision (cb_content b)) bs))"

definition thinking_wanted :: "raw_message option \<Rightarrow> bool" where
  "thinking_wanted r \<longleftrightarrow> given r \<and>
     (case raw_struct r of
        None \<Rightarrow> True
      | Some ms \<Rightarrow>
          (case dec_string [] (field_values [''type''] ''type'' ms) of
             None \<Rightarrow> True | Some ty \<Rightarrow> ty \<noteq> [] \<and> ty \<noteq> ''disabled''))"

definition effort_wanted :: "raw_message option \<Rightarrow> bool" where
  "effort_wanted r \<longleftrightarrow> given r \<and>
     (case raw_struct r of
        None \<Rightarrow> True
      | Some ms \<Rightarrow>
          (case dec_string [] (field_values [''effort''] ''effort'' ms) of
             None \<Rightarrow> True | Some e \<Rightarrow> trim_space e \<noteq> []))"

definition message_requirements :: "message_request \<Rightarrow> requirements" where
  "message_requirements t =
     \<lparr>rq_tools = (mr_tools t \<noteq> []), rq_vision = list_ex message_needs_vision (mr_messages t),
      rq_reasoning = (thinking_wanted (mr_thinking t) \<or> effort_wanted (mr_output_config t))\<rparr>"

section \<open>Faults\<close>

datatype result_fault = ResultShape | ResultBlock nat string

datatype block_fault =
    TypeMissing | TypeUnknown string | AssistantOnly string | UserOnly string
  | UseIncomplete | UseInput | UseDuplicate string
  | ResultNoId | ResultUnknown string | ResultDuplicate string | ResultContent result_fault

datatype message_fault = HasConfig | InvalidRole string | ContentRequired | ContentShape | AtBlock nat block_fault

datatype tool_fault = NameMissing | ServerType string | Deferred | NameDuplicate string | SchemaShape

datatype choice_fault = ChoiceText | ChoiceShape | ChoiceNamed string | ChoiceUndeclared | ChoiceType string

datatype metadata_fault = MetadataShape | MetadataField string | MetadataUser

datatype config_fault =
  ConfigShape | ConfigField string | ConfigMalformed | ConfigEffort string | ConfigFormat string | ConfigSchema

datatype thinking_fault =
  ThinkingShape | ThinkingDisplay | BudgetUnexpected | BudgetLow | BudgetHigh | ThinkingType string

datatype field_fault =
    ModelMissing | MaxTokensMissing | MaxTokensNotPositive | UnsupportedField string | NoMessages
  | TemperatureRange | TopPRange

datatype request_fault =
    MalformedBody | InvalidRequest | Field field_fault
  | AtMessage nat message_fault | SystemShape | SystemBlock nat
  | AtTool nat tool_fault | Choice choice_fault | Metadata metadata_fault | Config config_fault
  | Thinking thinking_fault

section \<open>Messages\<close>

fun check_result_blocks :: "nat \<Rightarrow> content_block list \<Rightarrow> result_fault option" where
  "check_result_blocks i [] = None"
| "check_result_blocks i (b # bs) =
     (if cb_type b \<in> {''text'', ''image'', ''document''} then check_result_blocks (Suc i) bs
      else Some (ResultBlock i (cb_type b)))"

definition validate_tool_result_content :: "raw_message option \<Rightarrow> result_fault option" where
  "validate_tool_result_content r =
     (let content = raw_trim r in
      if content = [] \<or> content = ''null'' \<or> has_prefix content [CHR 0x22] then None
      else if \<not> has_prefix content ''['' then Some ResultShape
      else (case raw_blocks r of None \<Rightarrow> Some ResultShape | Some bs \<Rightarrow> check_result_blocks 0 bs))"

definition block_types :: "string list" where
  "block_types =
     [''text'', ''image'', ''document'', ''tool_use'', ''tool_result'', ''thinking'', ''redacted_thinking'']"

text \<open>The ids of the tool uses and of the tool results seen so far.\<close>

type_synonym seen_ids = "string list \<times> string list"

definition check_tool_use :: "nat \<Rightarrow> nat \<Rightarrow> content_block \<Rightarrow> seen_ids \<Rightarrow> (seen_ids, request_fault) ctl" where
  "check_tool_use i j b s =
     (let (uses, results) = s in
      if cb_id b = [] \<or> cb_name b = [] then Return (AtMessage i (AtBlock j UseIncomplete))
      else if raw_object (cb_input b) = None then Return (AtMessage i (AtBlock j UseInput))
      else if cb_id b \<in> set uses then Return (AtMessage i (AtBlock j (UseDuplicate (cb_id b))))
      else Continue (uses @ [cb_id b], results))"

definition check_tool_result :: "nat \<Rightarrow> nat \<Rightarrow> content_block \<Rightarrow> seen_ids \<Rightarrow> (seen_ids, request_fault) ctl" where
  "check_tool_result i j b s =
     (let (uses, results) = s; tid = cb_tool_use_id b in
      if tid = [] then Return (AtMessage i (AtBlock j ResultNoId))
      else if tid \<notin> set uses then Return (AtMessage i (AtBlock j (ResultUnknown tid)))
      else if tid \<in> set results then Return (AtMessage i (AtBlock j (ResultDuplicate tid)))
      else case validate_tool_result_content (cb_content b) of
             Some f \<Rightarrow> Return (AtMessage i (AtBlock j (ResultContent f)))
           | None \<Rightarrow> Continue (uses, results @ [tid]))"

definition check_block :: "nat \<Rightarrow> string \<Rightarrow> nat \<times> content_block \<Rightarrow> seen_ids \<Rightarrow> (seen_ids, request_fault) ctl" where
  "check_block i role jb s =
     (let (j, b) = jb; ty = cb_type b in
      if ty = [] then Return (AtMessage i (AtBlock j TypeMissing))
      else if ty \<notin> set block_types then Return (AtMessage i (AtBlock j (TypeUnknown ty)))
      else if ty \<in> {''tool_use'', ''thinking'', ''redacted_thinking''} \<and> role \<noteq> ''assistant''
      then Return (AtMessage i (AtBlock j (AssistantOnly ty)))
      else if ty \<in> {''tool_result'', ''image'', ''document''} \<and> role \<noteq> ''user'' then Return (AtMessage i (AtBlock j (UserOnly ty)))
      else if ty = ''tool_use'' then check_tool_use i j b s
      else if ty = ''tool_result'' then check_tool_result i j b s
      else Continue s)"

definition check_message :: "nat \<times> message \<Rightarrow> seen_ids \<Rightarrow> (seen_ids, request_fault) ctl" where
  "check_message im s =
     (let (i, m) = im; trimmed = raw_trim (ms_content m) in
      if given (ms_output_config m) then Return (AtMessage i HasConfig)
      else if ms_role m \<notin> {''user'', ''assistant'', ''system''} then Return (AtMessage i (InvalidRole (ms_role m)))
      else if trimmed = [] \<or> trimmed = ''null'' then Return (AtMessage i ContentRequired)
      else if has_prefix trimmed [CHR 0x22] then Continue s
      else case raw_blocks (ms_content m) of
             None \<Rightarrow> Return (AtMessage i ContentShape)
           | Some bs \<Rightarrow> for_range (check_block i (ms_role m)) (List.enumerate 0 bs) s)"

fun check_system_blocks :: "nat \<Rightarrow> content_block list \<Rightarrow> request_fault option" where
  "check_system_blocks i [] = None"
| "check_system_blocks i (b # bs) =
     (if cb_type b \<noteq> ''text'' \<or> cb_text b = [] then Some (SystemBlock i) else check_system_blocks (Suc i) bs)"

definition check_system :: "raw_message option \<Rightarrow> request_fault option" where
  "check_system r =
     (if \<not> given r then None
      else
        (let s = raw_trim r in
         if has_prefix s [CHR 0x22] then None
         else if has_prefix s ''['' then
           (case raw_blocks r of None \<Rightarrow> Some SystemShape | Some bs \<Rightarrow> check_system_blocks 0 bs)
         else Some SystemShape))"

definition validate_blocks :: "message_request \<Rightarrow> request_fault option" where
  "validate_blocks t =
     (case for_range check_message (List.enumerate 0 (mr_messages t)) ([], []) of
        Return f \<Rightarrow> Some f
      | Continue s \<Rightarrow> check_system (mr_system t))"

section \<open>Options\<close>

definition check_tool :: "nat \<times> tool_def \<Rightarrow> string list \<Rightarrow> (string list, request_fault) ctl" where
  "check_tool it names =
     (let (i, t) = it in
      if trim_space (td_name t) = [] then Return (AtTool i NameMissing)
      else if td_type t \<noteq> [] \<and> td_type t \<noteq> ''custom'' then Return (AtTool i (ServerType (td_type t)))
      else if td_defer_loading t = Some True then Return (AtTool i Deferred)
      else if td_name t \<in> set names then Return (AtTool i (NameDuplicate (td_name t)))
      else if raw_object (td_input_schema t) = None then Return (AtTool i SchemaShape)
      else Continue (names @ [td_name t]))"

definition validate_tool_choice :: "raw_message option \<Rightarrow> string list \<Rightarrow> request_fault option" where
  "validate_tool_choice r tools =
     (if \<not> given r then None
      else if has_prefix (raw_trim r) [CHR 0x22] then
        (case raw_string r of
           None \<Rightarrow> Some (Choice ChoiceText)
         | Some c \<Rightarrow> if c \<noteq> ''auto'' \<and> c \<noteq> ''none'' then Some (Choice ChoiceText) else None)
      else
        (let names = [''type'', ''name'', ''disable_parallel_tool_use''] in
         case raw_struct r of
           None \<Rightarrow> Some (Choice ChoiceShape)
         | Some ms \<Rightarrow>
             (case (dec_string [] (field_values names ''type'' ms), dec_string [] (field_values names ''name'' ms),
                    dec_bool_ptr None (field_values names ''disable_parallel_tool_use'' ms)) of
                (Some ty, Some name, Some _) \<Rightarrow>
                  if ty \<in> {''auto'', ''any'', ''none''} then (if name \<noteq> [] then Some (Choice (ChoiceNamed ty)) else None)
                  else if ty = ''tool'' then
                    (if name = [] \<or> name \<notin> set tools then Some (Choice ChoiceUndeclared) else None)
                  else Some (Choice (ChoiceType ty))
              | _ \<Rightarrow> Some (Choice ChoiceShape))))"

text \<open>Runes of a UTF-8 string: the bytes that do not continue one.\<close>

definition rune_count :: "string \<Rightarrow> nat" where
  "rune_count s = length (filter (\<lambda>c. byte c div 64 \<noteq> 2) s)"

text \<open>The keys are visited in document order; the Go map visits them in any order.\<close>

definition validate_metadata :: "raw_message option \<Rightarrow> request_fault option" where
  "validate_metadata r =
     (if \<not> given r then None
      else
        (case raw_object r of
           None \<Rightarrow> Some (Metadata MetadataShape)
         | Some ms \<Rightarrow>
             (case find (\<lambda>(k, _). k \<noteq> ''user_id'') ms of
                Some (k, _) \<Rightarrow> Some (Metadata (MetadataField k))
              | None \<Rightarrow>
                  (case map_lookup ms ''user_id'' of
                     None \<Rightarrow> None
                   | Some v \<Rightarrow>
                       (case dec_string_ptr None [v] of
                          None \<Rightarrow> Some (Metadata MetadataUser)
                        | Some None \<Rightarrow> None
                        | Some (Some u) \<Rightarrow> if 512 < rune_count u then Some (Metadata MetadataUser) else None)))))"

definition efforts :: "string list" where
  "efforts = [''low'', ''medium'', ''high'', ''xhigh'', ''max'']"

text \<open>The typed \<open>output_config\<close>: effort, and the type and schema of the format.\<close>

definition dec_output_config ::
    "raw_message option \<Rightarrow> (string option \<times> (string \<times> raw_message option) option) option" where
  "dec_output_config r =
     (let names = [''effort'', ''format''] in
      case raw_struct r of
        None \<Rightarrow> None
      | Some ms \<Rightarrow>
          (case (dec_string_ptr None (field_values names ''effort'' ms),
                 dec_struct_ptr None (field_values names ''format'' ms)) of
             (Some effort, Some None) \<Rightarrow> Some (effort, None)
           | (Some effort, Some (Some fs)) \<Rightarrow>
               (case dec_string [] (field_values [''type'', ''schema''] ''type'' fs) of
                  None \<Rightarrow> None
                | Some ty \<Rightarrow>
                    Some (effort, Some (ty, dec_raw (field_values [''type'', ''schema''] ''schema'' fs))))
           | _ \<Rightarrow> None))"

definition validate_output_config :: "raw_message option \<Rightarrow> request_fault option" where
  "validate_output_config r =
     (if \<not> given r then None
      else
        (case raw_object r of
           None \<Rightarrow> Some (Config ConfigShape)
         | Some ms \<Rightarrow>
             (case find (\<lambda>(k, _). k \<noteq> ''effort'' \<and> k \<noteq> ''format'') ms of
                Some (k, _) \<Rightarrow> Some (Config (ConfigField k))
              | None \<Rightarrow>
                  (case dec_output_config r of
                     None \<Rightarrow> Some (Config ConfigMalformed)
                   | Some (effort, format) \<Rightarrow>
                       (case (case effort of None \<Rightarrow> None
                                | Some e \<Rightarrow> if e \<in> set efforts then None else Some (Config (ConfigEffort e))) of
                          Some f \<Rightarrow> Some f
                        | None \<Rightarrow>
                            (case format of
                               None \<Rightarrow> None
                             | Some (ty, schema) \<Rightarrow>
                                 if ty \<noteq> ''json_schema'' then Some (Config (ConfigFormat ty))
                                 else if raw_object schema = None then Some (Config ConfigSchema) else None)))))) "

definition validate_thinking :: "raw_message option \<Rightarrow> int \<Rightarrow> request_fault option" where
  "validate_thinking r max_tokens =
     (if \<not> given r then None
      else
        (let names = [''type'', ''budget_tokens'', ''display''] in
         case raw_struct r of
           None \<Rightarrow> Some (Thinking ThinkingShape)
         | Some ms \<Rightarrow>
             (case (dec_string [] (field_values names ''type'' ms), dec_int_ptr None (field_values names ''budget_tokens'' ms),
                    dec_string_ptr None (field_values names ''display'' ms)) of
                (Some ty, Some budget, Some display) \<Rightarrow>
                  if display \<notin> {None, Some ''summarized'', Some ''omitted''} then Some (Thinking ThinkingDisplay)
                  else if ty \<in> {''disabled'', ''adaptive''} then
                    (if budget \<noteq> None then Some (Thinking BudgetUnexpected) else None)
                  else if ty = ''enabled'' then
                    (case budget of
                       None \<Rightarrow> Some (Thinking BudgetLow)
                     | Some n \<Rightarrow>
                         if n < 1024 then Some (Thinking BudgetLow)
                         else if max_tokens \<le> n then Some (Thinking BudgetHigh) else None)
                  else Some (Thinking (ThinkingType ty))
              | _ \<Rightarrow> Some (Thinking ThinkingShape))))"

definition outside_unit :: "rat option \<Rightarrow> bool" where
  "outside_unit x = (case x of None \<Rightarrow> False | Some v \<Rightarrow> v < 0 \<or> 1 < v)"

definition validate_options :: "message_request \<Rightarrow> request_fault option" where
  "validate_options t =
     (case for_range check_tool (List.enumerate 0 (mr_tools t)) [] of
        Return f \<Rightarrow> Some f
      | Continue names \<Rightarrow>
          orelse (validate_tool_choice (mr_tool_choice t) names)
          (orelse (validate_metadata (mr_metadata t))
          (if outside_unit (mr_temperature t) then Some (Field TemperatureRange)
           else if outside_unit (mr_top_p t) then Some (Field TopPRange)
           else validate_output_config (mr_output_config t))))"

section \<open>Parsing\<close>

definition unsupported_fields :: "string list" where
  "unsupported_fields =
     [''context_management'', ''service_tier'', ''inference_geo'', ''container'', ''mcp_servers'',
      ''cache_control'', ''stop_sequences'', ''top_k'']"

definition parse_names :: "string list" where
  "parse_names =
     [''model'', ''max_tokens'', ''messages'', ''stream'', ''tools'', ''thinking'', ''output_config'', ''system'',
      ''tool_choice'', ''temperature'', ''top_p'']"

text \<open>The routing fields: model, token limit and stream flag.\<close>

definition dec_routing_fields ::
    "(string \<Rightarrow> rat option) \<Rightarrow> (string \<times> raw_message) list
      \<Rightarrow> (string option \<times> int option \<times> bool option \<times> raw_message option) option" where
  "dec_routing_fields fl ms =
     (let f = (\<lambda>k. field_values parse_names k ms) in
      do { model \<leftarrow> dec_string_ptr None (f ''model''); max_tokens \<leftarrow> dec_int_ptr None (f ''max_tokens'');
           stream \<leftarrow> dec_bool_ptr None (f ''stream''); _ \<leftarrow> dec_float_ptr fl None (f ''temperature'');
           _ \<leftarrow> dec_float_ptr fl None (f ''top_p'');
           Some (model, max_tokens, stream, dec_raw (f ''messages'')) })"

definition refused_field :: "(string \<times> raw_message) list \<Rightarrow> string option" where
  "refused_field ms =
     find (\<lambda>k. case map_lookup ms k of None \<Rightarrow> False | Some v \<Rightarrow> trim_space (fst v) \<noteq> ''null'') unsupported_fields"

text \<open>Everything after the routing fields: the message list, the typed request, the checks.\<close>

definition typed_request ::
    "(string \<Rightarrow> rat option) \<Rightarrow> (string \<times> raw_message) list \<Rightarrow> raw_message option \<Rightarrow> request_fault + message_request" where
  "typed_request fl ms messages =
     (case (case messages of None \<Rightarrow> None | Some rm \<Rightarrow> dec_list dec_message [rm]) of
        None \<Rightarrow> Inl (Field NoMessages)
      | Some mm \<Rightarrow>
          if mm = [] then Inl (Field NoMessages)
          else
            (case dec_message_request fl ms of
               None \<Rightarrow> Inl InvalidRequest
             | Some t \<Rightarrow>
                 (case orelse (validate_blocks t)
                    (orelse (validate_options t) (validate_thinking (mr_thinking t) (mr_max_tokens t))) of
                    Some e \<Rightarrow> Inl e
                  | None \<Rightarrow> Inr t)))"

definition parse_message :: "(string \<Rightarrow> rat option) \<Rightarrow> string \<Rightarrow> request_fault + parsed" where
  "parse_message fl raw =
     (case unmarshal_struct raw of
        None \<Rightarrow> Inl MalformedBody
      | Some ms \<Rightarrow>
          (case dec_routing_fields fl ms of
             None \<Rightarrow> Inl MalformedBody
           | Some (model, max_tokens, stream, messages) \<Rightarrow>
               (case model of
                  None \<Rightarrow> Inl (Field ModelMissing)
                | Some md \<Rightarrow>
                    if trim_space md = [] then Inl (Field ModelMissing)
                    else
                      (case max_tokens of
                         None \<Rightarrow> Inl (Field MaxTokensMissing)
                       | Some n \<Rightarrow>
                           if n \<le> 0 then Inl (Field MaxTokensNotPositive)
                           else
                             (case refused_field ms of
                                Some k \<Rightarrow> Inl (Field (UnsupportedField k))
                              | None \<Rightarrow>
                                  (case typed_request fl ms messages of
                                     Inl e \<Rightarrow> Inl e
                                   | Inr t \<Rightarrow>
                                       Inr \<lparr>pa_raw = raw, pa_typed = t, pa_requested_model = md,
                                            pa_stream = (case stream of Some b \<Rightarrow> b | None \<Rightarrow> mr_stream t),
                                            pa_requirements = message_requirements t,
                                            pa_session_id = []\<rparr>))))))"

section \<open>Counting tokens\<close>

definition estimate_raw :: "raw_message option \<Rightarrow> nat \<Rightarrow> nat" where
  "estimate_raw r overhead =
     (if raw_bytes r = [] \<or> raw_bytes r = ''null'' then 0
      else case raw_string r of
             Some s \<Rightarrow> rune_count s div 4 + overhead div 4
           | None \<Rightarrow> rune_count (raw_bytes r) div 4 + overhead)"

text \<open>
  Multiplication by the float64 constant 1.2, which is \<open>5404319552844595 / 2^52\<close>: the product is
  rounded to 53 significant bits, halves to even, and then rounded up to an integer.
\<close>

fun bit_len :: "nat \<Rightarrow> nat" where
  "bit_len n = (if n = 0 then 0 else Suc (bit_len (n div 2)))"

declare bit_len.simps [simp del]

definition round53 :: "nat \<Rightarrow> nat" where
  "round53 m =
     (let s = bit_len m - 53; q = m div 2 ^ s; r = m mod 2 ^ s in
      if s = 0 then m
      else (if 2 ^ s < 2 * r \<or> (2 ^ s = 2 * r \<and> odd q) then q + 1 else q) * 2 ^ s)"

definition with_safety :: "nat \<Rightarrow> nat" where
  "with_safety n = (round53 (n * 5404319552844595) + (4503599627370496 - 1)) div 4503599627370496"

definition message_tokens :: "message \<Rightarrow> nat" where
  "message_tokens m = estimate_raw (ms_content m) 8 + 4 + length (ms_role m) div 4"

definition tool_tokens :: "tool_def \<Rightarrow> nat" where
  "tool_tokens t = length (td_name t) div 4 + 4 + (length (td_description t) div 4 + 4) +
     estimate_raw (td_input_schema t) 16"

definition count_request :: "string \<Rightarrow> nat option" where
  "count_request raw =
     (case unmarshal_struct raw of
        None \<Rightarrow> None
      | Some ms \<Rightarrow>
          (let f = (\<lambda>k. field_values [''system'', ''messages'', ''tools''] k ms) in
           do { mm \<leftarrow> dec_list dec_message (f ''messages''); tt \<leftarrow> dec_list dec_tool (f ''tools'');
                Some (with_safety (max 1 (estimate_raw (dec_raw (f ''system'')) 8 +
                  sum_list (map message_tokens mm) + sum_list (map tool_tokens tt)))) }))"

lemma bit_len_le: "m < 2 ^ k \<Longrightarrow> bit_len m \<le> k"
proof (induction m arbitrary: k rule: bit_len.induct)
  case (1 n)
  show ?case
  proof (cases "n = 0")
    case True
    then show ?thesis by (simp add: bit_len.simps)
  next
    case False
    with 1(2) obtain j where k: "k = Suc j" by (cases k) auto
    with 1(2) have "n div 2 < 2 ^ j" by (simp add: less_mult_imp_div_less mult.commute)
    from 1(1) [OF False this] False k show ?thesis by (simp add: bit_len.simps [of n])
  qed
qed

lemma round53_lower: "2 * m \<le> 2 * round53 m + 2 ^ (bit_len m - 53)"
proof -
  define P :: nat where "P = 2 ^ (bit_len m - 53)"
  define q r where "q = m div P" and "r = m mod P"
  have m: "m = q * P + r" unfolding q_def r_def by (rule div_mult_mod_eq [symmetric])
  have "r < P" by (simp add: r_def P_def)
  have "round53 m = (if bit_len m - 53 = 0 then m
      else if P < 2 * r \<or> (P = 2 * r \<and> odd q) then q * P + P else q * P)"
    by (simp add: round53_def Let_def P_def q_def r_def algebra_simps)
  with m \<open>r < P\<close> show ?thesis unfolding P_def [symmetric] by (auto split: if_splits)
qed

text \<open>
  The token estimate is conservative. The number returned is never below 1.2 times the counted
  total, in spite of the rounding of the float64 product, for every total below \<open>2^46\<close>; a request
  body of 64 MiB stays far below it.
\<close>

lemma with_safety_lower:
  assumes "n < 70368744177664"
  shows "6 * n \<le> 5 * with_safety n"
proof -
  let ?m = "n * 5404319552844595" and ?d = "4503599627370496 :: nat"
  have "?m < 2 ^ 99" using assms by simp
  from bit_len_le [OF this] have "(2 :: nat) ^ (bit_len ?m - 53) \<le> 2 ^ 46" by (intro power_increasing) simp_all
  with round53_lower [of ?m] have x: "2 * ?m \<le> 2 * round53 ?m + 70368744177664" by simp
  have "round53 ?m \<le> with_safety n * ?d"
  proof -
    have "round53 ?m + (?d - 1) < ?d + with_safety n * ?d"
      unfolding with_safety_def by (rule dividend_less_div_times) simp
    then show ?thesis by simp
  qed
  with x assms show ?thesis by simp
qed

lemma with_safety_lower_witness: "6 * (5 :: nat) \<le> 5 * with_safety 5 \<and> with_safety 5 = 6"
proof -
  have "bit_len 27021597764222975 = 55" by (simp add: bit_len.simps)
  then have "with_safety 5 = 6" by (simp add: with_safety_def round53_def Let_def)
  with with_safety_lower [of 5] show ?thesis by simp
qed

section \<open>Accepted conversations\<close>

text \<open>The blocks of a message, and the ids they use; a string is no block.\<close>

definition message_blocks :: "message \<Rightarrow> content_block list" where
  "message_blocks m =
     (if has_prefix (raw_trim (ms_content m)) [CHR 0x22] then []
      else case raw_blocks (ms_content m) of None \<Rightarrow> [] | Some bs \<Rightarrow> bs)"

definition conversation :: "message_request \<Rightarrow> content_block list" where
  "conversation t = concat (map message_blocks (mr_messages t))"

definition use_ids :: "content_block list \<Rightarrow> string list" where
  "use_ids bs = map cb_id (filter (\<lambda>b. cb_type b = ''tool_use'') bs)"

definition result_ids :: "content_block list \<Rightarrow> string list" where
  "result_ids bs = map cb_tool_use_id (filter (\<lambda>b. cb_type b = ''tool_result'') bs)"

text \<open>Ids are fresh, results answer earlier uses, every block has a known type.\<close>

fun paired :: "seen_ids \<Rightarrow> content_block list \<Rightarrow> bool" where
  "paired s [] = True"
| "paired (u, r) (b # bs) =
     (cb_type b \<in> set block_types \<and>
      (if cb_type b = ''tool_use''
       then cb_id b \<noteq> [] \<and> cb_name b \<noteq> [] \<and> cb_id b \<notin> set u \<and> paired (u @ [cb_id b], r) bs
       else if cb_type b = ''tool_result''
       then cb_tool_use_id b \<in> set u \<and> cb_tool_use_id b \<notin> set r \<and> paired (u, r @ [cb_tool_use_id b]) bs
       else paired (u, r) bs))"

definition seen_after :: "seen_ids \<Rightarrow> content_block list \<Rightarrow> seen_ids" where
  "seen_after s bs = (fst s @ use_ids bs, snd s @ result_ids bs)"

lemma seen_after_simps [simp]:
  "seen_after s [] = s" "seen_after s (xs @ ys) = seen_after (seen_after s xs) ys"
  by (simp_all add: seen_after_def use_ids_def result_ids_def)

lemma paired_append: "paired s (xs @ ys) \<longleftrightarrow> paired s xs \<and> paired (seen_after s xs) ys"
  by (induction s xs rule: paired.induct) (auto simp: seen_after_def use_ids_def result_ids_def)

lemma check_block_Continue:
  assumes "check_block i role (j, b) s = Continue s'"
  shows "paired s [b] \<and> s' = seen_after s [b]"
proof -
  obtain u r where s: "s = (u, r)" by (cases s)
  show ?thesis
    using assms unfolding s check_block_def check_tool_use_def check_tool_result_def
    by (simp add: Let_def seen_after_def use_ids_def result_ids_def split: if_splits option.splits)
qed

lemma check_blocks_Continue:
  "for_range (check_block i role) (List.enumerate n bs) s = Continue s' \<Longrightarrow>
    paired s bs \<and> s' = seen_after s bs"
proof (induction bs arbitrary: n s)
  case Nil
  then show ?case by simp
next
  case (Cons b bs)
  obtain s1 where 1: "check_block i role (n, b) s = Continue s1"
    and r: "for_range (check_block i role) (List.enumerate (Suc n) bs) s1 = Continue s'"
    using Cons.prems by (cases "check_block i role (n, b) s") auto
  from check_block_Continue [OF 1] Cons.IH [OF r] paired_append [of s "[b]" bs] seen_after_simps(2) [of s "[b]" bs]
  show ?case by simp
qed

lemma check_messages_Continue:
  "for_range check_message (List.enumerate n ms) s = Continue s' \<Longrightarrow>
    paired s (concat (map message_blocks ms)) \<and> s' = seen_after s (concat (map message_blocks ms))"
proof (induction ms arbitrary: n s)
  case Nil
  then show ?case by simp
next
  case (Cons m ms)
  obtain s1 where 1: "check_message (n, m) s = Continue s1"
    and r: "for_range check_message (List.enumerate (Suc n) ms) s1 = Continue s'"
    using Cons.prems by (cases "check_message (n, m) s") auto
  have "paired s (message_blocks m) \<and> s1 = seen_after s (message_blocks m)"
    using 1 check_blocks_Continue [of n "ms_role m" 0]
    by (auto simp: check_message_def Let_def message_blocks_def split: if_splits option.splits)
  with Cons.IH [OF r] paired_append [of s "message_blocks m"] show ?case by simp
qed

lemma validate_blocks_paired: "validate_blocks t = None \<Longrightarrow> paired ([], []) (conversation t)"
  using check_messages_Continue [of 0 "mr_messages t" "([], [])"]
  by (auto simp: validate_blocks_def conversation_def split: ctl.splits)

lemma paired_distinct:
  "paired s bs \<Longrightarrow> distinct (fst s) \<Longrightarrow> distinct (snd s) \<Longrightarrow> distinct (fst s @ use_ids bs) \<and> distinct (snd s @ result_ids bs)"
proof (induction s bs rule: paired.induct)
  case (1 s)
  then show ?case by (simp add: use_ids_def result_ids_def)
next
  case (2 u r b bs)
  then show ?case by (auto simp: use_ids_def result_ids_def split: if_splits)
qed

lemma paired_earlier:
  assumes "paired s bs" and "bs = xs @ b # ys" and "cb_type b = ''tool_result''"
  shows "cb_tool_use_id b \<in> set (fst s) \<union> set (use_ids xs)"
proof -
  have "paired (seen_after s xs) (b # ys)" using assms(1,2) paired_append by simp
  then show ?thesis using assms(3) by (cases "seen_after s xs") (auto simp: seen_after_def)
qed

lemma parse_message_Inr:
  assumes "parse_message fl raw = Inr p"
  shows "validate_blocks (pa_typed p) = None" and "validate_options (pa_typed p) = None"
    and "validate_thinking (mr_thinking (pa_typed p)) (mr_max_tokens (pa_typed p)) = None"
  using assms
  by (auto simp: parse_message_def typed_request_def orelse_def Let_def split: option.splits if_splits sum.splits)

text \<open>
  C23 (an accepted conversation is well paired). In every request that is accepted the ids of the tool
  uses are distinct and so are those of the tool results, every block has a known type, and every
  tool result answers a tool use that comes before it.
\<close>

theorem accepted_conversation_paired:
  assumes "parse_message fl raw = Inr p"
  shows "distinct (use_ids (conversation (pa_typed p))) \<and> distinct (result_ids (conversation (pa_typed p))) \<and>
    (\<forall>b \<in> set (conversation (pa_typed p)). cb_type b \<in> set block_types) \<and>
    (\<forall>xs b ys. conversation (pa_typed p) = xs @ b # ys \<and> cb_type b = ''tool_result'' \<longrightarrow>
       cb_tool_use_id b \<in> set (use_ids xs))"
proof -
  let ?bs = "conversation (pa_typed p)"
  have pr: "paired ([], []) ?bs" by (rule validate_blocks_paired [OF parse_message_Inr(1) [OF assms]])
  have "\<forall>b \<in> set bs. cb_type b \<in> set block_types" if "paired s bs" for s bs
    using that by (induction s bs rule: paired.induct) (auto split: if_splits)
  with paired_distinct [OF pr] paired_earlier [OF pr] pr show ?thesis by fastforce
qed

text \<open>One tool call and its result, as a client sends them.\<close>

definition jfield :: "string \<Rightarrow> string \<Rightarrow> string" where
  "jfield k v = quote_string k @ '':'' @ v"

definition jobject :: "string list \<Rightarrow> string" where
  "jobject fs = ''{'' @ join_with '','' fs @ ''}''"

definition sample_messages :: string where
  "sample_messages =
     ''['' @ jobject [jfield ''role'' (quote_string ''assistant''), jfield ''content''
        (''['' @ jobject [jfield ''type'' (quote_string ''tool_use''), jfield ''id'' (quote_string ''t1''),
           jfield ''name'' (quote_string ''ls''), jfield ''input'' (jobject [jfield ''p'' ''1''])] @ '']'')] @ '','' @
     jobject [jfield ''role'' (quote_string ''user''), jfield ''content''
        (''['' @ jobject [jfield ''type'' (quote_string ''tool_result''),
           jfield ''tool_use_id'' (quote_string ''t1''), jfield ''content'' (quote_string ''ok'')] @ '']'')] @ '']''"

definition sample_request :: string where
  "sample_request =
     jobject [jfield ''model'' (quote_string ''coding''), jfield ''max_tokens'' ''9'', jfield ''messages'' sample_messages]"

theorem accepted_conversation_paired_witness:
  "\<exists>p. parse_message (\<lambda>_. None) sample_request = Inr p \<and> distinct (use_ids (conversation (pa_typed p))) \<and>
     use_ids (conversation (pa_typed p)) = [''t1''] \<and> result_ids (conversation (pa_typed p)) = [''t1'']"
proof -
  have "case parse_message (\<lambda>_. None) sample_request of Inl e \<Rightarrow> False
    | Inr p \<Rightarrow> use_ids (conversation (pa_typed p)) = [''t1''] \<and> result_ids (conversation (pa_typed p)) = [''t1'']"
    by code_simp
  then obtain p where "parse_message (\<lambda>_. None) sample_request = Inr p"
    "use_ids (conversation (pa_typed p)) = [''t1'']" "result_ids (conversation (pa_typed p)) = [''t1'']"
    by (auto split: sum.splits)
  with accepted_conversation_paired show ?thesis by blast
qed

end
