(* ===== verification/Anthropic_Stream.thy ===== *)
theory Anthropic_Stream
  imports Json
begin

text \<open>
  \<open>internal/protocol/anthropic/stream.go\<close> and \<open>wire.go\<close>: the encoder that turns one OpenAI Responses
  stream into an Anthropic Messages stream. The events are kept as values of the wire types and
  rendered by \<open>render\<close>. The decoding of an upstream event is the SDK's and a parameter
  (\<open>decode\<close>); \<open>toolsByItem\<close> and \<open>toolsByOutput\<close>, two maps to the same tools filled together, are
  one list of the tools with their output index.
\<close>

section \<open>Wire forms\<close>

record wire_usage =
  wu_input_tokens :: int
  wu_output_tokens :: int
  wu_cache_creation :: int
  wu_cache_read :: int

record wire_content_block =
  wb_type :: string
  wb_text :: "string option"
  wb_id :: string
  wb_name :: string
  wb_input :: string

record wire_message =
  wm_id :: string
  wm_type :: string
  wm_role :: string
  wm_content :: "wire_content_block list"
  wm_model :: string
  wm_stop_reason :: "string option"
  wm_stop_sequence :: "string option"
  wm_usage :: wire_usage

record wire_delta_usage =
  du_input_tokens :: "int option"
  du_output_tokens :: "int option"
  du_cache_creation :: "int option"
  du_cache_read :: "int option"

datatype wire_delta = TextDelta string | InputJsonDelta string

datatype wire_event =
    MessageStart wire_message
  | BlockStart nat wire_content_block
  | BlockDelta nat wire_delta
  | BlockStop nat
  | MessageDelta string wire_delta_usage
  | MessageStop
  | ErrorEvent string string

definition null_or_string :: "string option \<Rightarrow> jval" where
  "null_or_string s = (case s of None \<Rightarrow> VNull | Some t \<Rightarrow> VStr t)"

definition usage_json :: "wire_usage \<Rightarrow> jval" where
  "usage_json u =
     VObj [(''input_tokens'', VInt (wu_input_tokens u)), (''output_tokens'', VInt (wu_output_tokens u)),
           (''cache_creation_input_tokens'', VInt (wu_cache_creation u)),
           (''cache_read_input_tokens'', VInt (wu_cache_read u))]"

definition content_block_json :: "wire_content_block \<Rightarrow> jval" where
  "content_block_json b =
     VObj ([(''type'', VStr (wb_type b))] @ omit_none VStr ''text'' (wb_text b) @
           omit_empty ''id'' (wb_id b) @ omit_empty ''name'' (wb_name b) @
           (if wb_input b = [] then [] else [(''input'', VRaw (wb_input b))]))"

definition message_json :: "wire_message \<Rightarrow> jval" where
  "message_json m =
     VObj [(''id'', VStr (wm_id m)), (''type'', VStr (wm_type m)), (''role'', VStr (wm_role m)),
           (''content'', VArr (map content_block_json (wm_content m))), (''model'', VStr (wm_model m)),
           (''stop_reason'', null_or_string (wm_stop_reason m)),
           (''stop_sequence'', null_or_string (wm_stop_sequence m)), (''usage'', usage_json (wm_usage m))]"

definition delta_usage_json :: "wire_delta_usage \<Rightarrow> jval" where
  "delta_usage_json u =
     VObj (omit_none VInt ''input_tokens'' (du_input_tokens u) @
           omit_none VInt ''output_tokens'' (du_output_tokens u) @
           omit_none VInt ''cache_creation_input_tokens'' (du_cache_creation u) @
           omit_none VInt ''cache_read_input_tokens'' (du_cache_read u))"

fun delta_json :: "wire_delta \<Rightarrow> jval" where
  "delta_json (TextDelta s) = VObj [(''type'', VStr ''text_delta''), (''text'', VStr s)]"
| "delta_json (InputJsonDelta s) = VObj [(''type'', VStr ''input_json_delta''), (''partial_json'', VStr s)]"

text \<open>Name and data of the server-sent event.\<close>

fun event_name :: "wire_event \<Rightarrow> string" where
  "event_name (MessageStart m) = ''message_start''"
| "event_name (BlockStart i b) = ''content_block_start''"
| "event_name (BlockDelta i d) = ''content_block_delta''"
| "event_name (BlockStop i) = ''content_block_stop''"
| "event_name (MessageDelta r u) = ''message_delta''"
| "event_name MessageStop = ''message_stop''"
| "event_name (ErrorEvent k m) = ''error''"

fun event_members :: "wire_event \<Rightarrow> (string \<times> jval) list" where
  "event_members (MessageStart m) = [(''message'', message_json m)]"
| "event_members (BlockStart i b) = [(''index'', VInt (int i)), (''content_block'', content_block_json b)]"
| "event_members (BlockDelta i d) = [(''index'', VInt (int i)), (''delta'', delta_json d)]"
| "event_members (BlockStop i) = [(''index'', VInt (int i))]"
| "event_members (MessageDelta r u) =
     [(''delta'', VObj [(''stop_reason'', VStr r), (''stop_sequence'', VNull)]), (''usage'', delta_usage_json u)]"
| "event_members MessageStop = []"
| "event_members (ErrorEvent k m) = [(''error'', VObj [(''type'', VStr k), (''message'', VStr m)])]"

definition render :: "wire_event \<Rightarrow> string \<times> string" where
  "render ev = (event_name ev, marshal (VObj ((''type'', VStr (event_name ev)) # event_members ev)))"

section \<open>The encoder\<close>

record stream_tool =
  st_item_id :: string
  st_call_id :: string
  st_index :: nat
  st_arguments :: string
  st_closed :: bool

record encoder =
  en_message_id :: string
  en_requested_model :: string
  en_next_index :: nat
  en_text_open :: bool
  en_text_index :: nat
  en_input_tokens :: int
  en_output_tokens :: int
  en_cache_creation :: int
  en_cache_read :: int
  en_input_known :: bool
  en_output_known :: bool
  en_cache_creation_known :: bool
  en_cache_read_known :: bool
  en_refusal_text :: string
  en_stop_reason :: string
  en_started :: bool
  en_terminal :: bool
  en_success :: bool
  en_tools :: "(int \<times> stream_tool) list"

text \<open>The random part of the message id is an argument.\<close>

definition new_stream_encoder :: "string \<Rightarrow> string \<Rightarrow> encoder" where
  "new_stream_encoder uuid model =
     \<lparr>en_message_id = ''msg_sr_'' @ uuid, en_requested_model = model, en_next_index = 0,
      en_text_open = False, en_text_index = 0, en_input_tokens = 0, en_output_tokens = 0,
      en_cache_creation = 0, en_cache_read = 0, en_input_known = False, en_output_known = False,
      en_cache_creation_known = False, en_cache_read_known = False, en_refusal_text = [],
      en_stop_reason = ''end_turn'', en_started = False, en_terminal = False, en_success = False,
      en_tools = []\<rparr>"

definition start_message :: "encoder \<Rightarrow> wire_message" where
  "start_message e =
     \<lparr>wm_id = en_message_id e, wm_type = ''message'', wm_role = ''assistant'', wm_content = [],
      wm_model = en_requested_model e, wm_stop_reason = None, wm_stop_sequence = None,
      wm_usage = \<lparr>wu_input_tokens = en_input_tokens e, wu_output_tokens = en_output_tokens e,
                  wu_cache_creation = en_cache_creation e, wu_cache_read = en_cache_read e\<rparr>\<rparr>"

definition start_events :: "encoder \<Rightarrow> wire_event list \<times> encoder" where
  "start_events e =
     (if en_started e then ([], e) else ([MessageStart (start_message e)], e\<lparr>en_started := True\<rparr>))"

definition fail_stream :: "string \<Rightarrow> string \<Rightarrow> encoder \<Rightarrow> wire_event list \<times> encoder" where
  "fail_stream kind msg e =
     (if en_terminal e then ([], e)
      else ([ErrorEvent kind msg], e\<lparr>en_terminal := True, en_success := False\<rparr>))"

definition text_block :: wire_content_block where
  "text_block = \<lparr>wb_type = ''text'', wb_text = Some [], wb_id = [], wb_name = [], wb_input = []\<rparr>"

definition tool_block :: "string \<Rightarrow> string \<Rightarrow> wire_content_block" where
  "tool_block call name =
     \<lparr>wb_type = ''tool_use'', wb_text = None, wb_id = call, wb_name = name, wb_input = ''{}''\<rparr>"

definition text_delta :: "string \<Rightarrow> encoder \<Rightarrow> wire_event list \<times> encoder" where
  "text_delta delta e =
     (if delta = [] then ([], e)
      else if en_text_open e then ([BlockDelta (en_text_index e) (TextDelta delta)], e)
      else ([BlockStart (en_next_index e) text_block, BlockDelta (en_next_index e) (TextDelta delta)],
            e\<lparr>en_text_index := en_next_index e, en_next_index := Suc (en_next_index e), en_text_open := True\<rparr>))"

definition close_text :: "encoder \<Rightarrow> wire_event list \<times> encoder" where
  "close_text e =
     (if en_text_open e then ([BlockStop (en_text_index e)], e\<lparr>en_text_open := False\<rparr>) else ([], e))"

definition tool_by_item :: "string \<Rightarrow> encoder \<Rightarrow> int option" where
  "tool_by_item item e = map_option fst (find (\<lambda>(k, t). st_item_id t = item) (en_tools e))"

definition tool_at :: "encoder \<Rightarrow> int \<Rightarrow> stream_tool option" where
  "tool_at e k = map_of (en_tools e) k"

text \<open>The tool an event names, by its output index in the list.\<close>

definition find_tool :: "string \<Rightarrow> int option \<Rightarrow> encoder \<Rightarrow> int option" where
  "find_tool item out e =
     (if item \<noteq> [] then tool_by_item item e
      else case out of
             Some k \<Rightarrow> if tool_at e k = None then None else Some k
           | None \<Rightarrow> None)"

definition set_tool :: "int \<Rightarrow> stream_tool \<Rightarrow> encoder \<Rightarrow> encoder" where
  "set_tool k t e = e\<lparr>en_tools := map (\<lambda>(j, u). (j, if j = k then t else u)) (en_tools e)\<rparr>"

definition tool_delta :: "string \<Rightarrow> stream_tool \<Rightarrow> wire_event \<times> stream_tool" where
  "tool_delta fragment t =
     (BlockDelta (st_index t) (InputJsonDelta fragment), t\<lparr>st_arguments := st_arguments t @ fragment\<rparr>)"

definition args_mismatch :: string where
  "args_mismatch = ''upstream function arguments mismatch''"

definition finish_tool :: "int \<Rightarrow> stream_tool \<Rightarrow> string \<Rightarrow> encoder \<Rightarrow> wire_event list \<times> encoder" where
  "finish_tool k t final e =
     (if st_closed t then
        if final \<noteq> [] \<and> final \<noteq> st_arguments t then fail_stream ''api_error'' args_mismatch e else ([], e)
      else
        (let (out1, t1) = (if final \<noteq> [] \<and> st_arguments t = []
                           then (let (ev, u) = tool_delta final t in ([ev], u)) else ([], t)) in
         if final \<noteq> [] \<and> st_arguments t1 \<noteq> final then fail_stream ''api_error'' args_mismatch (set_tool k t1 e)
         else
           (let (out2, t2) = (if st_arguments t1 = []
                              then (let (ev, u) = tool_delta ''{}'' t1 in (out1 @ [ev], u)) else (out1, t1))
            in (out2 @ [BlockStop (st_index t)], set_tool k (t2\<lparr>st_closed := True\<rparr>) e))))"

definition valid_tool_arguments :: "string \<Rightarrow> bool" where
  "valid_tool_arguments arguments =
     (case json_parse arguments of Some (JObj ms) \<Rightarrow> True | _ \<Rightarrow> False)"

definition final_usage :: "encoder \<Rightarrow> wire_delta_usage" where
  "final_usage e =
     \<lparr>du_input_tokens = (if en_input_known e then Some (en_input_tokens e) else None),
      du_output_tokens = (if en_output_known e then Some (en_output_tokens e) else None),
      du_cache_creation = (if en_cache_creation_known e then Some (en_cache_creation e) else None),
      du_cache_read = (if en_cache_read_known e then Some (en_cache_read e) else None)\<rparr>"

text \<open>One iteration over the tools: the still open ones are closed, the arguments are checked.\<close>

definition finish_step ::
    "string \<Rightarrow> int \<Rightarrow> wire_event list \<times> encoder
      \<Rightarrow> (wire_event list \<times> encoder, wire_event list \<times> encoder) ctl" where
  "finish_step stop k oe =
     (let (out, e) = oe in
      case tool_at e k of
        None \<Rightarrow> Continue (out, e)
      | Some t \<Rightarrow>
          (let (more, e1) = (if st_closed t then ([], e) else finish_tool k t [] e) in
           if \<not> st_closed t \<and> en_terminal e1 then Return (more, e1)
           else if stop \<noteq> ''max_tokens'' \<and>
             \<not> valid_tool_arguments (case tool_at e1 k of None \<Rightarrow> [] | Some u \<Rightarrow> st_arguments u)
           then Return (fail_stream ''api_error'' ''invalid upstream function arguments'' e1)
           else Continue (out @ more, e1)))"

definition finish :: "string \<Rightarrow> encoder \<Rightarrow> wire_event list \<times> encoder" where
  "finish stop e =
     (if en_terminal e then ([], e)
      else case for_range (finish_step stop) (sort (map fst (en_tools e))) (close_text e) of
             Return r \<Rightarrow> r
           | Continue (out, e1) \<Rightarrow>
               (out @ [MessageDelta stop (final_usage e1), MessageStop],
                e1\<lparr>en_stop_reason := stop, en_terminal := True, en_success := True\<rparr>))"

section \<open>Usage of an event\<close>

definition dec_wire_usage ::
    "(string \<times> raw_message) list \<Rightarrow> (int option \<times> int option \<times> int option \<times> int option) option" where
  "dec_wire_usage ms =
     (let names = [''input_tokens'', ''output_tokens'', ''input_tokens_details''];
          dnames = [''cached_tokens'', ''cache_write_tokens''] in
      case (dec_int_ptr None (field_values names ''input_tokens'' ms),
            dec_int_ptr None (field_values names ''output_tokens'' ms),
            dec_struct_ptr None (field_values names ''input_tokens_details'' ms)) of
        (Some i, Some out, Some ds) \<Rightarrow>
          (case ds of
             None \<Rightarrow> Some (i, out, None, None)
           | Some dms \<Rightarrow>
               (case (dec_int_ptr None (field_values dnames ''cached_tokens'' dms),
                      dec_int_ptr None (field_values dnames ''cache_write_tokens'' dms)) of
                  (Some c, Some cw) \<Rightarrow> Some (i, out, c, cw)
                | _ \<Rightarrow> None))
      | _ \<Rightarrow> None)"

definition dec_usage_ptr ::
    "raw_message list \<Rightarrow> (int option \<times> int option \<times> int option \<times> int option) option option" where
  "dec_usage_ptr vs =
     (case dec_struct_ptr None vs of
        None \<Rightarrow> None
      | Some None \<Rightarrow> Some None
      | Some (Some ms) \<Rightarrow> (case dec_wire_usage ms of None \<Rightarrow> None | Some u \<Rightarrow> Some (Some u)))"

text \<open>Input, output, cache creation and cache read tokens, as far as the event reports them.\<close>

definition extract_usage :: "string \<Rightarrow> int option \<times> int option \<times> int option \<times> int option" where
  "extract_usage payload =
     (let none = (None, None, None, None); names = [''usage'', ''response''] in
      case unmarshal_struct payload of
        None \<Rightarrow> none
      | Some ms \<Rightarrow>
          (case (dec_usage_ptr (field_values names ''usage'' ms),
                 dec_struct_ptr None (field_values names ''response'' ms)) of
             (Some outer, Some resp) \<Rightarrow>
               (case (case resp of None \<Rightarrow> Some None
                                 | Some rs \<Rightarrow> dec_usage_ptr (field_values [''usage''] ''usage'' rs)) of
                  None \<Rightarrow> none
                | Some nested \<Rightarrow>
                    (case (case nested of Some u \<Rightarrow> Some u | None \<Rightarrow> outer) of
                       None \<Rightarrow> none
                     | Some (i, out, c, cw) \<Rightarrow>
                         (let cached = (case c of None \<Rightarrow> 0 | Some n \<Rightarrow> n);
                              written = (case cw of None \<Rightarrow> 0 | Some n \<Rightarrow> n)
                          in (map_option (\<lambda>n. max 0 (wrap64 (n - wrap64 (cached + written)))) i, out, cw, c))))
           | _ \<Rightarrow> none))"

definition note_usage :: "string \<Rightarrow> encoder \<Rightarrow> encoder" where
  "note_usage payload e =
     (let (i, out, cw, c) = extract_usage payload;
          e1 = (case i of None \<Rightarrow> e | Some n \<Rightarrow> e\<lparr>en_input_tokens := n, en_input_known := True\<rparr>);
          e2 = (case out of None \<Rightarrow> e1 | Some n \<Rightarrow> e1\<lparr>en_output_tokens := n, en_output_known := True\<rparr>);
          e3 = (case cw of None \<Rightarrow> e2 | Some n \<Rightarrow> e2\<lparr>en_cache_creation := n, en_cache_creation_known := True\<rparr>)
      in (case c of None \<Rightarrow> e3 | Some n \<Rightarrow> e3\<lparr>en_cache_read := n, en_cache_read_known := True\<rparr>))"

section \<open>Events\<close>

text \<open>What the encoder reads of the SDK's event union. \<open>ue_output_index\<close>: present in the payload.\<close>

record upstream_event =
  ue_delta :: string
  ue_refusal :: string
  ue_arguments :: string
  ue_item_ref :: string
  ue_output_index :: "int option"
  ue_item_type :: string
  ue_item_id :: string
  ue_item_call_id :: string
  ue_item_name :: string
  ue_item_arguments :: string
  ue_incomplete_reason :: string

definition refusal_done :: "string \<Rightarrow> encoder \<Rightarrow> wire_event list \<times> encoder" where
  "refusal_done refusal e0 =
     (let e = e0\<lparr>en_stop_reason := ''refusal''\<rparr> in
      if refusal \<noteq> en_refusal_text e then
        if en_refusal_text e = [] \<and> refusal \<noteq> [] then text_delta refusal (e\<lparr>en_refusal_text := refusal\<rparr>)
        else fail_stream ''api_error'' ''upstream refusal text mismatch'' e
      else close_text e)"

definition add_tool :: "upstream_event \<Rightarrow> encoder \<Rightarrow> wire_event list \<times> encoder" where
  "add_tool u e =
     (case ue_output_index u of
        None \<Rightarrow> fail_stream ''api_error'' ''incomplete upstream function call'' e
      | Some k \<Rightarrow>
          if ue_item_id u = [] \<or> ue_item_call_id u = [] \<or> ue_item_name u = []
          then fail_stream ''api_error'' ''incomplete upstream function call'' e
          else if tool_by_item (ue_item_id u) e \<noteq> None \<or> tool_at e k \<noteq> None
          then fail_stream ''api_error'' ''duplicate upstream function call'' e
          else
            (let (out, e1) = close_text e;
                 t = \<lparr>st_item_id = ue_item_id u, st_call_id = ue_item_call_id u, st_index = en_next_index e1,
                      st_arguments = [], st_closed = False\<rparr>;
                 (out2, t2) = (if ue_item_arguments u \<noteq> []
                               then (let (ev, t') = tool_delta (ue_item_arguments u) t in ([ev], t')) else ([], t))
             in (out @ BlockStart (st_index t) (tool_block (st_call_id t) (ue_item_name u)) # out2,
                 e1\<lparr>en_next_index := Suc (en_next_index e1), en_tools := en_tools e1 @ [(k, t2)],
                    en_stop_reason := ''tool_use''\<rparr>)))"

definition arguments_delta :: "upstream_event \<Rightarrow> encoder \<Rightarrow> wire_event list \<times> encoder" where
  "arguments_delta u e =
     (let unmatched = fail_stream ''api_error'' ''unmatched upstream function arguments'' e in
      case find_tool (ue_item_ref u) (ue_output_index u) e of
        None \<Rightarrow> unmatched
      | Some k \<Rightarrow>
          (case tool_at e k of
             None \<Rightarrow> unmatched
           | Some t \<Rightarrow>
               if st_closed t then unmatched
               else if ue_delta u = [] then ([], e)
               else (let (ev, t') = tool_delta (ue_delta u) t in ([ev], set_tool k t' e))))"

definition tool_done :: "string \<Rightarrow> string \<Rightarrow> string \<Rightarrow> int option \<Rightarrow> encoder \<Rightarrow> wire_event list \<times> encoder" where
  "tool_done msg final item out e =
     (case find_tool item out e of
        None \<Rightarrow> fail_stream ''api_error'' msg e
      | Some k \<Rightarrow>
          (case tool_at e k of
             None \<Rightarrow> fail_stream ''api_error'' msg e
           | Some t \<Rightarrow> finish_tool k t final e))"

definition dispatch :: "string \<Rightarrow> upstream_event \<Rightarrow> encoder \<Rightarrow> wire_event list \<times> encoder" where
  "dispatch typ u e =
     (if typ = ''response.output_text.delta'' then text_delta (ue_delta u) e
      else if typ = ''response.refusal.delta'' then
        text_delta (ue_delta u)
          (e\<lparr>en_stop_reason := ''refusal'', en_refusal_text := en_refusal_text e @ ue_delta u\<rparr>)
      else if typ = ''response.refusal.done'' then refusal_done (ue_refusal u) e
      else if typ = ''response.output_text.done'' \<or> typ = ''response.content_part.done'' then close_text e
      else if typ = ''response.output_item.added'' then
        if ue_item_type u \<noteq> ''function_call'' then ([], e) else add_tool u e
      else if typ = ''response.function_call_arguments.delta'' then arguments_delta u e
      else if typ = ''response.function_call_arguments.done'' then
        tool_done ''unmatched upstream function arguments'' (ue_arguments u) (ue_item_ref u) (ue_output_index u) e
      else if typ = ''response.output_item.done'' then
        if ue_item_type u \<noteq> ''function_call'' then ([], e)
        else tool_done ''unmatched upstream function call'' (ue_item_arguments u) (ue_item_id u) (ue_output_index u) e
      else if typ = ''response.completed'' then finish (en_stop_reason e) e
      else if typ = ''response.incomplete'' then
        if ue_incomplete_reason u = ''max_output_tokens'' then
          (let (out, e1) = finish ''max_tokens'' e in (out, e1\<lparr>en_success := False\<rparr>))
        else fail_stream ''api_error'' ''upstream response incomplete'' e
      else if typ = ''response.failed'' \<or> typ = ''error'' then
        fail_stream ''api_error'' ''upstream response failed'' e
      else ([], e))"

definition handle_responses_event ::
    "(string \<Rightarrow> upstream_event option) \<Rightarrow> string \<Rightarrow> string \<Rightarrow> encoder \<Rightarrow> wire_event list \<times> encoder" where
  "handle_responses_event decode typ payload e =
     (if en_terminal e then ([], e)
      else case decode payload of
             None \<Rightarrow> fail_stream ''api_error'' ''invalid upstream stream event'' e
           | Some u \<Rightarrow> dispatch typ u (note_usage payload e))"

section \<open>The grammar of a Messages stream\<close>

text \<open>
  What a client accepts: one \<open>message_start\<close>; blocks numbered from 0 in the order they start, with
  non-empty deltas of their own kind only while they are open; \<open>message_delta\<close> and \<open>message_stop\<close>
  when every block is closed; or one \<open>error\<close>. Nothing follows the end.
\<close>

datatype block_kind = KText | KTool

datatype proto = Fresh | Live nat "(nat \<times> block_kind) set" | Ending | Over

definition start_kind :: "wire_content_block \<Rightarrow> block_kind option" where
  "start_kind b =
     (if wb_type b = ''text'' \<and> wb_text b = Some [] then Some KText
      else if wb_type b = ''tool_use'' \<and> wb_id b \<noteq> [] \<and> wb_name b \<noteq> [] \<and> wb_input b = ''{}'' then Some KTool
      else None)"

fun delta_kind :: "wire_delta \<Rightarrow> block_kind option" where
  "delta_kind (TextDelta s) = (if s = [] then None else Some KText)"
| "delta_kind (InputJsonDelta s) = (if s = [] then None else Some KTool)"

fun proto_step :: "wire_event \<Rightarrow> proto \<Rightarrow> proto option" where
  "proto_step (MessageStart m) Fresh = (if wm_content m = [] then Some (Live 0 {}) else None)"
| "proto_step (BlockStart i b) (Live n os) =
     (case start_kind b of
        Some k \<Rightarrow> if i = n then Some (Live (Suc n) (insert (i, k) os)) else None
      | None \<Rightarrow> None)"
| "proto_step (BlockDelta i d) (Live n os) =
     (case delta_kind d of Some k \<Rightarrow> if (i, k) \<in> os then Some (Live n os) else None | None \<Rightarrow> None)"
| "proto_step (BlockStop i) (Live n os) =
     (if i \<in> fst ` os then Some (Live n {x \<in> os. fst x \<noteq> i}) else None)"
| "proto_step (MessageDelta r u) (Live n os) = (if os = {} then Some Ending else None)"
| "proto_step MessageStop Ending = Some Over"
| "proto_step (ErrorEvent k m) (Live n os) = Some Over"
| "proto_step ev p = None"

fun proto_run :: "wire_event list \<Rightarrow> proto \<Rightarrow> proto option" where
  "proto_run [] p = Some p"
| "proto_run (ev # evs) p = (case proto_step ev p of None \<Rightarrow> None | Some q \<Rightarrow> proto_run evs q)"

lemma proto_run_append:
  "proto_run (xs @ ys) p = (case proto_run xs p of None \<Rightarrow> None | Some q \<Rightarrow> proto_run ys q)"
  by (induction xs arbitrary: p) (auto split: option.split)

text \<open>The encoder's state seen by the client.\<close>

definition opens :: "encoder \<Rightarrow> (nat \<times> block_kind) set" where
  "opens e =
     (if en_text_open e then {(en_text_index e, KText)} else {}) \<union>
     (\<lambda>(k, t). (st_index t, KTool)) ` {(k, t) \<in> set (en_tools e). \<not> st_closed t}"

definition proto_of :: "encoder \<Rightarrow> proto" where
  "proto_of e =
     (if \<not> en_started e then Fresh else if en_terminal e then Over else Live (en_next_index e) (opens e))"

definition enc_ok :: "encoder \<Rightarrow> bool" where
  "enc_ok e \<longleftrightarrow> distinct (map fst (en_tools e)) \<and> distinct (map (st_index \<circ> snd) (en_tools e)) \<and>
     (\<forall>(k, t) \<in> set (en_tools e). st_index t < en_next_index e) \<and>
     (en_text_open e \<longrightarrow> en_text_index e < en_next_index e \<and>
        en_text_index e \<notin> (st_index \<circ> snd) ` set (en_tools e))"

definition live :: "encoder \<Rightarrow> bool" where
  "live e \<longleftrightarrow> enc_ok e \<and> en_started e \<and> \<not> en_terminal e"

text \<open>A step of the encoder and the client's reading of its events agree.\<close>

definition sound :: "encoder \<Rightarrow> wire_event list \<times> encoder \<Rightarrow> bool" where
  "sound e r \<longleftrightarrow> enc_ok (snd r) \<and> en_started (snd r) \<and>
     proto_run (fst r) (proto_of e) = Some (proto_of (snd r))"

lemma sound_refl: "live e \<Longrightarrow> sound e ([], e)"
  by (simp add: sound_def live_def)

lemma sound_trans:
  "sound e (xs, e1) \<Longrightarrow> sound e1 (ys, e2) \<Longrightarrow> sound e (xs @ ys, e2)"
  by (simp add: sound_def proto_run_append)

lemma sound_live: "sound e (xs, e1) \<Longrightarrow> \<not> en_terminal e1 \<Longrightarrow> live e1"
  by (simp add: sound_def live_def)

lemma sound_fail: "live e \<Longrightarrow> sound e (fail_stream kind msg e)"
  by (simp add: sound_def live_def fail_stream_def proto_of_def enc_ok_def)

text \<open>Fields the client does not see.\<close>

lemma sound_cong:
  assumes "proto_of e' = proto_of e" and "sound e' r"
  shows "sound e r"
  using assms by (simp add: sound_def)

lemma sound_start: "sound e (start_events e)" if "enc_ok e" "\<not> en_started e" "en_tools e = []"
  "en_next_index e = 0" "\<not> en_text_open e" "\<not> en_terminal e"
  using that by (simp add: sound_def start_events_def proto_of_def opens_def enc_ok_def start_message_def)

lemma sound_text_delta: "live e \<Longrightarrow> sound e (text_delta delta e)"
  by (auto simp: sound_def live_def text_delta_def proto_of_def opens_def enc_ok_def text_block_def start_kind_def
      dest: order.strict_implies_not_eq)

lemma filter_opens_text:
  assumes "enc_ok e" and "en_text_open e"
  shows "{x \<in> opens e. fst x \<noteq> en_text_index e} = opens (e\<lparr>en_text_open := False\<rparr>)"
  using assms by (auto simp: opens_def enc_ok_def image_iff)

lemma sound_close_text: "live e \<Longrightarrow> sound e (close_text e)"
  using filter_opens_text [of e]
  by (auto simp: sound_def live_def close_text_def proto_of_def enc_ok_def opens_def)

lemma opens_text: "(i, KText) \<in> opens e \<longleftrightarrow> en_text_open e \<and> i = en_text_index e"
  by (auto simp: opens_def)

lemma opens_tool: "(i, KTool) \<in> opens e \<longleftrightarrow> (\<exists>k t. (k, t) \<in> set (en_tools e) \<and> \<not> st_closed t \<and> st_index t = i)"
  by (force simp: opens_def)

text \<open>Replacing a tool by one with the same block index.\<close>

lemma tool_at_in: "enc_ok e \<Longrightarrow> tool_at e k = Some t \<longleftrightarrow> (k, t) \<in> set (en_tools e)"
  by (simp add: tool_at_def enc_ok_def)

lemma set_tool_fields [simp]:
  "en_next_index (set_tool k t e) = en_next_index e" "en_text_open (set_tool k t e) = en_text_open e"
  "en_text_index (set_tool k t e) = en_text_index e" "en_started (set_tool k t e) = en_started e"
  "en_terminal (set_tool k t e) = en_terminal e" "map fst (en_tools (set_tool k t e)) = map fst (en_tools e)"
  by (simp_all add: set_tool_def comp_def case_prod_beta)

lemma set_tool_mem:
  assumes "enc_ok e" and "(k, t) \<in> set (en_tools e)"
  shows "(j, u) \<in> set (en_tools (set_tool k t' e)) \<longleftrightarrow>
    (if j = k then u = t' else (j, u) \<in> set (en_tools e))"
  using assms by (force simp: set_tool_def image_iff split: if_splits)

lemma set_tool_index:
  assumes "enc_ok e" and "(k, t) \<in> set (en_tools e)" and "st_index t' = st_index t"
  shows "map (st_index \<circ> snd) (en_tools (set_tool k t' e)) = map (st_index \<circ> snd) (en_tools e)"
proof -
  have "st_index (if j = k then t' else u) = st_index u" if "(j, u) \<in> set (en_tools e)" for j u
    using assms that tool_at_in [OF assms(1)] by (metis option.inject)
  then show ?thesis by (auto simp: set_tool_def)
qed

lemma enc_ok_set_tool:
  assumes "enc_ok e" and "(k, t) \<in> set (en_tools e)" and "st_index t' = st_index t"
  shows "enc_ok (set_tool k t' e)"
proof -
  have idx: "(st_index \<circ> snd) ` set (en_tools (set_tool k t' e)) = (st_index \<circ> snd) ` set (en_tools e)"
    using set_tool_index [OF assms] by (metis list.set_map)
  have "\<forall>(j, u) \<in> set (en_tools (set_tool k t' e)). st_index u < en_next_index e"
    using assms by (auto simp: set_tool_mem enc_ok_def split: if_splits)
  with assms idx show ?thesis
    unfolding enc_ok_def set_tool_fields set_tool_index [OF assms] by simp
qed

lemma opens_set_tool:
  assumes "enc_ok e" and "(k, t) \<in> set (en_tools e)" and "st_index t' = st_index t" and "\<not> st_closed t"
  shows "opens (set_tool k t' e) = (if st_closed t' then {x \<in> opens e. fst x \<noteq> st_index t} else opens e)"
proof -
  have other: "st_index u \<noteq> st_index t" if "(j, u) \<in> set (en_tools e)" "j \<noteq> k" for j u
  proof
    assume "st_index u = st_index t"
    with assms(1,2) that(1) have "(j, u) = (k, t)"
      using inj_onD [of "st_index \<circ> snd" "set (en_tools e)" "(j, u)" "(k, t)"]
      by (simp add: enc_ok_def distinct_map)
    with that(2) show False by simp
  qed
  have apart: "en_text_open e \<Longrightarrow> en_text_index e \<noteq> st_index t"
    using assms(1,2) by (force simp: enc_ok_def)
  have one: "u = t" if "(k, u) \<in> set (en_tools e)" for u
    using that assms(1,2) tool_at_in by (metis option.inject)
  show ?thesis
  proof (rule set_eqI)
    fix x :: "nat \<times> block_kind"
    obtain i b where x: "x = (i, b)" by (cases x)
    show "x \<in> opens (set_tool k t' e) \<longleftrightarrow>
        x \<in> (if st_closed t' then {x \<in> opens e. fst x \<noteq> st_index t} else opens e)"
    proof (cases b)
      case KText
      then show ?thesis using x apart by (auto simp: opens_text)
    next
      case KTool
      let ?E = "\<exists>j u. (j, u) \<in> set (en_tools e) \<and> j \<noteq> k \<and> \<not> st_closed u \<and> st_index u = i"
      have "(i, KTool) \<in> opens (set_tool k t' e) \<longleftrightarrow> (\<not> st_closed t' \<and> st_index t = i) \<or> ?E"
        unfolding opens_tool set_tool_mem [OF assms(1,2)] using assms(3) by (auto split: if_splits)
      moreover have "(i, KTool) \<in> opens e \<longleftrightarrow> st_index t = i \<or> ?E"
        unfolding opens_tool using assms(2,4) one by blast
      moreover have "?E \<Longrightarrow> i \<noteq> st_index t" using other by blast
      ultimately show ?thesis unfolding x KTool by (cases "st_closed t'") auto
    qed
  qed
qed

lemma sound_set_tool_delta:
  assumes "live e" and "(k, t) \<in> set (en_tools e)" and "\<not> st_closed t" and "s \<noteq> []"
  shows "sound e ([fst (tool_delta s t)], set_tool k (snd (tool_delta s t)) e)"
proof -
  have "enc_ok e" and ind: "st_index (snd (tool_delta s t)) = st_index t"
    using assms(1) by (simp_all add: live_def tool_delta_def)
  note e = enc_ok_set_tool [OF this(1) assms(2) ind] opens_set_tool [OF this(1) assms(2) ind assms(3)]
  have "(st_index t, KTool) \<in> opens e" using assms(2,3) by (force simp: opens_def)
  with assms e show ?thesis by (simp add: sound_def live_def proto_of_def tool_delta_def)
qed

lemma sound_set_tool_stop:
  assumes "live e" and "(k, t) \<in> set (en_tools e)" and "\<not> st_closed t"
  shows "sound e ([BlockStop (st_index t)], set_tool k (t\<lparr>st_closed := True\<rparr>) e)"
proof -
  have "enc_ok e" and ind: "st_index (t\<lparr>st_closed := True\<rparr>) = st_index t"
    using assms(1) by (simp_all add: live_def)
  note e = enc_ok_set_tool [OF this(1) assms(2) ind] opens_set_tool [OF this(1) assms(2) ind assms(3)]
  have "st_index t \<in> fst ` opens e" using assms(2,3) by (force simp: opens_def)
  with assms e show ?thesis by (simp add: sound_def live_def proto_of_def)
qed

lemma set_tool_set_tool [simp]: "set_tool k t' (set_tool k t e) = set_tool k t' e"
  by (simp add: set_tool_def comp_def case_prod_beta)

lemma tool_at_set_tool [simp]:
  "tool_at (set_tool k t e) j = (if j = k \<and> tool_at e k \<noteq> None then Some t else tool_at e j)"
proof -
  have "map_of (map (\<lambda>(i, u). (i, if i = k then t else u)) xs) j =
      (if j = k \<and> map_of xs k \<noteq> None then Some t else map_of xs j)" for xs :: "(int \<times> stream_tool) list"
    by (induction xs) auto
  then show ?thesis by (simp add: tool_at_def set_tool_def)
qed

lemma set_tool_live: "live e \<Longrightarrow> tool_at e k = Some t \<Longrightarrow> st_index t' = st_index t \<Longrightarrow> live (set_tool k t' e)"
  by (simp add: live_def tool_at_in enc_ok_set_tool)

text \<open>The failure may come after state that was never announced.\<close>

lemma sound_fail_later:
  "live e \<Longrightarrow> live e1 \<Longrightarrow> sound e (fail_stream kind msg e1)"
  by (auto simp: sound_def live_def fail_stream_def proto_of_def enc_ok_def)

definition closing :: "stream_tool \<Rightarrow> string \<Rightarrow> string list" where
  "closing t final =
     (if st_arguments t \<noteq> [] then [] else if final \<noteq> [] then [final] else [''{}''])"

definition closed_tool :: "stream_tool \<Rightarrow> string \<Rightarrow> stream_tool" where
  "closed_tool t final = t\<lparr>st_arguments := st_arguments t @ concat (closing t final), st_closed := True\<rparr>"

lemma closed_tool_fields [simp]:
  "st_closed (closed_tool t final)" "st_index (closed_tool t final) = st_index t"
  by (simp_all add: closed_tool_def)

lemma finish_tool_cases:
  "finish_tool k t final e =
     (if st_closed t then
        if final \<noteq> [] \<and> final \<noteq> st_arguments t then fail_stream ''api_error'' args_mismatch e else ([], e)
      else if final \<noteq> [] \<and> st_arguments t \<noteq> [] \<and> st_arguments t \<noteq> final
      then fail_stream ''api_error'' args_mismatch (set_tool k t e)
      else (map (\<lambda>s. BlockDelta (st_index t) (InputJsonDelta s)) (closing t final) @ [BlockStop (st_index t)],
            set_tool k (closed_tool t final) e))"
  by (cases t) (auto simp: finish_tool_def tool_delta_def closing_def closed_tool_def Let_def)

lemma sound_close_tool:
  assumes "live e" and "tool_at e k = Some t" and "\<not> st_closed t"
  shows "sound e (map (\<lambda>s. BlockDelta (st_index t) (InputJsonDelta s)) (closing t final) @ [BlockStop (st_index t)],
    set_tool k (closed_tool t final) e)"
proof -
  have kt: "(k, t) \<in> set (en_tools e)" using assms(1,2) by (simp add: live_def tool_at_in)
  show ?thesis
  proof (cases "closing t final")
    case Nil
    with sound_set_tool_stop [OF assms(1) kt assms(3)] show ?thesis by (simp add: closed_tool_def)
  next
    case (Cons s ss)
    then have s: "s \<noteq> []" "ss = []" by (auto simp: closing_def split: if_splits)
    let ?t1 = "snd (tool_delta s t)"
    have 1: "sound e ([fst (tool_delta s t)], set_tool k ?t1 e)"
      by (rule sound_set_tool_delta [OF assms(1) kt assms(3) s(1)])
    have 2: "live (set_tool k ?t1 e)" using set_tool_live [OF assms(1,2)] by (simp add: tool_delta_def)
    moreover have "(k, ?t1) \<in> set (en_tools (set_tool k ?t1 e))"
      using 2 assms(2) tool_at_in [of "set_tool k ?t1 e" k ?t1] by (simp add: live_def)
    ultimately have "sound (set_tool k ?t1 e)
        ([BlockStop (st_index ?t1)], set_tool k (?t1\<lparr>st_closed := True\<rparr>) (set_tool k ?t1 e))"
      using assms(3) by (intro sound_set_tool_stop) (simp_all add: tool_delta_def)
    from sound_trans [OF 1 this] Cons s show ?thesis by (simp add: tool_delta_def closed_tool_def)
  qed
qed

lemma sound_finish_tool: "live e \<Longrightarrow> tool_at e k = Some t \<Longrightarrow> sound e (finish_tool k t final e)"
  unfolding finish_tool_cases
  by (auto intro: sound_close_tool sound_fail_later sound_fail sound_refl simp: set_tool_live)

section \<open>Finishing\<close>

definition tool_final :: "string \<Rightarrow> stream_tool \<Rightarrow> bool" where
  "tool_final stop t \<longleftrightarrow>
     st_closed t \<and> (stop \<noteq> ''max_tokens'' \<longrightarrow> valid_tool_arguments (st_arguments t))"

text \<open>What a stretch of the loop guarantees.\<close>

definition finish_inv :: "encoder \<Rightarrow> encoder \<Rightarrow> bool" where
  "finish_inv e e' \<longleftrightarrow> live e' \<and> en_text_open e' = en_text_open e \<and>
     map fst (en_tools e') = map fst (en_tools e) \<and>
     (\<forall>j t. tool_at e j = Some t \<and> st_closed t \<longrightarrow> tool_at e' j = Some t)"

lemma finish_inv_trans: "finish_inv e e1 \<Longrightarrow> finish_inv e1 e2 \<Longrightarrow> finish_inv e e2"
  by (simp add: finish_inv_def)

lemma finish_step_Continue:
  assumes "live e" and "finish_step stop k (out, e) = Continue (out', e')"
  shows "\<exists>xs. out' = out @ xs \<and> sound e (xs, e') \<and> finish_inv e e' \<and>
    (\<forall>t. tool_at e' k = Some t \<longrightarrow> tool_final stop t)"
proof (cases "tool_at e k")
  case None
  with assms(2) have "out' = out @ []" "e' = e" by (simp_all add: finish_step_def)
  moreover have "finish_inv e e" using assms(1) by (simp add: finish_inv_def)
  ultimately show ?thesis using sound_refl [OF assms(1)] None by (metis option.distinct(1))
next
  case (Some t)
  show ?thesis
  proof (cases "st_closed t")
    case True
    with Some assms(2) have "out' = out @ []" "e' = e" and "tool_final stop t"
      by (auto simp: finish_step_def tool_final_def split: if_splits)
    moreover have "finish_inv e e" using assms(1) by (simp add: finish_inv_def)
    ultimately show ?thesis using sound_refl [OF assms(1)] Some by (metis option.inject)
  next
    case False
    let ?e = "set_tool k (closed_tool t []) e"
    let ?xs = "map (\<lambda>s. BlockDelta (st_index t) (InputJsonDelta s)) (closing t []) @ [BlockStop (st_index t)]"
    have st: "out' = out @ ?xs" "e' = ?e" and v: "tool_final stop (closed_tool t [])"
      using assms(2) Some False unfolding finish_step_def finish_tool_cases tool_final_def
      by (auto simp: Let_def split: if_splits)
    have "sound e (?xs, ?e)" by (rule sound_close_tool [OF assms(1) Some False])
    moreover have "tool_at ?e j = Some u" if "tool_at e j = Some u" "st_closed u" for j u
      using that Some False by auto
    then have "finish_inv e ?e"
      using set_tool_live [OF assms(1) Some] by (simp add: finish_inv_def)
    moreover have "\<forall>u. tool_at ?e k = Some u \<longrightarrow> tool_final stop u" using Some v by simp
    ultimately show ?thesis using st by blast
  qed
qed

lemma finish_step_Return:
  assumes "live e" and "finish_step stop k (out, e) = Return r" and "live e'"
  shows "sound e' r \<and> en_terminal (snd r) \<and> \<not> en_success (snd r)"
proof -
  from assms(2) obtain t where t: "tool_at e k = Some t"
    by (auto simp: finish_step_def split: option.splits)
  have l: "live (set_tool k (closed_tool t []) e)"
    using set_tool_live [OF assms(1) t] by (simp add: closed_tool_def)
  have "\<exists>e1. live e1 \<and> r = fail_stream ''api_error'' ''invalid upstream function arguments'' e1"
  proof (cases "st_closed t")
    case True
    with t assms show ?thesis by (auto simp: finish_step_def split: if_splits)
  next
    case False
    with t assms l show ?thesis unfolding finish_step_def finish_tool_cases
      by (auto simp: Let_def live_def split: if_splits)
  qed
  then obtain e1 where "live e1" "r = fail_stream ''api_error'' ''invalid upstream function arguments'' e1" by blast
  with sound_fail_later [OF assms(3)] show ?thesis by (auto simp: fail_stream_def live_def)
qed

lemma finish_loop:
  "for_range (finish_step stop) ks (out, e) = Continue (out', e') \<Longrightarrow> live e \<Longrightarrow>
    (\<exists>xs. out' = out @ xs \<and> sound e (xs, e')) \<and> finish_inv e e' \<and>
    (\<forall>k \<in> set ks. \<forall>t. tool_at e' k = Some t \<longrightarrow> tool_final stop t)"
proof (induction ks arbitrary: out e)
  case Nil
  then show ?case by (simp add: sound_refl finish_inv_def)
next
  case (Cons k ks)
  obtain out1 e1 where s: "finish_step stop k (out, e) = Continue (out1, e1)"
    and r: "for_range (finish_step stop) ks (out1, e1) = Continue (out', e')"
    using Cons.prems(1) by (cases "finish_step stop k (out, e)") auto
  from finish_step_Continue [OF Cons.prems(2) s] obtain xs where
    1: "out1 = out @ xs" "sound e (xs, e1)" "finish_inv e e1"
    and k: "\<forall>t. tool_at e1 k = Some t \<longrightarrow> tool_final stop t" by blast
  have "live e1" using 1(3) by (simp add: finish_inv_def)
  from Cons.IH [OF r this] obtain ys where 2: "out' = out1 @ ys" "sound e1 (ys, e')" "finish_inv e1 e'"
    and ks: "\<forall>k \<in> set ks. \<forall>t. tool_at e' k = Some t \<longrightarrow> tool_final stop t" by blast
  have "tool_final stop t" if at: "tool_at e' k = Some t" for t
  proof (cases "tool_at e1 k")
    case None
    have "fst ` set (en_tools e') = fst ` set (en_tools e1)"
      using 2(3) unfolding finish_inv_def by (metis list.set_map)
    with None at show ?thesis by (metis map_of_eq_None_iff option.distinct(1) tool_at_def)
  next
    case (Some u)
    with k have u: "tool_final stop u" by blast
    with Some 2(3) have "tool_at e' k = Some u" by (simp add: finish_inv_def tool_final_def)
    with at u show ?thesis by simp
  qed
  moreover have "out' = out @ (xs @ ys)" using 1(1) 2(1) by simp
  ultimately show ?case
    using sound_trans [OF 1(2) 2(2)] finish_inv_trans [OF 1(3) 2(3)] ks by (metis set_ConsD)
qed

lemma finish_loop_Return:
  assumes "for_range (finish_step stop) ks (out, e) = Return r" and "live e" and "live e0"
  shows "sound e0 r \<and> en_terminal (snd r) \<and> \<not> en_success (snd r)"
proof -
  from assms(1) [unfolded for_range_Return_split] obtain ds k s where
    "for_range (finish_step stop) ds (out, e) = Continue s" and "finish_step stop k s = Return r" by blast
  moreover obtain out1 e1 where "s = (out1, e1)" by (cases s)
  ultimately have c: "for_range (finish_step stop) ds (out, e) = Continue (out1, e1)"
    and r: "finish_step stop k (out1, e1) = Return r" by simp_all
  from finish_loop [OF c assms(2)] have "live e1" by (simp add: finish_inv_def)
  from finish_step_Return [OF this r assms(3)] show ?thesis .
qed

definition all_closed :: "encoder \<Rightarrow> bool" where
  "all_closed e \<longleftrightarrow> \<not> en_text_open e \<and> (\<forall>(k, t) \<in> set (en_tools e). st_closed t)"

text \<open>The two ways a stream finishes.\<close>

lemma finish_cases:
  assumes "live e"
  shows "(\<exists>out e1. finish stop e = (out @ [MessageDelta stop (final_usage e1), MessageStop],
        e1\<lparr>en_stop_reason := stop, en_terminal := True, en_success := True\<rparr>) \<and>
      sound e (out, e1) \<and> live e1 \<and> all_closed e1 \<and>
      (\<forall>(k, t) \<in> set (en_tools e1). tool_final stop t)) \<or>
    (sound e (finish stop e) \<and> en_terminal (snd (finish stop e)) \<and> \<not> en_success (snd (finish stop e)))"
proof -
  obtain o1 e1 where c: "close_text e = (o1, e1)" by (cases "close_text e")
  have s1: "sound e (o1, e1)" using sound_close_text [OF assms] c by simp
  have t1: "\<not> en_text_open e1" "\<not> en_terminal e1" "en_tools e1 = en_tools e"
    using c assms by (auto simp: close_text_def live_def split: if_splits)
  have l1: "live e1" by (rule sound_live [OF s1 t1(2)])
  have running: "\<not> en_terminal e" using assms by (simp add: live_def)
  show ?thesis
  proof (cases "for_range (finish_step stop) (sort (map fst (en_tools e))) (o1, e1)")
    case (Return r)
    with finish_loop_Return [OF Return l1 assms] c running show ?thesis by (simp add: finish_def)
  next
    case (Continue s)
    obtain out e2 where s: "s = (out, e2)" by (cases s)
    from finish_loop [OF Continue [unfolded s] l1] obtain xs where
      2: "out = o1 @ xs" "sound e1 (xs, e2)" "finish_inv e1 e2"
      and fin: "\<forall>k \<in> set (map fst (en_tools e)). \<forall>t. tool_at e2 k = Some t \<longrightarrow> tool_final stop t" by auto
    have l2: "live e2" "\<not> en_text_open e2" "map fst (en_tools e2) = map fst (en_tools e)"
      using 2(3) t1 by (simp_all add: finish_inv_def)
    have all: "tool_final stop t" if "(k, t) \<in> set (en_tools e2)" for k t
    proof -
      have "k \<in> set (map fst (en_tools e2))" using that by force
      moreover have "tool_at e2 k = Some t" using that l2(1) by (simp add: live_def tool_at_in)
      ultimately show ?thesis using fin l2(3) by metis
    qed
    have "sound e (out, e2)" using sound_trans [OF s1 2(2)] 2(1) by simp
    moreover have "all_closed e2" using all l2(2) by (auto simp: all_closed_def tool_final_def)
    moreover have "finish stop e = (out @ [MessageDelta stop (final_usage e2), MessageStop],
        e2\<lparr>en_stop_reason := stop, en_terminal := True, en_success := True\<rparr>)"
      using c Continue s running by (simp add: finish_def)
    ultimately show ?thesis
      using l2(1) all by (intro disjI1, rule_tac x = out in exI, rule_tac x = e2 in exI) auto
  qed
qed

lemma all_closed_opens: "all_closed e \<Longrightarrow> opens e = {}"
  by (auto simp: all_closed_def opens_def)

lemma sound_finish:
  assumes "live e"
  shows "sound e (finish stop e)"
  using finish_cases [OF assms, of stop]
proof (elim disjE exE conjE)
  fix out e1
  assume f: "finish stop e = (out @ [MessageDelta stop (final_usage e1), MessageStop],
        e1\<lparr>en_stop_reason := stop, en_terminal := True, en_success := True\<rparr>)"
    and s: "sound e (out, e1)" and l: "live e1" and c: "all_closed e1"
  have "sound e1 ([MessageDelta stop (final_usage e1), MessageStop],
        e1\<lparr>en_stop_reason := stop, en_terminal := True, en_success := True\<rparr>)"
    using l all_closed_opens [OF c] by (simp add: sound_def live_def proto_of_def enc_ok_def)
  from sound_trans [OF s this] f show ?thesis by simp
qed

section \<open>Every event\<close>

lemma live_cong:
  assumes "live e" and "en_tools e' = en_tools e" "en_next_index e' = en_next_index e"
    "en_text_open e' = en_text_open e" "en_text_index e' = en_text_index e" "en_started e' = en_started e"
    "en_terminal e' = en_terminal e"
  shows "live e'" and "proto_of e' = proto_of e"
  using assms by (simp_all add: live_def enc_ok_def proto_of_def opens_def)

lemma note_usage_fields [simp]:
  "en_tools (note_usage p e) = en_tools e" "en_next_index (note_usage p e) = en_next_index e"
  "en_text_open (note_usage p e) = en_text_open e" "en_text_index (note_usage p e) = en_text_index e"
  "en_started (note_usage p e) = en_started e" "en_terminal (note_usage p e) = en_terminal e"
  "en_stop_reason (note_usage p e) = en_stop_reason e" "en_refusal_text (note_usage p e) = en_refusal_text e"
  "en_success (note_usage p e) = en_success e"
  by (simp_all add: note_usage_def Let_def split: prod.split option.split)

lemma sound_add_tool:
  assumes "live e"
  shows "sound e (add_tool u e)"
proof (cases "ue_output_index u")
  case None
  with sound_fail [OF assms] show ?thesis by (simp add: add_tool_def)
next
  case (Some k)
  obtain o1 e1 where c: "close_text e = (o1, e1)" by (cases "close_text e")
  have s1: "sound e (o1, e1)" using sound_close_text [OF assms] c by simp
  have t1: "\<not> en_text_open e1" "\<not> en_terminal e1" "en_tools e1 = en_tools e"
    using c assms by (auto simp: close_text_def live_def split: if_splits)
  have l1: "live e1" by (rule sound_live [OF s1 t1(2)])
  define t where "t = \<lparr>st_item_id = ue_item_id u, st_call_id = ue_item_call_id u, st_index = en_next_index e1,
    st_arguments = [], st_closed = False\<rparr>"
  define e2 where "e2 = e1\<lparr>en_next_index := Suc (en_next_index e1), en_tools := en_tools e1 @ [(k, t)],
    en_stop_reason := ''tool_use''\<rparr>"
  show ?thesis
  proof (cases "ue_item_id u = [] \<or> ue_item_call_id u = [] \<or> ue_item_name u = [] \<or>
      tool_by_item (ue_item_id u) e \<noteq> None \<or> tool_at e k \<noteq> None")
    case True
    with sound_fail [OF assms] Some show ?thesis by (auto simp: add_tool_def)
  next
    case False
    have fresh: "k \<notin> fst ` set (en_tools e1)"
      using False t1(3) by (metis map_of_eq_None_iff tool_at_def)
    have ok2: "enc_ok e2"
      using l1 fresh t1(1) unfolding live_def enc_ok_def e2_def t_def by (fastforce simp: less_Suc_eq)
    have tf: "\<not> st_closed t" "st_index t = en_next_index e1" by (simp_all add: t_def)
    have op2: "opens e2 = insert (en_next_index e1, KTool) (opens e1)"
    proof (rule set_eqI)
      fix x :: "nat \<times> block_kind"
      obtain i b where x: "x = (i, b)" by (cases x)
      show "x \<in> opens e2 \<longleftrightarrow> x \<in> insert (en_next_index e1, KTool) (opens e1)"
        unfolding x using t1(1) tf by (cases b) (auto simp: opens_text opens_tool e2_def)
    qed
    have s2: "sound e1 ([BlockStart (en_next_index e1) (tool_block (ue_item_call_id u) (ue_item_name u))], e2)"
      using l1 ok2 op2 False
      by (simp add: sound_def live_def proto_of_def tool_block_def start_kind_def) (simp add: e2_def)
    have l2: "live e2" using ok2 l1 by (simp add: live_def e2_def)
    have s3: "sound e2 ((if ue_item_arguments u \<noteq> [] then [fst (tool_delta (ue_item_arguments u) t)] else []),
        if ue_item_arguments u \<noteq> [] then set_tool k (snd (tool_delta (ue_item_arguments u) t)) e2 else e2)"
      using sound_set_tool_delta [OF l2, of k t "ue_item_arguments u"] sound_refl [OF l2]
      by (simp add: e2_def t_def)
    have "set_tool k t' e2 = e1\<lparr>en_next_index := Suc (en_next_index e1), en_tools := en_tools e1 @ [(k, t')],
        en_stop_reason := ''tool_use''\<rparr>" for t'
    proof -
      have "map (\<lambda>(j, w). (j, if j = k then t' else w)) xs = xs" if "k \<notin> fst ` set xs" for xs
        using that by (induction xs) auto
      from this [OF fresh] show ?thesis by (intro encoder.equality) (simp_all add: set_tool_def e2_def)
    qed
    with sound_trans [OF sound_trans [OF s1 s2] s3] False Some c show ?thesis
      by (cases "ue_item_arguments u = []") (simp_all add: add_tool_def t_def e2_def tool_delta_def)
  qed
qed

lemma find_tool_at: "find_tool item out e = Some k \<Longrightarrow> enc_ok e \<Longrightarrow> \<exists>t. tool_at e k = Some t"
proof -
  assume f: "find_tool item out e = Some k" and ok: "enc_ok e"
  show ?thesis
  proof (cases "item = []")
    case True
    with f show ?thesis by (auto simp: find_tool_def split: option.splits if_splits)
  next
    case False
    with f obtain t where "find (\<lambda>(k, t). st_item_id t = item) (en_tools e) = Some (k, t)"
      by (auto simp: find_tool_def tool_by_item_def)
    then have "(k, t) \<in> set (en_tools e)" by (auto simp: find_Some_iff) (metis nth_mem)
    with ok show ?thesis by (metis tool_at_in)
  qed
qed

lemma sound_dispatch:
  assumes "live e"
  shows "sound e (dispatch typ u e)"
proof -
  have sr: "sound e (text_delta s (e\<lparr>en_stop_reason := r, en_refusal_text := q\<rparr>))" for s r q
    by (rule sound_cong [OF live_cong(2) sound_text_delta [OF live_cong(1)]]) (use assms in simp_all)
  have sd: "sound e (refusal_done q e)" for q
  proof -
    let ?e = "e\<lparr>en_stop_reason := ''refusal''\<rparr>"
    have l: "live ?e" "proto_of ?e = proto_of e" by (rule live_cong; use assms in simp)+
    have "sound e (close_text ?e)" "sound e (fail_stream k m ?e)" for k m
      using sound_cong [OF l(2) sound_close_text [OF l(1)]] sound_cong [OF l(2) sound_fail [OF l(1)]] by blast+
    with sr [where s = q and r = "''refusal''" and q = q] show ?thesis by (simp add: refusal_done_def Let_def)
  qed
  have sa: "sound e (arguments_delta u e)"
    using sound_fail [OF assms] sound_refl [OF assms] sound_set_tool_delta [OF assms] assms
    by (auto simp: arguments_delta_def Let_def live_def tool_at_in case_prod_beta split: option.split)
  have st: "sound e (tool_done m final item out e)" for m final item out
    using sound_fail [OF assms] sound_finish_tool [OF assms]
    by (auto simp: tool_done_def split: option.split)
  have si: "sound e (let (out, e1) = finish ''max_tokens'' e in (out, e1\<lparr>en_success := False\<rparr>))"
    using sound_finish [OF assms, of "''max_tokens''"]
    by (auto simp: sound_def proto_of_def opens_def enc_ok_def case_prod_beta)
  show ?thesis
    unfolding dispatch_def
    using sr sd sa st si sound_text_delta [OF assms] sound_close_text [OF assms] sound_add_tool [OF assms]
      sound_finish [OF assms] sound_fail [OF assms] sound_refl [OF assms]
    by (simp split del: if_split) (simp split: if_split)
qed

lemma sound_handle:
  assumes "enc_ok e" and "en_started e"
  shows "sound e (handle_responses_event decode typ payload e)"
proof (cases "en_terminal e")
  case True
  with assms show ?thesis by (simp add: handle_responses_event_def sound_def)
next
  case False
  with assms have l: "live e" by (simp add: live_def)
  have n: "live (note_usage payload e)" "proto_of (note_usage payload e) = proto_of e"
    by (rule live_cong; use l in simp)+
  show ?thesis
    using sound_fail [OF l] sound_cong [OF n(2) sound_dispatch [OF n(1)]] False
    by (simp add: handle_responses_event_def split: option.split)
qed

section \<open>Whole streams\<close>

fun encode_stream ::
    "(string \<Rightarrow> upstream_event option) \<Rightarrow> (string \<times> string) list \<Rightarrow> encoder \<Rightarrow> wire_event list \<times> encoder" where
  "encode_stream decode [] e = ([], e)"
| "encode_stream decode ((typ, payload) # evs) e =
     (let (out, e1) = handle_responses_event decode typ payload e;
          (out2, e2) = encode_stream decode evs e1
      in (out @ out2, e2))"

definition encode_message ::
    "(string \<Rightarrow> upstream_event option) \<Rightarrow> string \<Rightarrow> string \<Rightarrow> (string \<times> string) list \<Rightarrow> wire_event list \<times> encoder" where
  "encode_message decode uuid model evs =
     (let (out, e1) = start_events (new_stream_encoder uuid model);
          (out2, e2) = encode_stream decode evs e1
      in (out @ out2, e2))"

lemma sound_encode_stream:
  "enc_ok e \<Longrightarrow> en_started e \<Longrightarrow> sound e (encode_stream decode evs e)"
proof (induction evs arbitrary: e)
  case Nil
  then show ?case by (simp add: sound_def)
next
  case (Cons ev evs)
  obtain ty payload where ev: "ev = (ty, payload)" by (cases ev)
  obtain out e1 where h: "handle_responses_event decode ty payload e = (out, e1)"
    by (cases "handle_responses_event decode ty payload e")
  obtain out2 e2 where r: "encode_stream decode evs e1 = (out2, e2)" by (cases "encode_stream decode evs e1")
  have sa: "sound e (out, e1)" using sound_handle [OF Cons.prems] h by metis
  then have "sound e1 (out2, e2)" using Cons.IH [of e1] r by (simp add: sound_def)
  from sound_trans [OF sa this] show ?case by (simp add: ev h r)
qed

lemma sound_encode_message: "sound (new_stream_encoder uuid model) (encode_message decode uuid model evs)"
proof -
  let ?e = "new_stream_encoder uuid model"
  obtain out e1 where s: "start_events ?e = (out, e1)" by (cases "start_events ?e")
  obtain out2 e2 where r: "encode_stream decode evs e1 = (out2, e2)" by (cases "encode_stream decode evs e1")
  have sa: "sound ?e (out, e1)"
    using sound_start [of ?e] s by (simp add: new_stream_encoder_def enc_ok_def)
  then have "sound e1 (out2, e2)"
    using sound_encode_stream [of e1 decode evs] r by (simp add: sound_def)
  from sound_trans [OF sa this] show ?thesis by (simp add: encode_message_def s r)
qed

fun ends_stream :: "wire_event \<Rightarrow> bool" where
  "ends_stream MessageStop = True"
| "ends_stream (ErrorEvent k m) = True"
| "ends_stream ev = False"

lemma proto_step_ends:
  "proto_step ev p = Some q \<Longrightarrow> p \<noteq> Over \<and> (q = Over \<longleftrightarrow> ends_stream ev)"
  by (induction ev p rule: proto_step.induct) (auto split: if_splits option.splits)

lemma proto_run_ends:
  "proto_run evs p = Some q \<Longrightarrow>
    length (filter ends_stream evs) = (if p \<noteq> Over \<and> q = Over then 1 else 0) \<and> (p = Over \<longrightarrow> evs = [])"
proof (induction evs arbitrary: p)
  case (Cons ev evs)
  from Cons.prems obtain p1 where 1: "proto_step ev p = Some p1" and r: "proto_run evs p1 = Some q"
    by (auto split: option.splits)
  from proto_step_ends [OF 1] Cons.IH [OF r] r show ?case by (cases "p1 = Over") auto
qed simp

text \<open>
  C20 (the Messages stream is well formed). Whatever the upstream sends, the events written to the
  client follow the grammar of a Messages stream, the encoder's state says where in it the client
  is, and there is exactly one terminator, in last place, once the encoder is terminal.
\<close>

theorem encoder_follows_grammar:
  "let (out, e) = encode_message decode uuid model evs in
     proto_run out Fresh = Some (proto_of e) \<and>
     length (filter ends_stream out) = (if en_terminal e then 1 else 0) \<and>
     (en_terminal e \<longleftrightarrow> ends_stream (last out))"
proof -
  obtain out e where r: "encode_message decode uuid model evs = (out, e)" by (cases "encode_message decode uuid model evs")
  have f: "proto_of (new_stream_encoder uuid model) = Fresh" by (simp add: proto_of_def new_stream_encoder_def)
  have s: "proto_run out Fresh = Some (proto_of e)" "en_started e"
    using sound_encode_message [of uuid model decode evs] r f by (simp_all add: sound_def)
  have ov: "proto_of e = Over \<longleftrightarrow> en_terminal e" using s(2) by (simp add: proto_of_def)
  have n: "length (filter ends_stream out) = (if en_terminal e then 1 else 0)"
    using proto_run_ends [OF s(1)] ov by simp
  have "out \<noteq> []" using s by (auto simp: proto_of_def split: if_splits)
  then obtain xs x where x: "out = xs @ [x]" by (metis rev_exhaust)
  then obtain p where "proto_run xs Fresh = Some p" "proto_step x p = Some (proto_of e)"
    using s(1) by (auto simp: proto_run_append split: option.splits)
  with proto_step_ends ov x have "en_terminal e \<longleftrightarrow> ends_stream (last out)" by auto
  with s(1) n show ?thesis by (simp add: r)
qed

end
