(* ===== verification/Anthropic_Upstream.thy ===== *)
theory Anthropic_Upstream
  imports Anthropic_Request Anthropic_Stream
begin

text \<open>
  \<open>internal/protocol/anthropic/upstream.go\<close>, a Messages request as a Responses body, and
  \<open>response.go\<close>, a Responses result as a message. Arguments: \<open>digest\<close>, the hexadecimal SHA-256 of
  the fingerprint; \<open>show\<close>, the shortest decimal of a float64; the random ids.
\<close>

section \<open>Faults\<close>

datatype source_fault = InvalidSource | SourceField string | SourceType string

datatype translate_fault =
    StringContent | BlockContent | ImageFault source_fault | DocumentFault source_fault
  | ResultText string | ResultSource string source_fault | ResultNested string string | OutputConfigFault

definition raw_json :: "raw_message option \<Rightarrow> jval" where
  "raw_json r = (case r of None \<Rightarrow> VNull | Some (s, _) \<Rightarrow> VRaw s)"

section \<open>Options\<close>

definition thinking_to_responses_effort :: "raw_message option \<Rightarrow> string" where
  "thinking_to_responses_effort r =
     (if \<not> given r then []
      else
        (let names = [''type'', ''budget_tokens''] in
         case raw_struct r of
           None \<Rightarrow> []
         | Some ms \<Rightarrow>
             (case (dec_string [] (field_values names ''type'' ms), dec_int 0 (field_values names ''budget_tokens'' ms)) of
                (Some ty, Some n) \<Rightarrow>
                  if ty = ''adaptive'' then ''medium''
                  else if ty = ''enabled'' then
                    (if n \<le> 4096 then ''low'' else if n \<le> 8192 then ''medium''
                     else if n \<le> 32768 then ''high'' else ''xhigh'')
                  else []
              | _ \<Rightarrow> [])))"

definition dec_text_block :: "raw_message \<Rightarrow> (string \<times> string) option" where
  "dec_text_block r =
     (case dec_struct [] [r] of
        None \<Rightarrow> None
      | Some ms \<Rightarrow>
          do { ty \<leftarrow> dec_string [] (field_values [''type'', ''text''] ''type'' ms);
               tx \<leftarrow> dec_string [] (field_values [''type'', ''text''] ''text'' ms);
               Some (ty, tx) })"

definition system_to_instructions :: "raw_message option \<Rightarrow> string" where
  "system_to_instructions r =
     (if \<not> given r then []
      else if has_prefix (raw_trim r) [CHR 0x22] then (case raw_string r of None \<Rightarrow> [] | Some s \<Rightarrow> s)
      else
        (case (case r of None \<Rightarrow> None | Some m \<Rightarrow> dec_list dec_text_block [m]) of
           None \<Rightarrow> []
         | Some bs \<Rightarrow> join_with [CHR 0x0A] (map snd (filter (\<lambda>(ty, tx). ty = ''text'' \<and> tx \<noteq> []) bs))))"

definition tool_json :: "tool_def \<Rightarrow> jval" where
  "tool_json t =
     vmap ([(''type'', VStr ''function''), (''name'', VStr (td_name t)), (''description'', VStr (td_description t)),
            (''parameters'',
               if raw_bytes (td_input_schema t) \<noteq> [] \<and> raw_bytes (td_input_schema t) \<noteq> ''null''
               then VRaw (raw_bytes (td_input_schema t))
               else VObj [(''type'', VStr ''object'')])] @
           omit_none VBool ''strict'' (td_strict t))"

definition tools_to_responses :: "tool_def list \<Rightarrow> jval list" where
  "tools_to_responses ts = map tool_json ts"

definition tool_choice_to_responses :: "raw_message option \<Rightarrow> jval option" where
  "tool_choice_to_responses r =
     (if \<not> given r then None
      else if has_prefix (raw_trim r) [CHR 0x22] then
        (case raw_string r of
           None \<Rightarrow> None
         | Some s \<Rightarrow> if s = ''auto'' \<or> s = ''none'' then Some (VStr s) else None)
      else
        (let names = [''type'', ''name''] in
         case raw_struct r of
           None \<Rightarrow> None
         | Some ms \<Rightarrow>
             (case (dec_string [] (field_values names ''type'' ms), dec_string [] (field_values names ''name'' ms)) of
                (Some ty, Some name) \<Rightarrow>
                  if ty = ''auto'' then Some (VStr ''auto'')
                  else if ty = ''any'' then Some (VStr ''required'')
                  else if ty = ''none'' then Some (VStr ''none'')
                  else if ty = ''tool'' then
                    Some (if name \<noteq> [] then vmap [(''type'', VStr ''function''), (''name'', VStr name)] else VStr ''auto'')
                  else None
              | _ \<Rightarrow> None)))"

definition disable_parallel_tool_calls :: "raw_message option \<Rightarrow> bool" where
  "disable_parallel_tool_calls r =
     (case raw_struct r of
        None \<Rightarrow> False
      | Some ms \<Rightarrow>
          dec_bool False (field_values [''disable_parallel_tool_use''] ''disable_parallel_tool_use'' ms) = Some True)"

text \<open>The members that \<open>output_config\<close> sets in the body.\<close>

definition output_config_to_responses :: "raw_message option \<Rightarrow> (string \<times> jval) list option" where
  "output_config_to_responses r =
     (if \<not> given r then Some []
      else
        (case dec_output_config r of
           None \<Rightarrow> None
         | Some (effort, format) \<Rightarrow>
             Some (omit_none (\<lambda>e. vmap [(''effort'', VStr e)]) ''reasoning'' effort @
               omit_none (\<lambda>(ty, schema). vmap [(''format'', vmap [(''type'', VStr ''json_schema''),
                   (''name'', VStr ''anthropic_output''), (''schema'', raw_json schema), (''strict'', VBool True)])])
                 ''text'' format)))"

section \<open>Content\<close>

record block_source =
  bs_type :: string
  bs_media_type :: string
  bs_data :: string
  bs_url :: string

definition dec_source :: "raw_message option \<Rightarrow> block_source option" where
  "dec_source r =
     (case raw_struct r of
        None \<Rightarrow> None
      | Some ms \<Rightarrow>
          (let f = (\<lambda>k. dec_string [] (field_values [''type'', ''media_type'', ''data'', ''url''] k ms)) in
           do { ty \<leftarrow> f ''type''; mt \<leftarrow> f ''media_type''; d \<leftarrow> f ''data''; u \<leftarrow> f ''url'';
                Some \<lparr>bs_type = ty, bs_media_type = mt, bs_data = d, bs_url = u\<rparr> }))"

definition data_url :: "block_source \<Rightarrow> string" where
  "data_url s = ''data:'' @ bs_media_type s @ '';base64,'' @ bs_data s"

definition image_to_responses_content :: "raw_message option \<Rightarrow> source_fault + jval" where
  "image_to_responses_content r =
     (let image = (\<lambda>u. Inr (vmap [(''type'', VStr ''input_image''), (''image_url'', VStr u)])) in
      case dec_source r of
        None \<Rightarrow> Inl InvalidSource
      | Some s \<Rightarrow>
          if bs_type s = ''base64'' then
            (if bs_media_type s = [] \<or> bs_data s = [] then Inl (SourceField ''base64'') else image (data_url s))
          else if bs_type s = ''url'' then
            (if bs_url s = [] then Inl (SourceField ''url'') else image (bs_url s))
          else Inl (SourceType (bs_type s)))"

definition document_to_responses_content :: "raw_message option \<Rightarrow> string \<Rightarrow> source_fault + jval" where
  "document_to_responses_content r title =
     (case dec_source r of
        None \<Rightarrow> Inl InvalidSource
      | Some s \<Rightarrow>
          if bs_type s = ''text'' then
            (if bs_data s = [] then Inl (SourceField ''text'')
             else Inr (vmap [(''type'', VStr ''input_text''), (''text'', VStr (bs_data s))]))
          else if bs_type s = ''url'' then
            (if bs_url s = [] then Inl (SourceField ''url'')
             else Inr (vmap [(''type'', VStr ''input_file''), (''file_url'', VStr (bs_url s))]))
          else if bs_type s = ''base64'' then
            (if bs_media_type s = [] \<or> bs_data s = [] then Inl (SourceField ''base64'')
             else
               (let name = (if title \<noteq> [] then title
                            else if bs_media_type s = ''application/pdf'' then ''document.pdf''
                            else if bs_media_type s = ''text/plain'' then ''document.txt'' else ''document'')
                in Inr (vmap [(''type'', VStr ''input_file''), (''filename'', VStr name), (''file_data'', VStr (data_url s))])))
          else Inl (SourceType (bs_type s)))"

definition input_text :: "string \<Rightarrow> jval" where
  "input_text s = vmap [(''type'', VStr ''input_text''), (''text'', VStr s)]"

definition nested_content :: "string \<Rightarrow> content_block \<Rightarrow> translate_fault + jval" where
  "nested_content tid b =
     (if cb_type b = ''text'' then Inr (input_text (cb_text b))
      else if cb_type b = ''image'' then
        (case image_to_responses_content (cb_source b) of Inl f \<Rightarrow> Inl (ResultSource tid f) | Inr v \<Rightarrow> Inr v)
      else if cb_type b = ''document'' then
        (case document_to_responses_content (cb_source b) (cb_title b) of
           Inl f \<Rightarrow> Inl (ResultSource tid f) | Inr v \<Rightarrow> Inr v)
      else Inl (ResultNested tid (cb_type b)))"

fun collect_content :: "('a \<Rightarrow> 'e + 'b) \<Rightarrow> 'a list \<Rightarrow> 'e + 'b list" where
  "collect_content f [] = Inr []"
| "collect_content f (x # xs) =
     (case f x of
        Inl e \<Rightarrow> Inl e
      | Inr y \<Rightarrow> (case collect_content f xs of Inl e \<Rightarrow> Inl e | Inr ys \<Rightarrow> Inr (y # ys)))"

definition tool_result_to_responses_output :: "content_block \<Rightarrow> translate_fault + jval" where
  "tool_result_to_responses_output b =
     (let content = raw_trim (cb_content b);
          prefix = (if cb_is_error b then ''[Tool execution failed] '' else []);
          tid = cb_tool_use_id b in
      if content = [] \<or> content = ''null'' then Inr (VStr prefix)
      else if has_prefix content [CHR 0x22] then
        (case raw_string (cb_content b) of None \<Rightarrow> Inl (ResultText tid) | Some s \<Rightarrow> Inr (VStr (prefix @ s)))
      else
        (case raw_blocks (cb_content b) of
           None \<Rightarrow> Inr (VStr (prefix @ content))
         | Some bs \<Rightarrow>
             if list_all (\<lambda>n. cb_type n = ''text'') bs then Inr (VStr (prefix @ concat (map cb_text bs)))
             else
               (case collect_content (nested_content tid) bs of
                  Inl e \<Rightarrow> Inl e
                | Inr vs \<Rightarrow>
                    (let out = (if prefix \<noteq> [] then [input_text (trim_space prefix)] else []) @ vs
                     in Inr (if out = [] then VStr [] else VArr out)))))"

section \<open>Fingerprints\<close>

definition block_json :: "content_block \<Rightarrow> jval" where
  "block_json b =
     VObj [(''type'', VStr (cb_type b)), (''text'', VStr (cb_text b)), (''id'', VStr (cb_id b)),
           (''name'', VStr (cb_name b)), (''input'', raw_json (cb_input b)),
           (''tool_use_id'', VStr (cb_tool_use_id b)), (''content'', raw_json (cb_content b)),
           (''source'', raw_json (cb_source b)), (''is_error'', VBool (cb_is_error b)), (''title'', VStr (cb_title b))]"

definition canonical_content :: "raw_message option \<Rightarrow> string option" where
  "canonical_content r =
     (if \<not> given r then None
      else if has_prefix (raw_bytes r) [CHR 0x22] then
        (case raw_string r of
           None \<Rightarrow> None
         | Some s \<Rightarrow> Some (marshal (VObj [(''type'', VStr ''string''), (''text'', VStr s)])))
      else
        (case raw_blocks r of
           None \<Rightarrow> None
         | Some bs \<Rightarrow>
             if map_option snd r = Some JNull then None else Some (marshal (VArr (map block_json bs)))))"

definition content_fingerprint :: "(string \<Rightarrow> string) \<Rightarrow> raw_message option \<Rightarrow> string" where
  "content_fingerprint digest r = (case canonical_content r of None \<Rightarrow> [] | Some s \<Rightarrow> digest s)"

section \<open>Messages\<close>

definition own_role :: "string \<Rightarrow> bool" where
  "own_role role \<longleftrightarrow> role = ''assistant'' \<or> role = ''system''"

definition message_item :: "string \<Rightarrow> jval \<Rightarrow> jval" where
  "message_item role content = vmap [(''type'', VStr ''message''), (''role'', VStr role), (''content'', content)]"

definition call_item :: "content_block \<Rightarrow> jval" where
  "call_item b =
     vmap [(''type'', VStr ''function_call''), (''call_id'', VStr (cb_id b)), (''name'', VStr (cb_name b)),
           (''arguments'', VStr (if raw_bytes (cb_input b) \<noteq> [] \<and> raw_bytes (cb_input b) \<noteq> ''null''
                               then raw_bytes (cb_input b) else ''{}''))]"

definition result_item :: "content_block \<Rightarrow> jval \<Rightarrow> jval" where
  "result_item b output =
     vmap [(''type'', VStr ''function_call_output''), (''call_id'', VStr (cb_tool_use_id b)), (''output'', output)]"

text \<open>Output items, open content parts and open text of one message.\<close>

type_synonym message_state = "jval list \<times> jval list \<times> string"

definition flush_message :: "string \<Rightarrow> message_state \<Rightarrow> message_state" where
  "flush_message role st =
     (let (out, content, tx) = st in
      if own_role role then
        (if tx \<noteq> [] then (out @ [message_item role (VStr tx)], content, []) else st)
      else if content \<noteq> [] then (out @ [message_item role (VArr content)], [], tx)
      else st)"

definition convert_block ::
    "string \<Rightarrow> content_block \<Rightarrow> message_state \<Rightarrow> (message_state, translate_fault) ctl" where
  "convert_block role b st =
     (let (out, content, tx) = st in
      if cb_type b = ''text'' then
        Continue (if own_role role then (out, content, tx @ cb_text b)
                  else (out, content @ [input_text (cb_text b)], tx))
      else if cb_type b = ''image'' then
        (case image_to_responses_content (cb_source b) of
           Inl f \<Rightarrow> Return (ImageFault f) | Inr v \<Rightarrow> Continue (out, content @ [v], tx))
      else if cb_type b = ''document'' then
        (case document_to_responses_content (cb_source b) (cb_title b) of
           Inl f \<Rightarrow> Return (DocumentFault f) | Inr v \<Rightarrow> Continue (out, content @ [v], tx))
      else if cb_type b = ''tool_use'' then
        (let (out', content', tx') = flush_message role st in Continue (out' @ [call_item b], content', tx'))
      else if cb_type b = ''tool_result'' then
        (let (out', content', tx') = flush_message role st in
         case tool_result_to_responses_output b of
           Inl f \<Rightarrow> Return f
         | Inr v \<Rightarrow> Continue (out' @ [result_item b v], content', tx'))
      else Continue st)"

definition reasoning_marker :: "string \<Rightarrow> bool \<Rightarrow> reasoning_continuation option \<Rightarrow> jval list" where
  "reasoning_marker role chat cont =
     (case cont of
        None \<Rightarrow> []
      | Some v \<Rightarrow>
          if role \<noteq> ''assistant'' \<or> \<not> chat \<or> rc_chat_completions v = [] then []
          else [vmap [(''type'', VStr ''chat_reasoning''), (''content'', VStr (rc_chat_completions v))]])"

definition reasoning_items :: "bool \<Rightarrow> reasoning_continuation option \<Rightarrow> jval list" where
  "reasoning_items chat cont =
     (case cont of
        None \<Rightarrow> []
      | Some v \<Rightarrow> if chat then [] else map VRaw (filter json_valid (rc_responses_items v)))"

definition convert_message ::
    "(string \<Rightarrow> string) \<Rightarrow> (string \<Rightarrow> reasoning_continuation option) \<Rightarrow> bool \<Rightarrow> message \<Rightarrow> jval list
      \<Rightarrow> (jval list, translate_fault) ctl" where
  "convert_message digest conts chat m out =
     (let role = ms_role m;
          cont = (if role = ''assistant'' then conts (content_fingerprint digest (ms_content m)) else None);
          out1 = out @ reasoning_items chat cont in
      if has_prefix (raw_trim (ms_content m)) [CHR 0x22] then
        (case raw_string (ms_content m) of
           None \<Rightarrow> Return StringContent
         | Some s \<Rightarrow>
             Continue (if own_role role then out1 @ [message_item role (VStr s)] @ reasoning_marker role chat cont
                       else out1 @ [message_item role (VArr [input_text s])]))
      else
        (case raw_blocks (ms_content m) of
           None \<Rightarrow> Return BlockContent
         | Some bs \<Rightarrow>
             (case for_range (convert_block role) bs (out1, [], []) of
                Return f \<Rightarrow> Return f
              | Continue st \<Rightarrow> Continue (fst (flush_message role st) @ reasoning_marker role chat cont))))"

definition messages_to_input ::
    "(string \<Rightarrow> string) \<Rightarrow> (string \<Rightarrow> reasoning_continuation option) \<Rightarrow> bool \<Rightarrow> message list
      \<Rightarrow> translate_fault + jval list" where
  "messages_to_input digest conts chat ms =
     (case for_range (convert_message digest conts chat) ms [] of
        Return f \<Rightarrow> Inl f
      | Continue out \<Rightarrow> Inr out)"

section \<open>The body\<close>

definition metadata_user :: "raw_message option \<Rightarrow> string option" where
  "metadata_user r =
     (if \<not> given r then None
      else
        (case raw_struct r of
           None \<Rightarrow> None
         | Some ms \<Rightarrow>
             (case dec_string_ptr None (field_values [''user_id''] ''user_id'' ms) of None \<Rightarrow> None | Some u \<Rightarrow> u)))"

definition put_all :: "(string \<times> jval) list \<Rightarrow> (string \<times> jval) list \<Rightarrow> (string \<times> jval) list" where
  "put_all kvs body = fold (\<lambda>(k, v). AList.update k v) kvs body"

definition to_responses ::
    "(string \<Rightarrow> string) \<Rightarrow> (rat \<Rightarrow> string) \<Rightarrow> message_request \<Rightarrow> string
      \<Rightarrow> (string \<Rightarrow> reasoning_continuation option) \<Rightarrow> bool \<Rightarrow> translate_fault + jval" where
  "to_responses digest show t model conts chat =
     (case messages_to_input digest conts chat (mr_messages t) of
        Inl f \<Rightarrow> Inl f
      | Inr items \<Rightarrow>
          (let instructions = system_to_instructions (mr_system t);
               tools = tools_to_responses (mr_tools t);
               effort = thinking_to_responses_effort (mr_thinking t);
               body =
                 [(''model'', VStr model), (''input'', VArr items)] @ omit_empty ''instructions'' instructions @
                 (if tools \<noteq> [] then (''tools'', VArr tools) # omit_none id ''tool_choice'' (tool_choice_to_responses (mr_tool_choice t))
                  else []) @
                 (if disable_parallel_tool_calls (mr_tool_choice t) then [(''parallel_tool_calls'', VBool False)] else []) @
                 (if 0 < mr_max_tokens t then [(''max_output_tokens'', VInt (mr_max_tokens t))] else []) @
                 omit_none (VRaw \<circ> show) ''temperature'' (mr_temperature t) @
                 omit_none (VRaw \<circ> show) ''top_p'' (mr_top_p t) @
                 (if effort \<noteq> [] then [(''reasoning'', vmap [(''effort'', VStr effort)])] else []) in
           case output_config_to_responses (mr_output_config t) of
             None \<Rightarrow> Inl OutputConfigFault
           | Some cfg \<Rightarrow>
               Inr (vmap (put_all (cfg @
                     omit_none (\<lambda>u. vmap [(''user_id'', VStr u)]) ''metadata'' (metadata_user (mr_metadata t)) @
                     [(''stream'', VBool False)]) body))))"

text \<open>The bytes sent: \<open>ToResponsesWithContinuations\<close>.\<close>

definition to_responses_with_continuations ::
    "(string \<Rightarrow> string) \<Rightarrow> (rat \<Rightarrow> string) \<Rightarrow> parsed \<Rightarrow> string
      \<Rightarrow> (string \<Rightarrow> reasoning_continuation option) \<Rightarrow> bool \<Rightarrow> translate_fault + string" where
  "to_responses_with_continuations digest show p model conts chat =
     map_sum id marshal (to_responses digest show (pa_typed p) model conts chat)"

section \<open>Answers\<close>

record response_part =
  rp_type :: string
  rp_text :: string
  rp_refusal :: string

record response_item =
  ri_type :: string
  ri_call_id :: string
  ri_id :: string
  ri_name :: string
  ri_arguments :: string
  ri_content :: "response_part list"
  ri_text :: string

definition dec_part :: "raw_message \<Rightarrow> response_part option" where
  "dec_part r =
     (case dec_struct [] [r] of
        None \<Rightarrow> None
      | Some ms \<Rightarrow>
          (let f = (\<lambda>k. dec_string [] (field_values [''type'', ''text'', ''refusal''] k ms)) in
           do { ty \<leftarrow> f ''type''; tx \<leftarrow> f ''text''; rf \<leftarrow> f ''refusal'';
                Some \<lparr>rp_type = ty, rp_text = tx, rp_refusal = rf\<rparr> }))"

definition dec_item :: "raw_message \<Rightarrow> response_item option" where
  "dec_item r =
     (case dec_struct [] [r] of
        None \<Rightarrow> None
      | Some ms \<Rightarrow>
          (let f = (\<lambda>k. field_values [''type'', ''call_id'', ''id'', ''name'', ''arguments'', ''content'', ''text''] k ms) in
           do { ty \<leftarrow> dec_string [] (f ''type''); ci \<leftarrow> dec_string [] (f ''call_id''); i \<leftarrow> dec_string [] (f ''id'');
                n \<leftarrow> dec_string [] (f ''name''); ar \<leftarrow> dec_string [] (f ''arguments'');
                ct \<leftarrow> dec_list dec_part (f ''content''); tx \<leftarrow> dec_string [] (f ''text'');
                Some \<lparr>ri_type = ty, ri_call_id = ci, ri_id = i, ri_name = n, ri_arguments = ar, ri_content = ct,
                      ri_text = tx\<rparr> }))"

text \<open>Input, output, cached and written tokens; the last two only with details.\<close>

definition dec_answer_usage ::
    "(string \<times> raw_message) list \<Rightarrow> (int \<times> int \<times> (int \<times> int) option) option" where
  "dec_answer_usage ms =
     (let f = (\<lambda>k. field_values [''input_tokens'', ''output_tokens'', ''input_tokens_details''] k ms);
          g = (\<lambda>k ds. dec_int 0 (field_values [''cached_tokens'', ''cache_write_tokens''] k ds)) in
      do { i \<leftarrow> dec_int 0 (f ''input_tokens''); out \<leftarrow> dec_int 0 (f ''output_tokens'');
           ds \<leftarrow> dec_struct_ptr None (f ''input_tokens_details'');
           case ds of
             None \<Rightarrow> Some (i, out, None)
           | Some dms \<Rightarrow> do { c \<leftarrow> g ''cached_tokens'' dms; w \<leftarrow> g ''cache_write_tokens'' dms;
                             Some (i, out, Some (c, w)) } })"

record answer =
  an_status :: string
  an_output :: "raw_message list"
  an_usage :: "(int \<times> int \<times> (int \<times> int) option) option"
  an_incomplete_reason :: "string option"

definition dec_answer :: "string \<Rightarrow> answer option" where
  "dec_answer raw =
     (case unmarshal_struct raw of
        None \<Rightarrow> None
      | Some ms \<Rightarrow>
          (let f = (\<lambda>k. field_values [''status'', ''output'', ''usage'', ''incomplete_details''] k ms) in
           do { st \<leftarrow> dec_string [] (f ''status''); out \<leftarrow> dec_slice [] (f ''output'');
                us \<leftarrow> dec_struct_ptr None (f ''usage'');
                us' \<leftarrow> (case us of None \<Rightarrow> Some None | Some ums \<Rightarrow> map_option Some (dec_answer_usage ums));
                inc \<leftarrow> dec_struct_ptr None (f ''incomplete_details'');
                inc' \<leftarrow> (case inc of None \<Rightarrow> Some None
                        | Some ims \<Rightarrow> map_option Some (dec_string [] (field_values [''reason''] ''reason'' ims)));
                Some \<lparr>an_status = st, an_output = out, an_usage = us', an_incomplete_reason = inc'\<rparr> }))"

datatype answer_fault = AnswerMalformed | AnswerFailed | AnswerIncomplete | AnswerNotComplete | AnswerArguments

definition status_fault :: "answer \<Rightarrow> answer_fault option" where
  "status_fault a =
     (if an_status a = ''failed'' \<or> an_status a = ''cancelled'' then Some AnswerFailed
      else if an_status a = ''incomplete'' \<and> an_incomplete_reason a \<noteq> Some ''max_output_tokens'' then Some AnswerIncomplete
      else if an_status a \<notin> {[], ''completed'', ''incomplete''} then Some AnswerNotComplete
      else None)"

definition plain_text_block :: "string \<Rightarrow> wire_content_block" where
  "plain_text_block s = \<lparr>wb_type = ''text'', wb_text = Some s, wb_id = [], wb_name = [], wb_input = []\<rparr>"

definition part_blocks :: "response_part \<Rightarrow> wire_content_block list" where
  "part_blocks c =
     (if rp_type c = ''output_text'' \<and> rp_text c \<noteq> [] then [plain_text_block (rp_text c)]
      else if rp_type c = ''refusal'' \<and> rp_refusal c \<noteq> [] then [plain_text_block (rp_refusal c)]
      else [])"

definition refuses :: "response_part \<Rightarrow> bool" where
  "refuses c \<longleftrightarrow> \<not> (rp_type c = ''output_text'' \<and> rp_text c \<noteq> []) \<and> rp_type c = ''refusal''"

record answer_state =
  as_content :: "wire_content_block list"
  as_tools :: nat
  as_refusal :: bool

definition answer_step ::
    "(nat \<Rightarrow> string) \<Rightarrow> nat \<times> raw_message \<Rightarrow> answer_state \<Rightarrow> (answer_state, answer_fault) ctl" where
  "answer_step uuid ir s =
     (let (i, r) = ir in
      case dec_item r of
        None \<Rightarrow> Continue s
      | Some item \<Rightarrow>
          if ri_type item = ''message'' then
            Continue (s\<lparr>as_content := as_content s @ concat (map part_blocks (ri_content item)) @
                           (if ri_text item \<noteq> [] then [plain_text_block (ri_text item)] else []),
                        as_refusal := (as_refusal s \<or> list_ex refuses (ri_content item))\<rparr>)
          else if ri_type item = ''function_call'' then
            (let cid = (if ri_call_id item \<noteq> [] then ri_call_id item
                        else if ri_id item \<noteq> [] then ri_id item else ''toolu_'' @ take 8 (uuid i)) in
             if ri_arguments item \<noteq> [] \<and> \<not> valid_tool_arguments (ri_arguments item) then Return AnswerArguments
             else Continue (s\<lparr>as_content := as_content s @
                    [\<lparr>wb_type = ''tool_use'', wb_text = None, wb_id = cid, wb_name = ri_name item,
                      wb_input = (if ri_arguments item \<noteq> [] then ri_arguments item else ''{}'')\<rparr>],
                  as_tools := Suc (as_tools s)\<rparr>))
          else Continue s)"

definition answer_stop :: "answer \<Rightarrow> answer_state \<Rightarrow> string" where
  "answer_stop a s =
     (if an_incomplete_reason a = Some ''max_output_tokens'' then ''max_tokens''
      else if 0 < as_tools s then ''tool_use''
      else if as_refusal s then ''refusal'' else ''end_turn'')"

definition answer_usage :: "answer \<Rightarrow> wire_usage" where
  "answer_usage a =
     (case an_usage a of
        None \<Rightarrow> \<lparr>wu_input_tokens = 0, wu_output_tokens = 0, wu_cache_creation = 0, wu_cache_read = 0\<rparr>
      | Some (i, out, None) \<Rightarrow>
          \<lparr>wu_input_tokens = i, wu_output_tokens = out, wu_cache_creation = 0, wu_cache_read = 0\<rparr>
      | Some (i, out, Some (c, w)) \<Rightarrow>
          \<lparr>wu_input_tokens = max 0 (wrap64 (i - wrap64 (c + w))), wu_output_tokens = out,
           wu_cache_creation = w, wu_cache_read = c\<rparr>)"

text \<open>\<open>uuid i\<close> names the call of item \<open>i\<close>; \<open>mid\<close> is the random part of the message id.\<close>

definition to_wire_message :: "(nat \<Rightarrow> string) \<Rightarrow> string \<Rightarrow> string \<Rightarrow> string \<Rightarrow> answer_fault + wire_message" where
  "to_wire_message uuid mid raw requested =
     (case dec_answer raw of
        None \<Rightarrow> Inl AnswerMalformed
      | Some a \<Rightarrow>
          (case status_fault a of
             Some f \<Rightarrow> Inl f
           | None \<Rightarrow>
               (case for_range (answer_step uuid) (List.enumerate 0 (an_output a))
                       \<lparr>as_content = [], as_tools = 0, as_refusal = False\<rparr> of
                  Return f \<Rightarrow> Inl f
                | Continue s \<Rightarrow>
                    Inr \<lparr>wm_id = ''msg_sr_'' @ mid, wm_type = ''message'', wm_role = ''assistant'',
                         wm_content = as_content s, wm_model = requested, wm_stop_reason = Some (answer_stop a s),
                         wm_stop_sequence = None, wm_usage = answer_usage a\<rparr>)))"

definition to_message :: "(nat \<Rightarrow> string) \<Rightarrow> string \<Rightarrow> string \<Rightarrow> string \<Rightarrow> answer_fault + string" where
  "to_message uuid mid raw requested =
     map_sum id (marshal \<circ> message_json) (to_wire_message uuid mid raw requested)"

section \<open>Calls and their results\<close>

text \<open>What the upstream reads of calls (id, name, arguments) and answers (id, output).\<close>

datatype trace_item = Call string string string | Answered string jval

fun item_trace :: "jval \<Rightarrow> trace_item list" where
  "item_trace (VObj ms) =
     (case (map_of ms ''type'', map_of ms ''call_id'') of
        (Some (VStr ty), Some (VStr c)) \<Rightarrow>
          if ty = ''function_call'' then
            (case (map_of ms ''name'', map_of ms ''arguments'') of
               (Some (VStr n), Some (VStr a)) \<Rightarrow> [Call c n a] | _ \<Rightarrow> [])
          else if ty = ''function_call_output'' then
            (case map_of ms ''output'' of Some v \<Rightarrow> [Answered c v] | None \<Rightarrow> [])
          else []
      | _ \<Rightarrow> [])"
| "item_trace v = []"

definition items_trace :: "jval list \<Rightarrow> trace_item list" where
  "items_trace vs = concat (map item_trace vs)"

text \<open>What the client wrote: the blocks that are calls or answers.\<close>

definition steps :: "content_block list \<Rightarrow> content_block list" where
  "steps bs = filter (\<lambda>b. cb_type b = ''tool_use'' \<or> cb_type b = ''tool_result'') bs"

definition called_with :: "content_block \<Rightarrow> string" where
  "called_with b = (case cb_input b of None \<Rightarrow> ''{}'' | Some (s, _) \<Rightarrow> if s = [] \<or> s = ''null'' then ''{}'' else s)"

text \<open>The payload of an image or a document: its text, its URL, or its data as a URL.\<close>

definition source_payload :: "block_source \<Rightarrow> string" where
  "source_payload s =
     (if bs_type s = ''text'' then bs_data s
      else if bs_type s = ''url'' then bs_url s
      else ''data:'' @ bs_media_type s @ '';base64,'' @ bs_data s)"

definition shows_part :: "content_block \<Rightarrow> jval \<Rightarrow> bool" where
  "shows_part b v =
     (case v of
        VObj ms \<Rightarrow>
          if cb_type b = ''text''
          then map_of ms ''type'' = Some (VStr ''input_text'') \<and> map_of ms ''text'' = Some (VStr (cb_text b))
          else cb_type b \<in> {''image'', ''document''} \<and>
            (case dec_source (cb_source b) of
               None \<Rightarrow> False | Some s \<Rightarrow> list_ex (\<lambda>(k, w). w = VStr (source_payload s)) ms)
      | _ \<Rightarrow> False)"

definition error_mark :: "content_block \<Rightarrow> string" where
  "error_mark b = (if cb_is_error b then ''[Tool execution failed] '' else [])"

text \<open>
  An output that shows a client's answer: a string is the answer's text behind the mark of a failed
  tool; with images or documents it is the list of the parts, after the mark.
\<close>

definition shows_answer :: "content_block \<Rightarrow> jval \<Rightarrow> bool" where
  "shows_answer b v =
     (let c = raw_trim (cb_content b) in
      if c = [] \<or> c = ''null'' then v = VStr (error_mark b)
      else if hd c = CHR 0x22 then
        (case raw_string (cb_content b) of None \<Rightarrow> False | Some s \<Rightarrow> v = VStr (error_mark b @ s))
      else
        (case raw_blocks (cb_content b) of
           None \<Rightarrow> v = VStr (error_mark b @ c)
         | Some bs \<Rightarrow>
             if list_all (\<lambda>n. cb_type n = ''text'') bs then v = VStr (error_mark b @ concat (map cb_text bs))
             else
               (case v of
                  VArr vs \<Rightarrow>
                    (if cb_is_error b
                     then vs \<noteq> [] \<and> hd vs = input_text ''[Tool execution failed]'' \<and> list_all2 shows_part bs (tl vs)
                     else list_all2 shows_part bs vs)
                | _ \<Rightarrow> False)))"

fun same_step :: "content_block \<Rightarrow> trace_item \<Rightarrow> bool" where
  "same_step b (Call c n a) \<longleftrightarrow> cb_type b = ''tool_use'' \<and> c = cb_id b \<and> n = cb_name b \<and> a = called_with b"
| "same_step b (Answered c v) \<longleftrightarrow> cb_type b = ''tool_result'' \<and> c = cb_tool_use_id b \<and> shows_answer b v"

lemma trace_simps [simp]:
  "items_trace [] = []" "items_trace (v # vs) = item_trace v @ items_trace vs"
  "items_trace (vs @ ws) = items_trace vs @ items_trace ws"
  "steps [] = []" "steps (bs @ cs) = steps bs @ steps cs"
  by (simp_all add: items_trace_def steps_def)

lemma item_traces [simp]:
  "item_trace (message_item role c) = []" "item_trace (call_item b) = [Call (cb_id b) (cb_name b) (called_with b)]"
  "item_trace (result_item b v) = [Answered (cb_tool_use_id b) v]"
  by (auto simp: message_item_def call_item_def result_item_def vmap_def sort_members_def byte_def called_with_def
      raw_bytes_def split: option.splits)

lemma reasoning_traces [simp]:
  "items_trace (reasoning_marker role chat cont) = []" "items_trace (reasoning_items chat cont) = []"
  by (auto simp: reasoning_marker_def reasoning_items_def items_trace_def vmap_def sort_members_def byte_def
      split: option.split)

lemma flush_trace: "items_trace (fst (flush_message role st)) = items_trace (fst st)"
  by (cases st) (simp add: flush_message_def)

lemma image_payload:
  assumes "image_to_responses_content r = Inr v"
  shows "\<exists>s ms. dec_source r = Some s \<and> v = VObj ms \<and> list_ex (\<lambda>(k, w). w = VStr (source_payload s)) ms"
  using assms
  by (auto simp: image_to_responses_content_def Let_def source_payload_def data_url_def vmap_def sort_members_def byte_def
      split: option.splits if_splits)

lemma document_payload:
  assumes "document_to_responses_content r title = Inr v"
  shows "\<exists>s ms. dec_source r = Some s \<and> v = VObj ms \<and> list_ex (\<lambda>(k, w). w = VStr (source_payload s)) ms"
  using assms
  by (auto simp: document_to_responses_content_def Let_def source_payload_def data_url_def vmap_def sort_members_def byte_def
      split: option.splits if_splits)

lemma nested_shown: "nested_content tid b = Inr v \<Longrightarrow> shows_part b v"
  using image_payload [of "cb_source b"] document_payload [of "cb_source b" "cb_title b"]
  by (auto simp: nested_content_def shows_part_def input_text_def vmap_def sort_members_def byte_def
      split: if_splits sum.splits)

lemma collected_shown: "collect_content (nested_content tid) bs = Inr vs \<Longrightarrow> list_all2 shows_part bs vs"
  by (induction bs arbitrary: vs) (auto simp: nested_shown split: sum.splits)

lemma result_shown:
  assumes "tool_result_to_responses_output b = Inr v"
  shows "shows_answer b v"
proof -
  have q: "has_prefix c [CHR 0x22] \<longleftrightarrow> hd c = CHR 0x22" if "c \<noteq> []" for c
    using that by (cases c) (auto simp: has_prefix_def)
  have t: "trim_space ''[Tool execution failed] '' = ''[Tool execution failed]''" by code_simp
  have e: "list_all2 shows_part bs [] \<Longrightarrow> bs = []" for bs by simp
  show ?thesis
    using assms collected_shown
    by (fastforce simp: tool_result_to_responses_output_def shows_answer_def error_mark_def Let_def q t
        split: if_splits option.splits sum.splits)
qed

lemma convert_block_trace:
  assumes "convert_block role b st = Continue st'"
  shows "\<exists>new. items_trace (fst st') = items_trace (fst st) @ new \<and> list_all2 same_step (steps [b]) new"
  using assms flush_trace [of role st] result_shown [of b]
  by (cases st; cases "flush_message role st")
    (auto simp: convert_block_def steps_def Let_def split: if_splits sum.splits)

lemma convert_blocks_trace:
  "for_range (convert_block role) bs st = Continue st' \<Longrightarrow>
    \<exists>new. items_trace (fst st') = items_trace (fst st) @ new \<and> list_all2 same_step (steps bs) new"
proof (induction bs arbitrary: st)
  case (Cons b bs)
  from Cons.prems obtain s1 where c: "convert_block role b st = Continue s1" "for_range (convert_block role) bs s1 = Continue st'"
    by (cases "convert_block role b st") auto
  from convert_block_trace [OF c(1)] Cons.IH [OF c(2)] obtain new new' where
    "items_trace (fst st') = items_trace (fst st) @ new @ new'" "list_all2 same_step (steps [b]) new"
    "list_all2 same_step (steps bs) new'" by auto
  moreover have "steps (b # bs) = steps [b] @ steps bs" by (simp add: steps_def)
  ultimately show ?case by (metis list_all2_appendI)
qed simp

lemma convert_message_trace:
  assumes "convert_message digest conts chat m out = Continue out'"
  shows "\<exists>new. items_trace out' = items_trace out @ new \<and> list_all2 same_step (steps (message_blocks m)) new"
proof -
  define cont where "cont = (if ms_role m = ''assistant'' then conts (content_fingerprint digest (ms_content m)) else None)"
  have r: "\<exists>new. items_trace (fst st) = items_trace out @ new \<and> list_all2 same_step (steps bs) new"
    if "for_range (convert_block (ms_role m)) bs (out @ reasoning_items chat cont, [], []) = Continue st" for bs st
    using convert_blocks_trace [OF that] by simp
  show ?thesis
    using assms r unfolding convert_message_def Let_def cont_def [symmetric] message_blocks_def
    by (auto simp: flush_trace split: if_splits option.splits ctl.splits)
qed

lemma messages_trace:
  "for_range (convert_message digest conts chat) ms out = Continue out' \<Longrightarrow>
    \<exists>new. items_trace out' = items_trace out @ new \<and> list_all2 same_step (steps (concat (map message_blocks ms))) new"
proof (induction ms arbitrary: out)
  case (Cons m ms)
  from Cons.prems obtain o1 where c: "convert_message digest conts chat m out = Continue o1"
    "for_range (convert_message digest conts chat) ms o1 = Continue out'"
    by (cases "convert_message digest conts chat m out") auto
  from convert_message_trace [OF c(1)] Cons.IH [OF c(2)] obtain new new' where
    "items_trace out' = items_trace out @ new @ new'" "list_all2 same_step (steps (message_blocks m)) new"
    "list_all2 same_step (steps (concat (map message_blocks ms))) new'" by auto
  then show ?case by (auto intro: list_all2_appendI)
qed simp

lemma input_trace:
  "messages_to_input digest conts chat (mr_messages t) = Inr items \<Longrightarrow>
    list_all2 same_step (steps (conversation t)) (items_trace items)"
  using messages_trace [of digest conts chat "mr_messages t" "[]"]
  by (auto simp: messages_to_input_def conversation_def split: ctl.splits)

lemma filter_split: "filter P l = us @ b # ws \<Longrightarrow> \<exists>cs ds. l = cs @ b # ds \<and> filter P cs = us"
proof (induction l arbitrary: us)
  case (Cons x l)
  show ?case
  proof (cases "P x \<and> us = []")
    case True
    with Cons.prems show ?thesis by (intro exI [of _ "[]"] exI [of _ l]) simp
  next
    case False
    obtain us' where us': "filter P l = us' @ b # ws" "us = (if P x then x # us' else us')"
      using Cons.prems False by (cases us) (auto split: if_splits)
    from Cons.IH [OF us'(1)] obtain cs ds where "l = cs @ b # ds" "filter P cs = us'" by blast
    with us'(2) show ?thesis by (intro exI [of _ "x # cs"] exI [of _ ds]) simp
  qed
qed simp

text \<open>An accepted conversation answers a call only after it, and so does everything that follows it step by step.\<close>

lemma answers_follow:
  assumes "paired ([], []) bs" and "list_all2 P (steps bs) ts" and "ts = xs @ t # ys"
    and "\<And>b. P b t \<Longrightarrow> cb_type b = ''tool_result'' \<and> cb_tool_use_id b = tid"
  shows "\<exists>c t'. t' \<in> set xs \<and> P c t' \<and> cb_type c = ''tool_use'' \<and> cb_id c = tid"
proof -
  from assms(2,3) obtain us b ws where u: "steps bs = us @ b # ws" "list_all2 P us xs" "P b t"
    by (auto simp: list_all2_append2 list_all2_Cons2)
  from filter_split [OF u(1) [unfolded steps_def]] obtain cs ds where cs: "bs = cs @ b # ds" "steps cs = us"
    unfolding steps_def by blast
  from assms(4) [OF u(3)] paired_earlier [OF assms(1), of cs b ds] cs(1) have "tid \<in> set (use_ids cs)" by auto
  then obtain c where "c \<in> set us" "cb_type c = ''tool_use''" "cb_id c = tid"
    using cs(2) by (auto simp: use_ids_def steps_def)
  with u(2) show ?thesis by (metis in_set_conv_nth list_all2_conv_all_nth)
qed

text \<open>
  C24 (the upstream sees the same calls and results). The function calls and function outputs in the
  translated input are, one for one and in order, the tool uses and tool results of the accepted
  conversation, whatever reasoning is added: a call has the id, the name and the input of its tool
  use as the client wrote it; an output has the id of its tool result and shows its content (its text,
  marked when the tool failed, or its parts). Every output comes after its call.
\<close>

theorem translation_keeps_calls:
  assumes "parse_message fl raw = Inr p"
    and "messages_to_input digest conts chat (mr_messages (pa_typed p)) = Inr items"
  shows "list_all2 same_step (steps (conversation (pa_typed p))) (items_trace items) \<and>
    (\<forall>xs tid v ys. items_trace items = xs @ Answered tid v # ys \<longrightarrow> (\<exists>n a. Call tid n a \<in> set xs))"
proof -
  have t: "list_all2 same_step (steps (conversation (pa_typed p))) (items_trace items)"
    by (rule input_trace [OF assms(2)])
  have pr: "paired ([], []) (conversation (pa_typed p))"
    by (rule validate_blocks_paired [OF parse_message_Inr(1) [OF assms(1)]])
  have "\<exists>n a. Call tid n a \<in> set xs" if "items_trace items = xs @ Answered tid v # ys" for xs tid v ys
  proof -
    from answers_follow [OF pr t that, of tid] obtain c t' where
      mem: "t' \<in> set xs" and c: "same_step c t'" "cb_type c = ''tool_use''" "cb_id c = tid" by auto
    from c have "\<exists>n a. t' = Call tid n a" by (cases t') auto
    with mem show ?thesis by blast
  qed
  with t show ?thesis by blast
qed

definition sample_trace_items :: "trace_item list" where
  "sample_trace_items = [Call ''t1'' ''ls'' (jobject [jfield ''p'' ''1'']), Answered ''t1'' (VStr ''ok'')]"

theorem translation_keeps_calls_witness:
  "\<exists>p items. parse_message (\<lambda>_. None) sample_request = Inr p \<and>
     messages_to_input (\<lambda>s. s) (\<lambda>_. None) False (mr_messages (pa_typed p)) = Inr items \<and>
     items_trace items = sample_trace_items \<and>
     list_all2 same_step (steps (conversation (pa_typed p))) sample_trace_items"
proof -
  have "case parse_message (\<lambda>_. None) sample_request of Inl e \<Rightarrow> False
    | Inr p \<Rightarrow>
        (case messages_to_input (\<lambda>s. s) (\<lambda>_. None) False (mr_messages (pa_typed p)) of
           Inl f \<Rightarrow> False
         | Inr items \<Rightarrow> items_trace items = sample_trace_items)"
    by code_simp
  then obtain p items where r: "parse_message (\<lambda>_. None) sample_request = Inr p"
    "messages_to_input (\<lambda>s. s) (\<lambda>_. None) False (mr_messages (pa_typed p)) = Inr items"
    and t: "items_trace items = sample_trace_items"
    by (auto split: sum.splits)
  from translation_keeps_calls [OF r] have "list_all2 same_step (steps (conversation (pa_typed p))) (items_trace items)"
    by blast
  with r t show ?thesis by auto
qed

text \<open>
  Tool schemas are not forwarded byte for byte: a schema written with blanks or with characters
  that HTML treats specially reaches the upstream compacted and escaped.
\<close>

definition spaced_tool :: tool_def where
  "spaced_tool =
     \<lparr>td_name = ''ls'', td_type = [], td_description = [], td_input_schema = Some (''{ }'', JObj []),
      td_strict = None, td_defer_loading = None\<rparr>"

theorem tool_schema_not_bytewise:
  "str_contains (marshal (VArr (tools_to_responses [spaced_tool]))) ''{ }'' = False \<and>
   str_contains (marshal (VArr (tools_to_responses [spaced_tool]))) ''{}''"
  by code_simp

section \<open>Well formed answers\<close>

definition block_ok :: "wire_content_block \<Rightarrow> bool" where
  "block_ok b \<longleftrightarrow>
     (if wb_type b = ''tool_use'' then wb_id b \<noteq> [] \<and> valid_tool_arguments (wb_input b)
      else wb_type b = ''text'' \<and> wb_text b \<noteq> None \<and> wb_text b \<noteq> Some [])"

definition answer_ok :: "answer_state \<Rightarrow> bool" where
  "answer_ok s \<longleftrightarrow> list_all block_ok (as_content s) \<and>
     as_tools s = length (filter (\<lambda>b. wb_type b = ''tool_use'') (as_content s))"

lemma part_blocks_ok: "list_all block_ok (part_blocks c)" "filter (\<lambda>b. wb_type b = ''tool_use'') (part_blocks c) = []"
  by (simp_all add: part_blocks_def plain_text_block_def block_ok_def)

lemma parts_ok:
  "list_all block_ok (concat (map part_blocks cs))"
  "filter (\<lambda>b. wb_type b = ''tool_use'') (concat (map part_blocks cs)) = []"
  by (induction cs) (simp_all add: part_blocks_ok)

lemma empty_arguments: "valid_tool_arguments ''{}''"
  by code_simp

lemma answer_step_ok:
  assumes "answer_ok s" and "answer_step uuid ir s = Continue s'"
  shows "answer_ok s'"
  using assms
  by (auto simp: answer_step_def answer_ok_def Let_def parts_ok empty_arguments plain_text_block_def block_ok_def
      split: if_splits option.splits prod.splits)

text \<open>
  C25 (a plain answer is a well formed message). Every message built from an upstream result has only
  non-empty text blocks and tool blocks with an id and a JSON object as input; its stop reason is
  \<open>max_tokens\<close> exactly when the result was cut off, else \<open>tool_use\<close> exactly when it has a tool block.
\<close>

theorem plain_answer_well_formed:
  "case to_wire_message uuid mid raw requested of
     Inl f \<Rightarrow> True
   | Inr m \<Rightarrow>
       list_all block_ok (wm_content m) \<and> wm_model m = requested \<and>
       (case dec_answer raw of
          None \<Rightarrow> False
        | Some a \<Rightarrow>
            an_status a \<in> {[], ''completed'', ''incomplete''} \<and>
            (wm_stop_reason m = Some ''max_tokens'' \<longleftrightarrow> an_incomplete_reason a = Some ''max_output_tokens'') \<and>
            (wm_stop_reason m = Some ''tool_use'' \<longleftrightarrow>
               an_incomplete_reason a \<noteq> Some ''max_output_tokens'' \<and>
               list_ex (\<lambda>b. wb_type b = ''tool_use'') (wm_content m)))"
proof (cases "to_wire_message uuid mid raw requested")
  case (Inr m)
  then obtain a s where a: "dec_answer raw = Some a" "status_fault a = None"
    and r: "for_range (answer_step uuid) (List.enumerate 0 (an_output a))
              \<lparr>as_content = [], as_tools = 0, as_refusal = False\<rparr> = Continue s"
    and m: "m = \<lparr>wm_id = ''msg_sr_'' @ mid, wm_type = ''message'', wm_role = ''assistant'',
       wm_content = as_content s, wm_model = requested, wm_stop_reason = Some (answer_stop a s),
       wm_stop_sequence = None, wm_usage = answer_usage a\<rparr>"
    by (auto simp: to_wire_message_def split: option.splits ctl.splits)
  have ok: "answer_ok s"
    by (rule for_range_invariant [where P = answer_ok, OF _ answer_step_ok r]) (simp_all add: answer_ok_def)
  have st: "an_status a \<in> {[], ''completed'', ''incomplete''}"
    using a(2) by (auto simp: status_fault_def split: if_splits)
  have tools: "0 < as_tools s \<longleftrightarrow> list_ex (\<lambda>b. wb_type b = ''tool_use'') (as_content s)"
    using ok by (auto simp: answer_ok_def list_ex_iff filter_empty_conv)
  show ?thesis using Inr a ok st tools by (simp add: m answer_ok_def answer_stop_def)
qed simp

end
