(* ===== verification/Anthropic_Faithful.thy ===== *)
theory Anthropic_Faithful
  imports Anthropic_Stream
begin

text \<open>
  What the client of a Messages stream can put together from its events: the input of every tool
  call and the text of the answer.
\<close>

section \<open>Tool inputs\<close>

fun input_piece :: "nat \<Rightarrow> wire_event \<Rightarrow> string" where
  "input_piece i (BlockDelta j (InputJsonDelta s)) = (if i = j then s else [])"
| "input_piece i ev = []"

text \<open>The input the client assembles for block \<open>i\<close>, and the tool blocks it saw start.\<close>

definition tool_input :: "nat \<Rightarrow> wire_event list \<Rightarrow> string" where
  "tool_input i evs = concat (map (input_piece i) evs)"

fun tool_start :: "wire_event \<Rightarrow> nat list" where
  "tool_start (BlockStart i b) = (if wb_type b = ''tool_use'' then [i] else [])"
| "tool_start ev = []"

definition tool_starts :: "wire_event list \<Rightarrow> nat list" where
  "tool_starts evs = concat (map tool_start evs)"

lemma tool_input_simps [simp]:
  "tool_input i [] = []" "tool_input i (ev # evs) = input_piece i ev @ tool_input i evs"
  "tool_input i (xs @ ys) = tool_input i xs @ tool_input i ys"
  by (simp_all add: tool_input_def)

lemma tool_starts_simps [simp]:
  "tool_starts [] = []" "tool_starts (ev # evs) = tool_start ev @ tool_starts evs"
  "tool_starts (xs @ ys) = tool_starts xs @ tool_starts ys"
  by (simp_all add: tool_starts_def)

lemma block_types [simp]: "wb_type text_block = ''text''" "wb_type (tool_block c n) = ''tool_use''"
  by (simp_all add: text_block_def tool_block_def)

text \<open>What the encoder remembers of block \<open>i\<close>.\<close>

definition args_at :: "encoder \<Rightarrow> nat \<Rightarrow> string" where
  "args_at e i = concat (map (\<lambda>(k, t). if st_index t = i then st_arguments t else []) (en_tools e))"

definition tool_blocks :: "encoder \<Rightarrow> nat list" where
  "tool_blocks e = map (st_index \<circ> snd) (en_tools e)"

definition failed :: "encoder \<Rightarrow> bool" where
  "failed e \<longleftrightarrow> en_terminal e \<and> \<not> en_success e"

text \<open>A step that does not fail hands the client exactly what it adds to the encoder's record.\<close>

definition feeds :: "encoder \<Rightarrow> wire_event list \<times> encoder \<Rightarrow> bool" where
  "feeds e r \<longleftrightarrow> failed (snd r) \<or>
     (\<forall>i. args_at (snd r) i = args_at e i @ tool_input i (fst r)) \<and>
     tool_blocks (snd r) = tool_blocks e @ tool_starts (fst r)"

lemma feeds_refl: "feeds e ([], e)"
  by (simp add: feeds_def)

lemma feeds_trans: "feeds e (xs, e1) \<Longrightarrow> feeds e1 (ys, e2) \<Longrightarrow> failed e1 \<longrightarrow> failed e2 \<Longrightarrow> feeds e (xs @ ys, e2)"
  by (auto simp: feeds_def)

lemma feeds_same:
  assumes "en_tools (snd r) = en_tools e" and "\<And>i. tool_input i (fst r) = []" and "tool_starts (fst r) = []"
  shows "feeds e r"
  using assms by (simp add: feeds_def args_at_def tool_blocks_def)

lemma feeds_cong: "en_tools e' = en_tools e \<Longrightarrow> feeds e' r \<Longrightarrow> feeds e r"
  by (simp add: feeds_def args_at_def tool_blocks_def)

lemma feeds_fail: "\<not> en_terminal e \<Longrightarrow> feeds e' (fail_stream k m e)"
  by (simp add: feeds_def fail_stream_def failed_def)

lemma feeds_text_delta: "feeds e (text_delta s e)"
  by (rule feeds_same) (simp_all add: text_delta_def text_block_def)

lemma feeds_close_text: "feeds e (close_text e)"
  by (rule feeds_same) (simp_all add: close_text_def)

lemma args_at_tool:
  assumes "enc_ok e" and "(k, t) \<in> set (en_tools e)"
  shows "args_at e (st_index t) = st_arguments t"
proof -
  let ?f = "\<lambda>(k, u). if st_index u = st_index t then st_arguments u else []"
  have none: "concat (map ?f ys) = []" if "st_index t \<notin> (st_index \<circ> snd) ` set ys"
    for ys :: "(int \<times> stream_tool) list"
    using that by force
  have "concat (map ?f xs) = st_arguments t"
    if "distinct (map (st_index \<circ> snd) xs)" "(k, t) \<in> set xs" for xs :: "(int \<times> stream_tool) list"
    using that
  proof (induction xs)
    case (Cons x xs)
    show ?case
    proof (cases "x = (k, t)")
      case True
      with Cons.prems(1) none [of xs] show ?thesis by simp
    next
      case False
      with Cons.prems(2) have m: "(k, t) \<in> set xs" by simp
      then have "st_index t \<in> (st_index \<circ> snd) ` set xs" by force
      moreover have "(st_index \<circ> snd) x \<notin> (st_index \<circ> snd) ` set xs" using Cons.prems(1) by simp
      ultimately have "st_index (snd x) \<noteq> st_index t" by (metis comp_apply)
      with Cons.IH m Cons.prems(1) show ?thesis by (cases x) simp
    qed
  qed simp
  from this [of "en_tools e"] assms show ?thesis by (simp add: args_at_def enc_ok_def)
qed

lemma args_at_set_tool:
  assumes "enc_ok e" and "(k, t) \<in> set (en_tools e)" and "st_index t' = st_index t"
  shows "args_at (set_tool k t' e) i = (if i = st_index t then st_arguments t' else args_at e i)"
proof (cases "i = st_index t")
  case True
  have "(k, t') \<in> set (en_tools (set_tool k t' e))" using set_tool_mem [OF assms(1,2)] by simp
  from args_at_tool [OF enc_ok_set_tool [OF assms] this] True assms(3) show ?thesis by simp
next
  case False
  have "(if st_index (if j = k then t' else u) = i then st_arguments (if j = k then t' else u) else []) =
      (if st_index u = i then st_arguments u else [])" if "(j, u) \<in> set (en_tools e)" for j u
    using that assms False tool_at_in [OF assms(1)] by (metis option.inject)
  then have "args_at (set_tool k t' e) i = args_at e i"
    unfolding args_at_def set_tool_def by (auto simp: comp_def case_prod_beta intro!: arg_cong [where f = concat])
  with False show ?thesis by simp
qed

lemma feeds_set_tool:
  assumes "enc_ok e" and "(k, t) \<in> set (en_tools e)" and "st_index t' = st_index t"
    and "st_arguments t' = st_arguments t @ tool_input (st_index t) xs"
    and "\<And>i. i \<noteq> st_index t \<Longrightarrow> tool_input i xs = []" and "tool_starts xs = []"
  shows "feeds e (xs, set_tool k t' e)"
  using assms args_at_tool [OF assms(1,2)] set_tool_index [OF assms(1-3)]
  by (simp add: feeds_def args_at_set_tool [OF assms(1-3)] tool_blocks_def)

lemma tool_input_pieces:
  "tool_input i (map (\<lambda>s. BlockDelta j (InputJsonDelta s)) ss) = (if i = j then concat ss else [])"
  "tool_starts (map (\<lambda>s. BlockDelta j (InputJsonDelta s)) ss) = []"
  by (induction ss) auto

lemma feeds_close_tool:
  assumes "live e" and "tool_at e k = Some t"
  shows "feeds e (map (\<lambda>s. BlockDelta (st_index t) (InputJsonDelta s)) (closing t final) @ [BlockStop (st_index t)],
    set_tool k (closed_tool t final) e)"
  using assms
  by (intro feeds_set_tool [where t = t]) (simp_all add: live_def tool_at_in tool_input_pieces closed_tool_def)

lemma feeds_finish_tool: "live e \<Longrightarrow> tool_at e k = Some t \<Longrightarrow> feeds e (finish_tool k t final e)"
  unfolding finish_tool_cases
  by (auto intro: feeds_close_tool feeds_fail feeds_refl simp: live_def)

lemma feeds_finish_step:
  assumes "live e" and "finish_step stop k (out, e) = Continue (out', e')"
  shows "\<exists>xs. out' = out @ xs \<and> feeds e (xs, e')"
proof (cases "tool_at e k")
  case None
  with assms(2) have "out' = out @ []" "e' = e" by (simp_all add: finish_step_def)
  with feeds_refl show ?thesis by blast
next
  case (Some t)
  show ?thesis
  proof (cases "st_closed t")
    case True
    with Some assms(2) have "out' = out @ []" "e' = e" by (auto simp: finish_step_def split: if_splits)
    with feeds_refl show ?thesis by blast
  next
    case False
    with Some assms(2) have "out' = out @ fst (finish_tool k t [] e)" "e' = snd (finish_tool k t [] e)"
      by (auto simp: finish_step_def case_prod_beta Let_def split: if_splits)
    with feeds_finish_tool [OF assms(1) Some, of "[]"] show ?thesis by (metis prod.collapse)
  qed
qed

lemma feeds_finish_loop:
  "for_range (finish_step stop) ks (out, e) = Continue (out', e') \<Longrightarrow> live e \<Longrightarrow>
    \<exists>xs. out' = out @ xs \<and> feeds e (xs, e')"
proof (induction ks arbitrary: out e)
  case Nil
  then show ?case using feeds_refl by auto
next
  case (Cons k ks)
  obtain out1 e1 where s: "finish_step stop k (out, e) = Continue (out1, e1)"
    and r: "for_range (finish_step stop) ks (out1, e1) = Continue (out', e')"
    using Cons.prems(1) by (cases "finish_step stop k (out, e)") auto
  have l: "live e1" using finish_step_Continue [OF Cons.prems(2) s] by (auto simp: finish_inv_def)
  from feeds_finish_step [OF Cons.prems(2) s] obtain xs where 1: "out1 = out @ xs" "feeds e (xs, e1)" by blast
  from Cons.IH [OF r l] obtain ys where 2: "out' = out1 @ ys" "feeds e1 (ys, e')" by blast
  have "feeds e (xs @ ys, e')"
    using feeds_trans [OF 1(2) 2(2)] l by (simp add: failed_def live_def)
  with 1 2 show ?case by (intro exI [of _ "xs @ ys"]) simp
qed

lemma feeds_finish:
  assumes "live e"
  shows "feeds e (finish stop e)"
proof -
  obtain o1 e1 where c: "close_text e = (o1, e1)" by (cases "close_text e")
  have f1: "feeds e (o1, e1)" using feeds_close_text [of e] c by simp
  have s1: "sound e (o1, e1)" using sound_close_text [OF assms] c by simp
  have t1: "\<not> en_terminal e1" using c assms by (auto simp: close_text_def live_def split: if_splits)
  have l1: "live e1" by (rule sound_live [OF s1 t1])
  have running: "\<not> en_terminal e" using assms by (simp add: live_def)
  show ?thesis
  proof (cases "for_range (finish_step stop) (sort (map fst (en_tools e))) (o1, e1)")
    case (Return r)
    with finish_loop_Return [OF Return l1 assms] c running show ?thesis
      by (simp add: finish_def feeds_def failed_def)
  next
    case (Continue s)
    obtain out e2 where s: "s = (out, e2)" by (cases s)
    from feeds_finish_loop [OF Continue [unfolded s] l1] obtain xs where
      2: "out = o1 @ xs" "feeds e1 (xs, e2)" by blast
    have "feeds e (out, e2)" using feeds_trans [OF f1 2(2)] 2(1) l1 by (simp add: failed_def live_def)
    moreover have "\<not> failed e2"
      using finish_loop [OF Continue [unfolded s] l1] by (auto simp: finish_inv_def live_def failed_def)
    ultimately have "(\<forall>i. args_at e2 i = args_at e i @ tool_input i out) \<and>
        tool_blocks e2 = tool_blocks e @ tool_starts out" by (simp add: feeds_def)
    then show ?thesis
      using c Continue s running by (simp add: finish_def feeds_def args_at_def tool_blocks_def)
  qed
qed

lemma feeds_add_tool:
  assumes "live e"
  shows "feeds e (add_tool u e)"
proof (cases "ue_output_index u")
  case None
  with feeds_fail assms show ?thesis by (simp add: add_tool_def live_def)
next
  case (Some k)
  obtain o1 e1 where c: "close_text e = (o1, e1)" by (cases "close_text e")
  have t: "\<And>i. tool_input i o1 = []" "tool_starts o1 = []" "en_tools e1 = en_tools e"
    using c by (auto simp: close_text_def split: if_splits)
  show ?thesis
    using feeds_fail [of e] assms Some c t
    by (auto simp: add_tool_def Let_def live_def feeds_def args_at_def tool_blocks_def tool_delta_def)
qed

lemma feeds_dispatch:
  assumes "live e"
  shows "feeds e (dispatch typ u e)"
proof -
  have run: "\<not> en_terminal e" using assms by (simp add: live_def)
  have sr: "feeds e (text_delta s (e\<lparr>en_stop_reason := r, en_refusal_text := q\<rparr>))" for s r q
    by (rule feeds_same) (simp_all add: text_delta_def text_block_def)
  have sd: "feeds e (refusal_done q e)" for q
  proof -
    let ?e = "e\<lparr>en_stop_reason := ''refusal''\<rparr>"
    have "feeds e (close_text ?e)" by (rule feeds_same) (simp_all add: close_text_def)
    moreover have "feeds e (fail_stream k m ?e)" for k m using run by (intro feeds_fail) simp
    ultimately show ?thesis using sr [where s = q and r = "''refusal''" and q = q]
      by (simp add: refusal_done_def Let_def)
  qed
  have sa: "feeds e (arguments_delta u e)"
  proof -
    have "feeds e ([fst (tool_delta s t)], set_tool k (snd (tool_delta s t)) e)" if "tool_at e k = Some t" for s t k
      using that assms by (intro feeds_set_tool [where t = t]) (simp_all add: live_def tool_at_in tool_delta_def)
    with feeds_fail [OF run] feeds_refl show ?thesis
      by (simp add: arguments_delta_def Let_def case_prod_beta split: option.split)
  qed
  have st: "feeds e (tool_done m final item out e)" for m final item out
    using feeds_fail [OF run] feeds_finish_tool [OF assms] by (simp add: tool_done_def split: option.split)
  have si: "feeds e (let (out, e1) = finish ''max_tokens'' e in (out, e1\<lparr>en_success := False\<rparr>))"
    using finish_cases [OF assms, of "''max_tokens''"]
    by (auto simp: feeds_def failed_def case_prod_beta)
  show ?thesis
    unfolding dispatch_def
    using sr sd sa st si feeds_text_delta [of e] feeds_close_text [of e] feeds_add_tool [OF assms]
      feeds_finish [OF assms] feeds_fail [OF run] feeds_refl [of e]
    by (simp split del: if_split) (simp split: if_split)
qed

lemma feeds_handle:
  assumes "enc_ok e" and "en_started e"
  shows "feeds e (handle_responses_event decode typ payload e)"
proof (cases "en_terminal e")
  case True
  then show ?thesis by (simp add: handle_responses_event_def feeds_refl)
next
  case False
  with assms have l: "live e" by (simp add: live_def)
  have n: "live (note_usage payload e)" by (rule live_cong; use l in simp)
  show ?thesis
    using feeds_fail [OF False] feeds_cong [OF _ feeds_dispatch [OF n]] False
    by (simp add: handle_responses_event_def split: option.split)
qed

section \<open>Success\<close>

text \<open>A live encoder has neither succeeded nor truncated; a successful one has only complete inputs.\<close>

definition honest :: "encoder \<Rightarrow> bool" where
  "honest e \<longleftrightarrow>
     (if en_terminal e then en_success e \<longrightarrow> (\<forall>(k, t) \<in> set (en_tools e). valid_tool_arguments (st_arguments t))
      else \<not> en_success e \<and> en_stop_reason e \<noteq> ''max_tokens'')"

lemma honest_fail: "\<not> en_terminal e \<Longrightarrow> honest (snd (fail_stream k m e))"
  by (simp add: honest_def fail_stream_def)

lemma honest_text_delta: "honest e \<Longrightarrow> honest (snd (text_delta s e))"
  by (simp add: honest_def text_delta_def)

lemma honest_close_text: "honest e \<Longrightarrow> honest (snd (close_text e))"
  by (simp add: honest_def close_text_def)

lemma honest_set_tool: "\<not> en_terminal e \<Longrightarrow> honest e \<Longrightarrow> honest (set_tool k t e)"
  by (simp add: honest_def set_tool_def)

lemma honest_finish_tool: "\<not> en_terminal e \<Longrightarrow> honest e \<Longrightarrow> honest (snd (finish_tool k t final e))"
  unfolding finish_tool_cases by (simp add: honest_set_tool honest_fail)

lemma honest_finish: "live e \<Longrightarrow> stop \<noteq> ''max_tokens'' \<Longrightarrow> honest (snd (finish stop e))"
  using finish_cases [of e stop] by (fastforce simp: honest_def tool_final_def)

lemma honest_add_tool: "\<not> en_terminal e \<Longrightarrow> honest e \<Longrightarrow> honest (snd (add_tool u e))"
  by (auto simp: add_tool_def Let_def case_prod_beta honest_fail split: option.split)
    (auto simp: honest_def close_text_def)

lemma honest_dispatch:
  assumes "live e" and "honest e"
  shows "honest (snd (dispatch typ u e))"
proof -
  have run: "\<not> en_terminal e" "en_stop_reason e \<noteq> ''max_tokens''"
    using assms by (simp_all add: live_def honest_def)
  have sr: "honest (snd (text_delta s (e\<lparr>en_stop_reason := ''refusal'', en_refusal_text := q\<rparr>)))" for s q
    using assms(2) run by (intro honest_text_delta) (simp add: honest_def)
  have sd: "honest (snd (refusal_done q e))" for q
  proof -
    let ?e = "e\<lparr>en_stop_reason := ''refusal''\<rparr>"
    have "honest ?e" using assms(2) run by (simp add: honest_def)
    then show ?thesis using honest_close_text [of ?e] honest_fail [of ?e] sr run
      by (simp add: refusal_done_def Let_def)
  qed
  have sa: "honest (snd (arguments_delta u e))"
    using honest_fail [OF run(1)] honest_set_tool [OF run(1) assms(2)] assms(2)
    by (simp add: arguments_delta_def Let_def case_prod_beta split: option.split)
  have st: "honest (snd (tool_done m final item out e))" for m final item out
    using honest_fail [OF run(1)] honest_finish_tool [OF run(1) assms(2)]
    by (simp add: tool_done_def split: option.split)
  have si: "honest (snd (let (out, e1) = finish ''max_tokens'' e in (out, e1\<lparr>en_success := False\<rparr>)))"
    using finish_cases [OF assms(1), of "''max_tokens''"] by (auto simp: honest_def case_prod_beta)
  show ?thesis
    unfolding dispatch_def
    using sr sd sa st si honest_text_delta [OF assms(2)] honest_close_text [OF assms(2)]
      honest_add_tool [OF run(1) assms(2)] honest_finish [OF assms(1) run(2)] honest_fail [OF run(1)] assms(2)
    by (simp split del: if_split) (simp split: if_split)
qed

lemma honest_handle:
  assumes "enc_ok e" and "en_started e" and "honest e"
  shows "honest (snd (handle_responses_event decode typ payload e))"
proof (cases "en_terminal e")
  case True
  with assms show ?thesis by (simp add: handle_responses_event_def)
next
  case False
  with assms have l: "live e" by (simp add: live_def)
  have n: "live (note_usage payload e)" by (rule live_cong; use l in simp)
  have "honest (note_usage payload e)" using assms(3) by (simp add: honest_def)
  with honest_dispatch [OF n] honest_fail [OF False] False show ?thesis
    by (simp add: handle_responses_event_def split: option.split)
qed

lemma handle_terminal: "en_terminal e \<Longrightarrow> handle_responses_event decode typ payload e = ([], e)"
  by (simp add: handle_responses_event_def)

lemma encode_stream_terminal: "en_terminal e \<Longrightarrow> encode_stream decode evs e = ([], e)"
  by (induction evs) (auto simp: handle_terminal)

lemma encode_stream_faithful:
  "enc_ok e \<Longrightarrow> en_started e \<Longrightarrow> honest e \<Longrightarrow>
    feeds e (encode_stream decode evs e) \<and> honest (snd (encode_stream decode evs e))"
proof (induction evs arbitrary: e)
  case Nil
  then show ?case by (simp add: feeds_refl)
next
  case (Cons ev evs)
  obtain ty payload where ev: "ev = (ty, payload)" by (cases ev)
  obtain out e1 where h: "handle_responses_event decode ty payload e = (out, e1)"
    by (cases "handle_responses_event decode ty payload e")
  obtain out2 e2 where r: "encode_stream decode evs e1 = (out2, e2)" by (cases "encode_stream decode evs e1")
  have ok: "enc_ok e1" "en_started e1"
    using sound_handle [OF Cons.prems(1,2)] h by (metis snd_conv sound_def)+
  have f1: "feeds e (out, e1)" "honest e1"
    using feeds_handle [OF Cons.prems(1,2)] honest_handle [OF Cons.prems] h by (metis snd_conv)+
  have f2: "feeds e1 (out2, e2)" "honest e2" using Cons.IH [OF ok f1(2)] r by simp_all
  have "failed e1 \<longrightarrow> failed e2" using encode_stream_terminal [of e1] r by (auto simp: failed_def)
  with feeds_trans [OF f1(1) f2(1)] f2(2) show ?case by (simp add: ev h r)
qed

lemma encode_message_faithful:
  "feeds (new_stream_encoder uuid model) (encode_message decode uuid model evs) \<and>
   honest (snd (encode_message decode uuid model evs)) \<and> enc_ok (snd (encode_message decode uuid model evs))"
proof -
  let ?e = "new_stream_encoder uuid model"
  let ?e1 = "?e\<lparr>en_started := True\<rparr>"
  obtain out2 e2 where r: "encode_stream decode evs ?e1 = (out2, e2)" by (cases "encode_stream decode evs ?e1")
  have ok: "enc_ok ?e1" "en_started ?e1" "honest ?e1"
    by (simp_all add: new_stream_encoder_def enc_ok_def honest_def)
  have "feeds ?e1 (out2, e2) \<and> honest e2" using encode_stream_faithful [OF ok, of decode evs] r by simp
  moreover have "feeds ?e ([MessageStart (start_message ?e)], ?e1)" by (rule feeds_same) simp_all
  moreover have "\<not> failed ?e1" by (simp add: failed_def new_stream_encoder_def)
  moreover have "start_events ?e = ([MessageStart (start_message ?e)], ?e1)"
    by (simp add: start_events_def new_stream_encoder_def)
  ultimately show ?thesis
    using feeds_trans [of ?e "[MessageStart (start_message ?e)]" ?e1 out2 e2]
      sound_encode_message [of uuid model decode evs]
    by (simp add: encode_message_def r sound_def)
qed

text \<open>
  C21 (tool calls reach the client whole). When the encoder reports success, the fragments of every
  tool block, put together in order, are exactly the arguments that the encoder checked: a JSON
  object. The client saw one block per tool, in the order the upstream added them.
\<close>

theorem successful_tool_inputs:
  assumes "encode_message decode uuid model evs = (out, e)" and "en_success e"
  shows "tool_starts out = map (st_index \<circ> snd) (en_tools e) \<and>
    (\<forall>i \<in> set (tool_starts out). valid_tool_arguments (tool_input i out))"
proof -
  have f: "feeds (new_stream_encoder uuid model) (out, e)" and h: "honest e" and ok: "enc_ok e"
    using encode_message_faithful [of uuid model decode evs] assms(1) by simp_all
  have "en_terminal e" using h assms(2) by (auto simp: honest_def split: if_splits)
  with h assms(2) have v: "\<forall>(k, t) \<in> set (en_tools e). valid_tool_arguments (st_arguments t)"
    by (simp add: honest_def)
  have b: "tool_starts out = map (st_index \<circ> snd) (en_tools e)"
    and a: "\<And>i. args_at e i = tool_input i out"
    using f assms(2) by (simp_all add: feeds_def failed_def tool_blocks_def args_at_def new_stream_encoder_def)
  have "valid_tool_arguments (tool_input (st_index t) out)" if "(k, t) \<in> set (en_tools e)" for k t
    using v that args_at_tool [OF ok that] a by auto
  with b show ?thesis by auto
qed

definition quiet_event :: upstream_event where
  "quiet_event =
     \<lparr>ue_delta = [], ue_refusal = [], ue_arguments = [], ue_item_ref = [], ue_output_index = None,
      ue_item_type = [], ue_item_id = [], ue_item_call_id = [], ue_item_name = [], ue_item_arguments = [],
      ue_incomplete_reason = []\<rparr>"

definition sample_decode :: "string \<Rightarrow> upstream_event option" where
  "sample_decode p =
     (if p = ''text'' then Some (quiet_event\<lparr>ue_delta := ''hello''\<rparr>)
      else if p = ''tool'' then
        Some (quiet_event\<lparr>ue_output_index := Some 1, ue_item_type := ''function_call'', ue_item_id := ''fc_1'',
          ue_item_call_id := ''call_1'', ue_item_name := ''ls''\<rparr>)
      else if p = ''open'' then Some (quiet_event\<lparr>ue_item_ref := ''fc_1'', ue_delta := ''{''\<rparr>)
      else if p = ''close'' then Some (quiet_event\<lparr>ue_output_index := Some 1, ue_delta := ''}''\<rparr>)
      else Some quiet_event)"

definition sample_upstream :: "(string \<times> string) list" where
  "sample_upstream =
     [(''response.output_text.delta'', ''text''), (''response.output_item.added'', ''tool''),
      (''response.function_call_arguments.delta'', ''open''),
      (''response.function_call_arguments.delta'', ''close''), (''response.completed'', ''end'')]"

theorem successful_tool_inputs_witness:
  "let (out, e) = encode_message sample_decode ''1'' ''coding'' sample_upstream in
     en_success e \<and> tool_starts out = [1] \<and> valid_tool_arguments (tool_input 1 out)"
proof -
  obtain out e where r: "encode_message sample_decode ''1'' ''coding'' sample_upstream = (out, e)"
    by (cases "encode_message sample_decode ''1'' ''coding'' sample_upstream")
  have "en_success (snd (encode_message sample_decode ''1'' ''coding'' sample_upstream))"
    and "map (st_index \<circ> snd) (en_tools (snd (encode_message sample_decode ''1'' ''coding'' sample_upstream))) = [1]"
    by code_simp+
  then have s: "en_success e" "map (st_index \<circ> snd) (en_tools e) = [1]" by (simp_all add: r)
  from successful_tool_inputs [OF r s(1)] s show ?thesis by (simp add: r)
qed

section \<open>Text\<close>

fun text_piece :: "wire_event \<Rightarrow> string" where
  "text_piece (BlockDelta i (TextDelta s)) = s"
| "text_piece ev = []"

definition text_of :: "wire_event list \<Rightarrow> string" where
  "text_of evs = concat (map text_piece evs)"

lemma text_of_simps [simp]:
  "text_of [] = []" "text_of (ev # evs) = text_piece ev @ text_of evs" "text_of (xs @ ys) = text_of xs @ text_of ys"
  by (simp_all add: text_of_def)

text \<open>The text an event stands for, and the refusal so far.\<close>

definition said :: "string \<Rightarrow> upstream_event \<Rightarrow> string \<Rightarrow> string \<times> string" where
  "said typ u q =
     (if typ = ''response.output_text.delta'' then (ue_delta u, q)
      else if typ = ''response.refusal.delta'' then (ue_delta u, q @ ue_delta u)
      else if typ = ''response.refusal.done'' \<and> q = [] then (ue_refusal u, ue_refusal u)
      else ([], q))"

fun visible :: "(string \<Rightarrow> upstream_event option) \<Rightarrow> string \<Rightarrow> (string \<times> string) list \<Rightarrow> string" where
  "visible decode q [] = []"
| "visible decode q ((typ, payload) # evs) =
     (case decode payload of
        None \<Rightarrow> []
      | Some u \<Rightarrow> fst (said typ u q) @ visible decode (snd (said typ u q)) evs)"

text \<open>A step hands the client the text of its event; unless it ends the stream it keeps the refusal.\<close>

definition speaks :: "string \<times> string \<Rightarrow> wire_event list \<times> encoder \<Rightarrow> bool" where
  "speaks tq r \<longleftrightarrow> text_of (fst r) = fst tq \<and> (en_terminal (snd r) \<or> en_refusal_text (snd r) = snd tq)"

lemma fail_stream_text [simp]: "text_of (fst (fail_stream k m e)) = []"
  by (simp add: fail_stream_def)

lemma speaks_fail: "\<not> en_terminal e \<Longrightarrow> speaks ([], q) (fail_stream k m e)"
  by (simp add: speaks_def) (simp add: fail_stream_def)

lemma speaks_text_delta: "speaks (s, en_refusal_text e) (text_delta s e)"
  by (simp add: speaks_def text_delta_def)

lemma close_text_text [simp]: "text_of (fst (close_text e)) = []"
  by (simp add: close_text_def)

lemma speaks_close_text: "speaks ([], en_refusal_text e) (close_text e)"
  by (simp add: speaks_def) (simp add: close_text_def)

lemma pieces_text [simp]: "text_of (map (\<lambda>s. BlockDelta j (InputJsonDelta s)) ss) = []"
  by (induction ss) auto

lemma finish_tool_text [simp]: "text_of (fst (finish_tool k t final e)) = []"
  unfolding finish_tool_cases by simp

lemma speaks_finish_tool: "\<not> en_terminal e \<Longrightarrow> speaks ([], en_refusal_text e) (finish_tool k t final e)"
  by (simp add: speaks_def) (simp add: finish_tool_cases fail_stream_def set_tool_def)

lemma finish_step_text:
  assumes "text_of (fst oe) = []"
  shows "case finish_step stop k oe of Continue r \<Rightarrow> text_of (fst r) = [] | Return r \<Rightarrow> text_of (fst r) = []"
proof (cases "tool_at (snd oe) k")
  case None
  with assms show ?thesis by (simp add: finish_step_def case_prod_beta)
next
  case (Some t)
  obtain out e where oe: "oe = (out, e)" by (cases oe)
  obtain more e1 where m: "(if st_closed t then ([], e) else finish_tool k t [] e) = (more, e1)"
    and mt: "text_of more = []"
    by (cases "st_closed t"; cases "finish_tool k t [] e") (auto dest: arg_cong [where f = "text_of \<circ> fst"])
  show ?thesis using Some assms m mt by (simp add: finish_step_def oe)
qed

lemma finish_loop_text:
  "text_of (fst oe) = [] \<Longrightarrow>
   (case for_range (finish_step stop) ks oe of Continue r \<Rightarrow> text_of (fst r) = [] | Return r \<Rightarrow> text_of (fst r) = [])"
proof (induction ks arbitrary: oe)
  case (Cons k ks)
  show ?case
  proof (cases "finish_step stop k oe")
    case (Continue r)
    then have "text_of (fst r) = []" using finish_step_text [OF Cons.prems, of stop k] by (cases r) simp
    from Cons.IH [OF this] Continue show ?thesis by (simp only: for_range.simps ctl.case)
  next
    case (Return r)
    then have "text_of (fst r) = []" using finish_step_text [OF Cons.prems, of stop k] by (cases r) simp
    then show ?thesis using Return by (simp only: for_range.simps ctl.case)
  qed
qed simp

lemma finish_text [simp]: "text_of (fst (finish stop e)) = []"
  using finish_loop_text [of "close_text e" stop "sort (map fst (en_tools e))"]
  by (auto simp: finish_def split: ctl.splits)

lemma speaks_finish: "live e \<Longrightarrow> speaks ([], q) (finish stop e)"
  using finish_cases [of e stop] by (auto simp: speaks_def)

lemma speaks_add_tool: "\<not> en_terminal e \<Longrightarrow> speaks ([], en_refusal_text e) (add_tool u e)"
  by (auto simp: add_tool_def Let_def case_prod_beta speaks_fail split: option.split)
    (auto simp: speaks_def close_text_def tool_delta_def)

lemma speaks_dispatch:
  assumes "live e"
  shows "speaks (said typ u (en_refusal_text e)) (dispatch typ u e)"
proof -
  have run: "\<not> en_terminal e" using assms by (simp add: live_def)
  let ?q = "en_refusal_text e"
  have sr: "speaks (ue_delta u, ?q @ ue_delta u)
      (text_delta (ue_delta u) (e\<lparr>en_stop_reason := ''refusal'', en_refusal_text := ?q @ ue_delta u\<rparr>))"
    using speaks_text_delta [of "ue_delta u" "e\<lparr>en_stop_reason := ''refusal'', en_refusal_text := ?q @ ue_delta u\<rparr>"]
    by simp
  have sd: "speaks (if ?q = [] then (r, r) else ([], ?q)) (refusal_done r e)" for r
    using run by (auto simp: refusal_done_def Let_def speaks_def text_delta_def close_text_def fail_stream_def)
  have sa: "speaks ([], ?q) (arguments_delta u e)"
    using speaks_fail [OF run]
    by (simp add: arguments_delta_def Let_def case_prod_beta split: option.split)
      (simp add: speaks_def set_tool_def tool_delta_def)
  have st: "speaks ([], ?q) (tool_done m final item out e)" for m final item out
    using speaks_fail [OF run] speaks_finish_tool [OF run] by (simp add: tool_done_def split: option.split)
  have si: "speaks ([], ?q) (let (out, e1) = finish ''max_tokens'' e in (out, e1\<lparr>en_success := False\<rparr>))"
    using finish_cases [OF assms, of "''max_tokens''"] by (auto simp: speaks_def case_prod_beta)
  have sn: "speaks ([], ?q) ([], e)" by (simp add: speaks_def)
  show ?thesis
    unfolding dispatch_def said_def
    using sr sd [of "ue_refusal u"] sa st si speaks_text_delta [of "ue_delta u" e] speaks_close_text [of e]
      speaks_add_tool [OF run] speaks_finish [OF assms] speaks_fail [OF run] sn
    by (simp split del: if_split) (simp split: if_split)
qed

text \<open>The events up to and with the one that ends the stream.\<close>

fun heard :: "(string \<Rightarrow> upstream_event option) \<Rightarrow> encoder \<Rightarrow> (string \<times> string) list \<Rightarrow> (string \<times> string) list" where
  "heard decode e [] = []"
| "heard decode e ((typ, payload) # evs) =
     (if en_terminal e then []
      else (typ, payload) # heard decode (snd (handle_responses_event decode typ payload e)) evs)"

lemma heard_terminal: "en_terminal e \<Longrightarrow> heard decode e evs = []"
  by (cases evs) auto

lemma heard_prefix:
  "\<exists>rest. evs = heard decode e evs @ rest \<and> (rest = [] \<or> en_terminal (snd (encode_stream decode evs e)))"
proof (induction evs arbitrary: e)
  case (Cons ev evs)
  obtain ty payload where ev: "ev = (ty, payload)" by (cases ev)
  let ?e1 = "snd (handle_responses_event decode ty payload e)"
  show ?case
  proof (cases "en_terminal e")
    case True
    then show ?thesis by (simp add: ev encode_stream_terminal handle_terminal)
  next
    case False
    from Cons.IH [of ?e1] show ?thesis using False
      by (auto simp: ev case_prod_beta Let_def)
  qed
qed simp

lemma heard_open:
  "\<not> en_terminal e \<Longrightarrow> heard decode e evs \<noteq> [] \<Longrightarrow>
   \<not> en_terminal (snd (encode_stream decode (butlast (heard decode e evs)) e))"
proof (induction evs arbitrary: e)
  case (Cons ev evs)
  obtain ty payload where ev: "ev = (ty, payload)" by (cases ev)
  let ?e1 = "snd (handle_responses_event decode ty payload e)"
  show ?case
  proof (cases "heard decode ?e1 evs = []")
    case True
    with Cons.prems show ?thesis by (simp add: ev)
  next
    case False
    then have "\<not> en_terminal ?e1" using heard_terminal by blast
    from Cons.IH [OF this False] False Cons.prems(1) show ?thesis
      by (simp add: ev case_prod_beta Let_def)
  qed
qed simp

lemma encode_stream_text:
  "live e \<Longrightarrow> text_of (fst (encode_stream decode evs e)) = visible decode (en_refusal_text e) (heard decode e evs)"
proof (induction evs arbitrary: e)
  case Nil
  then show ?case by simp
next
  case (Cons ev evs)
  obtain ty payload where ev: "ev = (ty, payload)" by (cases ev)
  obtain out1 e1 where h: "handle_responses_event decode ty payload e = (out1, e1)"
    by (cases "handle_responses_event decode ty payload e")
  obtain out2 e2 where r: "encode_stream decode evs e1 = (out2, e2)" by (cases "encode_stream decode evs e1")
  have run: "\<not> en_terminal e" using Cons.prems by (simp add: live_def)
  have n: "live (note_usage payload e)" by (rule live_cong; use Cons.prems in simp)
  show ?case
  proof (cases "decode payload")
    case None
    with h run have "out1 = [ErrorEvent ''api_error'' ''invalid upstream stream event'']" "en_terminal e1"
      by (auto simp: handle_responses_event_def fail_stream_def)
    with None run h r show ?thesis by (simp add: ev encode_stream_terminal)
  next
    case (Some u)
    with h run have d: "dispatch ty u (note_usage payload e) = (out1, e1)"
      by (simp add: handle_responses_event_def)
    have s: "text_of out1 = fst (said ty u (en_refusal_text e))"
      "en_terminal e1 \<or> en_refusal_text e1 = snd (said ty u (en_refusal_text e))"
      using speaks_dispatch [OF n, of ty u] d by (simp_all add: speaks_def)
    show ?thesis
    proof (cases "en_terminal e1")
      case True
      with s(1) Some run h show ?thesis by (simp add: ev encode_stream_terminal heard_terminal)
    next
      case False
      then have "live e1" using sound_dispatch [OF n, of ty u] d by (simp add: sound_def live_def)
      from Cons.IH [OF this] s False Some run h r show ?thesis by (simp add: ev)
    qed
  qed
qed

text \<open>
  C22 (no text is lost, invented or reordered). The text deltas the client has received, of an open,
  a completed or a failed stream alike, spell exactly what the upstream said in the events up to
  the one that ended the stream: its text and refusal deltas in order, and a refusal given only
  as a whole.
\<close>

theorem streamed_text:
  assumes "encode_message decode uuid model evs = (out, e)"
  shows "\<exists>used rest. evs = used @ rest \<and> text_of out = visible decode [] used \<and>
    (rest = [] \<or> en_terminal e) \<and>
    (used = [] \<or> \<not> en_terminal (snd (encode_message decode uuid model (butlast used))))"
proof -
  let ?e = "new_stream_encoder uuid model"
  let ?e1 = "?e\<lparr>en_started := True\<rparr>"
  have s: "start_events ?e = ([MessageStart (start_message ?e)], ?e1)"
    by (simp add: start_events_def new_stream_encoder_def)
  have l: "live ?e1" by (simp add: live_def new_stream_encoder_def enc_ok_def)
  have enc: "encode_message decode uuid model xs =
      (MessageStart (start_message ?e) # fst (encode_stream decode xs ?e1), snd (encode_stream decode xs ?e1))" for xs
    by (simp add: encode_message_def s case_prod_beta)
  let ?used = "heard decode ?e1 evs"
  obtain rest where r: "evs = ?used @ rest" "rest = [] \<or> en_terminal (snd (encode_stream decode evs ?e1))"
    using heard_prefix [of evs decode ?e1] by blast
  have "?used = [] \<or> \<not> en_terminal (snd (encode_message decode uuid model (butlast ?used)))"
    using heard_open [of ?e1 decode evs] l unfolding enc by (auto simp: live_def)
  moreover have "text_of out = visible decode [] ?used"
    using encode_stream_text [OF l, of decode evs] assms unfolding enc by (auto simp: new_stream_encoder_def)
  ultimately show ?thesis using r assms unfolding enc by auto
qed

theorem streamed_text_witness:
  "\<exists>used rest. sample_upstream @ [(''response.output_text.delta'', ''text'')] = used @ rest \<and>
     text_of (fst (encode_message sample_decode ''1'' ''coding'' (sample_upstream @ [(''response.output_text.delta'', ''text'')]))) =
       visible sample_decode [] used \<and>
     en_success (snd (encode_message sample_decode ''1'' ''coding'' (sample_upstream @ [(''response.output_text.delta'', ''text'')]))) \<and>
     visible sample_decode [] used = ''hello''"
proof -
  let ?evs = "sample_upstream @ [(''response.output_text.delta'', ''text'')]"
  obtain out e where r: "encode_message sample_decode ''1'' ''coding'' ?evs = (out, e)"
    by (cases "encode_message sample_decode ''1'' ''coding'' ?evs")
  have "en_success (snd (encode_message sample_decode ''1'' ''coding'' ?evs))"
    "text_of (fst (encode_message sample_decode ''1'' ''coding'' ?evs)) = ''hello''"
    by code_simp+
  with streamed_text [OF r] r show ?thesis by auto
qed

end
