(* ===== verification/Messages_Stream.thy ===== *)
theory Messages_Stream
  imports Responses_Stream Anthropic_Upstream Anthropic_Faithful
begin

text \<open>
  One attempt of a streaming \<open>POST /v1/messages\<close> (\<open>precommitAndStreamAnthropic\<close> of
  \<open>internal/server/messages_stream.go\<close>): the precommit loop, then the upstream's events through the
  encoder. As in \<open>Responses_Stream\<close> a \<open>select\<close> loop is a function of the list of its iterations; here
  the ping ticker is selected on. The reasoning a later turn needs is taken from the final event
  (\<open>internal/server/continuation.go\<close>).
\<close>

section \<open>Reasoning for a later turn\<close>

definition anthropic_message_content :: "string \<Rightarrow> raw_message option" where
  "anthropic_message_content body =
     (case unmarshal_struct body of
        None \<Rightarrow> None
      | Some ms \<Rightarrow> dec_raw (field_values [''content''] ''content'' ms))"

definition no_continuation :: reasoning_continuation where
  "no_continuation = \<lparr>rc_chat_completions = [], rc_responses_items = []\<rparr>"

text \<open>\<open>uuid\<close> and \<open>mid\<close> are the random parts of the ids \<open>ToMessage\<close> makes up.\<close>

definition anthropic_continuation_from_event ::
    "(string \<Rightarrow> string) \<Rightarrow> (nat \<Rightarrow> string) \<Rightarrow> string \<Rightarrow> string \<Rightarrow> string \<Rightarrow> string \<Rightarrow> string \<times> reasoning_continuation" where
  "anthropic_continuation_from_event digest uuid mid typ payload model =
     (let none = ([], no_continuation) in
      if typ \<noteq> ''response.completed'' \<and> typ \<noteq> ''response.incomplete'' then none
      else
        (case unmarshal_struct payload of
           None \<Rightarrow> none
         | Some ms \<Rightarrow>
             (case dec_raw (field_values [''response''] ''response'' ms) of
                None \<Rightarrow> none
              | Some resp \<Rightarrow>
                  (case to_message uuid mid (fst resp) model of
                     Inl f \<Rightarrow> none
                   | Inr body \<Rightarrow>
                       (let content = anthropic_message_content body in
                        if raw_bytes content = [] then none
                        else (content_fingerprint digest content,
                              no_continuation\<lparr>rc_responses_items := responses_reasoning_items (fst resp)\<rparr>))))))"

section \<open>Parameters of an attempt\<close>

text \<open>
  The SDK's event decoder, the SHA-256 digest, the rendering of a float and the wording of two
  families of errors are parameters.
\<close>

record messages_lib =
  ml_decode :: "string \<Rightarrow> upstream_event option"
  ml_digest :: "string \<Rightarrow> string"
  ml_show :: "rat \<Rightarrow> string"
  ml_request_text :: "request_fault \<Rightarrow> string"
  ml_translate_text :: "translate_fault \<Rightarrow> string"

text \<open>
  The random ids of an attempt, and what \<open>ProviderReasoningContent\<close> returns when the final event
  is encoded: \<open>None\<close> for a stream without that method.
\<close>

record stream_ids =
  si_message_id :: string
  si_call_ids :: "nat \<Rightarrow> string"
  si_provider_reasoning :: "string option"

record message_stream_result = stream_result +
  sr_fingerprint :: string
  sr_continuation :: reasoning_continuation

record open_message =
  om_w :: response
  om_enc :: encoder
  om_fingerprint :: string
  om_continuation :: reasoning_continuation

section \<open>After the commit\<close>

definition event_chunk :: "wire_event \<Rightarrow> string" where
  "event_chunk ev = sse_frame (fst (render ev)) (snd (render ev))"

definition ping_chunk :: string where
  "ping_chunk = sse_frame ''ping'' (''{'' @ quote_string ''type'' @ '':'' @ quote_string ''ping'' @ ''}'')"

definition write_events :: "wire_event list \<Rightarrow> response \<Rightarrow> response" where
  "write_events evs w = fold (write_chunk \<circ> event_chunk) evs w"

definition note_continuation ::
    "messages_lib \<Rightarrow> stream_ids \<Rightarrow> string \<Rightarrow> string \<Rightarrow> string \<Rightarrow> open_message \<Rightarrow> open_message" where
  "note_continuation lib ids model typ payload s =
     (if typ = ''response.completed'' \<or> typ = ''response.incomplete'' then
        (let (fp, v0) = anthropic_continuation_from_event (ml_digest lib) (si_call_ids ids) (si_message_id ids) typ payload model;
             v = (case si_provider_reasoning ids of None \<Rightarrow> v0 | Some rc \<Rightarrow> v0\<lparr>rc_chat_completions := rc\<rparr>)
         in if fp \<noteq> [] \<and> (rc_chat_completions v \<noteq> [] \<or> rc_responses_items v \<noteq> [])
            then s\<lparr>om_fingerprint := fp, om_continuation := v\<rparr> else s)
      else s)"

definition flush_encode ::
    "messages_lib \<Rightarrow> stream_ids \<Rightarrow> string \<Rightarrow> sse_event \<Rightarrow> open_message \<Rightarrow> open_message" where
  "flush_encode lib ids model ev s =
     (let s1 = note_continuation lib ids model (fst ev) (snd ev) s;
          (out, enc) = handle_responses_event (ml_decode lib) (fst ev) (snd ev) (om_enc s1)
      in s1\<lparr>om_w := write_events out (om_w s1), om_enc := enc\<rparr>)"

text \<open>The error class of a stream whose encoder is terminal.\<close>

definition terminal_class :: "encoder \<Rightarrow> string" where
  "terminal_class e =
     (if en_success e then [] else if en_stop_reason e = ''max_tokens'' then ''incomplete'' else ''upstream'')"

definition anthropic_stream_result :: "open_message \<Rightarrow> bool \<Rightarrow> string \<Rightarrow> message_stream_result" where
  "anthropic_stream_result s success errclass =
     (let e = om_enc s in
      \<lparr>sr_success = success,
       sr_in_tok = wrap64 (en_input_tokens e + en_cache_creation e + en_cache_read e),
       sr_cached_tok = en_cache_read e, sr_cache_write_tok = en_cache_creation e,
       sr_out_tok = en_output_tokens e, sr_response_id = [], sr_status_code = 0, sr_err_class = errclass,
       sr_fingerprint = (if success then om_fingerprint s else []),
       sr_continuation = (if success then om_continuation s else no_continuation)\<rparr>)"

definition commit_messages ::
    "messages_lib \<Rightarrow> stream_ids \<Rightarrow> string \<Rightarrow> candidate \<Rightarrow> nat \<Rightarrow> nat \<Rightarrow> sse_event list \<Rightarrow> response \<Rightarrow> open_message" where
  "commit_messages lib ids model c attempt_no gen buf w =
     (let w1 = write_header 200 (set_header ''Cache-Control'' ''no-cache''
                 (set_header ''Content-Type'' ''text/event-stream'' (debug_headers c attempt_no gen w)));
          (out, enc) = start_events (new_stream_encoder (si_message_id ids) model)
      in fold (flush_encode lib ids model) buf
           \<lparr>om_w = write_events out w1, om_enc = enc, om_fingerprint = [], om_continuation = no_continuation\<rparr>)"

text \<open>\<open>enc.Fail\<close> and its events, when the stream ends without its terminal event.\<close>

definition fail_open :: "string \<Rightarrow> open_message \<Rightarrow> open_message" where
  "fail_open msg s =
     (let (out, enc) = fail_stream ''api_error'' msg (om_enc s)
      in s\<lparr>om_w := write_events out (om_w s), om_enc := enc\<rparr>)"

type_synonym message_end = "open_message \<times> bool \<times> string"

fun drain_messages ::
    "messages_lib \<Rightarrow> stream_ids \<Rightarrow> string \<Rightarrow> input list \<Rightarrow> open_message \<Rightarrow> message_end option" where
  "drain_messages lib ids model [] s = None"
| "drain_messages lib ids model (CtxDone # ins) s = Some (s, False, ''client'')"
| "drain_messages lib ids model (Recv typ payload # ins) s =
     (let s' = flush_encode lib ids model (typ, payload) s in
      if en_terminal (om_enc s') then Some (s', en_success (om_enc s'), terminal_class (om_enc s'))
      else drain_messages lib ids model ins s')"
| "drain_messages lib ids model (Closed err # ins) s =
     (let cls = (if err \<noteq> None then ''upstream''
                 else if \<not> en_terminal (om_enc s) then ''upstream_eof'' else terminal_class (om_enc s));
          s1 = (if en_terminal (om_enc s) then s else fail_open ''upstream stream ended before completion'' s)
      in Some (s1, en_success (om_enc s1) \<and> cls = [], cls))"
| "drain_messages lib ids model (IdleTimer # ins) s =
     Some (if en_terminal (om_enc s) then s else fail_open ''upstream stream idle timeout'' s, False, ''timeout'')"
| "drain_messages lib ids model (PingTick # ins) s =
     drain_messages lib ids model ins (s\<lparr>om_w := write_chunk ping_chunk (om_w s)\<rparr>)"
| "drain_messages lib ids model (FirstTimer # ins) s = drain_messages lib ids model ins s"
| "drain_messages lib ids model (OutputDeadline # ins) s = drain_messages lib ids model ins s"

text \<open>
  The ping ticker's period. The idle ceiling counts from the last upstream event, so pings do not
  extend it.
\<close>

definition anthropic_ping_interval :: "int \<Rightarrow> int" where
  "anthropic_ping_interval idle =
     (let interval = (if idle div 3 \<le> 0 then 1000000 else idle div 3) in
      if 15 * second < interval then 15 * second else interval)"

datatype messages_attempt_end = MessagesNotCommitted attempt_error | MessagesCommitted message_end

text \<open>
  The loop before the commit runs the same selects and checks as the one of the Responses handler;
  its variable \<open>meaningful\<close> is set only when the loop ends.
\<close>

definition precommit_messages :: "(go_error \<Rightarrow> attempt_error) \<Rightarrow> tick list \<Rightarrow> precommit_result" where
  "precommit_messages classify ticks = precommit_openai classify [] ticks"

definition precommit_and_stream_messages ::
    "messages_lib \<Rightarrow> stream_ids \<Rightarrow> (go_error \<Rightarrow> attempt_error) \<Rightarrow> string \<Rightarrow> candidate \<Rightarrow> nat \<Rightarrow> nat
      \<Rightarrow> tick list \<Rightarrow> response \<Rightarrow> messages_attempt_end option" where
  "precommit_and_stream_messages lib ids classify model c attempt_no gen ticks w =
     (case precommit_messages classify ticks of
        PreBlocked \<Rightarrow> None
      | PreFailed ae \<Rightarrow> Some (MessagesNotCommitted ae)
      | PreCommit buf rest \<Rightarrow>
          (let s = commit_messages lib ids model c attempt_no gen buf w; e = om_enc s in
           if en_terminal e then Some (MessagesCommitted (s, en_success e, terminal_class e))
           else map_option MessagesCommitted (drain_messages lib ids model (map tk_input rest) s)))"

section \<open>What the client reads\<close>

text \<open>The chunks that are not pings.\<close>

definition spoken :: "response \<Rightarrow> string list" where
  "spoken w = filter (\<lambda>ch. ch \<noteq> ping_chunk) (rw_chunks w)"

lemma event_chunk_not_ping [simp]: "event_chunk ev \<noteq> ping_chunk"
  by (cases ev) (simp_all add: event_chunk_def render_def sse_frame_def ping_chunk_def)

lemma write_events_sel:
  "rw_chunks (write_events evs w) = rw_chunks w @ map event_chunk evs"
  "rw_status w = Some st \<Longrightarrow> rw_status (write_events evs w) = Some st"
  "spoken (write_events evs w) = spoken w @ map event_chunk evs"
proof -
  have c: "rw_chunks (write_events evs w) = rw_chunks w @ map event_chunk evs" for w
    by (induction evs arbitrary: w) (simp_all add: write_events_def)
  show "rw_chunks (write_events evs w) = rw_chunks w @ map event_chunk evs" by (rule c)
  show "rw_status w = Some st \<Longrightarrow> rw_status (write_events evs w) = Some st"
    by (induction evs arbitrary: w) (simp_all add: write_events_def)
  show "spoken (write_events evs w) = spoken w @ map event_chunk evs"
    by (simp add: spoken_def c filter_id_conv comp_def flip: filter_append)
      (auto intro!: filter_True)
qed

lemma encode_stream_append:
  "encode_stream decode (evs @ [ev]) e =
     (let (out, e1) = encode_stream decode evs e;
          (out2, e2) = handle_responses_event decode (fst ev) (snd ev) e1 in (out @ out2, e2))"
  by (induction evs arbitrary: e) (cases ev; auto simp: case_prod_beta Let_def)+

lemma encode_message_append:
  "encode_message decode uuid model (evs @ [ev]) =
     (let (out, e1) = encode_message decode uuid model evs;
          (out2, e2) = handle_responses_event decode (fst ev) (snd ev) e1 in (out @ out2, e2))"
  by (simp add: encode_message_def encode_stream_append case_prod_beta Let_def)

text \<open>The open stream after the events \<open>evs\<close>: the client has read what the encoder makes of them.\<close>

definition speaks_for ::
    "messages_lib \<Rightarrow> stream_ids \<Rightarrow> string \<Rightarrow> sse_event list \<Rightarrow> open_message \<Rightarrow> bool" where
  "speaks_for lib ids model evs s \<longleftrightarrow>
     rw_status (om_w s) = Some 200 \<and>
     spoken (om_w s) = map event_chunk (fst (encode_message (ml_decode lib) (si_message_id ids) model evs)) \<and>
     om_enc s = snd (encode_message (ml_decode lib) (si_message_id ids) model evs)"

lemma note_continuation_sel [simp]:
  "om_w (note_continuation lib ids model typ payload s) = om_w s"
  "om_enc (note_continuation lib ids model typ payload s) = om_enc s"
  by (simp_all add: note_continuation_def Let_def case_prod_beta)

lemma speaks_flush:
  assumes "speaks_for lib ids model evs s"
  shows "speaks_for lib ids model (evs @ [ev]) (flush_encode lib ids model ev s)"
  using assms
  by (simp add: speaks_for_def flush_encode_def encode_message_append Let_def case_prod_beta write_events_sel)

lemma speaks_fold:
  "speaks_for lib ids model evs s \<Longrightarrow> speaks_for lib ids model (evs @ buf) (fold (flush_encode lib ids model) buf s)"
proof (induction buf arbitrary: evs s)
  case (Cons ev buf)
  from Cons.IH [OF speaks_flush [OF Cons.prems]] show ?case by simp
qed simp

lemma speaks_commit:
  assumes "rw_status w = None" and "rw_chunks w = []"
  shows "speaks_for lib ids model buf (commit_messages lib ids model c n gen buf w)"
proof -
  let ?w = "write_header 200 (set_header ''Cache-Control'' ''no-cache''
      (set_header ''Content-Type'' ''text/event-stream'' (debug_headers c n gen w)))"
  have "rw_status ?w = Some 200" "spoken ?w = []" using assms by (simp_all add: spoken_def)
  then have "speaks_for lib ids model []
      \<lparr>om_w = write_events (fst (start_events (new_stream_encoder (si_message_id ids) model))) ?w,
       om_enc = snd (start_events (new_stream_encoder (si_message_id ids) model)),
       om_fingerprint = [], om_continuation = no_continuation\<rparr>"
    by (simp add: speaks_for_def encode_message_def case_prod_beta write_events_sel)
  from speaks_fold [OF this, of buf] show ?thesis
    by (simp add: commit_messages_def Let_def case_prod_beta)
qed

lemma speaks_ping:
  assumes "speaks_for lib ids model evs s"
  shows "speaks_for lib ids model evs (s\<lparr>om_w := write_chunk ping_chunk (om_w s)\<rparr>)"
  using assms by (simp add: speaks_for_def spoken_def)

text \<open>
  How a stream ends: the client has read what the encoder makes of a prefix of the upstream's
  events, then at most one error event of the gateway.
\<close>

definition message_said ::
    "messages_lib \<Rightarrow> stream_ids \<Rightarrow> string \<Rightarrow> sse_event list \<Rightarrow> wire_event list \<Rightarrow> message_end \<Rightarrow> bool" where
  "message_said lib ids model evs errs r \<longleftrightarrow>
     (let (out, e) = encode_message (ml_decode lib) (si_message_id ids) model evs; (s, ok, cls) = r in
      rw_status (om_w s) = Some 200 \<and> spoken (om_w s) = map event_chunk (out @ errs) \<and>
      (ok \<longleftrightarrow> en_success e) \<and> (ok \<longrightarrow> cls = [] \<and> en_terminal e) \<and>
      (if en_terminal e then errs = []
       else (errs = [] \<and> cls = ''client'') \<or> (\<exists>msg. errs = [ErrorEvent ''api_error'' msg])))"

lemma message_success: "en_success (snd (encode_message decode uuid model evs)) \<Longrightarrow>
    en_terminal (snd (encode_message decode uuid model evs))"
  using encode_message_faithful [of uuid model decode evs] by (auto simp: honest_def split: if_splits)

lemma said_terminal:
  assumes "speaks_for lib ids model evs s" and "en_terminal (om_enc s)"
  shows "message_said lib ids model evs [] (s, en_success (om_enc s), terminal_class (om_enc s))"
  using assms by (simp add: speaks_for_def message_said_def case_prod_beta terminal_class_def)

lemma said_failed:
  assumes "speaks_for lib ids model evs s" and "\<not> en_terminal (om_enc s)" and "ok = False"
  shows "message_said lib ids model evs [ErrorEvent ''api_error'' msg] (fail_open msg s, ok, cls)"
  using assms message_success [of "ml_decode lib" "si_message_id ids" model evs]
  by (auto simp: speaks_for_def message_said_def case_prod_beta fail_open_def fail_stream_def write_events_sel)

lemma drain_said:
  "drain_messages lib ids model ins s = Some r \<Longrightarrow> speaks_for lib ids model evs s \<Longrightarrow>
   \<not> en_terminal (om_enc s) \<Longrightarrow>
   \<exists>more rest errs. recvs ins = more @ rest \<and> message_said lib ids model (evs @ more) errs r"
proof (induction lib ids model ins s arbitrary: evs rule: drain_messages.induct)
  case (2 lib ids model ins s)
  then have "message_said lib ids model (evs @ []) [] r"
    using message_success [of "ml_decode lib" "si_message_id ids" model evs]
    by (auto simp: speaks_for_def message_said_def case_prod_beta)
  then show ?case unfolding recvs_simps by (metis append_Nil)
next
  case (3 lib ids model ty p ins s)
  let ?s = "flush_encode lib ids model (ty, p) s"
  have sp: "speaks_for lib ids model (evs @ [(ty, p)]) ?s" by (rule speaks_flush [OF 3(3)])
  show ?case
  proof (cases "en_terminal (om_enc ?s)")
    case True
    with 3(2) have "r = (?s, en_success (om_enc ?s), terminal_class (om_enc ?s))" by (simp add: Let_def)
    with said_terminal [OF sp True] show ?thesis
      by (intro exI [of _ "[(ty, p)]"] exI [of _ "recvs ins"] exI [of _ "[]"]) simp
  next
    case False
    with 3(2) have "drain_messages lib ids model ins ?s = Some r" by (simp add: Let_def)
    from 3(1) [OF refl False this sp False] obtain more rest errs where
      "recvs ins = more @ rest" "message_said lib ids model ((evs @ [(ty, p)]) @ more) errs r" by blast
    then show ?thesis by (intro exI [of _ "(ty, p) # more", OF exI [of _ rest]]) auto
  qed
next
  case (4 lib ids model err ins s)
  have "\<exists>cls. cls \<noteq> [] \<and> r = (fail_open ''upstream stream ended before completion'' s, False, cls)"
    using 4(1,3) by (cases err) (auto simp: Let_def fail_open_def fail_stream_def)
  then obtain cls where "r = (fail_open ''upstream stream ended before completion'' s, False, cls)" by blast
  with said_failed [OF 4(2,3) refl] have "\<exists>errs. message_said lib ids model (evs @ []) errs r" by auto
  then show ?case unfolding recvs_simps by (metis append_Nil)
next
  case (5 lib ids model ins s)
  then have "r = (fail_open ''upstream stream idle timeout'' s, False, ''timeout'')" by simp
  with said_failed [OF 5(2,3) refl] have "\<exists>errs. message_said lib ids model (evs @ []) errs r" by auto
  then show ?case unfolding recvs_simps by (metis append_Nil)
next
  case (6 lib ids model ins s)
  then show ?case using speaks_ping [OF 6(3)] by simp
qed auto

lemma committed_said:
  assumes "precommit_and_stream_messages lib ids classify model c n gen ticks w = Some (MessagesCommitted r)"
    and "rw_status w = None" and "rw_chunks w = []"
  shows "\<exists>evs rest errs. recvs (map tk_input ticks) = evs @ rest \<and> message_said lib ids model evs errs r"
proof -
  obtain buf rest where pc: "precommit_openai classify [] ticks = PreCommit buf rest"
    using assms(1) by (auto simp: precommit_and_stream_messages_def precommit_messages_def split: precommit_result.splits)
  obtain pre t ev where "commits_at [] ticks buf rest pre t ev" using precommit_commit [OF pc] by blast
  then have all: "recvs (map tk_input ticks) = buf @ recvs (map tk_input rest)" by (auto simp: commits_at_def)
  let ?s = "commit_messages lib ids model c n gen buf w"
  have sp: "speaks_for lib ids model buf ?s" by (rule speaks_commit [OF assms(2,3)])
  show ?thesis
  proof (cases "en_terminal (om_enc ?s)")
    case True
    with assms(1) pc have "r = (?s, en_success (om_enc ?s), terminal_class (om_enc ?s))"
      by (simp add: precommit_and_stream_messages_def precommit_messages_def Let_def)
    with said_terminal [OF sp True] all show ?thesis by blast
  next
    case False
    with assms(1) pc have "drain_messages lib ids model (map tk_input rest) ?s = Some r"
      by (auto simp: precommit_and_stream_messages_def precommit_messages_def Let_def)
    from drain_said [OF this sp False] obtain more rest' errs where
      "recvs (map tk_input rest) = more @ rest'" "message_said lib ids model (buf @ more) errs r" by blast
    with all show ?thesis by (metis append.assoc)
  qed
qed

end
