(* ===== verification/Responses_Server.thy ===== *)
theory Responses_Server
  imports Responses_Stream
begin

text \<open>
  \<open>POST /v1/responses\<close> and \<open>POST /hoard/v1/responses\<close>: \<open>internal/protocol/openai/request.go\<close>,
  \<open>handleResponses\<close>, \<open>onOpenAISuccess\<close> and \<open>onOpenAIFailure\<close> of \<open>internal/server/responses.go\<close>, and
  \<open>serveResponsesStream\<close> of \<open>responses_stream.go\<close>. The upstream, the clock and the client are an
  oracle per attempt. Log lines are not part of the state.
\<close>

section \<open>The request\<close>

record parsed_request =
  pr_raw :: string
  pr_requested_model :: string
  pr_stream :: bool
  pr_requirements :: requirements
  pr_previous_response_id :: string

datatype request_error = MalformedJson | ModelRequired

definition parse_request :: "string \<Rightarrow> request_error + parsed_request" where
  "parse_request raw =
     (let names = [''model'', ''stream'', ''previous_response_id'', ''tools''] in
      case unmarshal_struct raw of
        None \<Rightarrow> Inl MalformedJson
      | Some ms \<Rightarrow>
          (case (dec_string_ptr None (field_values names ''model'' ms),
                 dec_bool_ptr None (field_values names ''stream'' ms),
                 dec_string_ptr None (field_values names ''previous_response_id'' ms)) of
             (Some model, Some stream, Some prev) \<Rightarrow>
               (case model of
                  None \<Rightarrow> Inl ModelRequired
                | Some m \<Rightarrow>
                    if m = [] then Inl ModelRequired
                    else Inr \<lparr>pr_raw = raw, pr_requested_model = m,
                              pr_stream = (case stream of None \<Rightarrow> False | Some b \<Rightarrow> b),
                              pr_requirements = derive_requirements raw,
                              pr_previous_response_id = (case prev of None \<Rightarrow> [] | Some p \<Rightarrow> p)\<rparr>)
           | _ \<Rightarrow> Inl MalformedJson))"

section \<open>Streaming with failover\<close>

text \<open>What one attempt meets: the opening of the stream, the select iterations, and the clock.\<close>

record stream_call =
  sc_dial_error :: "go_error option"
  sc_output_timed_out :: bool
  sc_dial_duration :: int
  sc_ticks :: "tick list"
  sc_duration :: int
  sc_ctx_done :: bool
  sc_elapsed :: int
  sc_now :: int

record serve_env =
  sv_json :: json_lib
  sv_registry :: registry
  sv_snap :: runtime_snapshot
  sv_req_id :: string
  sv_parsed :: parsed_request
  sv_candidates :: "candidate list"

record stream_loop =
  sl_auth :: "string list"
  sl_attempts :: "attempt_error list"
  sl_trace :: "route_trace option"

record serve_end =
  se_w :: response
  se_trace :: "route_trace option"
  se_usage :: "usage_rows list"
  se_affinity :: "(int \<times> response_affinity) list"

definition no_attempt :: attempt_error where
  "no_attempt = mk_attempt [] [] ErrorClient []"

definition sl_fail :: "candidate \<Rightarrow> attempt_error \<Rightarrow> stream_loop \<Rightarrow> stream_loop" where
  "sl_fail c ae s = s\<lparr>sl_auth := note_auth c ae (sl_auth s), sl_attempts := sl_attempts s @ [ae]\<rparr>"

definition output_timeout_attempt :: "candidate \<Rightarrow> int \<Rightarrow> attempt_error" where
  "output_timeout_attempt c dur = own_attempt c dur (timeout_attempt no_output_msg)"

definition serve_failure_row :: "serve_env \<Rightarrow> attempt_error list \<Rightarrow> string \<Rightarrow> int \<Rightarrow> usage_rows" where
  "serve_failure_row env atts errclass elapsed =
     failure_row (sv_req_id env) ''openai'' (pr_requested_model (sv_parsed env)) (length atts) errclass
       (milliseconds elapsed) [] (sn_generation (sv_snap env)) (to_usage_attempts (sv_req_id env) atts)"

text \<open>A client error ends the request with 400 and the attempt's message.\<close>

definition serve_client_error :: "serve_env \<Rightarrow> attempt_error \<Rightarrow> int \<Rightarrow> response \<Rightarrow> stream_loop \<Rightarrow> serve_end" where
  "serve_client_error env ae elapsed w s =
     (let tr = map_option (trace_record (sv_candidates env) (sl_attempts s) None [] no_attempt) (sl_trace s) in
      \<lparr>se_w = write_responses_error (jl_set_raw (sv_json env)) tr 400 ''invalid_request'' (ae_safe_message ae) w,
       se_trace = tr,
       se_usage = [serve_failure_row env (sl_attempts s) (class_string (ae_class ae)) elapsed],
       se_affinity = []\<rparr>)"

definition committed_end :: "serve_env \<Rightarrow> candidate \<Rightarrow> stream_call \<Rightarrow> attempt_error list \<Rightarrow> open_stream \<Rightarrow> serve_end" where
  "committed_end env c call atts st =
     (let r = result_of st;
          rows = to_usage_attempts (sv_req_id env) atts @
            [\<lparr>ua_request_id = sv_req_id env, ua_index = Suc (length atts), ua_model = cd_local_model_id c,
              ua_provider = cd_provider_id c, ua_duration_ms = milliseconds (sc_duration call),
              ua_success = sr_success r, ua_status_code = sr_status_code r, ua_error_class = sr_err_class r\<rparr>]
      in \<lparr>se_w = os_w st, se_trace = os_trace st,
          se_usage = [usage_row (sv_req_id env) ''openai'' (pr_requested_model (sv_parsed env))
            (cd_local_model_id c) (cd_provider_id c) (sr_in_tok r) (sr_out_tok r) (sr_cached_tok r)
            (sr_cache_write_tok r) (length rows) (sr_success r) (sr_err_class r)
            (milliseconds (sc_elapsed call)) [] (sn_generation (sv_snap env)) rows],
          se_affinity =
            (if sr_success r \<and> sr_response_id r \<noteq> []
             then [(sc_now call, \<lparr>ra_response_id = sr_response_id r, ra_provider_id = cd_provider_id c,
                     ra_local_model_id = cd_local_model_id c, ra_upstream_model = cd_upstream_model c,
                     ra_created_at = sc_now call\<rparr>)]
             else [])\<rparr>)"

text \<open>One iteration. \<open>Return None\<close>: the handler still waits for the stream.\<close>

definition serve_stream_step ::
    "serve_env \<Rightarrow> (nat \<Rightarrow> candidate \<Rightarrow> stream_call) \<Rightarrow> response \<Rightarrow> candidate \<Rightarrow> stream_loop
      \<Rightarrow> (stream_loop, serve_end option) ctl" where
  "serve_stream_step env upstream w c s =
     (case skip_attempt (sl_auth s) c of
        Some ae \<Rightarrow> Continue (s\<lparr>sl_attempts := sl_attempts s @ [ae]\<rparr>)
      | None \<Rightarrow>
          (let call = upstream (length (sl_attempts s)) c in
           case sc_dial_error call of
             Some err \<Rightarrow>
               (let ae = (if sc_output_timed_out call then output_timeout_attempt c (sc_dial_duration call)
                          else extract_attempt c err (sc_dial_duration call));
                    s' = sl_fail c ae s in
                if ae_class ae = ErrorClient
                then Return (Some (serve_client_error env ae (sc_elapsed call) w s'))
                else Continue s')
           | None \<Rightarrow>
               if sc_output_timed_out call
               then Continue (s\<lparr>sl_attempts := sl_attempts s @ [output_timeout_attempt c (sc_dial_duration call)]\<rparr>)
               else
                 (let tr = map_option (trace_record (sv_candidates env) (sl_attempts s) (Some c) ''streaming'' no_attempt)
                             (sl_trace s) in
                  case precommit_and_stream_openai (sv_json env) (normalize_stream_error (sv_registry env) c)
                         (pr_requested_model (sv_parsed env)) c (Suc (length (sl_attempts s)))
                         (sn_generation (sv_snap env)) tr (sc_ticks call) w of
                    None \<Rightarrow> Return None
                  | Some (NotCommitted fail) \<Rightarrow>
                      (let ae = own_attempt c (sc_duration call)
                                  (if ae_safe_message fail = [] then mk_attempt [] [] ErrorUpstream ended_msg else fail);
                           s' = sl_fail c ae (s\<lparr>sl_trace := tr\<rparr>) in
                       if ae_class ae = ErrorClient
                       then Return (Some (serve_client_error env ae (sc_elapsed call) w s'))
                       else if sc_ctx_done call then
                         Return (Some \<lparr>se_w = w, se_trace = tr,
                           se_usage = [serve_failure_row env (sl_attempts s') ''client'' (sc_elapsed call)],
                           se_affinity = []\<rparr>)
                       else Continue s')
                  | Some (Committed st) \<Rightarrow> Return (Some (committed_end env c call (sl_attempts s) st)))))"

definition serve_all_failed :: "serve_env \<Rightarrow> int \<Rightarrow> response \<Rightarrow> stream_loop \<Rightarrow> serve_end" where
  "serve_all_failed env elapsed w s =
     (let none = all_key_missing (sl_attempts s);
          tr = map_option (trace_record (sv_candidates env) (sl_attempts s) None [] no_attempt) (sl_trace s) in
      \<lparr>se_w = write_responses_error (jl_set_raw (sv_json env)) tr (if none then 503 else 502)
         (if none then ''no_usable_candidates'' else ''all_candidates_failed'') ''All configured candidates failed'' w,
       se_trace = tr,
       se_usage = [serve_failure_row env (sl_attempts s) ''upstream'' elapsed],
       se_affinity = []\<rparr>)"

definition serve_responses_stream ::
    "serve_env \<Rightarrow> (nat \<Rightarrow> candidate \<Rightarrow> stream_call) \<Rightarrow> int \<Rightarrow> route_trace option \<Rightarrow> response \<Rightarrow> serve_end option" where
  "serve_responses_stream env upstream elapsed tr w =
     (case for_range (serve_stream_step env upstream w) (sv_candidates env)
             \<lparr>sl_auth = [], sl_attempts = [], sl_trace = tr\<rparr> of
        Return r \<Rightarrow> r
      | Continue s \<Rightarrow> Some (serve_all_failed env elapsed w s))"

section \<open>A plain answer\<close>

definition openai_success_end ::
    "serve_env \<Rightarrow> candidate \<Rightarrow> upstream_result \<Rightarrow> int \<Rightarrow> int \<Rightarrow> attempt_error list
      \<Rightarrow> usage_rows \<times> (int \<times> response_affinity) list" where
  "openai_success_end env c res now dur atts =
     (let success = (ur_status res = ''completed'' \<or> ur_status res = []);
          errclass = (if success then [] else ur_status res);
          rows = to_usage_attempts (sv_req_id env) atts @
            [\<lparr>ua_request_id = sv_req_id env, ua_index = Suc (length atts), ua_model = cd_local_model_id c,
              ua_provider = cd_provider_id c, ua_duration_ms = milliseconds dur, ua_success = success,
              ua_status_code = 0, ua_error_class = errclass\<rparr>]
      in (usage_row (sv_req_id env) ''openai'' (pr_requested_model (sv_parsed env)) (cd_local_model_id c)
            (cd_provider_id c) (ur_input_tokens res) (ur_output_tokens res) (ur_cached_input_tokens res)
            (ur_cache_write_input_tokens res) (length rows) success errclass (milliseconds dur) []
            (sn_generation (sv_snap env)) rows,
          if success \<and> ur_response_id res \<noteq> []
          then [(now, \<lparr>ra_response_id = ur_response_id res, ra_provider_id = cd_provider_id c,
                  ra_local_model_id = cd_local_model_id c, ra_upstream_model = cd_upstream_model c,
                  ra_created_at = now\<rparr>)]
          else []))"

text \<open>Status, code and message of a failed request.\<close>

definition failure_answer :: "attempt_error list \<Rightarrow> attempt_error option \<Rightarrow> int \<times> string \<times> string" where
  "failure_answer atts last_err =
     (let other = (502, ''all_candidates_failed'', ''All configured candidates failed'') in
      case last_err of
        None \<Rightarrow> other
      | Some ae \<Rightarrow>
          (case ae_class ae of
             ErrorClient \<Rightarrow> (400, ''invalid_request'', ae_safe_message ae)
           | ErrorTimeout \<Rightarrow> (504, ''all_candidates_failed'', ''All configured candidates failed'')
           | ErrorAuth \<Rightarrow>
               if all_key_missing atts then (503, ''no_usable_candidates'', ''no usable candidates'') else other
           | ErrorUnknown \<Rightarrow>
               if all_key_missing atts then (503, ''no_usable_candidates'', ''no usable candidates'') else other
           | _ \<Rightarrow> other))"

definition openai_failure_end ::
    "serve_env \<Rightarrow> route_trace option \<Rightarrow> int \<Rightarrow> attempt_error list \<Rightarrow> attempt_error option \<Rightarrow> response \<Rightarrow> serve_end" where
  "openai_failure_end env tr dur atts last_err w =
     (let (st, code, msg) = failure_answer atts last_err;
          errclass = (case last_err of None \<Rightarrow> [] | Some ae \<Rightarrow> class_string (ae_class ae)) in
      \<lparr>se_w = write_responses_error (jl_set_raw (sv_json env)) tr st code msg w,
       se_trace = tr,
       se_usage = [serve_failure_row env atts errclass dur],
       se_affinity = []\<rparr>)"

definition serve_responses_plain ::
    "serve_env \<Rightarrow> (nat \<Rightarrow> candidate \<Rightarrow> call_outcome) \<Rightarrow> int \<Rightarrow> int \<Rightarrow> route_trace option \<Rightarrow> response \<Rightarrow> serve_end" where
  "serve_responses_plain env upstream now dur tr w =
     (let model = pr_requested_model (sv_parsed env);
          rewrite = (\<lambda>b. if model = [] then b
                         else (case jl_set_str (sv_json env) b ''model'' model of None \<Rightarrow> b | Some b' \<Rightarrow> b'));
          (oc, last_err) = execute_non_stream upstream (Some rewrite) (sv_candidates env) in
      case (oc_candidate oc, oc_result oc) of
        (Some c, Some res) \<Rightarrow>
          (let (row, aff) = openai_success_end env c res now dur (oc_attempts oc);
               w1 = debug_headers c (Suc (length (oc_attempts oc))) (sn_generation (sv_snap env)) w;
               status = (if ur_status res \<noteq> [] \<and> ur_status res \<noteq> ''completed'' then ur_status res else ''succeeded'');
               tr' = map_option (trace_record (sv_candidates env) (oc_attempts oc) (Some c) status
                                   (no_attempt\<lparr>ae_duration := dur\<rparr>)) tr;
               body = (case ur_raw_body res of None \<Rightarrow> [] | Some b \<Rightarrow> b)
           in \<lparr>se_w = write_chunk (inject_trace (jl_set_raw (sv_json env)) body tr')
                 (set_header ''Content-Type'' ''application/json'' w1),
               se_trace = tr', se_usage = [row], se_affinity = aff\<rparr>)
      | _ \<Rightarrow>
          openai_failure_end env
            (map_option (trace_record (sv_candidates env) (oc_attempts oc) None [] no_attempt) tr)
            dur (oc_attempts oc) last_err w)"

section \<open>The handler\<close>

record server_state =
  ss_affinity :: memory
  ss_usage :: "usage_rows list"

definition settle :: "serve_end \<Rightarrow> server_state \<Rightarrow> response \<times> server_state" where
  "settle e st =
     (se_w e, st\<lparr>ss_affinity := fold (\<lambda>(now, a). mem_set now a) (se_affinity e) (ss_affinity st),
                ss_usage := ss_usage st @ se_usage e\<rparr>)"

text \<open>
  The body is \<open>None\<close> when it is larger than 64 MiB; \<open>hoard\<close> says which of the two endpoints was
  called; \<open>now\<close> is the time of the affinity lookup.
\<close>

definition handle_responses ::
    "json_lib \<Rightarrow> registry \<Rightarrow> runtime_snapshot option \<Rightarrow> string \<Rightarrow> bool \<Rightarrow> (nat \<Rightarrow> candidate \<Rightarrow> call_outcome)
      \<Rightarrow> (nat \<Rightarrow> candidate \<Rightarrow> stream_call) \<Rightarrow> int \<Rightarrow> int \<Rightarrow> string option \<Rightarrow> server_state
      \<Rightarrow> (response \<times> server_state) option" where
  "handle_responses jl reg active req hoard calls streams now elapsed body st =
     (let tr0 = (if hoard then Some new_trace else None);
          fail = (\<lambda>tr code_st code msg.
            write_responses_error (jl_set_raw jl) tr code_st code msg new_response) in
      case active of
        None \<Rightarrow> Some (fail tr0 503 ''no_config'' ''server not ready'', st)
      | Some snap \<Rightarrow>
          (case body of
             None \<Rightarrow> Some (fail tr0 413 ''body_too_large'' ''request body too large'', st)
           | Some raw \<Rightarrow>
               (case parse_request raw of
                  Inl ModelRequired \<Rightarrow> Some (fail tr0 400 ''missing_model'' ''model is required'', st)
                | Inl MalformedJson \<Rightarrow> Some (fail tr0 400 ''invalid_request'' ''malformed JSON'', st)
                | Inr parsed \<Rightarrow>
                    (let tr1 = map_option (trace_set_requested (pr_requested_model parsed)) tr0;
                         (route, mem) = resolve_with_affinity snap now (ss_affinity st)
                            (pr_requested_model parsed) (pr_requirements parsed) (pr_previous_response_id parsed);
                         st1 = st\<lparr>ss_affinity := mem\<rparr> in
                     case route of
                       Inl (RouteErr (UnknownModel q)) \<Rightarrow> Some (fail tr1 404 ''model_not_found'' ''unknown model'', st1)
                     | Inl (RouteErr MissingModel) \<Rightarrow> Some (fail tr1 400 ''invalid_request'' ''model is required'', st1)
                     | Inl AffinityGone \<Rightarrow>
                         Some (fail tr1 400 ''invalid_request'' ''previous response is pinned to an unavailable model'', st1)
                     | Inr (cands, reason) \<Rightarrow>
                         (let tr2 = map_option (trace_set_route snap (pr_requested_model parsed) reason cands) tr1;
                              env = \<lparr>sv_json = jl, sv_registry = reg, sv_snap = snap, sv_req_id = req,
                                     sv_parsed = parsed, sv_candidates = cands\<rparr> in
                          if cands = [] then
                            Some (fail tr2 503 ''no_usable_candidates'' ''no usable candidates'',
                              st1\<lparr>ss_usage := ss_usage st1 @
                                [failure_row req ''openai'' (pr_requested_model parsed) 0 ''no_usable'' 0 []
                                   (sn_generation snap) []]\<rparr>)
                          else if \<not> pr_stream parsed then
                            Some (settle (serve_responses_plain env calls now elapsed tr2 new_response) st1)
                          else
                            map_option (\<lambda>e. settle e st1)
                              (serve_responses_stream env streams elapsed tr2 new_response))))))"

section \<open>The loop keeps the failover contract\<close>

lemma own_extract [simp]:
  "ae_candidate (extract_attempt c err d) = cd_local_model_id c"
  "ae_provider (extract_attempt c err d) = cd_provider_id c"
  by (simp_all add: extract_attempt_def)

lemma output_timeout_sel [simp]:
  "ae_candidate (output_timeout_attempt c d) = cd_local_model_id c"
  "ae_provider (output_timeout_attempt c d) = cd_provider_id c"
  "ae_class (output_timeout_attempt c d) = ErrorTimeout"
  by (simp_all add: output_timeout_attempt_def)

lemma note_auth_timeout: "ae_class ae = ErrorTimeout \<Longrightarrow> note_auth c ae auth = auth"
  by (simp add: note_auth_def auth_failure_def)

lemma sl_fail_sel [simp]:
  "sl_auth (sl_fail c ae s) = note_auth c ae (sl_auth s)"
  "sl_attempts (sl_fail c ae s) = sl_attempts s @ [ae]"
  "sl_trace (sl_fail c ae s) = sl_trace s"
  by (simp_all add: sl_fail_def)

lemma serve_stream_step_Continue:
  assumes "serve_stream_step env upstream w c s = Continue s'" and "skip_attempt (sl_auth s) c = None"
  obtains ae where "sl_attempts s' = sl_attempts s @ [ae]" "sl_auth s' = note_auth c ae (sl_auth s)"
    "ae_candidate ae = cd_local_model_id c" "ae_provider ae = cd_provider_id c" "ae_class ae \<noteq> ErrorClient"
proof -
  let ?call = "upstream (length (sl_attempts s)) c"
  show ?thesis
  proof (cases "sc_dial_error ?call")
    case (Some err)
    let ?ae = "if sc_output_timed_out ?call then output_timeout_attempt c (sc_dial_duration ?call)
               else extract_attempt c err (sc_dial_duration ?call)"
    from assms Some have "ae_class ?ae \<noteq> ErrorClient" "s' = sl_fail c ?ae s"
      by (auto simp: serve_stream_step_def Let_def split: if_splits)
    then show ?thesis by (intro that [of ?ae]) simp_all
  next
    case None
    show ?thesis
    proof (cases "sc_output_timed_out ?call")
      case True
      with assms None show ?thesis
        by (intro that [of "output_timeout_attempt c (sc_dial_duration ?call)"])
          (auto simp: serve_stream_step_def Let_def note_auth_timeout)
    next
      case False
      let ?tr = "map_option (trace_record (sv_candidates env) (sl_attempts s) (Some c) ''streaming'' no_attempt) (sl_trace s)"
      obtain fail where f: "precommit_and_stream_openai (sv_json env) (normalize_stream_error (sv_registry env) c)
                         (pr_requested_model (sv_parsed env)) c (Suc (length (sl_attempts s)))
                         (sn_generation (sv_snap env)) ?tr (sc_ticks ?call) w = Some (NotCommitted fail)"
        using assms None False
        by (auto simp: serve_stream_step_def Let_def split: option.splits attempt_end.splits)
      let ?ae = "own_attempt c (sc_duration ?call)
                   (if ae_safe_message fail = [] then mk_attempt [] [] ErrorUpstream ended_msg else fail)"
      have "ae_class ?ae \<noteq> ErrorClient" "s' = sl_fail c ?ae (s\<lparr>sl_trace := ?tr\<rparr>)"
        using assms None False f by (simp_all add: serve_stream_step_def Let_def split: if_splits)
      then show ?thesis by (intro that [of ?ae]) simp_all
    qed
  qed
qed

interpretation responses_loop: failover_loop "serve_stream_step env upstream w" sl_auth sl_attempts
proof
  fix s s' :: stream_loop and c :: candidate and ae :: attempt_error
  show "\<exists>s'. serve_stream_step env upstream w c s = Continue s' \<and> sl_attempts s' = sl_attempts s @ [ae] \<and>
      sl_auth s' = sl_auth s" if "skip_attempt (sl_auth s) c = Some ae"
    using that by (simp add: serve_stream_step_def)
  show "\<exists>ae. sl_attempts s' = sl_attempts s @ [ae] \<and> sl_auth s' = note_auth c ae (sl_auth s) \<and>
      ae_candidate ae = cd_local_model_id c \<and> ae_provider ae = cd_provider_id c \<and> ae_class ae \<noteq> ErrorClient"
    if n: "skip_attempt (sl_auth s) c = None" and st: "serve_stream_step env upstream w c s = Continue s'"
    using serve_stream_step_Continue [OF st n] by blast
qed

text \<open>How an iteration that ends the request ends it.\<close>

lemma serve_stream_step_Return:
  assumes "serve_stream_step env upstream w c s = Return (Some e)" and "skip_attempt (sl_auth s) c = None"
  obtains
    (client) ae s' where "e = serve_client_error env ae (sc_elapsed (upstream (length (sl_attempts s)) c)) w s'"
      "sl_attempts s' = sl_attempts s @ [ae]" "ae_class ae = ErrorClient" "ae_candidate ae = cd_local_model_id c"
  | (cancelled) ae where "se_w e = w" "se_affinity e = []" "ae_candidate ae = cd_local_model_id c"
      "sc_ctx_done (upstream (length (sl_attempts s)) c)"
      "se_usage e = [serve_failure_row env (sl_attempts s @ [ae]) ''client'' (sc_elapsed (upstream (length (sl_attempts s)) c))]"
  | (streamed) tr st where "e = committed_end env c (upstream (length (sl_attempts s)) c) (sl_attempts s) st"
      "precommit_and_stream_openai (sv_json env) (normalize_stream_error (sv_registry env) c)
         (pr_requested_model (sv_parsed env)) c (Suc (length (sl_attempts s)))
         (sn_generation (sv_snap env)) tr (sc_ticks (upstream (length (sl_attempts s)) c)) w = Some (Committed st)"
      "tr = map_option (trace_record (sv_candidates env) (sl_attempts s) (Some c) ''streaming'' no_attempt) (sl_trace s)"
proof -
  let ?call = "upstream (length (sl_attempts s)) c"
  show ?thesis
  proof (cases "sc_dial_error ?call")
    case (Some err)
    let ?ae = "if sc_output_timed_out ?call then output_timeout_attempt c (sc_dial_duration ?call)
               else extract_attempt c err (sc_dial_duration ?call)"
    from assms Some have "ae_class ?ae = ErrorClient"
      "e = serve_client_error env ?ae (sc_elapsed ?call) w (sl_fail c ?ae s)"
      by (auto simp: serve_stream_step_def Let_def split: if_splits)
    then show ?thesis by (intro client [of ?ae "sl_fail c ?ae s"]) simp_all
  next
    case None
    with assms have nt: "\<not> sc_output_timed_out ?call" by (auto simp: serve_stream_step_def Let_def split: if_splits)
    let ?tr = "map_option (trace_record (sv_candidates env) (sl_attempts s) (Some c) ''streaming'' no_attempt) (sl_trace s)"
    let ?p = "precommit_and_stream_openai (sv_json env) (normalize_stream_error (sv_registry env) c)
                         (pr_requested_model (sv_parsed env)) c (Suc (length (sl_attempts s)))
                         (sn_generation (sv_snap env)) ?tr (sc_ticks ?call) w"
    obtain r where r: "?p = Some r" using assms None nt by (cases ?p) (auto simp: serve_stream_step_def Let_def)
    show ?thesis
    proof (cases r)
      case (Committed st)
      with assms None nt r have "e = committed_end env c ?call (sl_attempts s) st"
        by (simp add: serve_stream_step_def Let_def)
      with Committed r show ?thesis by (intro streamed) simp_all
    next
      case (NotCommitted fail)
      let ?ae = "own_attempt c (sc_duration ?call)
                   (if ae_safe_message fail = [] then mk_attempt [] [] ErrorUpstream ended_msg else fail)"
      show ?thesis
      proof (cases "ae_class ?ae = ErrorClient")
        case True
        with assms None nt r NotCommitted
        have "e = serve_client_error env ?ae (sc_elapsed ?call) w (sl_fail c ?ae (s\<lparr>sl_trace := ?tr\<rparr>))"
          by (simp add: serve_stream_step_def Let_def)
        with True show ?thesis by (intro client [of ?ae "sl_fail c ?ae (s\<lparr>sl_trace := ?tr\<rparr>)"]) simp_all
      next
        case False
        with assms None nt r NotCommitted
        have "e = \<lparr>se_w = w, se_trace = ?tr,
             se_usage = [serve_failure_row env (sl_attempts s @ [?ae]) ''client'' (sc_elapsed ?call)], se_affinity = []\<rparr>"
          and "sc_ctx_done ?call"
          by (simp_all add: serve_stream_step_def Let_def split: if_splits)
        then show ?thesis by (intro cancelled [of ?ae]) simp_all
      qed
    qed
  qed
qed

lemma write_responses_error_sel [simp]:
  "rw_status (write_responses_error f tr st code msg w) = (case rw_status w of None \<Rightarrow> Some st | Some s \<Rightarrow> Some s)"
  "length (rw_chunks (write_responses_error f tr st code msg w)) = Suc (length (rw_chunks w))"
  by (auto simp: write_responses_error_def openai_write_bad_request_def openai_write_error_def split: option.split)

lemma new_response_sel [simp]: "rw_status new_response = None" "rw_chunks new_response = []"
  by (simp_all add: new_response_def)

text \<open>A usage row whose attempts are numbered from one and counted.\<close>

definition usage_ok :: "usage_rows \<Rightarrow> bool" where
  "usage_ok row \<longleftrightarrow> us_attempts (fst row) = length (snd row) \<and>
     map ua_index (snd row) = [1..<Suc (length (snd row))]"

lemma failure_row_ok [simp]: "usage_ok (serve_failure_row env atts cls e)"
  "us_success (fst (serve_failure_row env atts cls e)) = False"
  by (simp_all add: usage_ok_def serve_failure_row_def failure_row_def usage_row_def to_usage_attempts_index
      del: upt_Suc)

lemmas failure_row_counted = failure_row_ok(1) [unfolded usage_ok_def]

lemma committed_row_ok:
  "\<exists>row. se_usage (committed_end env c call atts st) = [row] \<and> usage_ok row \<and>
     us_success (fst row) = os_success st \<and> us_routed_model (fst row) = cd_local_model_id c"
  by (auto simp: committed_end_def Let_def usage_ok_def usage_row_def to_usage_attempts_index result_of_def
      split: prod.split)

lemma committed_end_w [simp]: "se_w (committed_end env c call atts st) = os_w st"
  by (simp add: committed_end_def Let_def)

lemma client_error_sel [simp]:
  "rw_status (se_w (serve_client_error env ae el new_response s)) = Some 400"
  "length (rw_chunks (se_w (serve_client_error env ae el new_response s))) = 1"
  "se_usage (serve_client_error env ae el w s) =
     [serve_failure_row env (sl_attempts s) (class_string (ae_class ae)) el]"
  "se_affinity (serve_client_error env ae el w s) = []"
  by (simp_all add: serve_client_error_def Let_def)

lemma all_failed_sel [simp]:
  "rw_status (se_w (serve_all_failed env el new_response s)) =
     Some (if all_key_missing (sl_attempts s) then 503 else 502)"
  "length (rw_chunks (se_w (serve_all_failed env el new_response s))) = 1"
  "se_usage (serve_all_failed env el w s) = [serve_failure_row env (sl_attempts s) ''upstream'' el]"
  "se_affinity (serve_all_failed env el w s) = []"
  by (simp_all add: serve_all_failed_def Let_def)

text \<open>The ways a streaming request ends, for the properties below.\<close>

lemma serve_responses_stream_cases:
  assumes "serve_responses_stream env upstream elapsed tr new_response = Some e"
  obtains
    (streamed) ds c es atts tr' st where "sv_candidates env = ds @ c # es" "length atts = length ds"
      "map ae_candidate atts = map cd_local_model_id ds" "skip_attempt [] c = None"
      "list_all (\<lambda>ae. ae_class ae \<noteq> ErrorClient) atts"
      "e = committed_end env c (upstream (length ds) c) atts st"
      "precommit_and_stream_openai (sv_json env) (normalize_stream_error (sv_registry env) c)
         (pr_requested_model (sv_parsed env)) c (Suc (length ds)) (sn_generation (sv_snap env)) tr'
         (sc_ticks (upstream (length ds) c)) new_response = Some (Committed st)"
      "tr' = None \<longleftrightarrow> tr = None"
  | (refused) ds c es ae s where "sv_candidates env = ds @ c # es"
      "map ae_candidate (sl_attempts s) = map cd_local_model_id (ds @ [c])"
      "e = serve_client_error env ae (sc_elapsed (upstream (length ds) c)) new_response s"
      "last (sl_attempts s) = ae" "sl_attempts s \<noteq> []" "ae_class ae = ErrorClient"
  | (gone) ds c es atts where "sv_candidates env = ds @ c # es"
      "map ae_candidate atts = map cd_local_model_id (ds @ [c])" "se_w e = new_response"
      "se_usage e = [serve_failure_row env atts ''client'' (sc_elapsed (upstream (length ds) c))]"
      "sc_ctx_done (upstream (length ds) c)" "se_affinity e = []"
  | (all_failed) s where "e = serve_all_failed env elapsed new_response s"
      "map ae_candidate (sl_attempts s) = map cd_local_model_id (sv_candidates env)"
proof (cases "for_range (serve_stream_step env upstream new_response) (sv_candidates env)
             \<lparr>sl_auth = [], sl_attempts = [], sl_trace = tr\<rparr>")
  case (Continue s)
  with assms have "e = serve_all_failed env elapsed new_response s" by (simp add: serve_responses_stream_def)
  with responses_loop.attempts_in_order [OF Continue] show ?thesis by (intro all_failed [of s]) auto
next
  case (Return r)
  with assms have r: "r = Some e" by (simp add: serve_responses_stream_def)
  obtain ds c es s' new where h: "sv_candidates env = ds @ c # es"
    "serve_stream_step env upstream new_response c s' = Return (Some e)"
    and run: "for_range (serve_stream_step env upstream new_response) ds
       \<lparr>sl_auth = [], sl_attempts = [], sl_trace = tr\<rparr> = Continue s'"
    and att: "sl_attempts s' = sl_attempts \<lparr>sl_auth = [], sl_attempts = [], sl_trace = tr\<rparr> @ new"
    and new: "map ae_candidate new = map cd_local_model_id ds" "list_all (\<lambda>ae. ae_class ae \<noteq> ErrorClient) new"
    and skip: "skip_attempt (sl_auth s') c = None"
    by (rule responses_loop.returns_at [OF Return [unfolded r]])
  have len: "length (sl_attempts s') = length ds" using att new(1) by (metis append_Nil length_map select_convs(2) stream_loop.select_convs(2))
  have tr: "sl_trace s' = None \<longleftrightarrow> tr = None"
  proof (rule for_range_invariant [where P = "\<lambda>s. sl_trace s = None \<longleftrightarrow> tr = None", OF _ _ run])
    show "(sl_trace s2 = None) = (tr = None)"
      if "(sl_trace s1 = None) = (tr = None)" "serve_stream_step env upstream new_response c s1 = Continue s2" for c s1 s2
      using that by (auto simp: serve_stream_step_def Let_def split: option.splits if_splits attempt_end.splits)
  qed simp
  from h(2) skip show ?thesis
  proof (cases rule: serve_stream_step_Return)
    case (client ae s2)
    with h(1) len new att show ?thesis by (intro refused [of ds c es s2 ae]) simp_all
  next
    case (cancelled ae)
    with h(1) len new att show ?thesis by (intro gone [of ds c es "sl_attempts s' @ [ae]"]) simp_all
  next
    case (streamed tr' st)
    have "skip_attempt [] c = None" using skip by (simp add: skip_attempt_def split: if_splits)
    with streamed h(1) len new att tr show ?thesis
      by (intro that(1) [of ds c es "sl_attempts s'" st tr']) simp_all
  qed
qed

lemma committed_end_pins:
  assumes "os_success st" and "os_resp_id st \<noteq> []"
  shows "\<exists>a. se_affinity (committed_end env c call atts st) = [(sc_now call, a)] \<and>
    ra_response_id a = os_resp_id st \<and> ra_local_model_id a = cd_local_model_id c \<and>
    ra_provider_id a = cd_provider_id c \<and> ra_created_at a = sc_now call"
  using assms by (simp add: committed_end_def Let_def result_of_def split: prod.split)

section \<open>Properties\<close>

lemma serve_failure_row_attempts:
  "map ua_model (snd (serve_failure_row env atts cls el)) = map ae_candidate atts"
  "snd (serve_failure_row env atts cls el) = to_usage_attempts (sv_req_id env) atts"
  by (simp_all add: serve_failure_row_def failure_row_def usage_row_def to_usage_attempts_model)

lemma committed_end_attempts:
  "map ae_candidate atts = map cd_local_model_id ds \<Longrightarrow>
   \<exists>row. se_usage (committed_end env c call atts st) = [row] \<and>
     map ua_model (snd row) = map cd_local_model_id (ds @ [c])"
  by (auto simp: committed_end_def Let_def usage_row_def to_usage_attempts_model)

lemma last_attempt_class:
  assumes "atts \<noteq> []"
  shows "ua_error_class (last (to_usage_attempts req atts)) = class_string (ae_class (last atts))"
proof -
  have "map ua_error_class (to_usage_attempts req atts) = map (\<lambda>ae. class_string (ae_class ae)) atts"
    by (rule nth_equalityI) (simp_all add: to_usage_attempts_def usage_attempt_of_def nth_enumerate_eq)
  moreover have "to_usage_attempts req atts \<noteq> []" using assms by (metis length_0_conv to_usage_attempts_length)
  ultimately show ?thesis using assms by (metis (no_types, lifting) last_map)
qed


text \<open>
  C7 (every request is accounted once). A streaming request that ends leaves exactly one usage row,
  whose attempts are numbered from one and counted; the row is a success exactly when the client's
  stream ended with the completed event of the routed model.
\<close>

theorem streaming_usage_once:
  assumes "serve_responses_stream env upstream elapsed None new_response = Some e"
  shows "\<exists>row. se_usage e = [row] \<and> us_attempts (fst row) = length (snd row) \<and>
    map ua_index (snd row) = [1..<Suc (length (snd row))] \<and>
    (us_success (fst row) \<longrightarrow>
       (\<exists>ds c es evs rest. sv_candidates env = ds @ c # es \<and> us_routed_model (fst row) = cd_local_model_id c \<and>
          recvs (map tk_input (sc_ticks (upstream (length ds) c))) = evs @ rest \<and> evs \<noteq> [] \<and>
          fst (last evs) = ''response.completed'' \<and>
          rw_chunks (se_w e) =
            map (\<lambda>ev. sse_frame (fst ev) (rewritten (sv_json env) (pr_requested_model (sv_parsed env)) (snd ev))) evs))"
  using assms
proof (cases rule: serve_responses_stream_cases)
  case (streamed ds c es atts tr' st)
  from committed_sent [OF streamed(7)] obtain evs rest errs where evs:
    "recvs (map tk_input (sc_ticks (upstream (length ds) c))) = evs @ rest"
    "has_sent (sv_json env) (pr_requested_model (sv_parsed env)) (routing_frames (sv_json env) tr') evs errs st"
    by (auto simp: new_response_def)
  obtain row where row: "se_usage e = [row]" "usage_ok row" "us_success (fst row) = os_success st"
    "us_routed_model (fst row) = cd_local_model_id c"
    using committed_row_ok [of env c "upstream (length ds) c" atts st] streamed(6) by auto
  have "fst (last evs) = ''response.completed'' \<and> evs \<noteq> [] \<and> rw_chunks (se_w e) =
       map (\<lambda>ev. sse_frame (fst ev) (rewritten (sv_json env) (pr_requested_model (sv_parsed env)) (snd ev))) evs"
    if "os_success st"
    using that evs(2) streamed(6,8) by (auto simp: has_sent_def terminal_type_def routing_frames_def)
  with evs(1) streamed(1) row(3,4) have "us_success (fst row) \<longrightarrow>
       (\<exists>ds c es evs rest. sv_candidates env = ds @ c # es \<and> us_routed_model (fst row) = cd_local_model_id c \<and>
          recvs (map tk_input (sc_ticks (upstream (length ds) c))) = evs @ rest \<and> evs \<noteq> [] \<and>
          fst (last evs) = ''response.completed'' \<and>
          rw_chunks (se_w e) =
            map (\<lambda>ev. sse_frame (fst ev) (rewritten (sv_json env) (pr_requested_model (sv_parsed env)) (snd ev))) evs)"
    by blast
  with row(1,2) show ?thesis unfolding usage_ok_def by blast
next
  case (refused ds c es ae s)
  from refused(3) show ?thesis by (simp add: failure_row_counted)
next
  case (gone ds c es atts)
  from gone(4) show ?thesis by (simp add: failure_row_counted)
next
  case (all_failed s)
  from all_failed(1) show ?thesis by (simp add: failure_row_counted)
qed

text \<open>One candidate, whose stream completes.\<close>

definition sample_stream :: "nat \<Rightarrow> candidate \<Rightarrow> stream_call" where
  "sample_stream n c =
     \<lparr>sc_dial_error = None, sc_output_timed_out = False, sc_dial_duration = 1, sc_ticks = sample_ticks,
      sc_duration = 2, sc_ctx_done = False, sc_elapsed = 2, sc_now = 7\<rparr>"

definition sample_env :: serve_env where
  "sample_env =
     \<lparr>sv_json = plain_lib, sv_registry = default_registry, sv_snap = sample_snapshot, sv_req_id = ''q'',
      sv_parsed = \<lparr>pr_raw = ''{}'', pr_requested_model = ''coding'', pr_stream = True,
        pr_requirements = no_requirements, pr_previous_response_id = []\<rparr>,
      sv_candidates = [sample_candidate]\<rparr>"

lemma sample_candidate_ready: "skip_attempt [] sample_candidate = None"
  by (simp add: skip_attempt_def sample_candidate_def)

lemma sample_single:
  assumes "sc_dial_error (upstream 0 sample_candidate) = None"
    and "\<not> sc_output_timed_out (upstream 0 sample_candidate)"
    and "precommit_and_stream_openai plain_lib (normalize_stream_error default_registry sample_candidate)
      ''coding'' sample_candidate (Suc 0) (sn_generation sample_snapshot) None
      (sc_ticks (upstream 0 sample_candidate)) new_response = Some (Committed st)"
  shows "serve_responses_stream sample_env upstream elapsed None new_response =
      Some (committed_end sample_env sample_candidate (upstream 0 sample_candidate) [] st)"
  using assms by (simp add: serve_responses_stream_def serve_stream_step_def sample_candidate_ready sample_env_def)

lemma sample_served:
  "\<exists>e. serve_responses_stream sample_env sample_stream 3 None new_response = Some e \<and>
     us_success (fst (hd (se_usage e))) \<and> rw_status (se_w e) = Some 200"
proof -
  obtain s where s: "precommit_and_stream_openai plain_lib (normalize_stream_error default_registry sample_candidate)
      ''coding'' sample_candidate (Suc 0) (sn_generation sample_snapshot) None sample_ticks new_response =
      Some (Committed s)" "os_success s"
    using sample_ticks_committed by blast
  then have "serve_responses_stream sample_env sample_stream 3 None new_response =
      Some (committed_end sample_env sample_candidate (sample_stream 0 sample_candidate) [] s)"
    by (intro sample_single) (simp_all add: sample_stream_def)
  moreover have "rw_status (os_w s) = Some 200"
    using committed_sent [OF s(1)] by (auto simp: has_sent_def)
  ultimately show ?thesis using s(2)
    by (auto simp: committed_end_def Let_def usage_row_def result_of_def split: prod.split)
qed


theorem streaming_usage_once_witness:
  "\<exists>e row. serve_responses_stream sample_env sample_stream 3 None new_response = Some e \<and>
     se_usage e = [row] \<and> us_success (fst row) \<and> us_routed_model (fst row) = ''zen/a''"
proof -
  obtain e where e: "serve_responses_stream sample_env sample_stream 3 None new_response = Some e"
    and ok: "us_success (fst (hd (se_usage e)))" using sample_served by blast
  from streaming_usage_once [OF e] obtain row where row: "se_usage e = [row]"
    "us_success (fst row) \<longrightarrow> (\<exists>ds c es. sv_candidates sample_env = ds @ c # es \<and>
       us_routed_model (fst row) = cd_local_model_id c)" by blast
  with ok have "us_success (fst row)" "us_routed_model (fst row) = ''zen/a''"
    by (auto simp: sample_env_def sample_candidate_def Cons_eq_append_conv)
  with e row show ?thesis by blast
qed

text \<open>
  When the upstream answers with a
  response whose own status is failed, the trace marks the selected row failed with the zero value of
  the error class, which reads client, although the request was relayed and answered.
\<close>

lemma hoard_failed_status_class:
  "ta_error_class (selected_row secrets n c ''failed'' (no_attempt\<lparr>ae_duration := dur\<rparr>)) = ''client'' \<and>
   ta_reason (selected_row [] n c ''failed'' (no_attempt\<lparr>ae_duration := dur\<rparr>)) =
     ''client error (no details from upstream)''"
  by (simp add: selected_row_def Let_def no_attempt_def mk_attempt_def trace_reason_def scrub_def)

end
