(* ===== verification/Messages_Server.thy ===== *)
theory Messages_Server
  imports Messages_Stream Responses_Server
begin

text \<open>
  \<open>POST /v1/messages\<close> and \<open>POST /v1/messages/count_tokens\<close>: \<open>handleMessages\<close>,
  \<open>serveMessagesNonStream\<close>, \<open>anthropicUsage\<close> and \<open>handleCountTokens\<close> of \<open>internal/server/messages.go\<close>,
  \<open>serveMessagesStream\<close> of \<open>messages_stream.go\<close>, \<open>reasoningForRequest\<close> and \<open>rememberReasoning\<close> of
  \<open>continuation.go\<close>. The upstream, the clock and the client are an oracle per attempt.
\<close>

section \<open>Reasoning of earlier turns\<close>

text \<open>
  One \<open>Load\<close> per assistant message; \<open>nows i\<close> is the clock at the load of message \<open>i\<close>. The cache is
  always there (\<open>New\<close> in \<open>server.go\<close> creates it).
\<close>

type_synonym known_reasoning = "(string \<Rightarrow> reasoning_continuation option) \<times> continuations"

definition load_reasoning ::
    "(string \<Rightarrow> string) \<Rightarrow> string \<Rightarrow> candidate \<Rightarrow> (nat \<Rightarrow> int) \<Rightarrow> nat \<times> message \<Rightarrow> known_reasoning \<Rightarrow> known_reasoning" where
  "load_reasoning digest session c nows im kc =
     (let (i, m) = im; (known, conts) = kc in
      if ms_role m \<noteq> ''assistant'' then (known, conts)
      else
        (let fp = content_fingerprint digest (ms_content m);
             (v, conts') = cont_load (nows i) session c fp conts
         in (case v of None \<Rightarrow> known | Some x \<Rightarrow> known(fp \<mapsto> x), conts')))"

definition reasoning_for_request ::
    "(string \<Rightarrow> string) \<Rightarrow> parsed \<Rightarrow> candidate \<Rightarrow> (nat \<Rightarrow> int) \<Rightarrow> continuations \<Rightarrow> known_reasoning" where
  "reasoning_for_request digest p c nows conts =
     (if pa_session_id p = [] then (Map.empty, conts)
      else fold (load_reasoning digest (pa_session_id p) c nows)
             (List.enumerate 0 (mr_messages (pa_typed p))) (Map.empty, conts))"

definition remember_reasoning ::
    "(string \<Rightarrow> string) \<Rightarrow> int \<Rightarrow> parsed \<Rightarrow> candidate \<Rightarrow> raw_message option \<Rightarrow> reasoning_continuation
      \<Rightarrow> continuations \<Rightarrow> continuations" where
  "remember_reasoning digest now p c content v conts =
     cont_store now (pa_session_id p) c (content_fingerprint digest content) v conts"

section \<open>The loop state\<close>

record messages_env =
  me_lib :: messages_lib
  me_registry :: registry
  me_snap :: runtime_snapshot
  me_req_id :: string
  me_parsed :: parsed
  me_candidates :: "candidate list"

record messages_loop =
  lm_auth :: "string list"
  lm_attempts :: "attempt_error list"
  lm_conts :: continuations

record messages_end =
  mx_w :: response
  mx_usage :: "usage_rows list"
  mx_conts :: continuations

record message_stream_call = stream_call +
  mc_load_now :: "nat \<Rightarrow> int"
  mc_ids :: stream_ids

record message_plain_call = call_outcome +
  mp_load_now :: "nat \<Rightarrow> int"
  mp_message_id :: string
  mp_call_ids :: "nat \<Rightarrow> string"
  mp_now :: int
  mp_elapsed :: int

definition chat_provider :: "candidate \<Rightarrow> bool" where
  "chat_provider c =
     (case cd_provider c of None \<Rightarrow> False | Some p \<Rightarrow> rp_wire_api p = ''chat_completions'')"

definition lm_fail :: "candidate \<Rightarrow> attempt_error \<Rightarrow> messages_loop \<Rightarrow> messages_loop" where
  "lm_fail c ae s = s\<lparr>lm_auth := note_auth c ae (lm_auth s), lm_attempts := lm_attempts s @ [ae]\<rparr>"

definition lm_add :: "attempt_error \<Rightarrow> messages_loop \<Rightarrow> messages_loop" where
  "lm_add ae s = s\<lparr>lm_attempts := lm_attempts s @ [ae]\<rparr>"

definition messages_failure_row :: "messages_env \<Rightarrow> attempt_error list \<Rightarrow> string \<Rightarrow> int \<Rightarrow> usage_rows" where
  "messages_failure_row env atts errclass elapsed =
     failure_row (me_req_id env) ''anthropic'' (pa_requested_model (me_parsed env)) (length atts) errclass
       (milliseconds elapsed) (pa_session_id (me_parsed env)) (sn_generation (me_snap env))
       (to_usage_attempts (me_req_id env) atts)"

definition refuse :: "string \<Rightarrow> usage_rows list \<Rightarrow> response \<Rightarrow> messages_loop \<Rightarrow> messages_end" where
  "refuse msg rows w s =
     \<lparr>mx_w = anthropic_write_error 400 ''invalid_request_error'' msg w, mx_usage = rows, mx_conts = lm_conts s\<rparr>"

text \<open>The body of one candidate's request: the reasoning it is owed, then the translation.\<close>

definition upstream_body ::
    "messages_env \<Rightarrow> candidate \<Rightarrow> (nat \<Rightarrow> int) \<Rightarrow> continuations \<Rightarrow> (translate_fault + string) \<times> continuations" where
  "upstream_body env c nows conts =
     (let lib = me_lib env; p = me_parsed env;
          (known, conts') = reasoning_for_request (ml_digest lib) p c nows conts
      in (to_responses_with_continuations (ml_digest lib) (ml_show lib) p (cd_upstream_model c) known (chat_provider c),
          conts'))"

section \<open>Streaming with failover\<close>

definition messages_row ::
    "messages_env \<Rightarrow> candidate \<Rightarrow> attempt_error list \<Rightarrow> int \<Rightarrow> int \<Rightarrow> message_stream_result \<Rightarrow> usage_rows" where
  "messages_row env c atts dur elapsed r =
     (let rows = to_usage_attempts (me_req_id env) atts @
            [\<lparr>ua_request_id = me_req_id env, ua_index = Suc (length atts), ua_model = cd_local_model_id c,
              ua_provider = cd_provider_id c, ua_duration_ms = milliseconds dur, ua_success = sr_success r,
              ua_status_code = 0, ua_error_class = sr_err_class r\<rparr>]
      in usage_row (me_req_id env) ''anthropic'' (pa_requested_model (me_parsed env)) (cd_local_model_id c)
           (cd_provider_id c) (sr_in_tok r) (sr_out_tok r) (sr_cached_tok r) (sr_cache_write_tok r) (length rows)
           (sr_success r) (sr_err_class r) (milliseconds elapsed) (pa_session_id (me_parsed env))
           (sn_generation (me_snap env)) rows)"

definition messages_committed ::
    "messages_env \<Rightarrow> candidate \<Rightarrow> message_stream_call \<Rightarrow> messages_loop \<Rightarrow> message_end \<Rightarrow> messages_end" where
  "messages_committed env c call s me =
     (let (st, ok, cls) = me; r = anthropic_stream_result st ok cls in
      \<lparr>mx_w = om_w st,
       mx_usage = [messages_row env c (lm_attempts s) (sc_duration call) (sc_elapsed call) r],
       mx_conts = (if sr_success r \<and> sr_fingerprint r \<noteq> []
                   then cont_store (sc_now call) (pa_session_id (me_parsed env)) c (sr_fingerprint r)
                          (sr_continuation r) (lm_conts s)
                   else lm_conts s)\<rparr>)"

text \<open>
  One iteration. \<open>Return None\<close>: the handler still waits for the stream. An error that opens no
  stream and is the client's ends the request without a usage row, and so does a cancellation.
\<close>

definition serve_messages_step ::
    "messages_env \<Rightarrow> (nat \<Rightarrow> candidate \<Rightarrow> message_stream_call) \<Rightarrow> response \<Rightarrow> candidate \<Rightarrow> messages_loop
      \<Rightarrow> (messages_loop, messages_end option) ctl" where
  "serve_messages_step env upstream w c s =
     (case skip_attempt (lm_auth s) c of
        Some ae \<Rightarrow> Continue (lm_add ae s)
      | None \<Rightarrow>
          (let call = upstream (length (lm_attempts s)) c;
               (body, conts) = upstream_body env c (mc_load_now call) (lm_conts s);
               s1 = s\<lparr>lm_conts := conts\<rparr> in
           case body of
             Inl f \<Rightarrow> Return (Some (refuse (ml_translate_text (me_lib env) f) [] w s1))
           | Inr b \<Rightarrow>
               (case sc_dial_error call of
                  Some err \<Rightarrow>
                    (let ae = (if sc_output_timed_out call then output_timeout_attempt c (sc_dial_duration call)
                               else extract_attempt c err (sc_dial_duration call));
                         s' = lm_fail c ae s1 in
                     if ae_class ae = ErrorClient then Return (Some (refuse (ae_safe_message ae) [] w s'))
                     else Continue s')
                | None \<Rightarrow>
                    if sc_output_timed_out call
                    then Continue (lm_add (output_timeout_attempt c (sc_dial_duration call)) s1)
                    else
                      (case precommit_and_stream_messages (me_lib env) (mc_ids call)
                              (normalize_stream_error (me_registry env) c) (pa_requested_model (me_parsed env)) c
                              (Suc (length (lm_attempts s))) (sn_generation (me_snap env)) (sc_ticks call) w of
                         None \<Rightarrow> Return None
                       | Some (MessagesNotCommitted fail) \<Rightarrow>
                           (let ae = own_attempt c (sc_duration call)
                                  (if ae_safe_message fail = []
                                   then fail\<lparr>ae_class := ErrorUpstream, ae_safe_message := ended_msg\<rparr> else fail);
                                s' = lm_fail c ae s1 in
                            if sc_ctx_done call then
                              Return (Some \<lparr>mx_w = w, mx_usage = [], mx_conts = lm_conts s'\<rparr>)
                            else if ae_class ae = ErrorClient then
                              Return (Some (refuse (ae_safe_message ae)
                                [messages_failure_row env (lm_attempts s') (class_string (ae_class ae)) (sc_elapsed call)] w s'))
                            else Continue s')
                       | Some (MessagesCommitted me) \<Rightarrow> Return (Some (messages_committed env c call s1 me))))))"

definition messages_all_failed :: "messages_env \<Rightarrow> int \<Rightarrow> response \<Rightarrow> messages_loop \<Rightarrow> messages_end" where
  "messages_all_failed env elapsed w s =
     \<lparr>mx_w = anthropic_write_error (if all_key_missing (lm_attempts s) then 503 else 502) ''api_error''
        ''All configured candidates failed'' w,
      mx_usage = [messages_failure_row env (lm_attempts s) ''upstream'' elapsed],
      mx_conts = lm_conts s\<rparr>"

definition messages_start :: "continuations \<Rightarrow> messages_loop" where
  "messages_start conts = \<lparr>lm_auth = [], lm_attempts = [], lm_conts = conts\<rparr>"

definition serve_messages_stream ::
    "messages_env \<Rightarrow> (nat \<Rightarrow> candidate \<Rightarrow> message_stream_call) \<Rightarrow> int \<Rightarrow> continuations \<Rightarrow> response \<Rightarrow> messages_end option" where
  "serve_messages_stream env upstream elapsed conts w =
     (case for_range (serve_messages_step env upstream w) (me_candidates env) (messages_start conts) of
        Return r \<Rightarrow> r
      | Continue s \<Rightarrow> Some (messages_all_failed env elapsed w s))"

section \<open>A plain answer\<close>

definition anthropic_usage :: "string \<Rightarrow> int \<times> int \<times> int \<times> int" where
  "anthropic_usage body =
     (let names = [''input_tokens'', ''output_tokens'', ''cache_creation_input_tokens'', ''cache_read_input_tokens''] in
      case (do { ms \<leftarrow> unmarshal_struct body; us \<leftarrow> dec_struct [] (field_values [''usage''] ''usage'' ms);
                 i \<leftarrow> dec_int 0 (field_values names ''input_tokens'' us);
                 out \<leftarrow> dec_int 0 (field_values names ''output_tokens'' us);
                 w \<leftarrow> dec_int 0 (field_values names ''cache_creation_input_tokens'' us);
                 c \<leftarrow> dec_int 0 (field_values names ''cache_read_input_tokens'' us);
                 Some (i, out, w, c) }) of
        None \<Rightarrow> (0, 0, 0, 0)
      | Some u \<Rightarrow> u)"

definition mapping_failed :: "candidate \<Rightarrow> attempt_error" where
  "mapping_failed c = mk_attempt (cd_local_model_id c) (cd_provider_id c) ErrorUpstream ''response mapping failed''"

definition plain_success ::
    "messages_env \<Rightarrow> candidate \<Rightarrow> message_plain_call \<Rightarrow> upstream_result \<Rightarrow> string \<Rightarrow> response \<Rightarrow> messages_loop \<Rightarrow> messages_end" where
  "plain_success env c call res out w s =
     (let lib = me_lib env; p = me_parsed env; atts = lm_attempts s;
          (i, outT, cw, cr) = anthropic_usage out;
          rows = to_usage_attempts (me_req_id env) atts @
            [\<lparr>ua_request_id = me_req_id env, ua_index = Suc (length atts), ua_model = cd_local_model_id c,
              ua_provider = cd_provider_id c, ua_duration_ms = milliseconds (mp_elapsed call), ua_success = True,
              ua_status_code = 0, ua_error_class = []\<rparr>]
      in \<lparr>mx_w = write_chunk out (set_header ''Content-Type'' ''application/json''
            (debug_headers c (Suc (length atts)) (sn_generation (me_snap env)) w)),
          mx_usage = [usage_row (me_req_id env) ''anthropic'' (pa_requested_model p) (cd_local_model_id c)
            (cd_provider_id c) (wrap64 (i + cw + cr)) outT cr cw (length rows) True []
            (milliseconds (mp_elapsed call)) (pa_session_id p) (sn_generation (me_snap env)) rows],
          mx_conts = remember_reasoning (ml_digest lib) (mp_now call) p c (anthropic_message_content out)
            \<lparr>rc_chat_completions = ur_reasoning_content res, rc_responses_items = ur_reasoning_items res\<rparr> (lm_conts s)\<rparr>)"

definition plain_messages_step ::
    "messages_env \<Rightarrow> (nat \<Rightarrow> candidate \<Rightarrow> message_plain_call) \<Rightarrow> response \<Rightarrow> candidate \<Rightarrow> messages_loop
      \<Rightarrow> (messages_loop, messages_end) ctl" where
  "plain_messages_step env upstream w c s =
     (case skip_attempt (lm_auth s) c of
        Some ae \<Rightarrow> Continue (lm_add ae s)
      | None \<Rightarrow>
          (let call = upstream (length (lm_attempts s)) c;
               (body, conts) = upstream_body env c (mp_load_now call) (lm_conts s);
               s1 = s\<lparr>lm_conts := conts\<rparr> in
           case body of
             Inl f \<Rightarrow> Return (refuse (ml_translate_text (me_lib env) f) [] w s1)
           | Inr b \<Rightarrow>
               (case co_result call of
                  Inl err \<Rightarrow>
                    (let ae = extract_attempt c err 0; s' = lm_fail c ae s1 in
                     if ae_class ae = ErrorClient
                     then Return (refuse (ae_safe_message ae)
                       [messages_failure_row env (lm_attempts s') (class_string (ae_class ae)) (mp_elapsed call)] w s')
                     else Continue s')
                | Inr res \<Rightarrow>
                    (case to_message (mp_call_ids call) (mp_message_id call)
                            (case ur_raw_body res of None \<Rightarrow> [] | Some r \<Rightarrow> r) (pa_requested_model (me_parsed env)) of
                       Inl f \<Rightarrow> Continue (lm_add (mapping_failed c) s1)
                     | Inr out \<Rightarrow> Return (plain_success env c call res out w s1)))))"

definition serve_messages_plain ::
    "messages_env \<Rightarrow> (nat \<Rightarrow> candidate \<Rightarrow> message_plain_call) \<Rightarrow> int \<Rightarrow> continuations \<Rightarrow> response \<Rightarrow> messages_end" where
  "serve_messages_plain env upstream elapsed conts w =
     (case for_range (plain_messages_step env upstream w) (me_candidates env) (messages_start conts) of
        Return r \<Rightarrow> r
      | Continue s \<Rightarrow> messages_all_failed env elapsed w s)"

section \<open>The handlers\<close>

record messages_state =
  mg_conts :: continuations
  mg_usage :: "usage_rows list"

definition settle_messages :: "messages_end \<Rightarrow> messages_state \<Rightarrow> response \<times> messages_state" where
  "settle_messages e st = (mx_w e, \<lparr>mg_conts = mx_conts e, mg_usage = mg_usage st @ mx_usage e\<rparr>)"

text \<open>
  The body is \<open>None\<close> when it is larger than 64 MiB; \<open>session\<close> is the header
  \<open>X-Claude-Code-Session-Id\<close>; \<open>fl\<close> parses the literal of a float.
\<close>

definition handle_messages ::
    "messages_lib \<Rightarrow> (string \<Rightarrow> rat option) \<Rightarrow> registry \<Rightarrow> runtime_snapshot option \<Rightarrow> string
      \<Rightarrow> (nat \<Rightarrow> candidate \<Rightarrow> message_plain_call) \<Rightarrow> (nat \<Rightarrow> candidate \<Rightarrow> message_stream_call) \<Rightarrow> int
      \<Rightarrow> string \<Rightarrow> string option \<Rightarrow> messages_state \<Rightarrow> (response \<times> messages_state) option" where
  "handle_messages lib fl reg active req calls streams elapsed session body st =
     (let fail = (\<lambda>code typ msg. anthropic_write_error code typ msg new_response) in
      case active of
        None \<Rightarrow> Some (fail 503 ''api_error'' ''server not ready'', st)
      | Some snap \<Rightarrow>
          (case body of
             None \<Rightarrow> Some (fail 413 ''invalid_request'' ''body too large'', st)
           | Some raw \<Rightarrow>
               (case parse_message fl raw of
                  Inl f \<Rightarrow> Some (fail 400 ''invalid_request_error'' (ml_request_text lib f), st)
                | Inr p0 \<Rightarrow>
                    (let p = p0\<lparr>pa_session_id := session\<rparr> in
                     case resolve_candidates snap \<lparr>rr_requested_model = pa_requested_model p,
                            rr_requirements = pa_requirements p\<rparr> of
                       Inl (UnknownModel q) \<Rightarrow> Some (fail 404 ''not_found_error'' ''unknown model'', st)
                     | Inl MissingModel \<Rightarrow> Some (fail 400 ''invalid_request_error'' ''model is required'', st)
                     | Inr (cands, reason) \<Rightarrow>
                         (let env = \<lparr>me_lib = lib, me_registry = reg, me_snap = snap, me_req_id = req,
                                     me_parsed = p, me_candidates = cands\<rparr> in
                          if cands = [] then
                            Some (fail 503 ''api_error'' ''no usable candidates'',
                              st\<lparr>mg_usage := mg_usage st @
                                [failure_row req ''anthropic'' (pa_requested_model p) 0 ''no_usable'' 0 session
                                   (sn_generation snap) []]\<rparr>)
                          else if \<not> pa_stream p then
                            Some (settle_messages (serve_messages_plain env calls elapsed (mg_conts st) new_response) st)
                          else
                            map_option (\<lambda>e. settle_messages e st)
                              (serve_messages_stream env streams elapsed (mg_conts st) new_response))))))"

text \<open>\<open>err_text\<close> is the wording of the JSON decoder's error.\<close>

definition handle_count_tokens :: "(string \<Rightarrow> string) \<Rightarrow> string option \<Rightarrow> response" where
  "handle_count_tokens err_text body =
     (case body of
        None \<Rightarrow> anthropic_write_error 413 ''invalid_request'' ''body too large'' new_response
      | Some raw \<Rightarrow>
          (case count_request raw of
             None \<Rightarrow> anthropic_write_error 400 ''invalid_request_error'' (err_text raw) new_response
           | Some n \<Rightarrow>
               write_chunk (json_encode (vmap [(''input_tokens'', VInt (int n))]))
                 (set_header ''Content-Type'' ''application/json'' new_response)))"

section \<open>Both loops keep the failover contract\<close>

lemma lm_sel [simp]:
  "lm_auth (lm_fail c ae s) = note_auth c ae (lm_auth s)" "lm_attempts (lm_fail c ae s) = lm_attempts s @ [ae]"
  "lm_auth (lm_add ae s) = lm_auth s" "lm_attempts (lm_add ae s) = lm_attempts s @ [ae]"
  "lm_auth (messages_start conts) = []" "lm_attempts (messages_start conts) = []"
  by (simp_all add: lm_fail_def lm_add_def messages_start_def)

lemma mapping_failed_sel [simp]:
  "ae_candidate (mapping_failed c) = cd_local_model_id c" "ae_provider (mapping_failed c) = cd_provider_id c"
  "ae_class (mapping_failed c) = ErrorUpstream"
  by (simp_all add: mapping_failed_def mk_attempt_def)

lemma plain_step_Continue:
  assumes "plain_messages_step env upstream w c s = Continue s'" and "skip_attempt (lm_auth s) c = None"
  shows "\<exists>ae. lm_attempts s' = lm_attempts s @ [ae] \<and> lm_auth s' = note_auth c ae (lm_auth s) \<and>
    ae_candidate ae = cd_local_model_id c \<and> ae_provider ae = cd_provider_id c \<and> ae_class ae \<noteq> ErrorClient"
proof -
  have "note_auth c (mapping_failed c) auth = auth" for auth by (simp add: note_auth_def auth_failure_def)
  with assms show ?thesis
    by (auto simp: plain_messages_step_def Let_def case_prod_beta split: sum.splits if_splits)
qed

lemma stream_step_Continue:
  assumes "serve_messages_step env upstream w c s = Continue s'" and "skip_attempt (lm_auth s) c = None"
  shows "\<exists>ae. lm_attempts s' = lm_attempts s @ [ae] \<and> lm_auth s' = note_auth c ae (lm_auth s) \<and>
    ae_candidate ae = cd_local_model_id c \<and> ae_provider ae = cd_provider_id c \<and> ae_class ae \<noteq> ErrorClient"
proof -
  have "note_auth c (output_timeout_attempt c d) auth = auth" for auth d by (rule note_auth_timeout) simp
  with assms show ?thesis
    by (auto simp: serve_messages_step_def Let_def case_prod_beta
        split: sum.splits option.splits if_splits messages_attempt_end.splits)
qed

interpretation plain_messages_loop: failover_loop "plain_messages_step env upstream w" lm_auth lm_attempts
proof
  show "\<exists>s'. plain_messages_step env upstream w c s = Continue s' \<and> lm_attempts s' = lm_attempts s @ [ae] \<and>
      lm_auth s' = lm_auth s" if "skip_attempt (lm_auth s) c = Some ae" for s c ae
    using that by (simp add: plain_messages_step_def)
qed (rule plain_step_Continue)

interpretation messages_loop: failover_loop "serve_messages_step env upstream w" lm_auth lm_attempts
proof
  show "\<exists>s'. serve_messages_step env upstream w c s = Continue s' \<and> lm_attempts s' = lm_attempts s @ [ae] \<and>
      lm_auth s' = lm_auth s" if "skip_attempt (lm_auth s) c = Some ae" for s c ae
    using that by (simp add: serve_messages_step_def)
qed (rule stream_step_Continue)

section \<open>How a streaming request ends\<close>

lemma serve_messages_step_Return:
  assumes "serve_messages_step env upstream w c s = Return (Some e)" and "skip_attempt (lm_auth s) c = None"
  obtains (refused) msg rows s' where "e = refuse msg rows w s'"
      "rows = [] \<or> (\<exists>atts cls el. rows = [messages_failure_row env atts cls el])"
  | (cancelled) s' where "e = \<lparr>mx_w = w, mx_usage = [], mx_conts = s'\<rparr>"
  | (streamed) s' me where "e = messages_committed env c (upstream (length (lm_attempts s)) c) s' me"
      "lm_attempts s' = lm_attempts s"
      "precommit_and_stream_messages (me_lib env) (mc_ids (upstream (length (lm_attempts s)) c))
         (normalize_stream_error (me_registry env) c) (pa_requested_model (me_parsed env)) c
         (Suc (length (lm_attempts s))) (sn_generation (me_snap env))
         (sc_ticks (upstream (length (lm_attempts s)) c)) w = Some (MessagesCommitted me)"
proof -
  let ?call = "upstream (length (lm_attempts s)) c"
  obtain body conts where b: "upstream_body env c (mc_load_now ?call) (lm_conts s) = (body, conts)"
    by (cases "upstream_body env c (mc_load_now ?call) (lm_conts s)")
  show ?thesis
  proof (cases body)
    case (Inl f)
    with assms b show ?thesis by (intro refused) (auto simp: serve_messages_step_def Let_def)
  next
    case (Inr bytes)
    show ?thesis
    proof (cases "sc_dial_error ?call")
      case (Some err)
      with assms b Inr have "\<exists>msg s'. e = refuse msg [] w s'"
        by (auto simp: serve_messages_step_def Let_def split: if_splits)
      then show ?thesis using refused by blast
    next
      case None
      note st = assms b Inr None
      let ?p = "precommit_and_stream_messages (me_lib env) (mc_ids ?call)
         (normalize_stream_error (me_registry env) c) (pa_requested_model (me_parsed env)) c
         (Suc (length (lm_attempts s))) (sn_generation (me_snap env)) (sc_ticks ?call) w"
      consider (nc) fail where "?p = Some (MessagesNotCommitted fail)" | (co) me where "?p = Some (MessagesCommitted me)"
        using st by (auto simp: serve_messages_step_def Let_def split: if_splits option.splits messages_attempt_end.splits)
      then show ?thesis
      proof cases
        case nc
        with st have "(\<exists>msg atts cls el s'. e = refuse msg [messages_failure_row env atts cls el] w s') \<or>
            (\<exists>s'. e = \<lparr>mx_w = w, mx_usage = [], mx_conts = s'\<rparr>)"
          by (simp add: serve_messages_step_def Let_def split: if_splits) blast+
        then show ?thesis using refused cancelled by blast
      next
        case co
        with st have "e = messages_committed env c ?call (s\<lparr>lm_conts := conts\<rparr>) me"
          by (auto simp: serve_messages_step_def Let_def split: if_splits)
        with co show ?thesis by (intro streamed [of "s\<lparr>lm_conts := conts\<rparr>"]) simp_all
      qed
    qed
  qed
qed

lemma refuse_sel [simp]:
  "rw_status (mx_w (refuse msg rows new_response s)) = Some 400"
  "length (rw_chunks (mx_w (refuse msg rows new_response s))) = 1"
  "mx_usage (refuse msg rows w s) = rows"
  by (simp_all add: refuse_def anthropic_write_error_def new_response_def)

lemma messages_all_failed_sel [simp]:
  "rw_status (mx_w (messages_all_failed env el new_response s)) =
     Some (if all_key_missing (lm_attempts s) then 503 else 502)"
  "length (rw_chunks (mx_w (messages_all_failed env el new_response s))) = 1"
  "mx_usage (messages_all_failed env el w s) = [messages_failure_row env (lm_attempts s) ''upstream'' el]"
  by (simp_all add: messages_all_failed_def anthropic_write_error_def new_response_def)

lemma failure_row_failed [simp]: "\<not> us_success (fst (messages_failure_row env atts cls el))"
  "usage_ok (messages_failure_row env atts cls el)"
  by (simp_all add: messages_failure_row_def failure_row_def usage_row_def usage_ok_def to_usage_attempts_index del: upt_Suc)

lemma messages_committed_sel:
  "mx_w (messages_committed env c call s (st, ok, cls)) = om_w st"
  "\<exists>row. mx_usage (messages_committed env c call s (st, ok, cls)) = [row] \<and> usage_ok row \<and>
     us_success (fst row) = ok \<and> us_error_class (fst row) = cls \<and> us_routed_model (fst row) = cd_local_model_id c \<and>
     us_in_tokens (fst row) = wrap64 (en_input_tokens (om_enc st) + en_cache_creation (om_enc st) + en_cache_read (om_enc st)) \<and>
     us_out_tokens (fst row) = en_output_tokens (om_enc st)"
  by (auto simp: messages_committed_def messages_row_def Let_def usage_row_def usage_ok_def
      to_usage_attempts_index anthropic_stream_result_def)

lemma serve_messages_stream_cases:
  assumes "serve_messages_stream env upstream elapsed conts new_response = Some e"
  obtains
    (streamed) ds c es s' me where "me_candidates env = ds @ c # es" "skip_attempt [] c = None"
      "e = messages_committed env c (upstream (length ds) c) s' me"
      "precommit_and_stream_messages (me_lib env) (mc_ids (upstream (length ds) c))
         (normalize_stream_error (me_registry env) c) (pa_requested_model (me_parsed env)) c
         (Suc (length ds)) (sn_generation (me_snap env)) (sc_ticks (upstream (length ds) c)) new_response =
       Some (MessagesCommitted me)"
  | (failed) "rw_status (mx_w e) \<in> {Some 400, Some 502, Some 503}" "length (rw_chunks (mx_w e)) = 1"
      "mx_usage e = [] \<or> (\<exists>row. mx_usage e = [row] \<and> usage_ok row \<and> \<not> us_success (fst row))"
  | (gone) "mx_w e = new_response" "mx_usage e = []"
proof (cases "for_range (serve_messages_step env upstream new_response) (me_candidates env) (messages_start conts)")
  case (Continue s)
  with assms have "e = messages_all_failed env elapsed new_response s" by (simp add: serve_messages_stream_def)
  then show ?thesis by (intro failed) (simp_all)
next
  case (Return r)
  with assms have r: "r = Some e" by (simp add: serve_messages_stream_def)
  obtain ds c es s' new where h: "me_candidates env = ds @ c # es"
    "serve_messages_step env upstream new_response c s' = Return (Some e)"
    and "for_range (serve_messages_step env upstream new_response) ds (messages_start conts) = Continue s'"
    and att: "lm_attempts s' = lm_attempts (messages_start conts) @ new"
    and new: "map ae_candidate new = map cd_local_model_id ds" "list_all (\<lambda>ae. ae_class ae \<noteq> ErrorClient) new"
    and skip: "skip_attempt (lm_auth s') c = None"
    by (rule messages_loop.returns_at [OF Return [unfolded r]])
  have len: "length (lm_attempts s') = length ds" using att new(1) by (metis append_Nil length_map lm_sel(6))
  have c: "skip_attempt [] c = None" using skip by (simp add: skip_attempt_def split: if_splits)
  from h(2) skip show ?thesis
  proof (cases rule: serve_messages_step_Return)
    case (refused msg rows s2)
    then have "rows = [] \<or> (\<exists>row. rows = [row] \<and> usage_ok row \<and> \<not> us_success (fst row))"
      using failure_row_failed by blast
    with refused(1) show ?thesis by (intro failed) simp_all
  next
    case (cancelled s2)
    then show ?thesis by (intro gone) simp_all
  next
    case (streamed s2 me)
    with h(1) c len show ?thesis by (intro that(1) [of ds c es s2 me]) simp_all
  qed
qed

section \<open>Properties\<close>

text \<open>
  C27 (a Messages stream is the encoder's, of one candidate). A streaming Messages request that ends
  got one JSON error, or nothing because the client left, or a stream. What is left of the stream
  without the pings is what the encoder makes of a gapless prefix of one candidate's events, plus
  at most one error event of the gateway; it is a run of the Messages grammar, and a finished one
  unless the client left. The single usage row is a success exactly if the encoder's stream is.
\<close>

theorem messages_stream_refines_encoder:
  assumes "serve_messages_stream env upstream elapsed conts new_response = Some e"
  shows "(rw_status (mx_w e) \<in> {Some 400, Some 502, Some 503} \<and> length (rw_chunks (mx_w e)) = 1) \<or>
    (mx_w e = new_response \<and> mx_usage e = []) \<or>
    (\<exists>ds c es evs rest errs out enc p row. me_candidates env = ds @ c # es \<and> rw_status (mx_w e) = Some 200 \<and>
       recvs (map tk_input (sc_ticks (upstream (length ds) c))) = evs @ rest \<and>
       encode_message (ml_decode (me_lib env)) (si_message_id (mc_ids (upstream (length ds) c)))
         (pa_requested_model (me_parsed env)) evs = (out, enc) \<and>
       spoken (mx_w e) = map event_chunk (out @ errs) \<and> length errs \<le> 1 \<and>
       proto_run (out @ errs) Fresh = Some p \<and> mx_usage e = [row] \<and>
       (p = Over \<or> us_error_class (fst row) = ''client'') \<and>
       (us_success (fst row) \<longleftrightarrow> en_success enc) \<and> us_routed_model (fst row) = cd_local_model_id c)"
  using assms
proof (cases rule: serve_messages_stream_cases)
  case (streamed ds c es s' me)
  let ?call = "upstream (length ds) c"
  obtain evs rest errs where evs: "recvs (map tk_input (sc_ticks ?call)) = evs @ rest"
    and said: "message_said (me_lib env) (mc_ids ?call) (pa_requested_model (me_parsed env)) evs errs me"
    using committed_said [OF streamed(4)] by (auto simp: new_response_def)
  obtain st ok cls where me: "me = (st, ok, cls)" by (cases me)
  obtain out enc where enc: "encode_message (ml_decode (me_lib env)) (si_message_id (mc_ids ?call))
      (pa_requested_model (me_parsed env)) evs = (out, enc)"
    by (cases "encode_message (ml_decode (me_lib env)) (si_message_id (mc_ids ?call))
      (pa_requested_model (me_parsed env)) evs")
  have run: "proto_run out Fresh = Some (proto_of enc)" "en_started enc"
    using sound_encode_message [of "si_message_id (mc_ids ?call)" "pa_requested_model (me_parsed env)" "ml_decode (me_lib env)" evs] enc
    by (simp_all add: sound_def) (simp add: proto_of_def new_stream_encoder_def)
  obtain p where p: "proto_run (out @ errs) Fresh = Some p" "p = Over \<or> cls = ''client''" "length errs \<le> 1"
    using said run unfolding message_said_def me enc
    by (auto simp: proto_run_append proto_of_def split: if_splits)
  obtain row where row: "mx_usage e = [row]" "us_success (fst row) = ok" "us_error_class (fst row) = cls"
    "us_routed_model (fst row) = cd_local_model_id c" and w: "mx_w e = om_w st"
    using messages_committed_sel [of env c ?call s' st ok cls] streamed(3) me by auto
  have said': "rw_status (mx_w e) = Some 200" "spoken (mx_w e) = map event_chunk (out @ errs)" "ok \<longleftrightarrow> en_success enc"
    using said unfolding message_said_def me enc w by auto
  show ?thesis
    by (intro disjI2)
      (intro exI [of _ ds] exI [of _ c] exI [of _ es] exI [of _ evs] exI [of _ rest] exI [of _ errs] exI [of _ out]
        exI [of _ enc] exI [of _ p] exI [of _ row] conjI streamed(1) evs enc p said'(1,2) row(1,4);
       use p said' row in simp)
qed auto

text \<open>A stream of one candidate that says nothing, is pinged once and completes.\<close>

definition sample_lib :: messages_lib where
  "sample_lib = \<lparr>ml_decode = (\<lambda>s. Some quiet_event), ml_digest = (\<lambda>s. s), ml_show = (\<lambda>r. ''0''),
     ml_request_text = (\<lambda>f. []), ml_translate_text = (\<lambda>f. [])\<rparr>"

definition empty_request :: message_request where
  "empty_request = \<lparr>mr_model = ''coding'', mr_max_tokens = 1, mr_messages = [], mr_system = None, mr_tools = [],
     mr_tool_choice = None, mr_stream = True, mr_thinking = None, mr_output_config = None, mr_temperature = None,
     mr_top_p = None, mr_stop_sequences = [], mr_metadata = None\<rparr>"

definition sample_messages_env :: messages_env where
  "sample_messages_env =
     \<lparr>me_lib = sample_lib, me_registry = default_registry, me_snap = sample_snapshot, me_req_id = ''q'',
      me_parsed = \<lparr>pa_raw = ''{}'', pa_typed = empty_request, pa_requested_model = ''coding'', pa_stream = True,
        pa_requirements = no_requirements, pa_session_id = []\<rparr>,
      me_candidates = [sample_candidate]\<rparr>"

definition sample_ids :: stream_ids where
  "sample_ids = \<lparr>si_message_id = ''1'', si_call_ids = (\<lambda>n. ''2''), si_provider_reasoning = None\<rparr>"

definition sample_message_call :: "nat \<Rightarrow> candidate \<Rightarrow> message_stream_call" where
  "sample_message_call n c = stream_call.extend (sample_stream n c) \<lparr>mc_load_now = (\<lambda>i. 0), mc_ids = sample_ids\<rparr>"

lemma sample_messages_served:
  "map_option (\<lambda>e. (rw_status (mx_w e), length (spoken (mx_w e)), length (rw_chunks (mx_w e))))
     (serve_messages_stream sample_messages_env sample_message_call 3 new_continuations new_response) =
   Some (Some 200, 3, 4)"
  by code_simp

theorem messages_stream_refines_encoder_witness:
  "\<exists>e out errs p. serve_messages_stream sample_messages_env sample_message_call 3 new_continuations new_response = Some e \<and>
     spoken (mx_w e) = map event_chunk (out @ errs) \<and> proto_run (out @ errs) Fresh = Some p \<and> length (out @ errs) = 3"
proof -
  obtain e where e: "serve_messages_stream sample_messages_env sample_message_call 3 new_continuations new_response = Some e"
    and st: "rw_status (mx_w e) = Some 200" "length (spoken (mx_w e)) = 3"
    using sample_messages_served by auto
  have "mx_w e \<noteq> new_response" using st(1) by (auto simp: new_response_def)
  with messages_stream_refines_encoder [OF e] st(1) obtain out errs p where
    "spoken (mx_w e) = map event_chunk (out @ errs)" "proto_run (out @ errs) Fresh = Some p" by auto
  with e st(2) show ?thesis by (metis length_map)
qed

end
