(* ===== verification/Json_Roundtrip.thy ===== *)
theory Json_Roundtrip
  imports Json
begin

text \<open>
  What is marshalled is parsed back: the scanner reads the bytes of every value the code marshals,
  raw messages apart, as the tree of that value, with each member's own bytes.
\<close>

section \<open>Strings\<close>

definition escaped :: "char \<Rightarrow> bool" where
  "escaped c \<longleftrightarrow> byte c < 32 \<and> c \<notin> {CHR 0x08, CHR 0x0C, CHR 0x0A, CHR 0x0D, CHR 0x09} \<or>
     c \<in> {CHR ''<'', CHR ''>'', CHR 0x26}"

definition unit_of :: "char \<Rightarrow> str_unit" where
  "unit_of c = (if escaped c then Unit (byte c) else Byte c)"

lemma byte_less: "byte c < 256"
  by (simp add: byte_def)

lemma char_of_byte [simp]: "char_of (byte c) = c"
  by (simp add: byte_def)

lemma byte_eq_iff: "byte c = byte d \<longleftrightarrow> c = d"
  by (simp add: byte_def)

lemma hex_value_digit: "n < 16 \<Longrightarrow> hex_value (hex_digit n) = Some n"
  by (simp add: hex_value_def hex_digit_def is_digit_def byte_def)

lemma escaped_byte: "escaped c \<Longrightarrow> byte c < 128"
  by (auto simp: escaped_def byte_def)

lemma scan_hex:
  assumes "byte c < 128"
  shows "hex4 (CHR ''0'') (CHR ''0'') (hex_digit (byte c div 16)) (hex_digit (byte c mod 16)) = Some (byte c)"
proof -
  have "hex_value (CHR ''0'') = Some 0" by code_simp
  with assms show ?thesis by (simp add: hex4_def hex_value_digit)
qed

lemma escaped_char:
  assumes "escaped c"
  shows "escape_char c = [CHR 0x5C, CHR ''u'', CHR ''0'', CHR ''0'', hex_digit (byte c div 16), hex_digit (byte c mod 16)]"
proof (cases "c \<in> {CHR ''<'', CHR ''>'', CHR 0x26}")
  case True
  then show ?thesis by (auto simp: escape_char_def)
next
  case False
  with assms have b: "byte c < 32" and n: "c \<notin> {CHR 0x08, CHR 0x0C, CHR 0x0A, CHR 0x0D, CHR 0x09}"
    unfolding escaped_def by blast+
  have "byte (CHR 0x22) = 34" "byte (CHR 0x5C) = 92" by code_simp+
  with b have "c \<noteq> CHR 0x22" "c \<noteq> CHR 0x5C" by auto
  with b n show ?thesis by (simp add: escape_char_def)
qed

lemma escape_simple:
  assumes "c \<in> {CHR 0x22, CHR 0x5C, CHR 0x08, CHR 0x0C, CHR 0x0A, CHR 0x0D, CHR 0x09}"
  obtains e where "escape_char c = [CHR 0x5C, e]" "e \<noteq> CHR ''u''" "simple_escape e = Some c"
  using assms by (auto simp: escape_char_def simple_escape_def)

lemma scan_simple:
  assumes "e \<noteq> CHR ''u''" and "simple_escape e = Some b"
  shows "scan_string (CHR 0x5C # e # t) = map_option (\<lambda>(us, r). (Byte b # us, r)) (scan_string t)"
  by (subst scan_string.simps(2)) (simp add: assms del: scan_string.simps)

lemma scan_unicode:
  assumes "hex4 a b c d = Some n"
  shows "scan_string (CHR 0x5C # CHR ''u'' # a # b # c # d # t) = map_option (\<lambda>(us, r). (Unit n # us, r)) (scan_string t)"
  by (subst scan_string.simps(2)) (simp add: assms del: scan_string.simps)

lemma scan_escape_char:
  "scan_string (escape_char c @ t) = map_option (\<lambda>(us, r). (unit_of c # us, r)) (scan_string t)"
proof (cases "escaped c")
  case True
  then show ?thesis
    using scan_unicode [OF scan_hex [OF escaped_byte [OF True]]]
    by (simp add: escaped_char unit_of_def del: scan_string.simps)
next
  case False
  then have u: "unit_of c = Byte c" by (simp add: unit_of_def)
  show ?thesis
  proof (cases "c \<in> {CHR 0x22, CHR 0x5C, CHR 0x08, CHR 0x0C, CHR 0x0A, CHR 0x0D, CHR 0x09}")
    case True
    then obtain e where e: "escape_char c = [CHR 0x5C, e]" "e \<noteq> CHR ''u''" "simple_escape e = Some c"
      by (rule escape_simple)
    from scan_simple [OF e(2,3)] show ?thesis unfolding u e(1) by (simp del: scan_string.simps)
  next
    case F: False
    with False have b: "\<not> byte c < 32" "c \<noteq> CHR ''<''" "c \<noteq> CHR ''>''" "c \<noteq> CHR 0x26"
      by (simp_all add: escaped_def)
    from F have n: "c \<noteq> CHR 0x22" "c \<noteq> CHR 0x5C" by simp_all
    from F b have "escape_char c = [c]" by (simp add: escape_char_def)
    then show ?thesis unfolding u by (simp add: b n)
  qed
qed

lemma join_unit_of: "join_units (unit_of c # us) = c # join_units us"
proof (cases "escaped c")
  case True
  with escaped_byte [OF True] show ?thesis by (simp add: unit_of_def utf8_def)
next
  case False
  then show ?thesis by (simp add: unit_of_def)
qed

lemma hex_values:
  "hex_value (CHR ''0'') = Some 0" "hex_value (CHR ''2'') = Some 2"
  "hex_value (CHR ''8'') = Some 8" "hex_value (CHR ''9'') = Some 9"
  by code_simp+

lemma separators:
  "hex4 (CHR ''2'') (CHR ''0'') (CHR ''2'') (CHR ''8'') = Some 0x2028"
  "hex4 (CHR ''2'') (CHR ''0'') (CHR ''2'') (CHR ''9'') = Some 0x2029"
  by (simp_all add: hex4_def hex_values)

lemma separator_bytes:
  "utf8 0x2028 = [CHR 0xE2, CHR 0x80, CHR 0xA8]" "utf8 0x2029 = [CHR 0xE2, CHR 0x80, CHR 0xA9]"
  by (simp_all add: utf8_def char_of_def bit_0)

lemma join_basic: "n < 0xD800 \<Longrightarrow> join_units (Unit n # us) = utf8 n @ join_units us"
  by (subst join_units.simps(3)) simp

definition reads_string :: "string \<Rightarrow> string \<Rightarrow> bool" where
  "reads_string e s \<longleftrightarrow> (\<forall>r. \<exists>us. scan_string (e @ CHR 0x22 # r) = Some (us, r) \<and> join_units us = s)"

lemma reads_Nil: "reads_string [] []"
  by (simp add: reads_string_def)

lemma reads_char: "reads_string e s \<Longrightarrow> reads_string (escape_char c @ e) (c # s)"
  unfolding reads_string_def append_assoc scan_escape_char
  by (metis (no_types, lifting) join_unit_of option.simps(9) split_conv)

lemma reads_unicode:
  assumes "reads_string e s" and "hex4 a b c d = Some n" and "n < 0xD800"
  shows "reads_string (CHR 0x5C # CHR ''u'' # a # b # c # d # e) (utf8 n @ s)"
  unfolding reads_string_def
proof
  fix r
  obtain us where "scan_string (e @ CHR 0x22 # r) = Some (us, r)" "join_units us = s"
    using assms(1) unfolding reads_string_def by blast
  then show "\<exists>us. scan_string ((CHR 0x5C # CHR ''u'' # a # b # c # d # e) @ CHR 0x22 # r) = Some (us, r) \<and>
      join_units us = utf8 n @ s"
    using scan_unicode [OF assms(2)] join_basic [OF assms(3)]
    by (intro exI [of _ "Unit n # us"]) (simp del: scan_string.simps join_units.simps)
qed

lemma reads_separator:
  assumes "reads_string e s"
  shows "reads_string ([CHR 0x5C] @ ''u2028'' @ e) (CHR 0xE2 # CHR 0x80 # CHR 0xA8 # s)"
    and "reads_string ([CHR 0x5C] @ ''u2029'' @ e) (CHR 0xE2 # CHR 0x80 # CHR 0xA9 # s)"
  using reads_unicode [OF assms separators(1)] reads_unicode [OF assms separators(2)]
  by (simp_all add: separator_bytes)

lemma escape_separators:
  "escape_string (CHR 0xE2 # CHR 0x80 # CHR 0xA8 # s) = [CHR 0x5C] @ ''u2028'' @ escape_string s"
  "escape_string (CHR 0xE2 # CHR 0x80 # CHR 0xA9 # s) = [CHR 0x5C] @ ''u2029'' @ escape_string s"
  by simp_all

lemma reads_escape_string: "reads_string (escape_string s) s"
proof (induction s rule: escape_string.induct)
  case 1
  then show ?case by (simp add: reads_Nil)
next
  case (2 c)
  then show ?case using reads_char [OF reads_Nil, of c] by simp
next
  case (3 c d)
  then show ?case using reads_char [OF reads_char [OF reads_Nil, of d], of c] by simp
next
  case (4 c d e s)
  show ?case
  proof (cases "c = CHR 0xE2 \<and> d = CHR 0x80 \<and> (e = CHR 0xA8 \<or> e = CHR 0xA9)")
    case True
    with 4(1) have IH: "reads_string (escape_string s) s" by blast
    from True have "c = CHR 0xE2" "d = CHR 0x80" by simp_all
    moreover from True have "e = CHR 0xA8 \<or> e = CHR 0xA9" by blast
    ultimately show ?thesis
      using reads_separator [OF IH] unfolding escape_separators [symmetric] by blast
  next
    case False
    with 4(2) have "reads_string (escape_string (d # e # s)) (d # e # s)" by blast
    with reads_char [of _ "d # e # s" c] False show ?thesis by (simp only: escape_string.simps if_False)
  qed
qed

section \<open>Numbers\<close>

lemma digit_char: "(m :: nat) < 10 \<Longrightarrow> is_digit (char_of (48 + m))" "m < 10 \<Longrightarrow> char_of (48 + m) = CHR ''0'' \<longleftrightarrow> m = 0"
proof -
  assume m: "m < 10"
  then have b: "byte (char_of (48 + m)) = 48 + m" by (simp add: byte_def)
  with m show "is_digit (char_of (48 + m))" by (simp add: is_digit_def)
  have "byte (CHR ''0'') = 48" by code_simp
  with b show "char_of (48 + m) = CHR ''0'' \<longleftrightarrow> m = 0" by (metis add_cancel_right_right byte_eq_iff)
qed

lemma nat_digits_digits: "list_all is_digit (nat_digits n)"
proof (induction n rule: nat_digits.induct)
  case (1 n)
  show ?case
  proof (cases "n < 10")
    case True
    then show ?thesis by (simp add: nat_digits.simps [of n] digit_char)
  next
    case False
    with 1 show ?thesis by (simp add: nat_digits.simps [of n] digit_char)
  qed
qed

lemma nat_digits_not_Nil [simp]: "nat_digits n \<noteq> []"
  by (simp add: nat_digits.simps [of n])

lemma nat_digits_head: "hd (nat_digits n) = CHR ''0'' \<longleftrightarrow> n = 0"
proof (induction n rule: nat_digits.induct)
  case (1 n)
  show ?case
  proof (cases "n < 10")
    case True
    then show ?thesis by (simp add: nat_digits.simps [of n] digit_char)
  next
    case False
    with 1 [OF False] show ?thesis by (simp add: nat_digits.simps [of n])
  qed
qed

text \<open>What may follow a number without becoming part of it.\<close>

definition ends_number :: "string \<Rightarrow> bool" where
  "ends_number r \<longleftrightarrow> (case r of [] \<Rightarrow> True
     | c # _ \<Rightarrow> \<not> is_digit c \<and> c \<noteq> CHR ''.'' \<and> c \<noteq> CHR ''e'' \<and> c \<noteq> CHR ''E'')"

lemma scan_digits_append:
  assumes "list_all is_digit ds" and "ends_number r"
  shows "scan_digits (ds @ r) = (ds, r)"
proof -
  have "takeWhile is_digit r = [] \<and> dropWhile is_digit r = r"
    using assms(2) by (cases r) (auto simp: ends_number_def)
  with assms(1) show ?thesis
    by (simp add: scan_digits_def list_all_iff takeWhile_append2 dropWhile_append2)
qed

lemma scan_rest_of_number:
  assumes "ends_number r"
  shows "scan_fraction r = Some ([], r)" and "scan_exponent r = Some ([], r)"
  using assms by (cases r; auto simp: scan_fraction_def scan_exponent_def ends_number_def)+

lemma digit_not: "is_digit c \<Longrightarrow> c \<noteq> CHR ''-'' \<and> c \<noteq> CHR 0x22 \<and> c \<noteq> CHR ''['' \<and> c \<noteq> CHR ''{'' \<and>
    c \<noteq> CHR ''n'' \<and> c \<noteq> CHR ''t'' \<and> c \<noteq> CHR ''f'' \<and> c \<noteq> CHR '']'' \<and> c \<noteq> CHR ''}'' \<and> \<not> json_space c"
  by (auto simp: is_digit_def json_space_def byte_def)

lemma nat_digits_Cons:
  obtains c t where "nat_digits n = c # t" "is_digit c"
  using nat_digits_digits [of n] nat_digits_not_Nil [of n] by (cases "nat_digits n") auto

lemma nat_digits_no_zero: "\<not> (hd (nat_digits n) = CHR ''0'' \<and> 1 < length (nat_digits n))"
  unfolding nat_digits_head by (auto simp: nat_digits.simps [of n])

lemma scan_itoa:
  assumes "ends_number r"
  shows "scan_number (itoa i @ r) = Some (itoa i, r)"
proof -
  have d: "scan_digits (nat_digits n @ r) = (nat_digits n, r)" for n
    by (rule scan_digits_append [OF nat_digits_digits assms])
  show ?thesis
  proof (cases "i < 0")
    case True
    then show ?thesis
      using nat_digits_no_zero [of "nat (- i)"]
      by (simp add: itoa_def scan_number_def d scan_rest_of_number [OF assms])
  next
    case False
    obtain c t where c: "nat_digits (nat i) = c # t" "is_digit c" by (rule nat_digits_Cons)
    have "(case nat_digits (nat i) @ r of [] \<Rightarrow> ([], [])
        | c # t \<Rightarrow> if c = CHR ''-'' then ([c], t) else ([], nat_digits (nat i) @ r)) = ([], nat_digits (nat i) @ r)"
      using c digit_not [OF c(2)] by simp
    with False show ?thesis
      using nat_digits_no_zero [of "nat i"]
      by (simp add: itoa_def scan_number_def d scan_rest_of_number [OF assms] Let_def)
  qed
qed

section \<open>Values\<close>

text \<open>The tree of a marshalled value: members and elements keep their own bytes.\<close>

fun tree_of :: "jval \<Rightarrow> json" where
  "tree_of VNull = JNull"
| "tree_of (VBool b) = JBool b"
| "tree_of (VInt i) = JNum (itoa i)"
| "tree_of (VStr s) = JStr s"
| "tree_of (VArr vs) = JArr (map (\<lambda>v. (marshal v, tree_of v)) vs)"
| "tree_of (VObj ms) = JObj (map (\<lambda>(k, v). (k, (marshal v, tree_of v))) ms)"
| "tree_of (VRaw s) = JObj []"

text \<open>The only raw message allowed is the empty object.\<close>

fun plain_value :: "jval \<Rightarrow> bool" where
  "plain_value (VArr vs) = list_all plain_value vs"
| "plain_value (VObj ms) = list_all (\<lambda>(k, v). plain_value v) ms"
| "plain_value (VRaw s) = (s = ''{}'')"
| "plain_value v = True"

definition opens_value :: "char \<Rightarrow> bool" where
  "opens_value c \<longleftrightarrow> is_digit c \<or> c \<in> {CHR ''-'', CHR ''n'', CHR ''t'', CHR ''f'', CHR 0x22, CHR ''['', CHR ''{''}"

lemma opens_value_not: "opens_value c \<Longrightarrow> \<not> json_space c \<and> c \<noteq> CHR '']'' \<and> c \<noteq> CHR ''}''"
  by (auto simp: opens_value_def json_space_def byte_def is_digit_def)

lemma itoa_head: "\<exists>c t. itoa i = c # t \<and> (is_digit c \<or> c = CHR ''-'')"
proof (cases "i < 0")
  case False
  obtain c t where "nat_digits (nat i) = c # t" "is_digit c" by (rule nat_digits_Cons)
  with False show ?thesis by (simp add: itoa_def)
qed (simp add: itoa_def)

lemma empty_object: "json_compact ''{}'' = ''{}''"
  by code_simp

lemma marshal_head:
  assumes "plain_value v"
  shows "\<exists>c t. marshal v = c # t \<and> opens_value c"
proof (cases v)
  case (VInt i)
  then show ?thesis using itoa_head [of i] by (auto simp: opens_value_def)
next
  case (VRaw s)
  with assms show ?thesis by (simp add: empty_object opens_value_def)
next
  case (VBool b)
  then show ?thesis by (cases b) (simp_all add: opens_value_def)
qed (simp_all add: quote_string_def opens_value_def)

lemma marshal_not_Nil: "plain_value v \<Longrightarrow> marshal v \<noteq> []"
  using marshal_head [of v] by auto

lemma skip_marshal: "plain_value v \<Longrightarrow> skip_space (marshal v @ r) = marshal v @ r"
  using marshal_head [of v] opens_value_not by (fastforce simp: skip_space_def)

lemma consumed_append [simp]: "consumed (s @ r) r = s"
  by (simp add: consumed_def)

definition reads :: "jval \<Rightarrow> bool" where
  "reads v \<longleftrightarrow> (\<forall>n r. 2 * length (marshal v) \<le> n \<longrightarrow> ends_number r \<longrightarrow>
     scan_value n (marshal v @ r) = Some (tree_of v, r))"

lemma readsD: "reads v \<Longrightarrow> 2 * length (marshal v) \<le> n \<Longrightarrow> ends_number r \<Longrightarrow>
    scan_value n (marshal v @ r) = Some (tree_of v, r)"
  by (simp add: reads_def)

lemma ends_punct: "c = CHR '','' \<or> c = CHR '']'' \<or> c = CHR ''}'' \<Longrightarrow> ends_number (c # r) \<and> skip_space (c # r) = c # r"
  by (auto simp: ends_number_def is_digit_def byte_def skip_space_def json_space_def)

lemma scan_quoted:
  "\<exists>us. scan_string (escape_string s @ CHR 0x22 # r) = Some (us, r) \<and> join_units us = s"
  using reads_escape_string [of s] by (simp add: reads_string_def)

lemma has_prefix_Cons: "has_prefix (c # s) (d # p) \<longleftrightarrow> c = d \<and> has_prefix s p"
  by (auto simp: has_prefix_iff)

lemma reads_by:
  assumes "plain_value v" and "\<And>n r. ends_number r \<Longrightarrow> scan_value (Suc n) (marshal v @ r) = Some (tree_of v, r)"
  shows "reads v"
  unfolding reads_def
proof (intro allI impI)
  fix n r
  assume "2 * length (marshal v) \<le> n" and r: "ends_number r"
  with marshal_not_Nil [OF assms(1)] obtain m where "n = Suc m" by (cases n) auto
  with assms(2) [OF r] show "scan_value n (marshal v @ r) = Some (tree_of v, r)" by blast
qed

lemma reads_scalars: "reads VNull" "reads (VBool b)" "reads (VRaw ''{}'')"
  by (rule reads_by; simp add: has_prefix_Cons empty_object skip_space_def json_space_def byte_def)+

lemma reads_str: "reads (VStr s)"
proof (rule reads_by)
  fix n r
  obtain us where "scan_string (escape_string s @ CHR 0x22 # r) = Some (us, r)" "join_units us = s"
    using scan_quoted by blast
  then show "scan_value (Suc n) (marshal (VStr s) @ r) = Some (tree_of (VStr s), r)"
    by (simp add: quote_string_def del: scan_string.simps)
qed simp

lemma reads_int: "reads (VInt i)"
proof (rule reads_by)
  fix n r
  assume r: "ends_number r"
  obtain c t where c: "itoa i = c # t" "is_digit c \<or> c = CHR ''-''" using itoa_head by blast
  from c(2) have k: "c \<noteq> CHR 0x22" "c \<noteq> CHR ''[''" "c \<noteq> CHR ''{''" "c \<noteq> CHR ''n''" "c \<noteq> CHR ''t''" "c \<noteq> CHR ''f''"
    using digit_not by auto
  have "scan_number (c # t @ r) = Some (c # t, r)" using scan_itoa [OF r, of i] c(1) by simp
  then show "scan_value (Suc n) (marshal (VInt i) @ r) = Some (tree_of (VInt i), r)"
    using k by (simp add: c(1) has_prefix_Cons)
qed simp

lemma reads_elements:
  assumes "vs \<noteq> []" and "\<forall>v\<in>set vs. reads v \<and> plain_value v"
    and "2 * length (join_with '','' (map marshal vs)) + 1 \<le> n"
  shows "scan_elements n (join_with '','' (map marshal vs) @ CHR '']'' # r) =
    Some (map (\<lambda>v. (marshal v, tree_of v)) vs, r)"
  using assms
proof (induction vs arbitrary: n)
  case Nil
  then show ?case by simp
next
  case (Cons v vs)
  then obtain m where m: "n = Suc m" by (cases n) auto
  note e = ends_punct [of "CHR '',''"] ends_punct [of "CHR '']''"]
  have v: "reads v" "plain_value v" using Cons.prems(2) by auto
  show ?case
  proof (cases vs)
    case Nil
    have "scan_value m (marshal v @ CHR '']'' # r) = Some (tree_of v, CHR '']'' # r)"
      using Cons.prems(3) e m Nil by (intro readsD [OF v(1)]) auto
    with e show ?thesis by (simp add: m Nil)
  next
    case (Cons w ws)
    let ?j = "join_with '','' (map marshal vs)"
    have "scan_value m (marshal v @ CHR '','' # ?j @ CHR '']'' # r) = Some (tree_of v, CHR '','' # ?j @ CHR '']'' # r)"
      using Cons.prems(3) e m Cons by (intro readsD [OF v(1)]) auto
    moreover have "scan_elements m (?j @ CHR '']'' # r) = Some (map (\<lambda>v. (marshal v, tree_of v)) vs, r)"
      using Cons.prems m Cons by (intro Cons.IH) auto
    moreover have "skip_space (?j @ CHR '']'' # r) = ?j @ CHR '']'' # r"
    proof -
      obtain u where "?j = marshal w @ u" by (cases ws) (auto simp: Cons)
      then show ?thesis using skip_marshal [of w] Cons.prems(2) Cons by simp
    qed
    ultimately show ?thesis using e Cons by (simp add: m)
  qed
qed

definition member_bytes :: "string \<times> jval \<Rightarrow> string" where
  "member_bytes m = quote_string (fst m) @ '':'' @ marshal (snd m)"

lemma marshal_object: "marshal (VObj ms) = ''{'' @ join_with '','' (map member_bytes ms) @ ''}''"
  by (simp add: member_bytes_def [abs_def] case_prod_beta')

lemma skip_quote: "skip_space (quote_string k @ r) = quote_string k @ r"
  by (simp add: quote_string_def skip_space_def json_space_def byte_def)

definition member_tree :: "string \<times> jval \<Rightarrow> string \<times> (string \<times> json)" where
  "member_tree m = (fst m, (marshal (snd m), tree_of (snd m)))"

lemma scan_member:
  assumes "reads v" and "plain_value v" and "2 * length (marshal v) \<le> n" and "ends_number r"
    and "skip_space r = c # t" and "c \<noteq> CHR 0x22"
  shows "scan_members (Suc n) (member_bytes (k, v) @ r) =
    (if c = CHR ''}'' then Some ([member_tree (k, v)], t)
     else if c = CHR '','' then map_option (\<lambda>(ms, q). (member_tree (k, v) # ms, q)) (scan_members n (skip_space t))
     else None)"
proof -
  obtain us where us: "scan_string (escape_string k @ CHR 0x22 # CHR '':'' # marshal v @ r) = Some (us, CHR '':'' # marshal v @ r)"
    "join_units us = k" using scan_quoted by blast
  have "skip_space (CHR '':'' # marshal v @ r) = CHR '':'' # marshal v @ r"
    by (simp add: skip_space_def json_space_def byte_def)
  with us readsD [OF assms(1,3,4)] skip_marshal [OF assms(2)] assms(5) show ?thesis
    by (simp add: member_bytes_def quote_string_def member_tree_def del: scan_string.simps)
qed

lemma reads_members:
  assumes "ms \<noteq> []" and "\<forall>m\<in>set ms. reads (snd m) \<and> plain_value (snd m)"
    and "2 * length (join_with '','' (map member_bytes ms)) + 1 \<le> n"
  shows "scan_members n (join_with '','' (map member_bytes ms) @ CHR ''}'' # r) = Some (map member_tree ms, r)"
  using assms
proof (induction ms arbitrary: n)
  case Nil
  then show ?case by simp
next
  case (Cons m ms)
  obtain k v where kv: "m = (k, v)" by (cases m)
  from Cons.prems obtain n' where n: "n = Suc n'" by (cases n) auto
  note e = ends_punct [of "CHR '',''"] ends_punct [of "CHR ''}''"]
  have v: "reads v" "plain_value v" using Cons.prems(2) kv by auto
  have l: "length (marshal v) \<le> length (member_bytes (k, v))" by (simp add: member_bytes_def)
  show ?case
  proof (cases ms)
    case Nil
    have "2 * length (marshal v) \<le> n'" using Cons.prems(3) l n Nil kv by simp
    from scan_member [OF v this, of "CHR ''}'' # r" "CHR ''}''" r k] e show ?thesis by (simp add: n Nil kv)
  next
    case (Cons w ws)
    let ?j = "join_with '','' (map member_bytes ms)"
    have "2 * length (marshal v) \<le> n'" using Cons.prems(3) l n Cons kv by simp
    from scan_member [OF v this, of "CHR '','' # ?j @ CHR ''}'' # r" "CHR '',''" "?j @ CHR ''}'' # r" k] e
    have "scan_members n (member_bytes (k, v) @ CHR '','' # ?j @ CHR ''}'' # r) =
        map_option (\<lambda>(ms, q). (member_tree (k, v) # ms, q)) (scan_members n' (skip_space (?j @ CHR ''}'' # r)))"
      by (simp add: n)
    moreover have "scan_members n' (?j @ CHR ''}'' # r) = Some (map member_tree ms, r)"
      using Cons.prems n Cons by (intro Cons.IH) auto
    moreover have "skip_space (?j @ CHR ''}'' # r) = ?j @ CHR ''}'' # r"
      using skip_quote by (cases ws) (auto simp: Cons member_bytes_def)
    ultimately show ?thesis using Cons by (simp add: kv)
  qed
qed

lemma reads_array:
  assumes "\<forall>v\<in>set vs. reads v \<and> plain_value v"
  shows "reads (VArr vs)"
proof (cases "vs = []")
  case True
  then show ?thesis by (intro reads_by) (simp_all add: skip_space_def json_space_def byte_def)
next
  case False
  let ?j = "join_with '','' (map marshal vs)"
  obtain w ws where w: "vs = w # ws" using False by (cases vs) auto
  obtain u where u: "?j = marshal w @ u" by (cases ws) (auto simp: w)
  obtain c t where c: "marshal w = c # t" "opens_value c" using marshal_head [of w] assms w by auto
  have s: "skip_space (?j @ CHR '']'' # r) = c # (t @ u @ CHR '']'' # r)" for r
    using skip_marshal [of w] assms w u c(1) by simp
  show ?thesis unfolding reads_def
  proof (intro allI impI)
    fix n r
    assume n: "2 * length (marshal (VArr vs)) \<le> n"
    then obtain m where m: "n = Suc m" by (cases n) auto
    from n m have "2 * length ?j + 1 \<le> m" by simp
    from reads_elements [OF False assms this, of r] s [of r] opens_value_not [OF c(2)]
    show "scan_value n (marshal (VArr vs) @ r) = Some (tree_of (VArr vs), r)"
      using u c(1) by (simp add: m)
  qed
qed

lemma reads_object:
  assumes "\<forall>m\<in>set ms. reads (snd m) \<and> plain_value (snd m)"
  shows "reads (VObj ms)"
proof (cases "ms = []")
  case True
  then show ?thesis by (intro reads_by) (simp_all add: skip_space_def json_space_def byte_def)
next
  case False
  let ?j = "join_with '','' (map member_bytes ms)"
  obtain w ws where w: "ms = w # ws" using False by (cases ms) auto
  obtain u where u: "?j = CHR 0x22 # u" by (cases ws) (auto simp: w member_bytes_def quote_string_def)
  have s: "skip_space (?j @ CHR ''}'' # r) = CHR 0x22 # (u @ CHR ''}'' # r)" for r
    by (simp add: u skip_space_def json_space_def byte_def)
  have t: "tree_of (VObj ms) = JObj (map member_tree ms)" by (simp add: member_tree_def [abs_def] case_prod_beta')
  show ?thesis unfolding reads_def marshal_object t
  proof (intro allI impI)
    fix n r
    assume n: "2 * length (''{'' @ ?j @ ''}'') \<le> n"
    then obtain m where m: "n = Suc m" by (cases n) auto
    from n m have "2 * length ?j + 1 \<le> m" by simp
    from reads_members [OF False assms this, of r] s [of r]
    show "scan_value n ((''{'' @ ?j @ ''}'') @ r) = Some (JObj (map member_tree ms), r)"
      using u by (simp add: m)
  qed
qed

lemma reads_plain: "plain_value v \<Longrightarrow> reads v"
proof (induction v)
  case (VArr vs)
  then show ?case by (intro reads_array) (auto simp: list_all_iff)
next
  case (VObj ms)
  show ?case
  proof (intro reads_object ballI)
    fix m
    assume m: "m \<in> set ms"
    with VObj.prems have "plain_value (snd m)" by (auto simp: list_all_iff)
    with VObj.IH [OF m, of "snd m"] show "reads (snd m) \<and> plain_value (snd m)" by (cases m) auto
  qed
qed (simp_all add: reads_scalars reads_str reads_int)

lemma parse_marshal: "plain_value v \<Longrightarrow> json_parse (marshal v) = Some (tree_of v)"
  using readsD [OF reads_plain, of v "2 * length (marshal v) + 2" "[]"] skip_marshal [of v "[]"]
  by (simp add: json_parse_def ends_number_def skip_space_def)

end
