(* ===== verification/Anthropic_Wire.thy ===== *)
theory Anthropic_Wire
  imports Json_Roundtrip Anthropic_Stream "HOL-Library.Monad_Syntax"
begin

text \<open>
  What a client reads from the rendered events of a Messages stream: a reader of the wire format,
  and the proof that it recovers the events the encoder emitted.
\<close>

section \<open>A reader of the wire format\<close>

type_synonym members = "(string \<times> raw_message) list"

definition int_literal :: "string \<Rightarrow> int" where
  "int_literal l = (case l of c # ds \<Rightarrow> if c = CHR ''-'' then - digits_value ds else digits_value l | [] \<Rightarrow> 0)"

definition num_at :: "string \<Rightarrow> members \<Rightarrow> int option" where
  "num_at k ms = (case map_of ms k of Some (_, JNum l) \<Rightarrow> Some (int_literal l) | _ \<Rightarrow> None)"

definition str_at :: "string \<Rightarrow> members \<Rightarrow> string option" where
  "str_at k ms = (case map_of ms k of Some (_, JStr s) \<Rightarrow> Some s | _ \<Rightarrow> None)"

definition obj_at :: "string \<Rightarrow> members \<Rightarrow> members option" where
  "obj_at k ms = (case map_of ms k of Some (_, JObj ns) \<Rightarrow> Some ns | _ \<Rightarrow> None)"

definition str_or_empty :: "string \<Rightarrow> members \<Rightarrow> string" where
  "str_or_empty k ms = (case str_at k ms of None \<Rightarrow> [] | Some s \<Rightarrow> s)"

definition read_usage :: "members \<Rightarrow> wire_usage option" where
  "read_usage ms =
     do { i \<leftarrow> num_at ''input_tokens'' ms; out \<leftarrow> num_at ''output_tokens'' ms;
          w \<leftarrow> num_at ''cache_creation_input_tokens'' ms; c \<leftarrow> num_at ''cache_read_input_tokens'' ms;
          Some \<lparr>wu_input_tokens = i, wu_output_tokens = out, wu_cache_creation = w, wu_cache_read = c\<rparr> }"

definition read_delta_usage :: "members \<Rightarrow> wire_delta_usage" where
  "read_delta_usage ms =
     \<lparr>du_input_tokens = num_at ''input_tokens'' ms, du_output_tokens = num_at ''output_tokens'' ms,
      du_cache_creation = num_at ''cache_creation_input_tokens'' ms,
      du_cache_read = num_at ''cache_read_input_tokens'' ms\<rparr>"

definition read_block :: "members \<Rightarrow> wire_content_block option" where
  "read_block ms =
     do { ty \<leftarrow> str_at ''type'' ms;
          Some \<lparr>wb_type = ty, wb_text = str_at ''text'' ms, wb_id = str_or_empty ''id'' ms,
                wb_name = str_or_empty ''name'' ms,
                wb_input = (case map_of ms ''input'' of None \<Rightarrow> [] | Some (b, _) \<Rightarrow> b)\<rparr> }"

definition read_element :: "raw_message \<Rightarrow> wire_content_block option" where
  "read_element r = (case snd r of JObj ms \<Rightarrow> read_block ms | _ \<Rightarrow> None)"

definition read_message :: "members \<Rightarrow> wire_message option" where
  "read_message ms =
     do { mid \<leftarrow> str_at ''id'' ms; ty \<leftarrow> str_at ''type'' ms; role \<leftarrow> str_at ''role'' ms;
          model \<leftarrow> str_at ''model'' ms; us \<leftarrow> obj_at ''usage'' ms; u \<leftarrow> read_usage us;
          bs \<leftarrow> (case map_of ms ''content'' of Some (_, JArr xs) \<Rightarrow> dec_all read_element xs | _ \<Rightarrow> None);
          Some \<lparr>wm_id = mid, wm_type = ty, wm_role = role, wm_content = bs, wm_model = model,
                wm_stop_reason = str_at ''stop_reason'' ms, wm_stop_sequence = str_at ''stop_sequence'' ms,
                wm_usage = u\<rparr> }"

definition read_delta :: "members \<Rightarrow> wire_delta option" where
  "read_delta ms =
     do { ty \<leftarrow> str_at ''type'' ms;
          if ty = ''text_delta'' then map_option TextDelta (str_at ''text'' ms)
          else if ty = ''input_json_delta'' then map_option InputJsonDelta (str_at ''partial_json'' ms)
          else None }"

definition read_members :: "string \<Rightarrow> members \<Rightarrow> wire_event option" where
  "read_members ty ms =
     (if ty = ''message_start'' then do { m \<leftarrow> obj_at ''message'' ms; map_option MessageStart (read_message m) }
      else if ty = ''content_block_start'' then
        do { i \<leftarrow> num_at ''index'' ms; b \<leftarrow> obj_at ''content_block'' ms; map_option (BlockStart (nat i)) (read_block b) }
      else if ty = ''content_block_delta'' then
        do { i \<leftarrow> num_at ''index'' ms; d \<leftarrow> obj_at ''delta'' ms; map_option (BlockDelta (nat i)) (read_delta d) }
      else if ty = ''content_block_stop'' then do { i \<leftarrow> num_at ''index'' ms; Some (BlockStop (nat i)) }
      else if ty = ''message_delta'' then
        do { d \<leftarrow> obj_at ''delta'' ms; r \<leftarrow> str_at ''stop_reason'' d; u \<leftarrow> obj_at ''usage'' ms;
             Some (MessageDelta r (read_delta_usage u)) }
      else if ty = ''message_stop'' then Some MessageStop
      else if ty = ''error'' then
        do { d \<leftarrow> obj_at ''error'' ms; k \<leftarrow> str_at ''type'' d; m \<leftarrow> str_at ''message'' d; Some (ErrorEvent k m) }
      else None)"

text \<open>The event name must be the type in the data.\<close>

definition read_event :: "string \<times> string \<Rightarrow> wire_event option" where
  "read_event r =
     (case json_parse (snd r) of
        Some (JObj ms) \<Rightarrow>
          do { ty \<leftarrow> str_at ''type'' ms; if ty = fst r then read_members ty ms else None }
      | _ \<Rightarrow> None)"

section \<open>Reading what was rendered\<close>

lemma digits_value_append: "digits_value (ds @ [d]) = 10 * digits_value ds + (int (byte d) - 48)"
  by (simp add: digits_value_def)

lemma digits_value_digit: "m < 10 \<Longrightarrow> int (byte (char_of (48 + m))) - 48 = int m"
  by (simp add: byte_def)

lemma digits_value_nat_digits: "digits_value (nat_digits n) = int n"
proof (induction n rule: nat_digits.induct)
  case (1 n)
  show ?case
  proof (cases "n < 10")
    case True
    then show ?thesis
      using digits_value_append [of "[]"] digits_value_digit [of n] by (simp add: nat_digits.simps [of n] digits_value_def)
  next
    case False
    have "int (n mod 10) + 10 * int (n div 10) = int n"
      by (metis add.commute mult_div_mod_eq of_nat_add of_nat_mult of_nat_numeral)
    with 1 [OF False] False digits_value_digit [of "n mod 10"] show ?thesis
      by (simp add: nat_digits.simps [of n] digits_value_append)
  qed
qed

lemma int_literal_itoa [simp]: "int_literal (itoa i) = i"
proof (cases "i < 0")
  case False
  obtain c t where c: "nat_digits (nat i) = c # t" "is_digit c" by (rule nat_digits_Cons)
  with False digit_not [OF c(2)] digits_value_nat_digits [of "nat i"] show ?thesis
    by (simp add: itoa_def int_literal_def)
qed (simp add: itoa_def int_literal_def digits_value_nat_digits)

definition plain_block :: "wire_content_block \<Rightarrow> bool" where
  "plain_block b \<longleftrightarrow> wb_input b = [] \<or> wb_input b = ''{}''"

fun plain_event :: "wire_event \<Rightarrow> bool" where
  "plain_event (MessageStart m) = list_all plain_block (wm_content m)"
| "plain_event (BlockStart i b) = plain_block b"
| "plain_event ev = True"

lemmas json_members = omit_none_def omit_empty_def null_or_string_def num_at_def str_at_def obj_at_def str_or_empty_def

lemma plain_content_block: "plain_block b \<Longrightarrow> plain_value (content_block_json b)"
  by (auto simp: content_block_json_def plain_block_def json_members split: option.splits)

lemma plain_delta: "plain_value (delta_json d)"
  by (cases d) simp_all

lemma plain_delta_usage: "plain_value (delta_usage_json u)"
  by (simp add: delta_usage_json_def json_members split: option.splits)

lemma plain_message: "list_all plain_block (wm_content m) \<Longrightarrow> plain_value (message_json m)"
  by (auto simp: message_json_def usage_json_def json_members list_all_iff plain_content_block split: option.splits)

lemma plain_event_value: "plain_event ev \<Longrightarrow> plain_value (VObj ((''type'', VStr (event_name ev)) # event_members ev))"
  by (cases ev) (simp_all add: plain_content_block plain_delta plain_delta_usage plain_message)

lemma read_block_json:
  assumes "plain_block b"
  shows "\<exists>ms. tree_of (content_block_json b) = JObj ms \<and> read_block ms = Some b"
  using assms
  by (cases b)
    (auto simp: content_block_json_def read_block_def plain_block_def json_members empty_object split: option.splits)

lemma read_elements:
  "list_all plain_block bs \<Longrightarrow>
    dec_all read_element (map (\<lambda>b. (marshal (content_block_json b), tree_of (content_block_json b))) bs) = Some bs"
proof (induction bs)
  case (Cons b bs)
  obtain ms where "tree_of (content_block_json b) = JObj ms" "read_block ms = Some b"
    using read_block_json [of b] Cons.prems by auto
  with Cons show ?case by (simp add: read_element_def)
qed simp

lemma read_usage_json: "\<exists>ms. tree_of (usage_json u) = JObj ms \<and> read_usage ms = Some u"
  by (cases u) (simp add: usage_json_def read_usage_def num_at_def)

lemma read_null_or_string [simp]: "(case tree_of (null_or_string s) of JStr t \<Rightarrow> Some t | _ \<Rightarrow> None) = s"
  by (cases s) (simp_all add: null_or_string_def)

lemma read_message_json:
  assumes "list_all plain_block (wm_content m)"
  shows "\<exists>ms. tree_of (message_json m) = JObj ms \<and> read_message ms = Some m"
proof -
  obtain us where "tree_of (usage_json (wm_usage m)) = JObj us" "read_usage us = Some (wm_usage m)"
    using read_usage_json by blast
  with read_elements [OF assms] show ?thesis
    by (simp add: message_json_def read_message_def str_at_def obj_at_def comp_def del: marshal.simps)
qed

lemma read_delta_json: "\<exists>ms. tree_of (delta_json d) = JObj ms \<and> read_delta ms = Some d"
  by (cases d) (simp_all add: read_delta_def json_members)

lemma num_at_omit:
  "num_at k (map member_tree (omit_none VInt j v @ ms)) =
     (if k = j \<and> v \<noteq> None then v else num_at k (map member_tree ms))"
  by (cases v) (simp_all add: omit_none_def num_at_def member_tree_def)

lemma num_at_omit_last:
  "num_at k (map member_tree (omit_none VInt j v)) = (if k = j \<and> v \<noteq> None then v else None)"
  by (cases v) (simp_all add: omit_none_def num_at_def member_tree_def)

lemma tree_of_members: "tree_of (VObj ms) = JObj (map member_tree ms)"
  by (simp add: member_tree_def [abs_def] case_prod_beta')

lemma read_delta_usage_json: "\<exists>ms. tree_of (delta_usage_json u) = JObj ms \<and> read_delta_usage ms = u"
  unfolding delta_usage_json_def tree_of_members read_delta_usage_def
  by (cases u) (simp only: num_at_omit num_at_omit_last json.inject ex_simps simp_thms, simp)

lemma type_at: "str_at ''type'' ((''type'', (b, JStr s)) # ms) = Some s"
  by (simp add: str_at_def)

lemma read_tree:
  "plain_event ev \<Longrightarrow>
    read_members (event_name ev)
      ((''type'', (marshal (VStr (event_name ev)), JStr (event_name ev))) # map member_tree (event_members ev)) = Some ev"
proof (cases ev)
  case (MessageStart m)
  assume "plain_event ev"
  then show ?thesis
    using read_message_json [of m] MessageStart by (auto simp: read_members_def obj_at_def member_tree_def)
next
  case (BlockStart i b)
  assume "plain_event ev"
  then show ?thesis
    using read_block_json [of b] BlockStart by (auto simp: read_members_def obj_at_def num_at_def member_tree_def)
next
  case (BlockDelta i d)
  then show ?thesis
    using read_delta_json [of d] by (auto simp: read_members_def obj_at_def num_at_def member_tree_def)
next
  case (MessageDelta r u)
  then show ?thesis
    using read_delta_usage_json [of u]
    by (auto simp: read_members_def obj_at_def str_at_def member_tree_def)
qed (simp_all add: read_members_def obj_at_def num_at_def str_at_def member_tree_def)

lemma read_render:
  assumes "plain_event ev"
  shows "read_event (render ev) = Some ev"
proof -
  have "tree_of (VObj ((''type'', VStr (event_name ev)) # event_members ev)) =
      JObj ((''type'', (marshal (VStr (event_name ev)), JStr (event_name ev))) # map member_tree (event_members ev))"
    by (simp add: member_tree_def [abs_def] case_prod_beta')
  with parse_marshal [OF plain_event_value [OF assms]] read_tree [OF assms] show ?thesis
    by (simp add: read_event_def render_def type_at del: marshal.simps tree_of.simps)
qed

section \<open>The encoder emits plain events only\<close>

definition emits_plain :: "wire_event list \<times> encoder \<Rightarrow> bool" where
  "emits_plain r \<longleftrightarrow> list_all plain_event (fst r)"

named_theorems emits

lemma emits_fail [emits]: "emits_plain (fail_stream k m e)"
  by (simp add: emits_plain_def fail_stream_def)

lemma emits_none [emits]: "emits_plain ([], e)"
  by (simp add: emits_plain_def)

lemma emits_start [emits]: "emits_plain (start_events e)"
  by (simp add: emits_plain_def start_events_def start_message_def)

lemma emits_text_delta [emits]: "emits_plain (text_delta d e)"
  by (simp add: emits_plain_def text_delta_def text_block_def plain_block_def)

lemma emits_close_text [emits]: "emits_plain (close_text e)"
  by (simp add: emits_plain_def close_text_def)

lemma emits_finish_tool [emits]: "emits_plain (finish_tool k t final e)"
  using emits_fail by (simp add: finish_tool_def emits_none tool_delta_def emits_plain_def Let_def)

lemma emits_add_tool [emits]: "emits_plain (add_tool u e)"
  using emits_fail emits_close_text [of e]
  by (auto simp: add_tool_def Let_def emits_plain_def tool_delta_def tool_block_def plain_block_def split: option.splits prod.splits)

lemma emits_arguments_delta [emits]: "emits_plain (arguments_delta u e)"
  using emits_fail by (auto simp: arguments_delta_def Let_def emits_plain_def tool_delta_def split: option.splits)

lemma emits_tool_done [emits]: "emits_plain (tool_done m f i k e)"
  by (simp add: tool_done_def emits split: option.splits)

lemma emits_refusal_done [emits]: "emits_plain (refusal_done r e)"
  by (simp add: refusal_done_def Let_def emits)

lemma emits_finish_loop:
  "emits_plain oe \<Longrightarrow> (case for_range (finish_step stop) ks oe of Return r \<Rightarrow> emits_plain r | Continue r \<Rightarrow> emits_plain r)"
proof (induction ks arbitrary: oe)
  case (Cons k ks)
  have "case finish_step stop k oe of Return r \<Rightarrow> emits_plain r | Continue r \<Rightarrow> emits_plain r"
    using Cons.prems emits_finish_tool emits_fail
    by (auto simp: finish_step_def Let_def emits_plain_def case_prod_beta split: option.splits)
  then show ?case
    using Cons.IH [of "case finish_step stop k oe of Continue r \<Rightarrow> r | Return r \<Rightarrow> r"]
    by (cases "finish_step stop k oe") simp_all
qed simp

lemma emits_finish [emits]: "emits_plain (finish stop e)"
  using emits_finish_loop [OF emits_close_text, of stop "sort (map fst (en_tools e))" e]
  by (auto simp: finish_def emits emits_plain_def split: ctl.splits prod.splits)

lemma emits_dispatch [emits]: "emits_plain (dispatch ty u e)"
proof -
  have "emits_plain (let (out, e1) = finish ''max_tokens'' e in (out, e1\<lparr>en_success := False\<rparr>))"
    using emits_finish [of "''max_tokens''" e] by (simp add: emits_plain_def case_prod_beta)
  then show ?thesis by (simp add: dispatch_def emits)
qed

lemma emits_handle: "emits_plain (handle_responses_event decode ty payload e)"
  by (simp add: handle_responses_event_def emits split: option.splits)

lemma emits_encode_stream: "emits_plain (encode_stream decode evs e)"
proof (induction evs arbitrary: e)
  case (Cons ev evs)
  obtain ty payload where "ev = (ty, payload)" by (cases ev)
  with Cons [of "snd (handle_responses_event decode ty payload e)"] emits_handle [of decode ty payload e]
  show ?case by (simp add: emits_plain_def case_prod_beta)
qed (simp add: emits)

lemma emits_encode_message: "emits_plain (encode_message decode uuid model evs)"
  using emits_start [of "new_stream_encoder uuid model"] emits_encode_stream
  by (simp add: encode_message_def emits_plain_def case_prod_beta)

lemma read_all: "list_all plain_event evs \<Longrightarrow> dec_all (read_event \<circ> render) evs = Some evs"
  by (induction evs) (simp_all add: read_render)

text \<open>
  C26 (what is written is what the client reads). A client that parses the data of every
  server-sent event as JSON, checks its type against the event's name and takes the fields of the
  Messages wire format from it recovers exactly the events the encoder emitted, in order: no text,
  tool argument fragment, token count or index is changed by the escaping of the JSON encoder.
\<close>

theorem events_round_trip:
  "dec_all (read_event \<circ> render) (fst (encode_message decode uuid model evs)) =
     Some (fst (encode_message decode uuid model evs))"
  using emits_encode_message [of decode uuid model evs] read_all by (simp add: emits_plain_def)

end
