(* ===== verification/Chat_Stream.thy ===== *)
theory Chat_Stream
  imports Anthropic_Stream "HOL-Library.AList"
begin

text \<open>
  The adapter that turns a Chat Completions stream into Responses events
  (\<open>internal/protocol/openai/chat_stream.go\<close>). The SDK's stream is the list of its decoded chunks and
  the error it ends with. A queued event is its name and the members of its payload; marshalling
  them is \<open>event_bytes\<close>. The adapter draws a random id each time it takes an output index, so
  \<open>fresh\<close> gives the id of every output index. The observer of \<open>WithReasoningObserver\<close> only feeds the
  console and is left out.
\<close>

section \<open>Chunks\<close>

record completion_usage =
  cu_prompt :: int
  cu_completion :: int
  cu_total :: int
  cu_cached :: int
  cu_cache_write :: int
  cu_reasoning :: int

record chunk_tool =
  kt_index :: int
  kt_id :: string
  kt_name :: string
  kt_arguments :: string

text \<open>\<open>kh_raw\<close> is the raw JSON of the delta, read for vendor fields.\<close>

record chunk_choice =
  kh_index :: int
  kh_content :: string
  kh_refusal :: string
  kh_raw :: string
  kh_tools :: "chunk_tool list"
  kh_finish :: string

record chunk =
  kc_usage :: completion_usage
  kc_choices :: "chunk_choice list"

section \<open>The adapter's state\<close>

record streamed_tool =
  sm_output_index :: nat
  sm_item_id :: string
  sm_call_id :: string
  sm_name :: string
  sm_arguments :: string
  sm_started :: bool

type_synonym json_members = "(string \<times> jval) list"
type_synonym queued_event = "string \<times> json_members"

text \<open>A part of the output that is opened once: its id and output index.\<close>

type_synonym opened = "(string \<times> nat) option"

record chat_stream =
  cs_inner :: "chunk list"
  cs_inner_err :: "string option"
  cs_response_id :: string
  cs_model :: string
  cs_created :: int
  cs_sequence :: nat
  cs_started :: bool
  cs_ended :: bool
  cs_finish :: string
  cs_text :: string
  cs_refusal :: string
  cs_reasoning :: string
  cs_expose :: bool
  cs_reasoning_at :: opened
  cs_reasoning_closed :: bool
  cs_text_at :: opened
  cs_refusal_at :: opened
  cs_next_output :: nat
  cs_tools :: "(int \<times> streamed_tool) list"
  cs_usage :: "completion_usage option"
  cs_queue :: "queued_event list"
  cs_current :: queued_event
  cs_err :: "string option"

definition open_chat_stream ::
    "string \<Rightarrow> int \<Rightarrow> string \<Rightarrow> bool \<Rightarrow> chunk list \<Rightarrow> string option \<Rightarrow> chat_stream" where
  "open_chat_stream uuid created model expose chunks err =
     \<lparr>cs_inner = chunks, cs_inner_err = err, cs_response_id = ''resp_'' @ uuid, cs_model = model,
      cs_created = created, cs_sequence = 0, cs_started = False, cs_ended = False, cs_finish = [],
      cs_text = [], cs_refusal = [], cs_reasoning = [], cs_expose = expose, cs_reasoning_at = None,
      cs_reasoning_closed = False, cs_text_at = None, cs_refusal_at = None, cs_next_output = 0,
      cs_tools = [], cs_usage = None, cs_queue = [], cs_current = ([], []), cs_err = None\<rparr>"

definition enqueue :: "string \<Rightarrow> json_members \<Rightarrow> chat_stream \<Rightarrow> chat_stream" where
  "enqueue typ body s =
     s\<lparr>cs_queue := cs_queue s @
         [(typ, body @ [(''type'', VStr typ), (''sequence_number'', VInt (int (cs_sequence s)))])],
       cs_sequence := Suc (cs_sequence s)\<rparr>"

definition pop :: "chat_stream \<Rightarrow> chat_stream" where
  "pop s = s\<lparr>cs_current := hd (cs_queue s), cs_queue := tl (cs_queue s)\<rparr>"

text \<open>\<open>Event\<close>: what the handlers receive.\<close>

definition event_bytes :: "queued_event \<Rightarrow> string \<times> string" where
  "event_bytes ev = (fst ev, marshal (vmap (snd ev)))"

section \<open>Parts of payloads\<close>

definition text_part :: "string \<Rightarrow> jval" where
  "text_part s = vmap [(''type'', VStr ''output_text''), (''text'', VStr s), (''annotations'', VArr [])]"

definition refusal_part :: "string \<Rightarrow> jval" where
  "refusal_part s = vmap [(''type'', VStr ''refusal''), (''refusal'', VStr s)]"

definition message_output :: "string \<Rightarrow> string \<Rightarrow> jval list \<Rightarrow> jval" where
  "message_output oid status parts =
     vmap [(''id'', VStr oid), (''type'', VStr ''message''), (''status'', VStr status), (''role'', VStr ''assistant''),
           (''content'', VArr parts)]"

definition call_output :: "streamed_tool \<Rightarrow> string \<Rightarrow> string \<Rightarrow> jval" where
  "call_output t status args =
     vmap [(''id'', VStr (sm_item_id t)), (''type'', VStr ''function_call''), (''status'', VStr status),
           (''call_id'', VStr (sm_call_id t)), (''name'', VStr (sm_name t)), (''arguments'', VStr args)]"

definition reasoning_output :: "string \<Rightarrow> string \<Rightarrow> jval" where
  "reasoning_output oid tx =
     vmap [(''id'', VStr oid), (''type'', VStr ''reasoning''), (''summary'', VArr []),
           (''content'', VArr [vmap [(''type'', VStr ''reasoning_text''), (''text'', VStr tx)]])]"

text \<open>Members of an event about one part of the output.\<close>

definition at_part :: "string \<times> nat \<Rightarrow> json_members" where
  "at_part p = [(''item_id'', VStr (fst p)), (''output_index'', VInt (int (snd p))), (''content_index'', VInt 0)]"

definition at_output :: "nat \<Rightarrow> jval \<Rightarrow> json_members" where
  "at_output k item = [(''output_index'', VInt (int k)), (''item'', item)]"

definition usage_value :: "completion_usage option \<Rightarrow> jval" where
  "usage_value u =
     (case u of
        None \<Rightarrow> VNull
      | Some v \<Rightarrow>
          vmap [(''input_tokens'', VInt (cu_prompt v)), (''output_tokens'', VInt (cu_completion v)),
                (''total_tokens'', VInt (cu_total v)),
                (''input_tokens_details'',
                  vmap [(''cached_tokens'', VInt (cu_cached v)), (''cache_write_tokens'', VInt (cu_cache_write v))]),
                (''output_tokens_details'', vmap [(''reasoning_tokens'', VInt (cu_reasoning v))])])"

definition response_value :: "chat_stream \<Rightarrow> string \<Rightarrow> jval \<Rightarrow> jval list \<Rightarrow> jval" where
  "response_value s status incomplete outs =
     vmap [(''id'', VStr (cs_response_id s)), (''object'', VStr ''response''), (''created_at'', VInt (cs_created s)),
           (''status'', VStr status), (''model'', VStr (cs_model s)), (''output'', VArr outs),
           (''usage'', usage_value (cs_usage s)), (''incomplete_details'', incomplete), (''error'', VNull)]"

section \<open>Deltas\<close>

definition capture_usage :: "completion_usage \<Rightarrow> chat_stream \<Rightarrow> chat_stream" where
  "capture_usage u s =
     (if cu_prompt u = 0 \<and> cu_completion u = 0 \<and> cu_total u = 0 then s else s\<lparr>cs_usage := Some u\<rparr>)"

text \<open>Taking the next output index.\<close>

definition take_output :: "(nat \<Rightarrow> string) \<Rightarrow> string \<Rightarrow> chat_stream \<Rightarrow> string \<times> nat" where
  "take_output fresh prefix s = (prefix @ fresh (cs_next_output s), cs_next_output s)"

definition add_reasoning :: "(nat \<Rightarrow> string) \<Rightarrow> string \<Rightarrow> chat_stream \<Rightarrow> chat_stream" where
  "add_reasoning fresh delta s =
     (if \<not> cs_expose s \<or> cs_reasoning_closed s then s
      else
        (let p = (case cs_reasoning_at s of Some p \<Rightarrow> p | None \<Rightarrow> take_output fresh ''rs_'' s);
             s1 = (if cs_reasoning_at s = None then
                     enqueue ''response.output_item.added''
                       (at_output (snd p) (vmap [(''id'', VStr (fst p)), (''type'', VStr ''reasoning''), (''summary'', VArr [])]))
                       (s\<lparr>cs_reasoning_at := Some p, cs_next_output := Suc (cs_next_output s)\<rparr>)
                   else s)
         in enqueue ''response.reasoning_text.delta'' (at_part p @ [(''delta'', VStr delta)]) s1))"

definition close_reasoning :: "chat_stream \<Rightarrow> chat_stream" where
  "close_reasoning s =
     (case cs_reasoning_at s of
        None \<Rightarrow> s
      | Some p \<Rightarrow>
          if cs_reasoning_closed s then s
          else enqueue ''response.output_item.done'' (at_output (snd p) (reasoning_output (fst p) (cs_reasoning s)))
                 (enqueue ''response.reasoning_text.done'' (at_part p @ [(''text'', VStr (cs_reasoning s))])
                   (s\<lparr>cs_reasoning_closed := True\<rparr>)))"

text \<open>Opening a message item with its first content part.\<close>

definition open_part :: "string \<times> nat \<Rightarrow> jval \<Rightarrow> chat_stream \<Rightarrow> chat_stream" where
  "open_part p part s =
     enqueue ''response.content_part.added'' (at_part p @ [(''part'', part)])
       (enqueue ''response.output_item.added'' (at_output (snd p) (message_output (fst p) ''in_progress'' [])) s)"

definition add_text :: "(nat \<Rightarrow> string) \<Rightarrow> string \<Rightarrow> chat_stream \<Rightarrow> chat_stream" where
  "add_text fresh delta s =
     (let (p, s1) =
        (case cs_text_at s of
           Some p \<Rightarrow> (p, s)
         | None \<Rightarrow>
             (let s0 = close_reasoning s; p = take_output fresh ''msg_'' s0
              in (p, open_part p (text_part [])
                       (s0\<lparr>cs_text_at := Some p, cs_next_output := Suc (cs_next_output s0)\<rparr>))))
      in enqueue ''response.output_text.delta'' (at_part p @ [(''delta'', VStr delta)])
           (s1\<lparr>cs_text := cs_text s1 @ delta\<rparr>))"

definition add_refusal :: "(nat \<Rightarrow> string) \<Rightarrow> string \<Rightarrow> chat_stream \<Rightarrow> chat_stream" where
  "add_refusal fresh delta s =
     (let (p, s1) =
        (case cs_refusal_at s of
           Some p \<Rightarrow> (p, s)
         | None \<Rightarrow>
             (let s0 = close_reasoning s; p = take_output fresh ''msg_'' s0
              in (p, open_part p (refusal_part [])
                       (s0\<lparr>cs_refusal_at := Some p, cs_next_output := Suc (cs_next_output s0)\<rparr>))))
      in enqueue ''response.refusal.delta'' (at_part p @ [(''delta'', VStr delta)])
           (s1\<lparr>cs_refusal := cs_refusal s1 @ delta\<rparr>))"

definition new_tool :: streamed_tool where
  "new_tool = \<lparr>sm_output_index = 0, sm_item_id = [], sm_call_id = [], sm_name = [], sm_arguments = [], sm_started = False\<rparr>"

text \<open>The tool of a call index with the fields of a delta; the last id wins, the rest accumulates.\<close>

definition merge_tool :: "chunk_tool \<Rightarrow> streamed_tool \<Rightarrow> streamed_tool" where
  "merge_tool d t =
     t\<lparr>sm_call_id := (if kt_id d \<noteq> [] then kt_id d else sm_call_id t), sm_name := sm_name t @ kt_name d,
       sm_arguments := sm_arguments t @ kt_arguments d\<rparr>"

definition put_tool :: "int \<Rightarrow> streamed_tool \<Rightarrow> chat_stream \<Rightarrow> chat_stream" where
  "put_tool k t s = s\<lparr>cs_tools := AList.update k t (cs_tools s)\<rparr>"

definition tool_delta_event :: "streamed_tool \<Rightarrow> string \<Rightarrow> chat_stream \<Rightarrow> chat_stream" where
  "tool_delta_event t fragment s =
     enqueue ''response.function_call_arguments.delta''
       [(''item_id'', VStr (sm_item_id t)), (''output_index'', VInt (int (sm_output_index t))), (''delta'', VStr fragment)] s"

definition add_tool_delta :: "(nat \<Rightarrow> string) \<Rightarrow> chunk_tool \<Rightarrow> chat_stream \<Rightarrow> chat_stream" where
  "add_tool_delta fresh d s =
     (let old = (case map_of (cs_tools s) (kt_index d) of None \<Rightarrow> new_tool | Some t \<Rightarrow> t);
          t = merge_tool d old in
      if sm_started old then
        (let s1 = put_tool (kt_index d) t s
         in if kt_arguments d \<noteq> [] then tool_delta_event t (kt_arguments d) s1 else s1)
      else if sm_call_id t \<noteq> [] \<and> sm_name t \<noteq> [] then
        (let s0 = close_reasoning s; p = take_output fresh ''fc_'' s0;
             t1 = t\<lparr>sm_started := True, sm_item_id := fst p, sm_output_index := snd p\<rparr>;
             s1 = enqueue ''response.output_item.added'' (at_output (snd p) (call_output t1 ''in_progress'' []))
                    (put_tool (kt_index d) t1 (s0\<lparr>cs_next_output := Suc (cs_next_output s0)\<rparr>))
         in if sm_arguments t1 \<noteq> [] then tool_delta_event t1 (sm_arguments t1) s1 else s1)
      else put_tool (kt_index d) t s)"

section \<open>Chunks into events\<close>

definition vendor_reasoning :: "string \<Rightarrow> string" where
  "vendor_reasoning raw =
     (case unmarshal_struct raw of
        None \<Rightarrow> []
      | Some ms \<Rightarrow>
          (case dec_string [] (field_values [''reasoning_content''] ''reasoning_content'' ms) of
             None \<Rightarrow> [] | Some s \<Rightarrow> s))"

definition note_reasoning :: "(nat \<Rightarrow> string) \<Rightarrow> string \<Rightarrow> chat_stream \<Rightarrow> chat_stream" where
  "note_reasoning fresh r s =
     (if r = [] then s else add_reasoning fresh r (s\<lparr>cs_reasoning := cs_reasoning s @ r\<rparr>))"

definition add_choice :: "(nat \<Rightarrow> string) \<Rightarrow> chunk_choice \<Rightarrow> chat_stream \<Rightarrow> chat_stream" where
  "add_choice fresh c s =
     (if kh_index c \<noteq> 0 then s
      else
        (let s1 = (if kh_content c \<noteq> [] then add_text fresh (kh_content c) s else s);
             s2 = (if kh_refusal c \<noteq> [] then add_refusal fresh (kh_refusal c) s1 else s1);
             s3 = note_reasoning fresh (vendor_reasoning (kh_raw c)) s2;
             s4 = fold (add_tool_delta fresh) (kh_tools c) s3
         in if kh_finish c \<noteq> [] then s4\<lparr>cs_finish := kh_finish c\<rparr> else s4))"

definition add_chunk :: "(nat \<Rightarrow> string) \<Rightarrow> chunk \<Rightarrow> chat_stream \<Rightarrow> chat_stream" where
  "add_chunk fresh c s = fold (add_choice fresh) (kc_choices c) (capture_usage (kc_usage c) s)"

text \<open>Chunks are taken until one yields an event; the state keeps what is left of them.\<close>

fun read_chunks :: "(nat \<Rightarrow> string) \<Rightarrow> chunk list \<Rightarrow> chat_stream \<Rightarrow> chat_stream" where
  "read_chunks fresh [] s = s\<lparr>cs_inner := []\<rparr>"
| "read_chunks fresh (c # cs) s =
     (let s' = add_chunk fresh c s in
      if cs_queue s' \<noteq> [] then s'\<lparr>cs_inner := cs\<rparr> else read_chunks fresh cs s')"

section \<open>The end of the stream\<close>

definition tool_arguments :: "streamed_tool \<Rightarrow> string" where
  "tool_arguments t = (if sm_arguments t = [] then ''{}'' else sm_arguments t)"

definition finish_text :: "chat_stream \<Rightarrow> chat_stream" where
  "finish_text s =
     (case cs_text_at s of
        None \<Rightarrow> s
      | Some p \<Rightarrow>
          enqueue ''response.output_item.done''
            (at_output (snd p) (message_output (fst p) ''completed'' [text_part (cs_text s)]))
            (enqueue ''response.content_part.done'' (at_part p @ [(''part'', text_part (cs_text s))])
              (enqueue ''response.output_text.done'' (at_part p @ [(''text'', VStr (cs_text s))]) s)))"

definition finish_refusal :: "chat_stream \<Rightarrow> chat_stream" where
  "finish_refusal s =
     (case cs_refusal_at s of
        None \<Rightarrow> s
      | Some p \<Rightarrow>
          enqueue ''response.output_item.done''
            (at_output (snd p) (message_output (fst p) ''completed'' [refusal_part (cs_refusal s)]))
            (enqueue ''response.content_part.done'' (at_part p @ [(''part'', refusal_part (cs_refusal s))])
              (enqueue ''response.refusal.done'' (at_part p @ [(''refusal'', VStr (cs_refusal s))]) s)))"

definition finish_call :: "streamed_tool \<Rightarrow> chat_stream \<Rightarrow> chat_stream" where
  "finish_call t s =
     enqueue ''response.output_item.done''
       (at_output (sm_output_index t) (call_output t ''completed'' (tool_arguments t)))
       (enqueue ''response.function_call_arguments.done''
         [(''item_id'', VStr (sm_item_id t)), (''output_index'', VInt (int (sm_output_index t))),
          (''arguments'', VStr (tool_arguments t))] s)"

text \<open>
  Tools by output index. The index of a tool that never started is \<open>-1\<close> in the code, so such tools
  come first, in the order of a map, and fail the stream.
\<close>

definition tools_in_order :: "chat_stream \<Rightarrow> (int \<times> streamed_tool) list" where
  "tools_in_order s =
     sort_key (\<lambda>(k, t). if sm_started t then int (sm_output_index t) else -1) (cs_tools s)"

definition incomplete_call :: "int \<Rightarrow> string" where
  "incomplete_call k = ''Chat Completions stream returned incomplete tool call index '' @ itoa k"

definition finish_calls :: "(int \<times> streamed_tool) list \<Rightarrow> chat_stream \<Rightarrow> (chat_stream, string \<times> chat_stream) ctl" where
  "finish_calls ts s =
     for_range (\<lambda>(k, t) s. if \<not> sm_started t then Return (incomplete_call k, s) else Continue (finish_call t s)) ts s"

definition output_items :: "chat_stream \<Rightarrow> jval list" where
  "output_items s =
     map snd (sort_key fst
       ((case cs_reasoning_at s of None \<Rightarrow> [] | Some p \<Rightarrow> [(snd p, reasoning_output (fst p) (cs_reasoning s))]) @
        (case cs_text_at s of
           None \<Rightarrow> [] | Some p \<Rightarrow> [(snd p, message_output (fst p) ''completed'' [text_part (cs_text s)])]) @
        (case cs_refusal_at s of
           None \<Rightarrow> [] | Some p \<Rightarrow> [(snd p, message_output (fst p) ''completed'' [refusal_part (cs_refusal s)])]) @
        map (\<lambda>(k, t). (sm_output_index t, call_output t ''completed'' (tool_arguments t))) (cs_tools s)))"

definition fail_chat :: "string \<Rightarrow> chat_stream \<Rightarrow> chat_stream" where
  "fail_chat err s = s\<lparr>cs_err := Some err, cs_ended := True\<rparr>"

text \<open>
  What \<open>Next\<close> does when the chunks are used up. A failed call leaves the events queued so far,
  which nobody reads.
\<close>

definition end_of_chunks :: "chat_stream \<Rightarrow> bool \<times> chat_stream" where
  "end_of_chunks s =
     (case cs_inner_err s of
        Some err \<Rightarrow> (False, fail_chat err s)
      | None \<Rightarrow>
          (let s1 = (if cs_finish s = [] then s\<lparr>cs_finish := ''stop''\<rparr> else s);
               s2 = finish_refusal (finish_text (close_reasoning s1)) in
           case finish_calls (tools_in_order s2) s2 of
             Return (err, s3) \<Rightarrow> (False, fail_chat err s3)
           | Continue s3 \<Rightarrow>
               (let cut = (cs_finish s3 = ''length'');
                    incomplete = (if cut then vmap [(''reason'', VStr ''max_output_tokens'')] else VNull);
                    s4 = enqueue (if cut then ''response.incomplete'' else ''response.completed'')
                      [(''response'', response_value s3 (if cut then ''incomplete'' else ''completed'') incomplete
                          (output_items s3))] s3
                in (True, pop (s4\<lparr>cs_ended := True\<rparr>)))))"

text \<open>\<open>Next\<close>: the boolean says whether there is a current event.\<close>

definition chat_next :: "(nat \<Rightarrow> string) \<Rightarrow> chat_stream \<Rightarrow> bool \<times> chat_stream" where
  "chat_next fresh s =
     (if cs_queue s \<noteq> [] then (True, pop s)
      else if cs_ended s then (False, s)
      else if \<not> cs_started s then
        (True, pop (enqueue ''response.created'' [(''response'', response_value s ''in_progress'' VNull [])]
          (s\<lparr>cs_started := True\<rparr>)))
      else
        (let s' = read_chunks fresh (cs_inner s) s in
         if cs_queue s' \<noteq> [] then (True, pop s') else end_of_chunks s'))"

definition chat_err :: "chat_stream \<Rightarrow> string option" where
  "chat_err s = (case cs_err s of Some e \<Rightarrow> Some e | None \<Rightarrow> if cs_inner s = [] then cs_inner_err s else None)"

section \<open>Every step appends events\<close>

definition ends_chat :: "string \<Rightarrow> bool" where
  "ends_chat typ \<longleftrightarrow> typ = ''response.completed'' \<or> typ = ''response.incomplete''"

text \<open>Consecutive sequence numbers; the last member of a name is the one a decoder keeps.\<close>

fun numbered :: "nat \<Rightarrow> queued_event list \<Rightarrow> bool" where
  "numbered n [] = True"
| "numbered n (ev # evs) =
     (map_of (rev (snd ev)) ''sequence_number'' = Some (VInt (int n)) \<and> numbered (Suc n) evs)"

lemma numbered_append: "numbered n (xs @ ys) \<longleftrightarrow> numbered n xs \<and> numbered (n + length xs) ys"
  by (induction xs arbitrary: n) auto

lemma numbered_one: "numbered n [(typ, body @ [(''type'', VStr ty), (''sequence_number'', VInt (int n))])]"
  by simp

text \<open>The later state has only added events to the queue, none of them the last one of a stream.\<close>

definition extends :: "chat_stream \<Rightarrow> chat_stream \<Rightarrow> bool" where
  "extends s s' \<longleftrightarrow>
     (\<exists>new. cs_queue s' = cs_queue s @ new \<and> cs_sequence s' = cs_sequence s + length new \<and>
        numbered (cs_sequence s) new \<and> list_all (\<lambda>ev. \<not> ends_chat (fst ev)) new) \<and>
     cs_ended s' = cs_ended s \<and> cs_started s' = cs_started s \<and> cs_inner s' = cs_inner s \<and>
     cs_inner_err s' = cs_inner_err s \<and> cs_err s' = cs_err s"

lemma extends_refl [simp]: "extends s s"
  by (simp add: extends_def)

lemma extends_trans: "extends s s' \<Longrightarrow> extends s' s'' \<Longrightarrow> extends s s''"
  by (auto simp: extends_def numbered_append)

lemma extends_update [simp]:
  "extends s (s0\<lparr>cs_reasoning_at := x1\<rparr>) = extends s s0" "extends s (s0\<lparr>cs_reasoning_closed := x2\<rparr>) = extends s s0"
  "extends s (s0\<lparr>cs_text_at := x3\<rparr>) = extends s s0" "extends s (s0\<lparr>cs_refusal_at := x4\<rparr>) = extends s s0"
  "extends s (s0\<lparr>cs_next_output := x5\<rparr>) = extends s s0" "extends s (s0\<lparr>cs_tools := x6\<rparr>) = extends s s0"
  "extends s (s0\<lparr>cs_usage := x7\<rparr>) = extends s s0" "extends s (s0\<lparr>cs_finish := x8\<rparr>) = extends s s0"
  "extends s (s0\<lparr>cs_text := x9\<rparr>) = extends s s0" "extends s (s0\<lparr>cs_refusal := x10\<rparr>) = extends s s0"
  "extends s (s0\<lparr>cs_reasoning := x11\<rparr>) = extends s s0"
  by (simp_all add: extends_def)

lemma extends_enqueue [simp]: "extends s s0 \<Longrightarrow> \<not> ends_chat typ \<Longrightarrow> extends s (enqueue typ body s0)"
  by (auto simp: extends_def enqueue_def numbered_append)

lemma not_ends_chat [simp]:
  "\<not> ends_chat ''response.created''" "\<not> ends_chat ''response.output_item.added''"
  "\<not> ends_chat ''response.content_part.added''" "\<not> ends_chat ''response.output_text.delta''"
  "\<not> ends_chat ''response.refusal.delta''" "\<not> ends_chat ''response.reasoning_text.delta''"
  "\<not> ends_chat ''response.function_call_arguments.delta''" "\<not> ends_chat ''response.reasoning_text.done''"
  "\<not> ends_chat ''response.output_item.done''" "\<not> ends_chat ''response.output_text.done''"
  "\<not> ends_chat ''response.content_part.done''" "\<not> ends_chat ''response.refusal.done''"
  "\<not> ends_chat ''response.function_call_arguments.done''"
  by (simp_all add: ends_chat_def)

named_theorems chat_ops \<open>the definitions of the adapter's steps\<close>

lemmas [chat_ops] = add_reasoning_def close_reasoning_def open_part_def add_text_def add_refusal_def
  put_tool_def tool_delta_event_def finish_text_def finish_refusal_def finish_call_def Let_def

lemma extends_ops [simp]:
  "extends s s0 \<Longrightarrow> extends s (add_reasoning fresh d s0)"
  "extends s s0 \<Longrightarrow> extends s (close_reasoning s0)"
  "extends s s0 \<Longrightarrow> extends s (finish_text s0)"
  "extends s s0 \<Longrightarrow> extends s (finish_refusal s0)"
  "extends s s0 \<Longrightarrow> extends s (finish_call t s0)"
  by (simp_all add: chat_ops split: option.split)

lemma extends_parts [simp]:
  "extends s s0 \<Longrightarrow> extends s (add_text fresh d s0)"
  "extends s s0 \<Longrightarrow> extends s (add_refusal fresh d s0)"
  by (simp_all add: add_text_def add_refusal_def open_part_def Let_def split: option.split)

lemma extends_tool [simp]: "extends s s0 \<Longrightarrow> extends s (add_tool_delta fresh d s0)"
  by (simp add: add_tool_delta_def put_tool_def tool_delta_event_def Let_def)

lemma extends_fold:
  assumes "\<And>x s0. extends s s0 \<Longrightarrow> extends s (f x s0)"
  shows "extends s s0 \<Longrightarrow> extends s (fold f xs s0)"
  by (induction xs arbitrary: s0) (simp_all add: assms)

lemma extends_choice [simp]: "extends s s0 \<Longrightarrow> extends s (add_choice fresh c s0)"
  by (simp add: add_choice_def note_reasoning_def Let_def extends_fold)

lemma extends_chunk [simp]: "extends s s0 \<Longrightarrow> extends s (add_chunk fresh c s0)"
  by (simp add: add_chunk_def capture_usage_def extends_fold)

lemma finish_calls_simps [simp]:
  "finish_calls [] s = Continue s"
  "finish_calls ((k, t) # ts) s =
     (if \<not> sm_started t then Return (incomplete_call k, s) else finish_calls ts (finish_call t s))"
  by (simp_all add: finish_calls_def)

lemma extends_finish_calls:
  "extends s s0 \<Longrightarrow>
    (case finish_calls ts s0 of Return r \<Rightarrow> extends s (snd r) | Continue s' \<Rightarrow> extends s s')"
proof (induction ts arbitrary: s0)
  case (Cons kt ts)
  then show ?case by (cases kt) simp
qed simp

lemma read_chunks_extends:
  assumes "cs_queue s = []"
  shows "extends (s\<lparr>cs_inner := cs_inner (read_chunks fresh cs s)\<rparr>) (read_chunks fresh cs s) \<and>
    (if cs_queue (read_chunks fresh cs s) = [] then cs_inner (read_chunks fresh cs s) = []
     else length (cs_inner (read_chunks fresh cs s)) < length cs)"
  using assms
proof (induction fresh cs s rule: read_chunks.induct)
  case (2 fresh c cs s)
  let ?s = "add_chunk fresh c s"
  have e: "extends s ?s" by simp
  show ?case
  proof (cases "cs_queue ?s = []")
    case True
    then have "cs_sequence ?s = cs_sequence s" using e by (auto simp: extends_def)
    with 2(1) [OF refl _ True] True e 2(2) show ?thesis by (auto simp: extends_def Let_def)
  next
    case False
    with e show ?thesis by (auto simp: extends_def Let_def)
  qed
qed simp

section \<open>The whole stream\<close>

text \<open>Each call of \<open>Next\<close> either ends, starts, shortens the chunks or shortens the queue.\<close>

lemma pop_sel [simp]:
  "cs_ended (pop s) = cs_ended s" "cs_started (pop s) = cs_started s" "cs_inner (pop s) = cs_inner s"
  "cs_queue (pop s) = tl (cs_queue s)" "cs_current (pop s) = hd (cs_queue s)" "cs_sequence (pop s) = cs_sequence s"
  "cs_inner_err (pop s) = cs_inner_err s" "cs_err (pop s) = cs_err s"
  by (simp_all add: pop_def)

lemma enqueue_sel [simp]:
  "cs_ended (enqueue typ body s) = cs_ended s" "cs_started (enqueue typ body s) = cs_started s"
  "cs_inner (enqueue typ body s) = cs_inner s" "cs_inner_err (enqueue typ body s) = cs_inner_err s"
  "cs_err (enqueue typ body s) = cs_err s" "cs_queue (enqueue typ body s) \<noteq> []"
  "cs_sequence (enqueue typ body s) = Suc (cs_sequence s)"
  by (simp_all add: enqueue_def)

lemma end_of_chunks_ended: "cs_ended (snd (end_of_chunks s))"
  by (simp add: end_of_chunks_def fail_chat_def Let_def split: option.split ctl.split prod.split)

function chat_run :: "(nat \<Rightarrow> string) \<Rightarrow> chat_stream \<Rightarrow> queued_event list \<times> chat_stream" where
  "chat_run fresh s =
     (case chat_next fresh s of
        (False, s') \<Rightarrow> ([], s')
      | (True, s') \<Rightarrow> (let (evs, s'') = chat_run fresh s' in (cs_current s' # evs, s'')))"
  by pat_completeness auto
termination
proof (relation "measures [\<lambda>(fresh, s). if cs_ended s then 0 else 1, \<lambda>(fresh, s). if cs_started s then 0 else 1,
    \<lambda>(fresh, s). length (cs_inner s), \<lambda>(fresh, s). length (cs_queue s)]")
  fix fresh :: "nat \<Rightarrow> string" and s s' :: chat_stream and b
  assume n: "(b, s') = chat_next fresh s" "b = True"
  have e: "extends (s\<lparr>cs_inner := cs_inner (read_chunks fresh (cs_inner s) s)\<rparr>) (read_chunks fresh (cs_inner s) s)"
    "if cs_queue (read_chunks fresh (cs_inner s) s) = [] then cs_inner (read_chunks fresh (cs_inner s) s) = []
     else length (cs_inner (read_chunks fresh (cs_inner s) s)) < length (cs_inner s)" if "cs_queue s = []"
    using read_chunks_extends [OF that, of fresh "cs_inner s"] by blast+
  have d: "cs_ended s'" if "(True, s') = end_of_chunks r" for r
    using end_of_chunks_ended [of r] unfolding that [symmetric] by simp
  show "((fresh, s'), fresh, s) \<in> measures [\<lambda>(fresh, s). if cs_ended s then 0 else 1,
    \<lambda>(fresh, s). if cs_started s then 0 else 1, \<lambda>(fresh, s). length (cs_inner s), \<lambda>(fresh, s). length (cs_queue s)]"
    using n e d [of "read_chunks fresh (cs_inner s) s"]
    by (auto simp: chat_next_def Let_def extends_def split: if_splits)
qed simp

declare chat_run.simps [simp del]

definition chat_events :: "(nat \<Rightarrow> string) \<Rightarrow> chat_stream \<Rightarrow> queued_event list" where
  "chat_events fresh s = fst (chat_run fresh s)"

text \<open>Between calls: the queue is numbered, and holds no last event before the end.\<close>

definition queued_from :: "nat \<Rightarrow> chat_stream \<Rightarrow> bool" where
  "queued_from n s \<longleftrightarrow> numbered n (cs_queue s) \<and> cs_sequence s = n + length (cs_queue s)"

definition running :: "nat \<Rightarrow> chat_stream \<Rightarrow> bool" where
  "running n s \<longleftrightarrow> queued_from n s \<and> \<not> cs_ended s \<and> cs_err s = None \<and>
     list_all (\<lambda>ev. \<not> ends_chat (fst ev)) (cs_queue s)"

lemma running_extends:
  assumes "running n s" and "extends (s\<lparr>cs_inner := i\<rparr>) s'"
  shows "running n s'"
  using assms by (auto simp: running_def queued_from_def extends_def numbered_append)

lemma running_pop:
  assumes "running n s" and "cs_queue s \<noteq> []"
  shows "running (Suc n) (pop s) \<and> map_of (rev (snd (cs_current (pop s)))) ''sequence_number'' = Some (VInt (int n)) \<and>
    \<not> ends_chat (fst (cs_current (pop s)))"
  using assms by (cases "cs_queue s") (auto simp: running_def queued_from_def)

text \<open>What the whole run looks like: numbered from \<open>n\<close>, with the last event exactly if there is no error.\<close>

definition well_ended :: "nat \<Rightarrow> queued_event list \<times> chat_stream \<Rightarrow> bool" where
  "well_ended n r \<longleftrightarrow> numbered n (fst r) \<and> cs_ended (snd r) \<and>
     (if chat_err (snd r) = None
      then fst r \<noteq> [] \<and> ends_chat (fst (last (fst r))) \<and> list_all (\<lambda>ev. \<not> ends_chat (fst ev)) (butlast (fst r))
      else list_all (\<lambda>ev. \<not> ends_chat (fst ev)) (fst r))"

lemma well_ended_Cons:
  assumes "well_ended (Suc n) (evs, f)" and "map_of (rev (snd ev)) ''sequence_number'' = Some (VInt (int n))"
    and "\<not> ends_chat (fst ev)"
  shows "well_ended n (ev # evs, f)"
  using assms by (auto simp: well_ended_def split: if_splits)

text \<open>After the end only the queue is left.\<close>

lemma chat_run_ended:
  "cs_ended s \<Longrightarrow> fst (chat_run fresh s) = cs_queue s \<and> cs_ended (snd (chat_run fresh s)) \<and>
    chat_err (snd (chat_run fresh s)) = chat_err s"
proof (induction "cs_queue s" arbitrary: s)
  case Nil
  then show ?case by (simp add: chat_run.simps [of fresh s] chat_next_def)
next
  case (Cons ev evs)
  then have q: "cs_queue s \<noteq> []" "evs = cs_queue (pop s)" "cs_current (pop s) = ev" by (metis list.distinct(1), (metis list.sel pop_sel)+)
  moreover have "chat_err (pop s) = chat_err s" by (simp add: chat_err_def split: option.split)
  ultimately show ?case
    using Cons.hyps(1) [OF q(2)] Cons.prems Cons.hyps(2)
    by (simp add: chat_run.simps [of fresh s] chat_next_def case_prod_beta Let_def)
qed

lemma end_of_chunks_cases:
  assumes "running n s" and "cs_queue s = []" and "cs_inner s = []"
  shows "case end_of_chunks s of
      (False, s') \<Rightarrow> cs_ended s' \<and> chat_err s' \<noteq> None
    | (True, s') \<Rightarrow> \<exists>evs typ body. cs_ended s' \<and> chat_err s' = None \<and> cs_current s' # cs_queue s' = evs @ [(typ, body)] \<and>
        numbered n (evs @ [(typ, body)]) \<and> ends_chat typ \<and> list_all (\<lambda>ev. \<not> ends_chat (fst ev)) evs"
proof (cases "cs_inner_err s")
  case (Some err)
  then show ?thesis by (simp add: end_of_chunks_def fail_chat_def chat_err_def)
next
  case None
  let ?s2 = "finish_refusal (finish_text (close_reasoning (if cs_finish s = [] then s\<lparr>cs_finish := ''stop''\<rparr> else s)))"
  have "extends s ?s2" by simp
  note f = extends_finish_calls [OF this, of "tools_in_order ?s2"]
  show ?thesis
  proof (cases "finish_calls (tools_in_order ?s2) ?s2")
    case (Return r)
    then show ?thesis using None by (cases r) (simp add: end_of_chunks_def fail_chat_def chat_err_def Let_def)
  next
    case (Continue s3)
    with f have e: "extends s s3" by simp
    then have q: "numbered n (cs_queue s3)" "cs_sequence s3 = n + length (cs_queue s3)"
      "list_all (\<lambda>ev. \<not> ends_chat (fst ev)) (cs_queue s3)" "cs_err s3 = None" "cs_inner_err s3 = None"
      using assms None by (auto simp: extends_def running_def queued_from_def)
    let ?cut = "cs_finish s3 = ''length''"
    let ?ty = "if ?cut then ''response.incomplete'' else ''response.completed''"
    obtain body where b: "end_of_chunks s = (True, pop ((enqueue ?ty body s3)\<lparr>cs_ended := True\<rparr>))"
      using None Continue by (simp add: end_of_chunks_def Let_def)
    let ?b = "body @ [(''type'', VStr ?ty), (''sequence_number'', VInt (int (cs_sequence s3)))]"
    have "cs_current (pop ((enqueue ?ty body s3)\<lparr>cs_ended := True\<rparr>)) # cs_queue (pop ((enqueue ?ty body s3)\<lparr>cs_ended := True\<rparr>)) =
        cs_queue s3 @ [(?ty, ?b)]"
      by (simp only: pop_sel) (simp add: enqueue_def hd_append)
    moreover have "numbered n (cs_queue s3 @ [(?ty, ?b)])" using q(1,2) by (simp add: numbered_append)
    moreover have "ends_chat ?ty" by (simp add: ends_chat_def)
    moreover have "chat_err (pop ((enqueue ?ty body s3)\<lparr>cs_ended := True\<rparr>)) = None"
      using q(4,5) by (simp add: chat_err_def)
    ultimately show ?thesis using b q(3)
      by (simp only: prod.case bool.case) (intro exI [of _ "cs_queue s3"] exI [of _ ?ty] exI [of _ ?b], simp)
  qed
qed

lemma chat_run_well_ended: "running n s \<Longrightarrow> well_ended n (chat_run fresh s)"
proof (induction fresh s arbitrary: n rule: chat_run.induct)
  case (1 fresh s)
  have go: "well_ended n (chat_run fresh s)" if nx: "chat_next fresh s = (True, pop s1)" and r: "running n s1" "cs_queue s1 \<noteq> []" for s1
  proof -
    note p = running_pop [OF r]
    have "well_ended (Suc n) (chat_run fresh (pop s1))" using 1(1) [OF nx [symmetric] refl] p by blast
    from well_ended_Cons [of n "fst (chat_run fresh (pop s1))" "snd (chat_run fresh (pop s1))" "cs_current (pop s1)"] this p nx
    show ?thesis by (simp add: chat_run.simps [of fresh s] case_prod_beta Let_def del: pop_sel)
  qed
  have ne: "\<not> cs_ended s" using 1(2) by (simp add: running_def)
  consider (q) "cs_queue s \<noteq> []" | (st) "cs_queue s = []" "\<not> cs_started s" | (rd) "cs_queue s = []" "cs_started s" by blast
  then show ?case
  proof cases
    case q
    then show ?thesis by (intro go [of s] 1(2)) (simp_all add: chat_next_def)
  next
    case st
    let ?s = "enqueue ''response.created'' [(''response'', response_value s ''in_progress'' VNull [])] (s\<lparr>cs_started := True\<rparr>)"
    have "running n ?s" using 1(2) st(1) by (simp add: running_def queued_from_def enqueue_def)
    then show ?thesis using st ne by (intro go [of ?s]) (simp_all add: chat_next_def)
  next
    case rd
    let ?s = "read_chunks fresh (cs_inner s) s"
    note e = read_chunks_extends [OF rd(1), of fresh "cs_inner s"]
    have r: "running n ?s" using running_extends [OF 1(2)] e by blast
    show ?thesis
    proof (cases "cs_queue ?s = []")
      case False
      then show ?thesis using rd ne r by (intro go [of ?s]) (simp_all add: chat_next_def)
    next
      case True
      with e have i: "cs_inner ?s = []" by simp
      have nx: "chat_next fresh s = end_of_chunks ?s" using rd ne True by (simp add: chat_next_def)
      obtain b s' where b: "end_of_chunks ?s = (b, s')" by (cases "end_of_chunks ?s")
      note c = end_of_chunks_cases [OF r True i, unfolded b]
      show ?thesis
      proof (cases b)
        case False
        with c nx b show ?thesis by (simp add: chat_run.simps [of fresh s] well_ended_def)
      next
        case True
        with c obtain evs ty body where s': "cs_ended s'" "chat_err s' = None" "cs_current s' # cs_queue s' = evs @ [(ty, body)]"
          "numbered n (evs @ [(ty, body)])" "ends_chat ty" "list_all (\<lambda>ev. \<not> ends_chat (fst ev)) evs" by auto
        have "chat_run fresh s = (evs @ [(ty, body)], snd (chat_run fresh s'))"
          using nx b True s'(3) chat_run_ended [OF s'(1), of fresh]
          by (simp add: chat_run.simps [of fresh s] case_prod_beta Let_def)
        with s' chat_run_ended [OF s'(1), of fresh] show ?thesis by (simp add: well_ended_def)
      qed
    qed
  qed
qed

text \<open>
  C28 (the adapter terminates and numbers its events). Whatever chunks the provider sends, \<open>Next\<close>
  returns false after finitely many calls (\<open>chat_run\<close> is total). The first event is
  \<open>response.created\<close>, the sequence numbers are 0, 1, 2, ..., and the stream ends with exactly one
  completed or incomplete event, in last place, unless \<open>Err\<close> reports an error, in which case there
  is none.
\<close>

theorem chat_stream_well_ended:
  "let (evs, s) = chat_run fresh (open_chat_stream uuid created model expose chunks err) in
     evs \<noteq> [] \<and> fst (hd evs) = ''response.created'' \<and> numbered 0 evs \<and> cs_ended s \<and>
     length (filter (ends_chat \<circ> fst) evs) = (if chat_err s = None then 1 else 0) \<and>
     (chat_err s = None \<longleftrightarrow> ends_chat (fst (last evs)))"
proof -
  let ?s = "open_chat_stream uuid created model expose chunks err"
  obtain evs f where r: "chat_run fresh ?s = (evs, f)" by (cases "chat_run fresh ?s")
  have "running 0 ?s" by (simp add: running_def queued_from_def open_chat_stream_def)
  with r have w: "well_ended 0 (evs, f)" using chat_run_well_ended by metis
  have "fst (chat_run fresh ?s) \<noteq> [] \<and> fst (hd (fst (chat_run fresh ?s))) = ''response.created''"
    by (simp add: chat_run.simps [of fresh ?s] chat_next_def case_prod_beta Let_def)
      (simp add: open_chat_stream_def enqueue_def)
  then have h: "evs \<noteq> []" "fst (hd evs) = ''response.created''" by (simp_all add: r)
  then obtain xs x where x: "evs = xs @ [x]" by (metis rev_exhaust)
  have "length (filter (ends_chat \<circ> fst) evs) = (if chat_err f = None then 1 else 0) \<and>
      (chat_err f = None \<longleftrightarrow> ends_chat (fst (last evs)))"
    using w by (auto simp: well_ended_def x list_all_iff filter_empty_conv split: if_splits)
  with w h r show ?thesis by (simp add: well_ended_def)
qed

end
