(* ===== verification/Chat_Bridge.thy ===== *)
theory Chat_Bridge
  imports Chat_Stream
begin

text \<open>
  A Chat Completions provider behind the Messages endpoint: the events of the adapter
  (\<open>Chat_Stream\<close>) are the input of the encoder (\<open>Anthropic_Stream\<close>). The SDK's decoder between them
  reads the fields of a payload; that it does so on the adapter's events is the hypothesis of the
  theorem here, which shows that the two components fit: no stream of a provider that ends without
  an error, with complete tool calls, makes the encoder fail.
\<close>

section \<open>Reading a payload\<close>

definition str_of :: "string \<Rightarrow> json_members \<Rightarrow> string" where
  "str_of k ms = (case map_of ms k of Some (VStr s) \<Rightarrow> s | _ \<Rightarrow> [])"

definition obj_of :: "string \<Rightarrow> json_members \<Rightarrow> json_members" where
  "obj_of k ms = (case map_of ms k of Some (VObj ns) \<Rightarrow> ns | _ \<Rightarrow> [])"

definition int_of :: "string \<Rightarrow> json_members \<Rightarrow> int option" where
  "int_of k ms = (case map_of ms k of Some (VInt i) \<Rightarrow> Some i | _ \<Rightarrow> None)"

text \<open>What the SDK's event union holds for a payload with these members.\<close>

definition union_of :: "json_members \<Rightarrow> upstream_event" where
  "union_of ms =
     \<lparr>ue_delta = str_of ''delta'' ms, ue_refusal = str_of ''refusal'' ms, ue_arguments = str_of ''arguments'' ms,
      ue_item_ref = str_of ''item_id'' ms, ue_output_index = int_of ''output_index'' ms,
      ue_item_type = str_of ''type'' (obj_of ''item'' ms), ue_item_id = str_of ''id'' (obj_of ''item'' ms),
      ue_item_call_id = str_of ''call_id'' (obj_of ''item'' ms), ue_item_name = str_of ''name'' (obj_of ''item'' ms),
      ue_item_arguments = str_of ''arguments'' (obj_of ''item'' ms),
      ue_incomplete_reason = str_of ''reason'' (obj_of ''incomplete_details'' (obj_of ''response'' ms))\<rparr>"

definition decodes :: "(string \<Rightarrow> upstream_event option) \<Rightarrow> queued_event \<Rightarrow> bool" where
  "decodes decode ev \<longleftrightarrow> decode (snd (event_bytes ev)) = Some (union_of (snd ev))"

section \<open>The encoder after a list of events\<close>

definition enc_step :: "(string \<Rightarrow> upstream_event option) \<Rightarrow> queued_event \<Rightarrow> encoder \<Rightarrow> encoder" where
  "enc_step decode ev e = snd (handle_responses_event decode (fst ev) (snd (event_bytes ev)) e)"

definition enc_run :: "(string \<Rightarrow> upstream_event option) \<Rightarrow> queued_event list \<Rightarrow> encoder \<Rightarrow> encoder" where
  "enc_run decode evs e = fold (enc_step decode) evs e"

lemma enc_run_encode: "snd (encode_stream decode (map event_bytes evs) e) = enc_run decode evs e"
proof (induction evs arbitrary: e)
  case (Cons ev evs)
  obtain ty ms where "ev = (ty, ms)" by (cases ev)
  with Cons show ?case by (simp add: enc_run_def enc_step_def event_bytes_def case_prod_beta)
qed (simp add: enc_run_def)

lemma enc_step_dispatch:
  assumes "decodes decode (ty, ms)" and "live e"
  shows "enc_step decode (ty, ms) e = snd (dispatch ty (union_of ms) (note_usage (snd (event_bytes (ty, ms))) e))"
  using assms by (simp add: enc_step_def handle_responses_event_def decodes_def live_def)

lemma note_usage_live: "live e \<Longrightarrow> live (note_usage p e)"
  by (rule live_cong) simp_all

section \<open>The relation between the two\<close>

text \<open>
  \<open>D\<close> is the set of output indices of the tools already finished. The encoder has one tool for each
  started tool of the adapter, with the same item id and arguments.
\<close>

definition tool_view :: "nat set \<Rightarrow> streamed_tool \<Rightarrow> int \<times> string \<times> string \<times> bool" where
  "tool_view D t =
     (int (sm_output_index t), sm_item_id t,
      if sm_output_index t \<in> D then tool_arguments t else sm_arguments t, sm_output_index t \<in> D)"

definition enc_view :: "int \<times> stream_tool \<Rightarrow> int \<times> string \<times> string \<times> bool" where
  "enc_view ku = (fst ku, st_item_id (snd ku), st_arguments (snd ku), st_closed (snd ku))"

definition started_tools :: "chat_stream \<Rightarrow> streamed_tool set" where
  "started_tools s = {t \<in> snd ` set (cs_tools s). sm_started t}"

definition bridge :: "nat set \<Rightarrow> chat_stream \<Rightarrow> encoder \<Rightarrow> bool" where
  "bridge D s e \<longleftrightarrow> live e \<and> en_refusal_text e = cs_refusal s \<and>
     enc_view ` set (en_tools e) = tool_view D ` started_tools s"

text \<open>The adapter's own invariant.\<close>

definition tools_ok :: "(nat \<Rightarrow> string) \<Rightarrow> chat_stream \<Rightarrow> bool" where
  "tools_ok fresh s \<longleftrightarrow> distinct (map fst (cs_tools s)) \<and>
     (\<forall>t \<in> started_tools s. sm_item_id t = ''fc_'' @ fresh (sm_output_index t) \<and> sm_output_index t < cs_next_output s) \<and>
     (\<forall>(j, t) \<in> set (cs_tools s). \<forall>(j', t') \<in> set (cs_tools s). sm_started t \<longrightarrow> sm_started t' \<longrightarrow>
        sm_output_index t = sm_output_index t' \<longrightarrow> j = j')"

definition joint :: "(string \<Rightarrow> upstream_event option) \<Rightarrow> (nat \<Rightarrow> string) \<Rightarrow> nat set \<Rightarrow> encoder \<Rightarrow> chat_stream \<Rightarrow> bool" where
  "joint decode fresh D e s \<longleftrightarrow> tools_ok fresh s \<and>
     (list_all (decodes decode) (cs_queue s) \<longrightarrow> bridge D s (enc_run decode (cs_queue s) e))"

lemma bridge_note_usage: "bridge D s e \<Longrightarrow> bridge D s (note_usage p e)"
  by (simp add: bridge_def note_usage_live)

lemma bridge_tool:
  assumes b: "bridge D s e" and t: "t \<in> started_tools s"
  obtains u where "tool_at e (int (sm_output_index t)) = Some u"
    "(int (sm_output_index t), u) \<in> set (en_tools e)" "st_item_id u = sm_item_id t"
    "st_arguments u = (if sm_output_index t \<in> D then tool_arguments t else sm_arguments t)"
    "st_closed u \<longleftrightarrow> sm_output_index t \<in> D"
proof -
  have "tool_view D t \<in> enc_view ` set (en_tools e)" using b t by (simp add: bridge_def)
  then obtain ku where "ku \<in> set (en_tools e)" "enc_view ku = tool_view D t" by (metis imageE)
  moreover obtain k u where "ku = (k, u)" by (cases ku)
  moreover from calculation have "k = int (sm_output_index t)" by (simp add: enc_view_def tool_view_def)
  ultimately have "(int (sm_output_index t), u) \<in> set (en_tools e)" "enc_view (int (sm_output_index t), u) = tool_view D t"
    by simp_all
  moreover from this(1) have "tool_at e (int (sm_output_index t)) = Some u"
    using b by (simp add: bridge_def live_def tool_at_in)
  ultimately show ?thesis by (intro that) (auto simp: enc_view_def tool_view_def)
qed

lemma bridge_tool_back:
  assumes "bridge D s e" and "(k, u) \<in> set (en_tools e)"
  obtains t where "t \<in> started_tools s" "k = int (sm_output_index t)" "st_item_id u = sm_item_id t"
    "st_arguments u = (if sm_output_index t \<in> D then tool_arguments t else sm_arguments t)"
    "st_closed u \<longleftrightarrow> sm_output_index t \<in> D"
proof -
  have "enc_view (k, u) \<in> tool_view D ` started_tools s" using assms by (auto simp: bridge_def)
  then show ?thesis using that by (auto simp: enc_view_def tool_view_def)
qed

text \<open>A tool is found by its item id.\<close>

lemma bridge_find:
  assumes "bridge D s e" and "tools_ok fresh s" and "inj fresh" and "t \<in> started_tools s"
  shows "find_tool (sm_item_id t) i e = Some (int (sm_output_index t))"
proof -
  have item: "sm_item_id t = ''fc_'' @ fresh (sm_output_index t)" using assms(2,4) by (simp add: tools_ok_def)
  obtain u where u: "(int (sm_output_index t), u) \<in> set (en_tools e)" "st_item_id u = sm_item_id t"
    using bridge_tool [OF assms(1,4)] by metis
  have only: "k = int (sm_output_index t)" if kv: "(k, v) \<in> set (en_tools e)" and iv: "st_item_id v = sm_item_id t" for k v
  proof -
    obtain t' where t': "t' \<in> started_tools s" "k = int (sm_output_index t')" "st_item_id v = sm_item_id t'"
      by (rule bridge_tool_back [OF assms(1) kv]) blast
    then have "fresh (sm_output_index t') = fresh (sm_output_index t)"
      using assms(2) iv item by (simp add: tools_ok_def)
    with assms(3) t'(2) show ?thesis by (simp add: inj_eq)
  qed
  obtain kv where kv: "find (\<lambda>(k, v). st_item_id v = sm_item_id t) (en_tools e) = Some kv"
    using u by (cases "find (\<lambda>(k, v). st_item_id v = sm_item_id t) (en_tools e)") (auto simp: find_None_iff)
  then have "kv \<in> set (en_tools e)" "st_item_id (snd kv) = sm_item_id t"
    unfolding find_Some_iff by (auto simp: case_prod_beta dest: nth_mem)
  then have "fst kv = int (sm_output_index t)" using only [of "fst kv" "snd kv"] by simp
  with kv item show ?thesis by (simp add: find_tool_def tool_by_item_def)
qed

section \<open>One event at a time\<close>

definition tagged :: "string \<Rightarrow> nat \<Rightarrow> json_members \<Rightarrow> json_members" where
  "tagged ty n body = body @ [(''type'', VStr ty), (''sequence_number'', VInt (int n))]"

lemma bridge_same:
  "cs_tools s' = cs_tools s \<Longrightarrow> cs_refusal s' = cs_refusal s \<Longrightarrow> bridge D s' e = bridge D s e"
  by (simp add: bridge_def started_tools_def)

lemma tools_ok_same:
  "cs_tools s' = cs_tools s \<Longrightarrow> cs_next_output s \<le> cs_next_output s' \<Longrightarrow> tools_ok fresh s \<Longrightarrow> tools_ok fresh s'"
  by (auto simp: tools_ok_def started_tools_def)

lemma joint_same:
  assumes "joint decode fresh D e s" and "cs_tools s' = cs_tools s" "cs_refusal s' = cs_refusal s"
    "cs_next_output s \<le> cs_next_output s'" "cs_queue s' = cs_queue s"
  shows "joint decode fresh D e s'"
  using assms tools_ok_same [OF assms(2,4)] bridge_same [OF assms(2,3)] by (simp add: joint_def)

lemma joint_enqueue:
  assumes "joint decode fresh D e s" and "cs_queue s1 = cs_queue s" and "tools_ok fresh s1"
    and "\<And>e'. bridge D s e' \<Longrightarrow> bridge D' s1 (snd (dispatch ty (union_of (tagged ty (cs_sequence s1) body)) e'))"
  shows "joint decode fresh D' e (enqueue ty body s1)"
  unfolding joint_def
proof (intro conjI impI)
  show "tools_ok fresh (enqueue ty body s1)" using assms(3) by (rule tools_ok_same [rotated 2]) (simp_all add: enqueue_def)
  assume "list_all (decodes decode) (cs_queue (enqueue ty body s1))"
  then have d: "list_all (decodes decode) (cs_queue s)" "decodes decode (ty, tagged ty (cs_sequence s1) body)"
    by (simp_all add: enqueue_def assms(2) tagged_def)
  let ?e = "enc_run decode (cs_queue s) e"
  have b: "bridge D s ?e" using assms(1) d(1) by (simp add: joint_def)
  then have "live ?e" by (simp add: bridge_def)
  from enc_step_dispatch [OF d(2) this] assms(4) [OF bridge_note_usage [OF b]]
  have "bridge D' s1 (enc_run decode (cs_queue (enqueue ty body s1)) e)"
    by (simp add: enc_run_def enqueue_def assms(2) tagged_def)
  then show "bridge D' (enqueue ty body s1) (enc_run decode (cs_queue (enqueue ty body s1)) e)"
    by (simp add: bridge_def started_tools_def enqueue_def)
qed

text \<open>Events the encoder passes over.\<close>

lemma joint_tools: "joint decode fresh D e s \<Longrightarrow> tools_ok fresh s"
  by (simp add: joint_def)

lemma joint_keep:
  assumes "joint decode fresh D e s"
    and "\<And>e'. bridge D s e' \<Longrightarrow> bridge D s (snd (dispatch ty (union_of (tagged ty (cs_sequence s) body)) e'))"
  shows "joint decode fresh D e (enqueue ty body s)"
  by (rule joint_enqueue [OF assms(1) refl joint_tools [OF assms(1)] assms(2)])

lemma dispatch_ignored:
  "dispatch ''response.created'' u e = ([], e)" "dispatch ''response.content_part.added'' u e = ([], e)"
  "dispatch ''response.reasoning_text.delta'' u e = ([], e)" "dispatch ''response.reasoning_text.done'' u e = ([], e)"
  by (simp_all add: dispatch_def)

lemma joint_ignored:
  assumes "joint decode fresh D e s"
  shows "joint decode fresh D e (enqueue ''response.created'' body s)"
    "joint decode fresh D e (enqueue ''response.content_part.added'' body s)"
    "joint decode fresh D e (enqueue ''response.reasoning_text.delta'' body s)"
    "joint decode fresh D e (enqueue ''response.reasoning_text.done'' body s)"
  by (rule joint_keep [OF assms]; simp add: dispatch_ignored)+

lemma union_item:
  assumes "distinct (map fst ns)"
  shows "union_of (tagged ty n (at_output k (vmap ns))) =
    \<lparr>ue_delta = [], ue_refusal = [], ue_arguments = [], ue_item_ref = [], ue_output_index = Some (int k),
     ue_item_type = str_of ''type'' ns, ue_item_id = str_of ''id'' ns, ue_item_call_id = str_of ''call_id'' ns,
     ue_item_name = str_of ''name'' ns, ue_item_arguments = str_of ''arguments'' ns, ue_incomplete_reason = []\<rparr>"
  using map_of_sort_members [OF assms]
  by (simp add: union_of_def tagged_def at_output_def vmap_def str_of_def obj_of_def int_of_def)

lemma dispatch_item:
  "ue_item_type u \<noteq> ''function_call'' \<Longrightarrow> dispatch ''response.output_item.added'' u e = ([], e)"
  "ue_item_type u \<noteq> ''function_call'' \<Longrightarrow> dispatch ''response.output_item.done'' u e = ([], e)"
  by (simp_all add: dispatch_def)

lemma joint_item:
  assumes "joint decode fresh D e s" and "distinct (map fst ns)" and "str_of ''type'' ns \<noteq> ''function_call''"
  shows "joint decode fresh D e (enqueue ''response.output_item.added'' (at_output k (vmap ns)) s)"
    "joint decode fresh D e (enqueue ''response.output_item.done'' (at_output k (vmap ns)) s)"
  by (rule joint_keep [OF assms(1)]; simp add: dispatch_item union_item [OF assms(2)] assms(3))+

lemma joint_message_item:
  assumes "joint decode fresh D e s"
  shows "joint decode fresh D e (enqueue ''response.output_item.added'' (at_output k (message_output oid status parts)) s)"
    "joint decode fresh D e (enqueue ''response.output_item.done'' (at_output k (message_output oid status parts)) s)"
    "joint decode fresh D e (enqueue ''response.output_item.done'' (at_output k (reasoning_output oid tx)) s)"
    "joint decode fresh D e (enqueue ''response.output_item.added''
       (at_output k (vmap [(''id'', VStr oid), (''type'', VStr ''reasoning''), (''summary'', VArr [])])) s)"
  unfolding message_output_def reasoning_output_def
  by (rule joint_item [OF assms]; simp add: str_of_def)+

lemma bridge_close_text: "bridge D s e \<Longrightarrow> bridge D s (snd (close_text e))"
  using sound_close_text [of e] by (auto simp: bridge_def live_def sound_def close_text_def)

lemma joint_part_done:
  assumes "joint decode fresh D e s"
  shows "joint decode fresh D e (enqueue ''response.output_text.done'' body s)"
    "joint decode fresh D e (enqueue ''response.content_part.done'' body s)"
  by (rule joint_keep [OF assms]; simp add: dispatch_def bridge_close_text)+

lemma bridge_text_delta: "bridge D s e \<Longrightarrow> bridge D s (snd (text_delta d e))"
  using sound_text_delta [of e d] by (auto simp: bridge_def live_def sound_def text_delta_def)

lemma joint_text_delta:
  assumes "joint decode fresh D e s"
  shows "joint decode fresh D e (enqueue ''response.output_text.delta'' body s)"
  by (rule joint_keep [OF assms]) (simp add: dispatch_def bridge_text_delta)

lemma joint_refusal_delta:
  assumes "joint decode fresh D e s"
  shows "joint decode fresh D e
    (enqueue ''response.refusal.delta'' (at_part p @ [(''delta'', VStr d)]) (s\<lparr>cs_refusal := cs_refusal s @ d\<rparr>))"
proof (rule joint_enqueue [OF assms])
  show "tools_ok fresh (s\<lparr>cs_refusal := cs_refusal s @ d\<rparr>)"
    using assms by (auto simp: joint_def intro: tools_ok_same)
  fix e' assume b: "bridge D s e'"
  let ?s = "s\<lparr>cs_refusal := cs_refusal s @ d\<rparr>"
  let ?e = "e'\<lparr>en_stop_reason := ''refusal'', en_refusal_text := en_refusal_text e' @ d\<rparr>"
  have "live ?e" using b by (auto simp: bridge_def intro: live_cong)
  then have "bridge D ?s ?e" using b by (simp add: bridge_def started_tools_def)
  from bridge_text_delta [OF this, of d]
  show "bridge D ?s (snd (dispatch ''response.refusal.delta''
      (union_of (tagged ''response.refusal.delta'' (cs_sequence ?s) (at_part p @ [(''delta'', VStr d)]))) e'))"
    by (simp add: dispatch_def union_of_def str_of_def tagged_def at_part_def)
qed simp

lemma joint_refusal_done:
  assumes "joint decode fresh D e s"
  shows "joint decode fresh D e
    (enqueue ''response.refusal.done'' (at_part p @ [(''refusal'', VStr (cs_refusal s))]) s)"
proof (rule joint_enqueue [OF assms])
  show "tools_ok fresh s" using assms by (simp add: joint_def)
  fix e' assume b: "bridge D s e'"
  let ?e = "e'\<lparr>en_stop_reason := ''refusal''\<rparr>"
  have "live ?e" using b by (auto simp: bridge_def intro: live_cong)
  then have "bridge D s ?e" and "en_refusal_text ?e = cs_refusal s" using b by (simp_all add: bridge_def)
  with bridge_close_text
  show "bridge D s (snd (dispatch ''response.refusal.done''
      (union_of (tagged ''response.refusal.done'' (cs_sequence s) (at_part p @ [(''refusal'', VStr (cs_refusal s))]))) e'))"
    by (simp add: dispatch_def union_of_def str_of_def tagged_def at_part_def refusal_done_def Let_def)
qed simp

section \<open>Tools\<close>

lemma tools_unique:
  assumes "tools_ok fresh s" and "t \<in> started_tools s" and "t' \<in> started_tools s"
    and "sm_output_index t = sm_output_index t'"
  shows "t = t'"
proof -
  obtain j j' where j: "(j, t) \<in> set (cs_tools s)" "(j', t') \<in> set (cs_tools s)" "sm_started t" "sm_started t'"
    using assms(2,3) by (auto simp: started_tools_def)
  with assms(1,4) have "j = j'" unfolding tools_ok_def by blast
  with j assms(1) show ?thesis by (auto simp: tools_ok_def dest: eq_key_imp_eq_value)
qed

text \<open>The adapter replaces the tool with output index \<open>sm_output_index t\<close>, the encoder follows.\<close>

lemma bridge_replace:
  assumes b: "bridge D s e" and v: "tool_at e (int (sm_output_index t)) = Some v"
    and l: "live (set_tool (int (sm_output_index t)) v' e)"
    and st: "\<And>x. x \<in> started_tools s1 \<longleftrightarrow> x = t \<or> (x \<in> started_tools s \<and> sm_output_index x \<noteq> sm_output_index t)"
    and "cs_refusal s1 = cs_refusal s" and view: "enc_view (int (sm_output_index t), v') = tool_view D' t"
    and d: "D' - {sm_output_index t} = D - {sm_output_index t}"
  shows "bridge D' s1 (set_tool (int (sm_output_index t)) v' e)"
proof -
  let ?k = "int (sm_output_index t)"
  have ok: "enc_ok e" and kv: "(?k, v) \<in> set (en_tools e)" using b v by (simp_all add: bridge_def live_def tool_at_in)
  have same: "tool_view D' x = tool_view D x" if "sm_output_index x \<noteq> sm_output_index t" for x
    using d that by (auto simp: tool_view_def)
  have "enc_view ` set (en_tools (set_tool ?k v' e)) = tool_view D' ` started_tools s1"
  proof (intro set_eqI iffI)
    fix y assume "y \<in> enc_view ` set (en_tools (set_tool ?k v' e))"
    then obtain j u where ju: "(j, u) \<in> set (en_tools (set_tool ?k v' e))" "y = enc_view (j, u)" by auto
    show "y \<in> tool_view D' ` started_tools s1"
    proof (cases "j = ?k")
      case True
      with ju have "y = tool_view D' t" by (simp add: set_tool_mem [OF ok kv] view)
      then show ?thesis using st by blast
    next
      case False
      with ju have "(j, u) \<in> set (en_tools e)" by (simp add: set_tool_mem [OF ok kv])
      with b have "enc_view (j, u) \<in> tool_view D ` started_tools s" by (auto simp: bridge_def)
      then obtain x where x: "x \<in> started_tools s" "enc_view (j, u) = tool_view D x" by auto
      then have "sm_output_index x \<noteq> sm_output_index t" using False by (auto simp: enc_view_def tool_view_def)
      with x st have "x \<in> started_tools s1" "tool_view D' x = y" using same ju(2) by simp_all
      then show ?thesis by blast
    qed
  next
    fix y assume "y \<in> tool_view D' ` started_tools s1"
    then obtain x where x: "x \<in> started_tools s1" "y = tool_view D' x" by auto
    show "y \<in> enc_view ` set (en_tools (set_tool ?k v' e))"
    proof (cases "x = t")
      case True
      have "(?k, v') \<in> set (en_tools (set_tool ?k v' e))" by (simp add: set_tool_mem [OF ok kv])
      with True x(2) view show ?thesis by (metis imageI)
    next
      case False
      with x(1) st have s: "x \<in> started_tools s" "sm_output_index x \<noteq> sm_output_index t" by blast+
      then have "y \<in> enc_view ` set (en_tools e)" using x(2) same b by (simp add: bridge_def)
      then obtain j u where ju: "(j, u) \<in> set (en_tools e)" "y = enc_view (j, u)" by auto
      with s x(2) have "j \<noteq> ?k" by (auto simp: enc_view_def tool_view_def)
      with ju show ?thesis using set_tool_mem [OF ok kv, of j u v'] by (metis (no_types, lifting) imageI)
    qed
  qed
  with l b assms(5) show ?thesis by (simp add: bridge_def set_tool_def)
qed

lemma update_mem:
  "distinct (map fst al) \<Longrightarrow> (j, t) \<in> set (AList.update k v al) \<longleftrightarrow> (if j = k then t = v else (j, t) \<in> set al)"
  using map_of_eq_Some_iff [of al j t] map_of_eq_Some_iff [OF distinct_update, of al k v j t]
  by (auto simp: update_conv')

lemma put_tool_sel [simp]:
  "cs_queue (put_tool j t s) = cs_queue s" "cs_refusal (put_tool j t s) = cs_refusal s"
  "cs_sequence (put_tool j t s) = cs_sequence s" "cs_next_output (put_tool j t s) = cs_next_output s"
  "cs_tools (put_tool j t s) = AList.update j t (cs_tools s)"
  by (simp_all add: put_tool_def)

text \<open>Putting a tool in place of one with the same item id and output index.\<close>

lemma started_iff: "x \<in> started_tools s \<longleftrightarrow> sm_started x \<and> (\<exists>i. (i, x) \<in> set (cs_tools s))"
  by (force simp: started_tools_def)

lemma tools_apart:
  assumes "tools_ok fresh s" and "(i, x) \<in> set (cs_tools s)" and "(j, y) \<in> set (cs_tools s)"
    and "sm_started x" and "sm_started y" and "i \<noteq> j"
  shows "sm_output_index x \<noteq> sm_output_index y"
proof
  assume "sm_output_index x = sm_output_index y"
  with tools_unique [OF assms(1), of x y] assms(2-5) have "x = y" unfolding started_iff by blast
  moreover have "\<forall>(j, t) \<in> set (cs_tools s). \<forall>(j', t') \<in> set (cs_tools s). sm_started t \<longrightarrow> sm_started t' \<longrightarrow>
        sm_output_index t = sm_output_index t' \<longrightarrow> j = j'" using assms(1) by (simp add: tools_ok_def)
  ultimately show False using assms(2-6) by fast
qed

lemma put_started:
  assumes "tools_ok fresh s" and "(j, t0) \<in> set (cs_tools s)" and "sm_started t0" and "sm_started t"
    and "sm_output_index t = sm_output_index t0" and "sm_item_id t = sm_item_id t0"
  shows "x \<in> started_tools (put_tool j t s) \<longleftrightarrow> x = t \<or> (x \<in> started_tools s \<and> sm_output_index x \<noteq> sm_output_index t)"
    and "tools_ok fresh (put_tool j t s)"
proof -
  have d: "distinct (map fst (cs_tools s))" using assms(1) by (simp add: tools_ok_def)
  have st: "x \<in> started_tools (put_tool j t s) \<longleftrightarrow> x = t \<or> (\<exists>i. (i, x) \<in> set (cs_tools s) \<and> i \<noteq> j \<and> sm_started x)" for x
    unfolding started_iff put_tool_sel update_mem [OF d] using assms(4) by auto
  have ix: "sm_output_index x \<noteq> sm_output_index t" if "(i, x) \<in> set (cs_tools s)" "i \<noteq> j" "sm_started x" for i x
    using tools_apart [OF assms(1) that(1) assms(2) that(3) assms(3) that(2)] assms(5) by simp
  have other: "i \<noteq> j" if "(i, x) \<in> set (cs_tools s)" "sm_output_index x \<noteq> sm_output_index t" for i x
    using that assms(2,5) d by (metis eq_key_imp_eq_value)
  show started: "x \<in> started_tools (put_tool j t s) \<longleftrightarrow> x = t \<or> (x \<in> started_tools s \<and> sm_output_index x \<noteq> sm_output_index t)" for x
    unfolding st unfolding started_iff using ix other by blast
  have t0: "t0 \<in> started_tools s" using assms(2,3) unfolding started_iff by blast
  have old: "sm_item_id x = ''fc_'' @ fresh (sm_output_index x) \<and> sm_output_index x < cs_next_output s"
    if "x \<in> started_tools s" for x
    using that assms(1) by (simp add: tools_ok_def)
  have one: "sm_item_id x = ''fc_'' @ fresh (sm_output_index x) \<and> sm_output_index x < cs_next_output s"
    if "x \<in> started_tools (put_tool j t s)" for x
    using that old [of x] old [OF t0] assms(5,6) unfolding started by auto
  have apart: "j1 = j2" if "(j1, t1) \<in> set (AList.update j t (cs_tools s))" "(j2, t2) \<in> set (AList.update j t (cs_tools s))"
    "sm_started t1" "sm_started t2" "sm_output_index t1 = sm_output_index t2" for j1 j2 t1 t2
  proof (rule ccontr)
    assume n: "j1 \<noteq> j2"
    note m = that(1,2) [unfolded update_mem [OF d]]
    consider "j1 = j" "j2 \<noteq> j" | "j2 = j" "j1 \<noteq> j" | "j1 \<noteq> j" "j2 \<noteq> j" using n by blast
    then show False
    proof cases
      case 1
      with m have "t1 = t" "(j2, t2) \<in> set (cs_tools s)" by simp_all
      with ix [of j2 t2] 1 that(4,5) show False by simp
    next
      case 2
      with m have "t2 = t" "(j1, t1) \<in> set (cs_tools s)" by simp_all
      with ix [of j1 t1] 2 that(3,5) show False by simp
    next
      case 3
      with m have "(j1, t1) \<in> set (cs_tools s)" "(j2, t2) \<in> set (cs_tools s)" by simp_all
      from tools_apart [OF assms(1) this that(3,4) n] that(5) show False by simp
    qed
  qed
  have "distinct (map fst (cs_tools (put_tool j t s)))" using distinct_update [OF d] by simp
  then show "tools_ok fresh (put_tool j t s)"
    unfolding tools_ok_def using one apart by (simp only: put_tool_sel) blast
qed

lemma joint_put_same:
  assumes J: "joint decode fresh {} e s" and "(j, t0) \<in> set (cs_tools s)" and "sm_started t0" and "sm_started t"
    and "sm_output_index t = sm_output_index t0" and "sm_item_id t = sm_item_id t0" and "sm_arguments t = sm_arguments t0"
  shows "joint decode fresh {} e (put_tool j t s)"
proof -
  have ok: "tools_ok fresh s" using J by (simp add: joint_def)
  note p = put_started [OF ok assms(2-6)]
  have t0: "t0 \<in> started_tools s" using assms(2,3) by (force simp: started_tools_def)
  have v: "tool_view {} t = tool_view {} t0" using assms(5-7) by (simp add: tool_view_def)
  have "tool_view {} ` started_tools (put_tool j t s) = tool_view {} ` started_tools s"
  proof (intro set_eqI iffI)
    fix y assume "y \<in> tool_view {} ` started_tools (put_tool j t s)"
    then obtain x where "x \<in> started_tools (put_tool j t s)" "y = tool_view {} x" by auto
    with p(1) [of x] v t0 show "y \<in> tool_view {} ` started_tools s" by (cases "x = t") auto
  next
    fix y assume "y \<in> tool_view {} ` started_tools s"
    then obtain x where x: "x \<in> started_tools s" "y = tool_view {} x" by auto
    show "y \<in> tool_view {} ` started_tools (put_tool j t s)"
    proof (cases "sm_output_index x = sm_output_index t")
      case True
      with tools_unique [OF ok x(1) t0] assms(5) have "x = t0" by simp
      with x(2) v p(1) [of t] show ?thesis by (metis imageI)
    next
      case False
      with x p(1) [of x] show ?thesis by blast
    qed
  qed
  with J p(2) show ?thesis by (simp add: joint_def bridge_def)
qed

lemma dispatch_calls:
  "dispatch ''response.function_call_arguments.delta'' u e = arguments_delta u e"
  "dispatch ''response.function_call_arguments.done'' u e =
     tool_done ''unmatched upstream function arguments'' (ue_arguments u) (ue_item_ref u) (ue_output_index u) e"
  "ue_item_type u = ''function_call'' \<Longrightarrow> dispatch ''response.output_item.added'' u e = add_tool u e"
  "ue_item_type u = ''function_call'' \<Longrightarrow> dispatch ''response.output_item.done'' u e =
     tool_done ''unmatched upstream function call'' (ue_item_arguments u) (ue_item_id u) (ue_output_index u) e"
  by (simp_all add: dispatch_def)

text \<open>A further fragment of a started tool.\<close>

lemma joint_tool_delta:
  assumes J: "joint decode fresh {} e s" and inj: "inj fresh" and j: "(j, t0) \<in> set (cs_tools s)" "sm_started t0" "sm_started t"
    and t: "sm_output_index t = sm_output_index t0" "sm_item_id t = sm_item_id t0" "sm_arguments t = sm_arguments t0 @ f"
    and f: "f \<noteq> []"
  shows "joint decode fresh {} e (tool_delta_event t f (put_tool j t s))"
  unfolding tool_delta_event_def
proof (rule joint_enqueue [OF J])
  have ok: "tools_ok fresh s" using J by (simp add: joint_def)
  note p = put_started [OF ok j t(1,2)]
  show "tools_ok fresh (put_tool j t s)" by (rule p(2))
  have t0: "t0 \<in> started_tools s" using j unfolding started_iff by blast
  fix e' assume b: "bridge {} s e'"
  let ?k = "int (sm_output_index t)"
  obtain v where v: "tool_at e' ?k = Some v" "st_item_id v = sm_item_id t" "st_arguments v = sm_arguments t0" "\<not> st_closed v"
    using bridge_tool [OF b t0] t(1,2) by (metis empty_iff)
  define u where "u = union_of (tagged ''response.function_call_arguments.delta'' (cs_sequence (put_tool j t s))
      [(''item_id'', VStr (sm_item_id t)), (''output_index'', VInt ?k), (''delta'', VStr f)])"
  have u: "ue_item_ref u = sm_item_id t" "ue_output_index u = Some ?k" "ue_delta u = f"
    by (simp_all add: u_def union_of_def tagged_def str_of_def int_of_def)
  have "find_tool (sm_item_id t) (Some ?k) e' = Some ?k"
    using bridge_find [OF b ok inj t0] t(1,2) by simp
  then have d: "snd (arguments_delta u e') = set_tool ?k (v\<lparr>st_arguments := st_arguments v @ f\<rparr>) e'"
    using v f by (simp add: arguments_delta_def u tool_delta_def Let_def)
  have "bridge {} (put_tool j t s) (set_tool ?k (v\<lparr>st_arguments := st_arguments v @ f\<rparr>) e')"
  proof (rule bridge_replace [OF b v(1) _ p(1)])
    show "live (set_tool ?k (v\<lparr>st_arguments := st_arguments v @ f\<rparr>) e')"
      using b v(1) by (intro set_tool_live) (simp_all add: bridge_def)
  qed (use v t in \<open>simp_all add: enc_view_def tool_view_def\<close>)
  with d show "bridge {} (put_tool j t s) (snd (dispatch ''response.function_call_arguments.delta''
      (union_of (tagged ''response.function_call_arguments.delta'' (cs_sequence (put_tool j t s))
        [(''item_id'', VStr (sm_item_id t)), (''output_index'', VInt ?k), (''delta'', VStr f)])) e'))"
    unfolding dispatch_calls u_def [symmetric] by simp
qed simp

text \<open>A new tool.\<close>

lemma joint_tool_added:
  assumes J: "joint decode fresh {} e s" and inj: "inj fresh"
    and new: "\<And>t0. (j, t0) \<in> set (cs_tools s) \<Longrightarrow> \<not> sm_started t0"
    and t: "sm_started t" "sm_output_index t = cs_next_output s" "sm_item_id t = ''fc_'' @ fresh (cs_next_output s)"
      "sm_call_id t \<noteq> []" "sm_name t \<noteq> []" "sm_arguments t = []"
  shows "joint decode fresh {} e (enqueue ''response.output_item.added''
      (at_output (cs_next_output s) (call_output t ''in_progress'' []))
      (put_tool j t (s\<lparr>cs_next_output := Suc (cs_next_output s)\<rparr>)))"
proof (rule joint_enqueue [OF J])
  let ?n = "cs_next_output s"
  let ?s1 = "put_tool j t (s\<lparr>cs_next_output := Suc ?n\<rparr>)"
  have ok: "tools_ok fresh s" using J by (simp add: joint_def)
  then have d: "distinct (map fst (cs_tools s))" by (simp add: tools_ok_def)
  have st: "x \<in> started_tools ?s1 \<longleftrightarrow> x = t \<or> x \<in> started_tools s" for x
    unfolding started_iff put_tool_sel using update_mem [OF d] t(1) new by auto metis
  have lt: "sm_output_index x < ?n" "sm_item_id x = ''fc_'' @ fresh (sm_output_index x)" if "x \<in> started_tools s" for x
    using ok that by (simp_all add: tools_ok_def)
  have low: "sm_output_index x < ?n" if "(i, x) \<in> set (cs_tools s)" "sm_started x" for i x
    using lt(1) [of x] that unfolding started_iff by blast
  have apart: "ja = jb" if "(ja, ta) \<in> set (AList.update j t (cs_tools s))" "(jb, tb) \<in> set (AList.update j t (cs_tools s))"
    "sm_started ta" "sm_started tb" "sm_output_index ta = sm_output_index tb" for ja jb ta tb
  proof (rule ccontr)
    assume n: "ja \<noteq> jb"
    note m = that(1,2) [unfolded update_mem [OF d]]
    consider "ja = j" "jb \<noteq> j" | "jb = j" "ja \<noteq> j" | "ja \<noteq> j" "jb \<noteq> j" using n by blast
    then show False
    proof cases
      case 1 with m that(4,5) low [of jb tb] t(2) show False by simp
    next
      case 2 with m that(3,5) low [of ja ta] t(2) show False by simp
    next
      case 3
      with m have "(ja, ta) \<in> set (cs_tools s)" "(jb, tb) \<in> set (cs_tools s)" by simp_all
      from tools_apart [OF ok this that(3,4) n] that(5) show False by simp
    qed
  qed
  have one: "sm_item_id x = ''fc_'' @ fresh (sm_output_index x) \<and> sm_output_index x < Suc ?n"
    if "x \<in> started_tools ?s1" for x
    using that lt [of x] t(2,3) unfolding st by auto
  have "distinct (map fst (AList.update j t (cs_tools s)))" using distinct_update [OF d] .
  then show "tools_ok fresh ?s1"
    unfolding tools_ok_def using one apart by simp blast
  fix e' assume b: "bridge {} s e'"
  define u where "u = union_of (tagged ''response.output_item.added'' (cs_sequence ?s1)
      (at_output ?n (call_output t ''in_progress'' [])))"
  have u: "ue_item_type u = ''function_call''" "ue_item_id u = sm_item_id t" "ue_item_call_id u = sm_call_id t"
    "ue_item_name u = sm_name t" "ue_item_arguments u = []" "ue_output_index u = Some (int ?n)"
    unfolding u_def call_output_def by (simp_all add: union_item str_of_def)
  have known: "k < int ?n \<and> st_item_id v \<noteq> sm_item_id t" if kv: "(k, v) \<in> set (en_tools e')" for k v
  proof -
    obtain x where x: "x \<in> started_tools s" "k = int (sm_output_index x)" "st_item_id v = sm_item_id x"
      by (rule bridge_tool_back [OF b kv]) blast
    with lt [OF x(1)] t(3) inj show ?thesis by (auto simp: inj_eq)
  qed
  have "tool_by_item (sm_item_id t) e' = None"
    using known by (auto simp: tool_by_item_def find_None_iff)
  moreover have "tool_at e' (int ?n) = None"
    using known by (fastforce simp: tool_at_def map_of_eq_None_iff)
  ultimately have add: "snd (add_tool u e') = (snd (close_text e'))
      \<lparr>en_next_index := Suc (en_next_index (snd (close_text e'))),
       en_tools := en_tools (snd (close_text e')) @
         [(int ?n, \<lparr>st_item_id = sm_item_id t, st_call_id = sm_call_id t, st_index = en_next_index (snd (close_text e')),
            st_arguments = [], st_closed = False\<rparr>)],
       en_stop_reason := ''tool_use''\<rparr>"
    using t(3-5) by (simp add: add_tool_def u Let_def case_prod_beta)
  have c: "en_tools (snd (close_text e')) = en_tools e'" "en_terminal (snd (close_text e')) = en_terminal e'"
    "en_refusal_text (snd (close_text e')) = en_refusal_text e'" by (simp_all add: close_text_def)
  have "live e'" using b by (simp add: bridge_def)
  with sound_add_tool [OF this, of u] c have l: "live (snd (add_tool u e'))" by (simp add: sound_def live_def add)
  have "tool_view {} ` started_tools ?s1 = insert (tool_view {} t) (tool_view {} ` started_tools s)"
    using st by auto
  moreover have "enc_view ` set (en_tools (snd (add_tool u e'))) = insert (tool_view {} t) (enc_view ` set (en_tools e'))"
    using t(2,6) by (simp add: add c enc_view_def tool_view_def)
  ultimately have "bridge {} ?s1 (snd (add_tool u e'))"
    using b l by (simp add: bridge_def add c)
  then show "bridge {} ?s1 (snd (dispatch ''response.output_item.added''
      (union_of (tagged ''response.output_item.added'' (cs_sequence ?s1) (at_output ?n (call_output t ''in_progress'' [])))) e'))"
    unfolding u_def [symmetric] dispatch_calls(3) [OF u(1)] .
qed simp

end
