(* ===== verification/Chat_Calls.thy ===== *)
theory Chat_Calls
  imports Chat_Bridge Anthropic_Faithful
begin

text \<open>
  The tool calls of a chat provider's stream, read off its chunks: what a call index was given in
  fragments, when it can first be announced, and that the adapter (\<open>Chat_Stream\<close>) keeps and announces
  exactly that. Used for the client's stream (\<open>Chat_Messages\<close>) and for the comparison with a plain
  completion (\<open>Chat_Agreement\<close>).
\<close>

section \<open>Fragments\<close>

definition said_choices :: "chunk list \<Rightarrow> chunk_choice list" where
  "said_choices cs = filter (\<lambda>c. kh_index c = 0) (concat (map kc_choices cs))"

definition fragments :: "chunk list \<Rightarrow> chunk_tool list" where
  "fragments cs = concat (map kh_tools (said_choices cs))"

text \<open>The fragments of one call, and the calls in the order they appear.\<close>

definition of_call :: "int \<Rightarrow> chunk_tool list \<Rightarrow> chunk_tool list" where
  "of_call j ds = filter (\<lambda>d. kt_index d = j) ds"

definition call_indexes :: "chunk_tool list \<Rightarrow> int list" where
  "call_indexes ds = rev (remdups (rev (map kt_index ds)))"

definition last_given :: "string list \<Rightarrow> string" where
  "last_given xs = (let ys = filter (\<lambda>x. x \<noteq> []) xs in if ys = [] then [] else last ys)"

definition spoken_arguments :: "int \<Rightarrow> chunk_tool list \<Rightarrow> string" where
  "spoken_arguments j ds = concat (map kt_arguments (of_call j ds))"

text \<open>
  The id and name of a call as they stand when both have first been given: a call is announced then.
\<close>

fun announce :: "string \<Rightarrow> string \<Rightarrow> chunk_tool list \<Rightarrow> (string \<times> string) option" where
  "announce i n [] = None"
| "announce i n (d # ds) =
     (let i' = (if kt_id d \<noteq> [] then kt_id d else i); n' = n @ kt_name d in
      if i' \<noteq> [] \<and> n' \<noteq> [] then Some (i', n') else announce i' n' ds)"

definition announced :: "int \<Rightarrow> chunk_tool list \<Rightarrow> (string \<times> string) option" where
  "announced j ds = announce [] [] (of_call j ds)"

lemma of_call_simps [simp]:
  "of_call j [] = []" "of_call j (xs @ ys) = of_call j xs @ of_call j ys"
  "of_call j [d] = (if kt_index d = j then [d] else [])"
  by (simp_all add: of_call_def)

lemma last_given_simps [simp]:
  "last_given [] = []" "last_given (xs @ [x]) = (if x \<noteq> [] then x else last_given xs)"
  by (simp_all add: last_given_def Let_def)

lemma last_given_Cons: "last_given (x # xs) = (if last_given xs \<noteq> [] then last_given xs else x)"
proof (induction xs rule: rev_induct)
  case (snoc y xs)
  have "last_given (x # xs @ [y]) = (if y \<noteq> [] then y else last_given (x # xs))"
    using last_given_simps(2) [of "x # xs" y] by simp
  with snoc show ?case by auto
qed (simp add: last_given_def)

lemma announce_snoc:
  "announce i n (ds @ [d]) =
     (case announce i n ds of
        Some r \<Rightarrow> Some r
      | None \<Rightarrow>
          (let i' = (if kt_id d \<noteq> [] then kt_id d else if last_given (map kt_id ds) \<noteq> [] then last_given (map kt_id ds) else i);
               n' = n @ concat (map kt_name ds) @ kt_name d in
           if i' \<noteq> [] \<and> n' \<noteq> [] then Some (i', n') else None))"
proof (induction ds arbitrary: i n)
  case (Cons a ds)
  then show ?case by (simp add: Let_def last_given_Cons split: option.split)
qed (simp add: Let_def)

lemma fragments_simps [simp]:
  "fragments [] = []" "fragments (xs @ ys) = fragments xs @ fragments ys"
  by (simp_all add: fragments_def said_choices_def)

lemma call_indexes_snoc:
  "call_indexes (ds @ [d]) =
     (if kt_index d \<in> kt_index ` set ds then call_indexes ds else call_indexes ds @ [kt_index d])"
  by (simp add: call_indexes_def)

lemma call_indexes_set [simp]: "set (call_indexes ds) = kt_index ` set ds" "distinct (call_indexes ds)"
  by (simp_all add: call_indexes_def)

lemma of_call_Nil: "of_call j ds = [] \<longleftrightarrow> j \<notin> kt_index ` set ds"
  by (auto simp: of_call_def filter_empty_conv)

section \<open>What the adapter keeps of them\<close>

definition spoken_tool :: "chunk_tool list \<Rightarrow> int \<Rightarrow> streamed_tool" where
  "spoken_tool ds j =
     \<lparr>sm_output_index = 0, sm_item_id = [], sm_call_id = last_given (map kt_id (of_call j ds)),
      sm_name = concat (map kt_name (of_call j ds)), sm_arguments = spoken_arguments j ds, sm_started = False\<rparr>"

definition spoken_tools :: "chunk_tool list \<Rightarrow> (int \<times> streamed_tool) list" where
  "spoken_tools ds = map (\<lambda>j. (j, spoken_tool ds j)) (call_indexes ds)"

definition face :: "streamed_tool \<Rightarrow> streamed_tool" where
  "face t = t\<lparr>sm_output_index := 0, sm_item_id := [], sm_started := False\<rparr>"

definition faces :: "(int \<times> streamed_tool) list \<Rightarrow> (int \<times> streamed_tool) list" where
  "faces al = map (\<lambda>(k, t). (k, face t)) al"

definition hear_tool :: "chunk_tool \<Rightarrow> (int \<times> streamed_tool) list \<Rightarrow> (int \<times> streamed_tool) list" where
  "hear_tool d al =
     AList.update (kt_index d) (merge_tool d (case map_of al (kt_index d) of None \<Rightarrow> new_tool | Some t \<Rightarrow> t)) al"

lemma face_simps [simp]:
  "face (face t) = face t" "face new_tool = new_tool" "face (merge_tool d t) = merge_tool d (face t)"
  "face (t\<lparr>sm_started := b, sm_item_id := i, sm_output_index := k\<rparr>) = face t"
  by (simp_all add: face_def merge_tool_def new_tool_def)

lemma faces_update: "faces (AList.update k t al) = AList.update k (face t) (faces al)"
  by (induction al) (auto simp: faces_def)

lemma faces_lookup: "map_of (faces al) k = map_option face (map_of al k)"
  by (induction al) (auto simp: faces_def)

lemma faces_keys: "map fst (faces al) = map fst al"
  by (induction al) (auto simp: faces_def)

lemma update_table:
  "distinct js \<Longrightarrow> AList.update k v (map (\<lambda>j. (j, f j)) js) =
     (if k \<in> set js then map (\<lambda>j. (j, if j = k then v else f j)) js else map (\<lambda>j. (j, f j)) js @ [(k, v)])"
proof (induction js)
  case (Cons j js)
  have "map (\<lambda>j. (j, if j = k then v else f j)) js = map (\<lambda>j. (j, f j)) js" if "k \<notin> set js"
    using that by (intro map_cong) auto
  with Cons show ?case by auto
qed simp

lemma spoken_tools_lookup:
  "map_of (spoken_tools ds) j = (if j \<in> kt_index ` set ds then Some (spoken_tool ds j) else None)"
  by (simp add: spoken_tools_def map_of_map_restrict restrict_map_def)

lemma spoken_tool_other: "kt_index d \<noteq> j \<Longrightarrow> spoken_tool (ds @ [d]) j = spoken_tool ds j"
  by (simp add: spoken_tool_def spoken_arguments_def)

lemma spoken_tool_merge: "spoken_tool (ds @ [d]) (kt_index d) = merge_tool d (spoken_tool ds (kt_index d))"
  by (simp add: spoken_tool_def spoken_arguments_def merge_tool_def)

lemma spoken_tool_new: "j \<notin> kt_index ` set ds \<Longrightarrow> spoken_tool ds j = new_tool"
  using of_call_Nil [of j ds] by (simp add: spoken_tool_def spoken_arguments_def new_tool_def)

lemma hear_spoken: "hear_tool d (spoken_tools ds) = spoken_tools (ds @ [d])"
proof -
  let ?k = "kt_index d"
  have m: "merge_tool d (case map_of (spoken_tools ds) ?k of None \<Rightarrow> new_tool | Some t \<Rightarrow> t) = spoken_tool (ds @ [d]) ?k"
    by (auto simp: spoken_tools_lookup spoken_tool_merge spoken_tool_new)
  have "spoken_tool (ds @ [d]) (kt_index x) = spoken_tool ds (kt_index x)"
    if "?k \<notin> kt_index ` set ds" "x \<in> set ds" for x
    using that by (intro spoken_tool_other) auto
  then show ?thesis unfolding hear_tool_def m unfolding spoken_tools_def
    by (auto simp: update_table call_indexes_snoc spoken_tool_other intro!: map_cong)
qed

lemma hear_spoken_all: "fold hear_tool ds (spoken_tools es) = spoken_tools (es @ ds)"
  by (induction ds arbitrary: es) (simp_all add: hear_spoken)

lemma add_tool_delta_faces:
  "faces (cs_tools (add_tool_delta fresh d s)) = hear_tool d (faces (cs_tools s))"
proof -
  define old where "old = (case map_of (cs_tools s) (kt_index d) of None \<Rightarrow> new_tool | Some t \<Rightarrow> t)"
  have f: "hear_tool d (faces (cs_tools s)) = AList.update (kt_index d) (merge_tool d (face old)) (faces (cs_tools s))"
    by (simp add: hear_tool_def faces_lookup old_def split: option.split)
  have c: "cs_tools (close_reasoning s) = cs_tools s"
    by (simp add: close_reasoning_def enqueue_def split: option.split)
  show ?thesis
    unfolding f add_tool_delta_def old_def [symmetric] Let_def
    by (simp add: tool_delta_event_def put_tool_def enqueue_def faces_update c)
qed

section \<open>What the adapter announces\<close>

text \<open>The calls an event announces: output index, call id and name.\<close>

definition added :: "queued_event \<Rightarrow> (int \<times> string \<times> string) list" where
  "added ev =
     (let u = union_of (snd ev) in
      if fst ev = ''response.output_item.added'' \<and> ue_item_type u = ''function_call''
      then (case ue_output_index u of None \<Rightarrow> [] | Some k \<Rightarrow> [(k, ue_item_call_id u, ue_item_name u)])
      else [])"

definition added_all :: "queued_event list \<Rightarrow> (int \<times> string \<times> string) list" where
  "added_all evs = concat (map added evs)"

lemma added_all_simps [simp]:
  "added_all [] = []" "added_all (xs @ ys) = added_all xs @ added_all ys" "added_all (ev # evs) = added ev @ added_all evs"
  by (simp_all add: added_all_def)

text \<open>A step that leaves the tools alone and announces none.\<close>

definition quiet :: "chat_stream \<Rightarrow> chat_stream \<Rightarrow> bool" where
  "quiet s s' \<longleftrightarrow> cs_tools s' = cs_tools s \<and> added_all (cs_queue s') = added_all (cs_queue s) \<and> cs_inner s' = cs_inner s \<and>
     cs_ended s' = cs_ended s"

lemma quiet_refl [simp]: "quiet s s"
  by (simp add: quiet_def)

lemma quiet_update [simp]:
  "quiet s (s0\<lparr>cs_reasoning_at := x1\<rparr>) = quiet s s0" "quiet s (s0\<lparr>cs_reasoning_closed := x2\<rparr>) = quiet s s0"
  "quiet s (s0\<lparr>cs_text_at := x3\<rparr>) = quiet s s0" "quiet s (s0\<lparr>cs_refusal_at := x4\<rparr>) = quiet s s0"
  "quiet s (s0\<lparr>cs_next_output := x5\<rparr>) = quiet s s0" "quiet s (s0\<lparr>cs_usage := x7\<rparr>) = quiet s s0"
  "quiet s (s0\<lparr>cs_finish := x8\<rparr>) = quiet s s0" "quiet s (s0\<lparr>cs_text := x9\<rparr>) = quiet s s0"
  "quiet s (s0\<lparr>cs_refusal := x10\<rparr>) = quiet s s0" "quiet s (s0\<lparr>cs_reasoning := x11\<rparr>) = quiet s s0"
  "quiet s (s0\<lparr>cs_started := x12\<rparr>) = quiet s s0"
  by (simp_all add: quiet_def)

lemma quiet_event: "quiet s s0 \<Longrightarrow> ty \<noteq> ''response.output_item.added'' \<Longrightarrow> quiet s (enqueue ty body s0)"
  by (simp add: quiet_def enqueue_def added_def Let_def)

lemma quiet_item:
  assumes "quiet s s0" and "distinct (map fst ns)" and "str_of ''type'' ns \<noteq> ''function_call''"
  shows "quiet s (enqueue ''response.output_item.added'' (at_output k (vmap ns)) s0)"
  using assms(1,3) union_item [OF assms(2), of "''response.output_item.added''" "cs_sequence s0" k]
  by (simp add: quiet_def enqueue_def added_def Let_def tagged_def)

lemma quiet_message:
  "quiet s s0 \<Longrightarrow> quiet s (enqueue ''response.output_item.added'' (at_output k (message_output i st ps)) s0)"
  "quiet s s0 \<Longrightarrow> quiet s (enqueue ''response.output_item.added''
     (at_output k (vmap [(''id'', VStr i), (''type'', VStr ''reasoning''), (''summary'', VArr [])])) s0)"
  unfolding message_output_def by (rule quiet_item; simp add: str_of_def)+

lemma quiet_ops [simp]:
  "quiet s s0 \<Longrightarrow> quiet s (add_reasoning fresh d s0)" "quiet s s0 \<Longrightarrow> quiet s (close_reasoning s0)"
  "quiet s s0 \<Longrightarrow> quiet s (finish_text s0)" "quiet s s0 \<Longrightarrow> quiet s (finish_refusal s0)"
  "quiet s s0 \<Longrightarrow> quiet s (finish_call t s0)"
  by (simp_all add: add_reasoning_def close_reasoning_def finish_text_def finish_refusal_def finish_call_def Let_def
      quiet_event quiet_message split: option.split)

lemma quiet_parts [simp]:
  "quiet s s0 \<Longrightarrow> quiet s (add_text fresh d s0)" "quiet s s0 \<Longrightarrow> quiet s (add_refusal fresh d s0)"
  "quiet s s0 \<Longrightarrow> quiet s (note_reasoning fresh r s0)" "quiet s s0 \<Longrightarrow> quiet s (capture_usage u s0)"
  by (simp_all add: add_text_def add_refusal_def open_part_def note_reasoning_def capture_usage_def Let_def
      quiet_event quiet_message split: option.split)

text \<open>
  After the fragments \<open>ds\<close>, with the events \<open>pre\<close> already read: the tools are those of the fragments, the
  started ones are those that can be announced, and each of these has been announced once.
\<close>

definition index_of :: "(int \<times> streamed_tool) list \<Rightarrow> int \<Rightarrow> int" where
  "index_of al j = (case map_of al j of None \<Rightarrow> 0 | Some t \<Rightarrow> int (sm_output_index t))"

definition started_calls :: "(int \<times> streamed_tool) list \<Rightarrow> int set" where
  "started_calls al = {j. \<exists>t. map_of al j = Some t \<and> sm_started t}"

definition calls_inv :: "chunk_tool list \<Rightarrow> queued_event list \<Rightarrow> (int \<times> streamed_tool) list \<Rightarrow> bool" where
  "calls_inv ds evs al \<longleftrightarrow> faces al = spoken_tools ds \<and>
     started_calls al = {j. announced j ds \<noteq> None} \<and>
     (\<exists>js. distinct js \<and> set js = started_calls al \<and>
        added_all evs = map (\<lambda>j. (index_of al j, the (announced j ds))) js)"

lemma calls_inv_quiet:
  "calls_inv ds (pre @ cs_queue s) (cs_tools s) \<Longrightarrow> quiet s s' \<Longrightarrow> calls_inv ds (pre @ cs_queue s') (cs_tools s')"
  unfolding calls_inv_def quiet_def added_all_simps by (elim conjE) (simp only:)

lemma announced_snoc:
  "announced j (ds @ [d]) =
     (if kt_index d \<noteq> j then announced j ds
      else case announced j ds of
        Some r \<Rightarrow> Some r
      | None \<Rightarrow>
          if sm_call_id (spoken_tool (ds @ [d]) j) \<noteq> [] \<and> sm_name (spoken_tool (ds @ [d]) j) \<noteq> []
          then Some (sm_call_id (spoken_tool (ds @ [d]) j), sm_name (spoken_tool (ds @ [d]) j)) else None)"
  by (auto simp: announced_def announce_snoc spoken_tool_def Let_def split: option.split)

lemma added_call:
  "added (''response.output_item.added'', tagged ''response.output_item.added'' n (at_output k (call_output t st args))) =
     [(int k, sm_call_id t, sm_name t)]"
proof -
  let ?ns = "[(''id'', VStr (sm_item_id t)), (''type'', VStr ''function_call''), (''status'', VStr st),
           (''call_id'', VStr (sm_call_id t)), (''name'', VStr (sm_name t)), (''arguments'', VStr args)]"
  have "distinct (map fst ?ns)" by simp
  from union_item [OF this, of "''response.output_item.added''" n k] show ?thesis
    by (simp add: added_def Let_def call_output_def str_of_def)
qed

lemma calls_inv_tool:
  assumes inv: "calls_inv ds (pre @ cs_queue s) (cs_tools s)"
  shows "calls_inv (ds @ [d]) (pre @ cs_queue (add_tool_delta fresh d s)) (cs_tools (add_tool_delta fresh d s))"
proof -
  let ?j = "kt_index d" and ?s = "add_tool_delta fresh d s"
  define old where "old = (case map_of (cs_tools s) ?j of None \<Rightarrow> new_tool | Some t \<Rightarrow> t)"
  define t where "t = merge_tool d old"
  have f: "faces (cs_tools s) = spoken_tools ds" and st: "started_calls (cs_tools s) = {j. announced j ds \<noteq> None}"
    using inv by (simp_all add: calls_inv_def)
  obtain js where js: "distinct js" "set js = started_calls (cs_tools s)"
    "added_all (pre @ cs_queue s) = map (\<lambda>j. (index_of (cs_tools s) j, the (announced j ds))) js"
    using inv by (auto simp: calls_inv_def)
  have f': "faces (cs_tools ?s) = spoken_tools (ds @ [d])" unfolding add_tool_delta_faces f by (rule hear_spoken)
  have "face old = spoken_tool ds ?j"
    using faces_lookup [of "cs_tools s" ?j] unfolding f spoken_tools_lookup old_def
    by (cases "map_of (cs_tools s) ?j") (auto simp: spoken_tool_new split: if_splits)
  then have ft: "face t = spoken_tool (ds @ [d]) ?j" by (simp add: t_def spoken_tool_merge)
  then have t: "sm_call_id t = sm_call_id (spoken_tool (ds @ [d]) ?j)" "sm_name t = sm_name (spoken_tool (ds @ [d]) ?j)"
    by (simp_all add: face_def flip: ft)
  have so: "sm_started old \<longleftrightarrow> ?j \<in> started_calls (cs_tools s)"
    by (auto simp: old_def started_calls_def new_tool_def split: option.split)
  have same: "sm_started t = sm_started old" "sm_output_index t = sm_output_index old" by (simp_all add: t_def merge_tool_def)
  have put: "quiet s0 s1 \<Longrightarrow> quiet s0 (tool_delta_event a b s1)" for s0 s1 a b
    by (simp add: tool_delta_event_def quiet_event)
  consider "sm_started old" | "\<not> sm_started old" "sm_call_id t \<noteq> []" "sm_name t \<noteq> []"
    | "\<not> sm_started old" "sm_call_id t = [] \<or> sm_name t = []" by blast
  then show ?thesis
  proof cases
    case 1
    then have "quiet (put_tool ?j t s) ?s"
      by (simp add: add_tool_delta_def Let_def old_def [symmetric] t_def [symmetric] put)
    then have q: "cs_tools ?s = AList.update ?j t (cs_tools s)" "added_all (cs_queue ?s) = added_all (cs_queue s)"
      by (simp_all add: quiet_def put_tool_def)
    have k: "map_of (cs_tools s) ?j = Some old" using 1 by (auto simp: old_def new_tool_def split: option.splits)
    have "started_calls (cs_tools ?s) = started_calls (cs_tools s)" "index_of (cs_tools ?s) j = index_of (cs_tools s) j" for j
      using 1 k same by (auto simp: started_calls_def index_of_def q(1) update_conv')
    moreover have "announced j (ds @ [d]) = announced j ds" if "j \<in> started_calls (cs_tools s)" for j
      using that st by (auto simp: announced_snoc split: option.split)
    moreover have "{j. announced j (ds @ [d]) \<noteq> None} = {j. announced j ds \<noteq> None}"
      using 1 so st by (auto simp: announced_snoc split: option.splits if_splits)
    ultimately show ?thesis using f' js q(2) st
      by (auto simp: calls_inv_def intro!: exI [of _ js])
  next
    case 3
    then have s': "?s = put_tool ?j t s"
      by (auto simp: add_tool_delta_def Let_def old_def [symmetric] t_def [symmetric])
    have n: "?j \<notin> started_calls (cs_tools s)" using 3 so by simp
    have "started_calls (cs_tools ?s) = started_calls (cs_tools s)"
      using 3 n same by (auto simp: started_calls_def s' put_tool_def update_conv')
    moreover have "index_of (cs_tools ?s) j = index_of (cs_tools s) j" "announced j (ds @ [d]) = announced j ds" if "j \<in> started_calls (cs_tools s)" for j
      using that n st by (auto simp: index_of_def s' put_tool_def update_conv' announced_snoc)
    moreover have "{j. announced j (ds @ [d]) \<noteq> None} = {j. announced j ds \<noteq> None}"
      using 3(2) t by (auto simp: announced_snoc split: option.splits if_splits)
    moreover have "cs_queue ?s = cs_queue s" by (simp add: s' put_tool_def)
    ultimately show ?thesis using f' js st
      by (auto simp: calls_inv_def intro!: exI [of _ js])
  next
    case 2
    define s0 where "s0 = close_reasoning s"
    define t1 where "t1 = t\<lparr>sm_started := True, sm_item_id := ''fc_'' @ fresh (cs_next_output s0), sm_output_index := cs_next_output s0\<rparr>"
    let ?e = "enqueue ''response.output_item.added'' (at_output (cs_next_output s0) (call_output t1 ''in_progress'' []))
        (put_tool ?j t1 (s0\<lparr>cs_next_output := Suc (cs_next_output s0)\<rparr>))"
    have q0: "quiet s s0" by (simp add: s0_def)
    have "?s = (if sm_arguments t1 \<noteq> [] then tool_delta_event t1 (sm_arguments t1) ?e else ?e)"
      using 2 unfolding add_tool_delta_def Let_def old_def [symmetric] t_def [symmetric] take_output_def s0_def [symmetric]
        fst_conv snd_conv t1_def [symmetric] by simp
    then have "quiet ?e ?s" by (simp add: put)
    then have q: "cs_tools ?s = AList.update ?j t1 (cs_tools s)"
      "added_all (cs_queue ?s) = added_all (cs_queue s) @ [(int (cs_next_output s0), sm_call_id t1, sm_name t1)]"
      using q0 added_call [of "cs_sequence s0" "cs_next_output s0" t1 "''in_progress''" "[]"]
      by (simp_all add: quiet_def put_tool_def enqueue_def tagged_def)
    have n: "?j \<notin> started_calls (cs_tools s)" using 2 so by simp
    then have a: "announced ?j ds = None" using st by (cases "announced ?j ds") auto
    have "started_calls (cs_tools ?s) = insert ?j (started_calls (cs_tools s))"
      by (auto simp: started_calls_def q(1) update_conv' t1_def)
    moreover have "index_of (cs_tools ?s) j = index_of (cs_tools s) j" "announced j (ds @ [d]) = announced j ds" if "j \<in> started_calls (cs_tools s)" for j
      using that n st by (auto simp: index_of_def q(1) update_conv' announced_snoc)
    moreover have "announced ?j (ds @ [d]) = Some (sm_call_id t1, sm_name t1)"
      using 2 t a by (simp add: announced_snoc t1_def)
    moreover have "index_of (cs_tools ?s) ?j = int (cs_next_output s0)" by (simp add: index_of_def q(1) update_conv' t1_def)
    moreover have "{j. announced j (ds @ [d]) \<noteq> None} = insert ?j {j. announced j ds \<noteq> None}"
      using \<open>announced ?j (ds @ [d]) = _\<close> by (auto simp: announced_snoc split: if_splits)
    ultimately show ?thesis using f' js q(2) st n
      by (auto simp: calls_inv_def intro!: exI [of _ "js @ [?j]"])
  qed
qed

section \<open>The whole stream of chunks\<close>

lemma calls_inv_fold:
  "calls_inv ds (pre @ cs_queue s) (cs_tools s) \<Longrightarrow>
    calls_inv (ds @ es) (pre @ cs_queue (fold (add_tool_delta fresh) es s)) (cs_tools (fold (add_tool_delta fresh) es s))"
proof (induction es arbitrary: ds s)
  case (Cons d es)
  from Cons.IH [OF calls_inv_tool [OF Cons.prems]] show ?case by simp
qed simp

lemma calls_inv_choice:
  assumes "calls_inv ds (pre @ cs_queue s) (cs_tools s)"
  shows "calls_inv (ds @ (if kh_index c = 0 then kh_tools c else [])) (pre @ cs_queue (add_choice fresh c s))
    (cs_tools (add_choice fresh c s))"
proof (cases "kh_index c = 0")
  case True
  let ?s = "note_reasoning fresh (vendor_reasoning (kh_raw c))
      ((\<lambda>s. if kh_refusal c \<noteq> [] then add_refusal fresh (kh_refusal c) s else s)
        (if kh_content c \<noteq> [] then add_text fresh (kh_content c) s else s))"
  have "quiet s ?s" by simp
  from calls_inv_fold [OF calls_inv_quiet [OF assms this], of "kh_tools c" fresh]
  show ?thesis using True by (simp add: add_choice_def Let_def)
next
  case False
  with assms show ?thesis by (simp add: add_choice_def)
qed

lemma calls_inv_chunk:
  assumes "calls_inv ds (pre @ cs_queue s) (cs_tools s)"
  shows "calls_inv (ds @ fragments [c]) (pre @ cs_queue (add_chunk fresh c s)) (cs_tools (add_chunk fresh c s))"
proof -
  have "calls_inv (ds @ concat (map kh_tools (filter (\<lambda>c. kh_index c = 0) hs))) (pre @ cs_queue (fold (add_choice fresh) hs s0))
      (cs_tools (fold (add_choice fresh) hs s0))" if "calls_inv ds (pre @ cs_queue s0) (cs_tools s0)" for ds hs s0
    using that
  proof (induction hs arbitrary: ds s0)
    case (Cons c hs)
    from Cons.IH [OF calls_inv_choice [OF Cons.prems, of c fresh]] show ?case by (cases "kh_index c = 0") simp_all
  qed simp
  from this [OF calls_inv_quiet [OF assms, of "capture_usage (kc_usage c) s"]]
  show ?thesis by (simp add: add_chunk_def fragments_def said_choices_def)
qed

lemma calls_inv_read:
  assumes "calls_inv (fragments seen) (pre @ cs_queue s) (cs_tools s)" and "cs_queue s = []"
  shows "\<exists>seen'. seen @ cs = seen' @ cs_inner (read_chunks fresh cs s) \<and>
    calls_inv (fragments seen') (pre @ cs_queue (read_chunks fresh cs s)) (cs_tools (read_chunks fresh cs s))"
  using assms
proof (induction cs arbitrary: seen s)
  case Nil
  then show ?case by (intro exI [of _ seen]) simp
next
  case (Cons c cs)
  have i: "calls_inv (fragments (seen @ [c])) (pre @ cs_queue (add_chunk fresh c s)) (cs_tools (add_chunk fresh c s))"
    using calls_inv_chunk [OF Cons.prems(1), of c fresh] by simp
  show ?case
  proof (cases "cs_queue (add_chunk fresh c s) = []")
    case True
    from Cons.IH [OF i True] True show ?thesis by (simp add: Let_def)
  next
    case False
    with i show ?thesis by (intro exI [of _ "seen @ [c]"]) (simp add: Let_def)
  qed
qed

text \<open>What a finished adapter has told of the fragments \<open>ds\<close>: every call was announced, once.\<close>

definition calls_told :: "chunk_tool list \<Rightarrow> queued_event list \<Rightarrow> (int \<times> streamed_tool) list \<Rightarrow> bool" where
  "calls_told ds evs al \<longleftrightarrow> calls_inv ds evs al \<and> (\<forall>kt \<in> set al. sm_started (snd kt))"

lemma finish_calls_quiet:
  "finish_calls ts s = Continue s' \<Longrightarrow> quiet s0 s \<Longrightarrow> quiet s0 s' \<and> (\<forall>kt \<in> set ts. sm_started (snd kt))"
proof (induction ts arbitrary: s)
  case (Cons kt ts)
  then show ?case by (cases kt) (auto split: if_splits)
qed simp

lemma calls_told_end:
  assumes "calls_inv ds (pre @ cs_queue s) (cs_tools s)" and n: "end_of_chunks s = (True, s')"
  shows "calls_told ds (pre @ cs_current s' # cs_queue s') (cs_tools s')"
proof -
  define s2 where "s2 = finish_refusal (finish_text (close_reasoning (if cs_finish s = [] then s\<lparr>cs_finish := ''stop''\<rparr> else s)))"
  have q2: "quiet s s2" by (simp add: s2_def)
  obtain s3 where c: "finish_calls (tools_in_order s2) s2 = Continue s3"
    using n by (auto simp: end_of_chunks_def Let_def s2_def split: option.splits ctl.splits)
  note f = finish_calls_quiet [OF c q2]
  let ?ty = "if cs_finish s3 = ''length'' then ''response.incomplete'' else ''response.completed''"
  from n c obtain body where s': "s' = pop ((enqueue ?ty body s3)\<lparr>cs_ended := True\<rparr>)"
    by (auto simp: end_of_chunks_def Let_def s2_def split: option.splits)
  have "quiet s (enqueue ?ty body s3)" using f by (intro quiet_event) simp_all
  from calls_inv_quiet [OF assms(1) this] have "calls_inv ds (pre @ cs_queue (enqueue ?ty body s3)) (cs_tools (enqueue ?ty body s3))" .
  moreover have "cs_current s' # cs_queue s' = cs_queue (enqueue ?ty body s3)" unfolding s' by (simp add: pop_def)
  moreover have "cs_tools s' = cs_tools (enqueue ?ty body s3)" unfolding s' by (simp add: pop_def)
  moreover have "set (tools_in_order s2) = set (cs_tools s')"
    using f q2 unfolding s' by (simp add: tools_in_order_def quiet_def pop_def enqueue_def)
  ultimately show ?thesis using f by (simp add: calls_told_def)
qed

lemma chat_run_ended_tools: "cs_ended s \<Longrightarrow> cs_tools (snd (chat_run fresh s)) = cs_tools s"
proof (induction "cs_queue s" arbitrary: s)
  case Nil
  then show ?case by (simp add: chat_run.simps [of fresh s] chat_next_def)
next
  case (Cons ev evs)
  then have q: "cs_queue s \<noteq> []" "evs = cs_queue (pop s)" by (metis list.distinct(1), metis list.sel(3) pop_sel(4))
  with Cons.hyps(1) [OF q(2)] Cons.prems show ?case
    by (simp add: chat_run.simps [of fresh s] chat_next_def case_prod_beta Let_def) (simp add: pop_def)
qed

lemma chat_run_pop:
  assumes "chat_next fresh s = (True, pop s1)" and "cs_queue s1 \<noteq> []" and "chat_run fresh s = (evs, f)"
  obtains q rest where "cs_queue s1 = hd (cs_queue s1) # q" "evs = hd (cs_queue s1) # rest"
    "chat_run fresh (pop s1) = (rest, f)"
  using assms by (cases "cs_queue s1") (auto simp: chat_run.simps [of fresh s] split: prod.splits)

lemma chat_run_calls:
  assumes "chat_run fresh s = (evs, f)" and "calls_inv (fragments seen) (pre @ cs_queue s) (cs_tools s)"
    and "\<not> cs_ended s" and "chat_err f = None"
  shows "calls_told (fragments (seen @ cs_inner s)) (pre @ evs) (cs_tools f)"
  using assms
proof (induction fresh s arbitrary: seen pre evs rule: chat_run.induct)
  case (1 fresh s)
  have popped: "calls_told (fragments (seen' @ cs_inner s1)) (pre @ evs) (cs_tools f)"
    if n: "chat_next fresh s = (True, pop s1)" and q: "cs_queue s1 \<noteq> []"
      and J: "calls_inv (fragments seen') (pre @ cs_queue s1) (cs_tools s1)" and l: "\<not> cs_ended s1" for s1 seen'
  proof -
    obtain q rest where c: "cs_queue s1 = hd (cs_queue s1) # q" "evs = hd (cs_queue s1) # rest"
      "chat_run fresh (pop s1) = (rest, f)"
      by (rule chat_run_pop [OF n q 1(2)])
    have "(pre @ [hd (cs_queue s1)]) @ cs_queue (pop s1) = pre @ cs_queue s1"
      using q by (cases "cs_queue s1") simp_all
    with J have "calls_inv (fragments seen') ((pre @ [hd (cs_queue s1)]) @ cs_queue (pop s1)) (cs_tools (pop s1))"
      by (simp add: pop_def)
    from 1(1) [OF n [symmetric] refl c(3) this _ 1(5)] l c(2) show ?thesis by simp
  qed
  let ?r = "read_chunks fresh (cs_inner s) s"
  let ?c = "enqueue ''response.created'' [(''response'', response_value s ''in_progress'' VNull [])] (s\<lparr>cs_started := True\<rparr>)"
  consider "cs_queue s \<noteq> []" | "cs_queue s = []" "\<not> cs_started s" | "cs_queue s = []" "cs_started s" "cs_queue ?r \<noteq> []"
    | "cs_queue s = []" "cs_started s" "cs_queue ?r = []" by blast
  then show ?case
  proof cases
    case c: 1
    show ?thesis by (rule popped [OF _ c 1(3,4)]) (simp add: chat_next_def c)
  next
    case c: 2
    have "quiet s ?c" by (intro quiet_event) simp_all
    from popped [OF _ _ calls_inv_quiet [OF 1(3) this]] show ?thesis using c 1(4) by (simp add: chat_next_def)
  next
    case c: 3
    obtain seen' where s: "seen @ cs_inner s = seen' @ cs_inner ?r" "calls_inv (fragments seen') (pre @ cs_queue ?r) (cs_tools ?r)"
      using calls_inv_read [OF 1(3) c(1)] by blast
    have "cs_ended ?r = cs_ended s" using read_chunks_extends [OF c(1)] by (auto simp: extends_def)
    then have "chat_next fresh s = (True, pop ?r)" "\<not> cs_ended ?r" using c 1(4) by (simp_all add: chat_next_def Let_def)
    from popped [OF this(1) c(3) s(2) this(2)] s(1) show ?thesis by simp
  next
    case c: 4
    then have n: "chat_next fresh s = end_of_chunks ?r" using 1(4) by (simp add: chat_next_def Let_def)
    have "cs_inner ?r = []" using read_chunks_extends [OF c(1)] c(3) by (metis (full_types))
    then have J: "calls_inv (fragments (seen @ cs_inner s)) (pre @ cs_queue ?r) (cs_tools ?r)"
      using calls_inv_read [OF 1(3) c(1), of "cs_inner s" fresh] by auto
    show ?thesis
    proof (cases "end_of_chunks ?r")
      case (Pair b s')
      show ?thesis
      proof (cases b)
        case True
        with Pair n 1(2) obtain rest where run: "chat_run fresh s' = (rest, f)" "evs = cs_current s' # rest"
          by (auto simp: chat_run.simps [of fresh s] split: prod.splits)
        have "cs_ended s'" using end_of_chunks_ended [of ?r] Pair by simp
        note e = chat_run_ended [OF this, of fresh] chat_run_ended_tools [OF this, of fresh]
        have "rest = cs_queue s'" and t: "cs_tools f = cs_tools s'"
          using e unfolding run(1) fst_conv snd_conv by blast+
        with calls_told_end [OF J] Pair True run(2) show ?thesis by simp
      next
        case False
        with Pair n 1(2) have "f = s'" by (simp add: chat_run.simps [of fresh s])
        with Pair False have "cs_err f \<noteq> None"
          by (auto simp: end_of_chunks_def fail_chat_def Let_def split: option.splits ctl.splits)
        with 1(5) show ?thesis by (simp add: chat_err_def split: option.splits)
      qed
    qed
  qed
qed

lemma calls_inv_start [simp]: "calls_inv [] [] []"
  by (simp add: calls_inv_def faces_def spoken_tools_def started_calls_def call_indexes_def announced_def)

section \<open>The tool calls a client reads\<close>

text \<open>The tool blocks of a Messages stream: index, id and name; with the input assembled from their fragments.\<close>

fun tool_opening :: "wire_event \<Rightarrow> (nat \<times> string \<times> string) list" where
  "tool_opening (BlockStart i b) = (if wb_type b = ''tool_use'' then [(i, wb_id b, wb_name b)] else [])"
| "tool_opening ev = []"

definition tool_openings :: "wire_event list \<Rightarrow> (nat \<times> string \<times> string) list" where
  "tool_openings out = concat (map tool_opening out)"

definition client_calls :: "wire_event list \<Rightarrow> (string \<times> string \<times> string) list" where
  "client_calls out = map (\<lambda>(i, c, n). (c, n, tool_input i out)) (tool_openings out)"

lemma tool_openings_simps [simp]:
  "tool_openings [] = []" "tool_openings (ev # evs) = tool_opening ev @ tool_openings evs" "tool_openings (xs @ ys) = tool_openings xs @ tool_openings ys"
  by (simp_all add: tool_openings_def)

lemma tool_opening_index: "map fst (tool_opening ev) = tool_start ev"
  by (cases ev) simp_all

lemma tool_openings_index: "map fst (tool_openings out) = tool_starts out"
  by (induction out) (simp_all add: tool_opening_index)

text \<open>A step that does not fail opens the tool blocks of the calls \<open>cs\<close>, in order.\<close>

definition starts_calls :: "(int \<times> string \<times> string) list \<Rightarrow> encoder \<Rightarrow> wire_event list \<times> encoder \<Rightarrow> bool" where
  "starts_calls cs e r \<longleftrightarrow> failed (snd r) \<or>
     (map snd (tool_openings (fst r)) = map snd cs \<and> map fst (en_tools (snd r)) = map fst (en_tools e) @ map fst cs)"

lemma starts_none:
  assumes "feeds e r" and "\<not> failed (snd r) \<Longrightarrow> map fst (en_tools (snd r)) = map fst (en_tools e)"
  shows "starts_calls [] e r"
proof (cases "failed (snd r)")
  case False
  with assms have k: "map fst (en_tools (snd r)) = map fst (en_tools e)"
    and b: "tool_blocks (snd r) = tool_blocks e @ tool_starts (fst r)" by (auto simp: feeds_def)
  have "length (en_tools (snd r)) = length (en_tools e)" using arg_cong [OF k, of length] by simp
  with arg_cong [OF b, of length] have "tool_starts (fst r) = []" by (simp add: tool_blocks_def)
  with tool_openings_index [of "fst r"] k show ?thesis by (simp add: starts_calls_def)
qed (simp add: starts_calls_def)

lemma finish_tool_keys: "map fst (en_tools (snd (finish_tool k t final e))) = map fst (en_tools e)"
  unfolding finish_tool_cases by (simp add: fail_stream_def)

lemma finish_keys:
  assumes "live e" and "\<not> failed (snd (finish stop e))"
  shows "map fst (en_tools (snd (finish stop e))) = map fst (en_tools e)"
proof -
  obtain o1 e1 where c: "close_text e = (o1, e1)" by (cases "close_text e")
  have t1: "\<not> en_terminal e1" "en_tools e1 = en_tools e"
    using c assms(1) by (auto simp: close_text_def live_def split: if_splits)
  have l1: "live e1" using sound_close_text [OF assms(1)] c t1(1) by (auto intro: sound_live)
  have running: "\<not> en_terminal e" using assms(1) by (simp add: live_def)
  show ?thesis
  proof (cases "for_range (finish_step stop) (sort (map fst (en_tools e))) (o1, e1)")
    case (Return r)
    with finish_loop_Return [OF Return l1 assms(1)] c running assms(2) show ?thesis
      by (simp add: finish_def failed_def)
  next
    case (Continue s)
    obtain out e2 where s: "s = (out, e2)" by (cases s)
    from finish_loop [OF Continue [unfolded s] l1] t1 c running Continue s show ?thesis
      by (simp add: finish_def finish_inv_def)
  qed
qed

lemma add_tool_starts:
  "live e \<Longrightarrow> ue_output_index u = Some k \<Longrightarrow> starts_calls [(k, ue_item_call_id u, ue_item_name u)] e (add_tool u e)"
  by (auto simp: add_tool_def Let_def starts_calls_def live_def fail_stream_def failed_def close_text_def tool_delta_def
      tool_block_def)

lemma dispatch_keys:
  assumes "live e" and "typ \<noteq> ''response.output_item.added'' \<or> ue_item_type u \<noteq> ''function_call''"
    and "\<not> failed (snd (dispatch typ u e))"
  shows "map fst (en_tools (snd (dispatch typ u e))) = map fst (en_tools e)"
proof -
  define kept where "kept r \<longleftrightarrow> (\<not> failed (snd r) \<longrightarrow> map fst (en_tools (snd r)) = map fst (en_tools e))"
    for r :: "wire_event list \<times> encoder"
  have f: "map fst (en_tools (snd (fail_stream k m e'))) = map fst (en_tools e')" for k m e' by (simp add: fail_stream_def)
  have x: "kept ([], e)" "kept (fail_stream k m e)" "kept (close_text e)" for k m
    by (simp_all add: kept_def fail_stream_def close_text_def)
  have c: "kept (text_delta s (e\<lparr>en_stop_reason := q, en_refusal_text := w\<rparr>))" "kept (text_delta s e)" for s q w
    by (simp_all add: kept_def text_delta_def)
  have r: "kept (refusal_done q e)" for q
    by (simp add: kept_def refusal_done_def Let_def f text_delta_def close_text_def)
  have d: "kept (tool_done m a i k e)" for m a i k
    by (simp add: kept_def tool_done_def f finish_tool_keys split: option.split)
  have a: "kept (arguments_delta u e)"
    by (simp add: kept_def arguments_delta_def Let_def case_prod_beta f split: option.split)
  have n: "kept (finish stop e)" for stop using finish_keys [OF assms(1)] by (simp add: kept_def)
  have t: "kept (let (out, e1) = finish ''max_tokens'' e in (out, e1\<lparr>en_success := False\<rparr>))"
    using finish_cases [OF assms(1), of "''max_tokens''"] by (auto simp: kept_def failed_def case_prod_beta)
  have "kept (dispatch typ u e)"
    unfolding dispatch_def using x c r d a n t assms(2) by (simp split del: if_split) (simp split: if_split)
  with assms(3) show ?thesis by (simp add: kept_def)
qed

lemma step_starts:
  assumes dec: "decodes decode ev" and e: "enc_ok e" "en_started e" "\<not> en_terminal e"
  shows "starts_calls (added ev) e (handle_responses_event decode (fst ev) (snd (event_bytes ev)) e)"
proof -
  let ?u = "union_of (snd ev)" and ?e = "note_usage (snd (event_bytes ev)) e"
  have h: "handle_responses_event decode (fst ev) (snd (event_bytes ev)) e = dispatch (fst ev) ?u ?e"
    using dec e(3) by (simp add: handle_responses_event_def decodes_def)
  have l: "live ?e" using e by (intro note_usage_live) (simp add: live_def)
  have "starts_calls (added ev) ?e (dispatch (fst ev) ?u ?e)"
  proof (cases "fst ev = ''response.output_item.added'' \<and> ue_item_type ?u = ''function_call''")
    case True
    then have d: "dispatch (fst ev) ?u ?e = add_tool ?u ?e" by (simp add: dispatch_def)
    show ?thesis
    proof (cases "ue_output_index ?u")
      case None
      then show ?thesis using e(3) by (simp add: d add_tool_def starts_calls_def failed_def fail_stream_def)
    next
      case (Some k)
      with add_tool_starts [OF l Some] True show ?thesis unfolding d by (simp add: added_def Let_def)
    qed
  next
    case False
    then have "added ev = []" by (auto simp: added_def Let_def)
    moreover have "starts_calls [] ?e (dispatch (fst ev) ?u ?e)"
      by (rule starts_none [OF feeds_dispatch [OF l]], rule dispatch_keys [OF l]) (use False in auto)
    ultimately show ?thesis by simp
  qed
  then show ?thesis unfolding h by (simp add: starts_calls_def)
qed

lemma stream_starts:
  assumes "list_all (decodes decode) evs" and "enc_ok e" "en_started e"
    and "\<not> failed (snd (encode_stream decode (map event_bytes evs) e))"
  shows "\<exists>used rest. evs = used @ rest \<and> starts_calls (added_all used) e (encode_stream decode (map event_bytes evs) e)"
  using assms
proof (induction evs arbitrary: e)
  case Nil
  then show ?case by (simp add: starts_calls_def)
next
  case (Cons ev evs)
  show ?case
  proof (cases "en_terminal e")
    case True
    then show ?thesis
      by (intro exI [of _ "[]"] exI [of _ "ev # evs"]) (simp add: encode_stream_terminal starts_calls_def del: encode_stream.simps)
  next
    case False
    obtain out e1 where h: "handle_responses_event decode (fst ev) (snd (event_bytes ev)) e = (out, e1)"
      by (cases "handle_responses_event decode (fst ev) (snd (event_bytes ev)) e")
    obtain out2 e2 where r: "encode_stream decode (map event_bytes evs) e1 = (out2, e2)"
      by (cases "encode_stream decode (map event_bytes evs) e1")
    have b: "event_bytes ev = (fst ev, snd (event_bytes ev))" by (simp add: event_bytes_def)
    have all: "encode_stream decode (map event_bytes (ev # evs)) e = (out @ out2, e2)"
      unfolding list.map by (subst b) (simp add: h r)
    have ok: "enc_ok e1" "en_started e1"
      using sound_handle [OF Cons.prems(2,3)] h by (metis snd_conv sound_def)+
    have nf: "\<not> failed e2" using Cons.prems(4) unfolding all by simp
    then have nf1: "\<not> failed e1" using encode_stream_terminal [of e1] r by (auto simp: failed_def)
    obtain used rest where u: "evs = used @ rest" "starts_calls (added_all used) e1 (out2, e2)"
      using Cons.IH [OF _ ok] Cons.prems(1) nf unfolding r by auto
    have "starts_calls (added ev) e (out, e1)" using step_starts [OF _ Cons.prems(2,3) False, of decode ev] Cons.prems(1) h by simp
    with u(2) nf nf1 have "starts_calls (added_all (ev # used)) e (out @ out2, e2)" by (simp add: starts_calls_def)
    with u(1) show ?thesis unfolding all by (intro exI [of _ "ev # used"] exI [of _ rest]) simp
  qed
qed

section \<open>From the provider's fragments to the client's calls\<close>

text \<open>The arguments of a call as the client is to read them.\<close>

definition given_arguments :: "int \<Rightarrow> chunk_tool list \<Rightarrow> string" where
  "given_arguments j ds = (if spoken_arguments j ds = [] then ''{}'' else spoken_arguments j ds)"

lemma calls_told_tool:
  assumes "calls_told ds evs al" and "(j, t) \<in> set al"
  shows "j \<in> kt_index ` set ds" "index_of al j = int (sm_output_index t)" "tool_arguments t = given_arguments j ds"
    "j \<in> started_calls al"
proof -
  have f: "faces al = spoken_tools ds" using assms(1) by (simp add: calls_told_def calls_inv_def)
  have "map fst (spoken_tools ds) = call_indexes ds" by (simp add: spoken_tools_def comp_def)
  then have k: "map fst al = call_indexes ds" using faces_keys [of al] f by simp
  then have m: "map_of al j = Some t" using assms(2) by (intro map_of_is_SomeI) simp_all
  have "j \<in> set (map fst al)" using assms(2) by force
  then show j: "j \<in> kt_index ` set ds" unfolding k by simp
  have ft: "face t = spoken_tool ds j"
    using faces_lookup [of al j] m j unfolding f by (simp add: spoken_tools_lookup)
  have "sm_arguments t = sm_arguments (face t)" by (simp add: face_def)
  then show "tool_arguments t = given_arguments j ds"
    unfolding ft by (simp add: spoken_tool_def tool_arguments_def given_arguments_def)
  show "index_of al j = int (sm_output_index t)" by (simp add: index_of_def m)
  show "j \<in> started_calls al" using assms m by (auto simp: started_calls_def calls_told_def)
qed

lemma calls_told_indexes:
  assumes "calls_told ds evs al"
  shows "started_calls al = kt_index ` set ds" "fst ` set al = kt_index ` set ds"
proof -
  have f: "faces al = spoken_tools ds" using assms by (simp add: calls_told_def calls_inv_def)
  have "map fst (spoken_tools ds) = call_indexes ds" by (simp add: spoken_tools_def comp_def)
  then have k: "map fst al = call_indexes ds" using faces_keys [of al] f by simp
  show fst: "fst ` set al = kt_index ` set ds" using arg_cong [OF k, of set] by simp
  have "started_calls al \<subseteq> fst ` set al" by (auto simp: started_calls_def dest!: map_of_SomeD intro: rev_image_eqI)
  moreover have "fst ` set al \<subseteq> started_calls al" using calls_told_tool(4) [OF assms] by auto
  ultimately show "started_calls al = kt_index ` set ds" using fst by simp
qed

lemma client_reads_calls:
  assumes m: "encode_message decode msg requested (map event_bytes evs) = (out, e)"
    and dec: "list_all (decodes decode) evs" and ok: "en_success e"
    and c: "calls_told ds evs al" and d: "distinct (map (sm_output_index \<circ> snd) al)"
    and t: "(\<lambda>(k, u). (k, st_item_id u, st_arguments u)) ` set (en_tools e) =
       (\<lambda>(j, t). (int (sm_output_index t), sm_item_id t, tool_arguments t)) ` set al"
  shows "\<exists>js. distinct js \<and> set js = kt_index ` set ds \<and>
    list_all2 (\<lambda>j (c, n, a). announced j ds = Some (c, n) \<and> a = given_arguments j ds) js (client_calls out)"
proof -
  let ?e0 = "new_stream_encoder msg requested"
  have nf: "\<not> failed e" using ok by (simp add: failed_def)
  obtain js where js: "distinct js" "set js = started_calls al"
    "added_all evs = map (\<lambda>j. (index_of al j, the (announced j ds))) js"
    using c by (auto simp: calls_told_def calls_inv_def)
  have ann: "announced j ds \<noteq> None" if "j \<in> set js" for j
    using that js(2) c by (auto simp: calls_told_def calls_inv_def)
  define s0 where "s0 = start_events ?e0"
  have s0: "fst s0 = [MessageStart (start_message ?e0)]" "en_tools (snd s0) = []" "enc_ok (snd s0)" "en_started (snd s0)"
    by (simp_all add: s0_def start_events_def new_stream_encoder_def enc_ok_def)
  obtain out2 where r: "encode_stream decode (map event_bytes evs) (snd s0) = (out2, e)" and out: "out = fst s0 @ out2"
    using m by (cases "encode_stream decode (map event_bytes evs) (snd s0)") (simp add: encode_message_def s0_def case_prod_beta)
  from stream_starts [OF dec s0(3,4)] nf obtain used rest where u: "evs = used @ rest"
    "starts_calls (added_all used) (snd s0) (out2, e)" unfolding r by auto
  then have op: "map snd (tool_openings out) = map snd (added_all used)" "map fst (en_tools e) = map fst (added_all used)"
    using nf s0 by (simp_all add: starts_calls_def out)
  have al: "index_of al ` set js = (\<lambda>(k, u). k) ` set (en_tools e)"
  proof -
    have "(\<lambda>(k, u). k) ` set (en_tools e) = fst ` (\<lambda>(k, u). (k, st_item_id u, st_arguments u)) ` set (en_tools e)"
      by (force simp: image_image)
    also have "\<dots> = (\<lambda>(j, t). int (sm_output_index t)) ` set al" unfolding t by (force simp: image_image)
    also have "\<dots> = (\<lambda>(j, t). index_of al j) ` set al"
      using calls_told_tool(2) [OF c] by (intro image_cong) auto
    also have "\<dots> = index_of al ` fst ` set al" by (force simp: image_image)
    also have "fst ` set al = set js" using calls_told_indexes [OF c] js(2) by simp
    finally show ?thesis by simp
  qed
  have inj: "j = j'" if "j \<in> set js" "j' \<in> set js" "index_of al j = index_of al j'" for j j'
  proof -
    from that(1,2) obtain x x' where x: "(j, x) \<in> set al" "(j', x') \<in> set al"
      using calls_told_indexes [OF c] js(2) by (metis (no_types, opaque_lifting) imageE prod.collapse)
    with that(3) have "(sm_output_index \<circ> snd) (j, x) = (sm_output_index \<circ> snd) (j', x')"
      using calls_told_tool(2) [OF c] by simp
    with d x show ?thesis by (metis distinct_map inj_onD prod.inject)
  qed
  have "distinct (map fst (added_all evs))"
    using js(1) inj by (auto simp: js(3) comp_def distinct_map intro!: inj_onI)
  moreover have "set (map fst (added_all evs)) = set (map fst (added_all used))"
  proof -
    have "set (map fst (added_all evs)) = index_of al ` set js" by (simp add: js(3) image_image)
    also have "\<dots> = set (map fst (en_tools e))" unfolding al by force
    finally show ?thesis unfolding op(2) .
  qed
  ultimately have "added_all rest = []"
    by (cases "added_all rest") (auto simp: u(1))
  then have used: "added_all used = map (\<lambda>j. (index_of al j, the (announced j ds))) js" using js(3) by (simp add: u(1))
  have len: "length (tool_openings out) = length js" "length (en_tools e) = length js"
    using arg_cong [OF op(1), of length] arg_cong [OF op(2), of length] by (simp_all add: used)
  have f: "feeds ?e0 (out, e)" and eok: "enc_ok e"
    using encode_message_faithful [of msg requested decode "map event_bytes evs"] m by simp_all
  have ix: "map fst (tool_openings out) = map (st_index \<circ> snd) (en_tools e)" and args: "args_at e i = tool_input i out" for i
    using f nf by (simp_all add: tool_openings_index feeds_def tool_blocks_def args_at_def new_stream_encoder_def)
  have at: "announced (js ! p) ds = Some (c', n) \<and> tool_input i out = given_arguments (js ! p) ds"
    if p: "p < length js" and op_p: "tool_openings out ! p = (i, c', n)" for p i c' n
  proof -
    obtain k v where kv: "en_tools e ! p = (k, v)" by (cases "en_tools e ! p")
    have "(c', n) = map snd (tool_openings out) ! p" using p len op_p by simp
    also have "\<dots> = the (announced (js ! p) ds)" unfolding op(1) used using p by simp
    finally have 1: "announced (js ! p) ds = Some (c', n)" using ann [of "js ! p"] p by auto
    have "k = map fst (en_tools e) ! p" using p len kv by simp
    also have "\<dots> = index_of al (js ! p)" unfolding op(2) used using p by simp
    finally have k: "k = index_of al (js ! p)" .
    have "i = map fst (tool_openings out) ! p" using p len op_p by simp
    also have "\<dots> = st_index v" unfolding ix using p len kv by simp
    finally have i: "i = st_index v" .
    have mem: "(k, v) \<in> set (en_tools e)" using p len kv by (metis nth_mem)
    have in_t: "tool_input i out = st_arguments v" using args_at_tool [OF eok mem] args by (simp add: i)
    from mem have "(k, st_item_id v, st_arguments v) \<in> (\<lambda>(j, t). (int (sm_output_index t), sm_item_id t, tool_arguments t)) ` set al"
      unfolding t [symmetric] by force
    then obtain j x where x: "(j, x) \<in> set al" "k = int (sm_output_index x)" "st_arguments v = tool_arguments x" by auto
    have "j \<in> set js" using calls_told_tool(4) [OF c x(1)] js(2) by simp
    with inj [of j "js ! p"] k x(2) calls_told_tool(2) [OF c x(1)] p have "j = js ! p" by simp
    with in_t x(3) calls_told_tool(3) [OF c x(1)] 1 show ?thesis by simp
  qed
  have "list_all2 (\<lambda>j (c, n, a). announced j ds = Some (c, n) \<and> a = given_arguments j ds) js (client_calls out)"
    unfolding list_all2_conv_all_nth client_calls_def
  proof (intro conjI allI impI)
    fix p assume p: "p < length js"
    obtain i c' n where op_p: "tool_openings out ! p = (i, c', n)" by (cases "tool_openings out ! p")
    have "map (\<lambda>(i, c, n). (c, n, tool_input i out)) (tool_openings out) ! p = (c', n, tool_input i out)"
      using p len(1) by (simp add: op_p)
    with at [OF p op_p]
    show "(\<lambda>(c, n, a). announced (js ! p) ds = Some (c, n) \<and> a = given_arguments (js ! p) ds)
        (map (\<lambda>(i, c, n). (c, n, tool_input i out)) (tool_openings out) ! p)" by simp
  qed (simp add: len)
  moreover have "set js = kt_index ` set ds" using js(2) calls_told_indexes(1) [OF c] by simp
  ultimately show ?thesis using js(1) by blast
qed

end
