(* ===== verification/Chat_Messages.thy ===== *)
theory Chat_Messages
  imports Chat_Calls
begin

text \<open>
  The adapter and the encoder over a whole stream: every operation of the adapter keeps the relation
  of \<open>Chat_Bridge\<close>, so a stream that ends without an error ends the client's message successfully.
\<close>

section \<open>Finished tools\<close>

lemma bridge_tool_done:
  assumes b: "bridge D s e" and ok: "tools_ok fresh s" and inj: "inj fresh" and t: "t \<in> started_tools s"
  shows "bridge (insert (sm_output_index t) D) s (snd (tool_done msg (tool_arguments t) (sm_item_id t) i e))"
proof -
  let ?k = "int (sm_output_index t)"
  obtain v where v: "tool_at e ?k = Some v" "st_item_id v = sm_item_id t"
    "st_arguments v = (if sm_output_index t \<in> D then tool_arguments t else sm_arguments t)"
    "st_closed v \<longleftrightarrow> sm_output_index t \<in> D"
    using bridge_tool [OF b t] by metis
  have final: "tool_arguments t \<noteq> []" by (simp add: tool_arguments_def)
  have f: "find_tool (sm_item_id t) i e = Some ?k" by (rule bridge_find [OF b ok inj t])
  show ?thesis
  proof (cases "sm_output_index t \<in> D")
    case True
    with v f b show ?thesis by (simp add: tool_done_def finish_tool_cases insert_absorb)
  next
    case False
    have args: "st_arguments (closed_tool v (tool_arguments t)) = tool_arguments t"
      using v(3) False final by (simp add: closed_tool_def closing_def tool_arguments_def)
    have "snd (tool_done msg (tool_arguments t) (sm_item_id t) i e) = set_tool ?k (closed_tool v (tool_arguments t)) e"
      using v f False by (simp add: tool_done_def finish_tool_cases tool_arguments_def)
    moreover have "bridge (insert (sm_output_index t) D) s (set_tool ?k (closed_tool v (tool_arguments t)) e)"
    proof (rule bridge_replace [OF b v(1)])
      show "live (set_tool ?k (closed_tool v (tool_arguments t)) e)"
        using b v(1) by (intro set_tool_live) (simp_all add: bridge_def)
      show "x \<in> started_tools s \<longleftrightarrow> x = t \<or> (x \<in> started_tools s \<and> sm_output_index x \<noteq> sm_output_index t)" for x
        using t tools_unique [OF ok _ t, of x] by blast
      show "enc_view (?k, closed_tool v (tool_arguments t)) = tool_view (insert (sm_output_index t) D) t"
        using v(2) args by (simp add: enc_view_def tool_view_def) (simp add: closed_tool_def)
    qed auto
    ultimately show ?thesis by simp
  qed
qed

lemma joint_finish_call:
  assumes J: "joint decode fresh D e s" and inj: "inj fresh" and t: "t \<in> started_tools s"
  shows "joint decode fresh (insert (sm_output_index t) D) e (finish_call t s)"
proof -
  have ok: "tools_ok fresh s" using J by (simp add: joint_def)
  let ?D = "insert (sm_output_index t) D"
  let ?body = "[(''item_id'', VStr (sm_item_id t)), (''output_index'', VInt (int (sm_output_index t))),
          (''arguments'', VStr (tool_arguments t))]"
  have u1: "ue_item_ref (union_of (tagged ty n ?body)) = sm_item_id t"
    "ue_arguments (union_of (tagged ty n ?body)) = tool_arguments t" for ty n
    by (simp_all add: union_of_def tagged_def str_of_def)
  have 1: "joint decode fresh ?D e (enqueue ''response.function_call_arguments.done'' ?body s)"
    by (rule joint_enqueue [OF J refl ok]) (simp only: dispatch_calls u1 bridge_tool_done [OF _ ok inj t])
  let ?s = "enqueue ''response.function_call_arguments.done'' ?body s"
  have t1: "t \<in> started_tools ?s" using t by (simp add: started_tools_def enqueue_def)
  have ok1: "tools_ok fresh ?s" using 1 by (simp add: joint_def)
  let ?u = "\<lambda>n. union_of (tagged ''response.output_item.done'' n (at_output (sm_output_index t) (call_output t ''completed'' (tool_arguments t))))"
  have u2: "ue_item_type (?u n) = ''function_call''" "ue_item_id (?u n) = sm_item_id t" "ue_item_arguments (?u n) = tool_arguments t" for n
    unfolding call_output_def by (simp_all add: union_item str_of_def)
  have "bridge ?D ?s (snd (dispatch ''response.output_item.done'' (?u n) e'))" if "bridge ?D ?s e'" for n e'
    unfolding dispatch_calls(4) [OF u2(1)] u2(2,3) using bridge_tool_done [OF that ok1 inj t1] by simp
  then show ?thesis unfolding finish_call_def by (intro joint_keep [OF 1])
qed

text \<open>A tool that has not started is the adapter's alone.\<close>

lemma joint_put_waiting:
  assumes J: "joint decode fresh {} e s" and old: "\<And>t0. (j, t0) \<in> set (cs_tools s) \<Longrightarrow> \<not> sm_started t0"
    and t: "\<not> sm_started t"
  shows "joint decode fresh {} e (put_tool j t s)"
proof -
  have ok: "tools_ok fresh s" using J by (simp add: joint_def)
  then have d: "distinct (map fst (cs_tools s))" by (simp add: tools_ok_def)
  have in_s: "(i, x) \<in> set (cs_tools s)" if "(i, x) \<in> set (AList.update j t (cs_tools s))" "sm_started x" for i x
    using that t by (simp add: update_mem [OF d] split: if_splits)
  have "(i, x) \<in> set (AList.update j t (cs_tools s))" if "(i, x) \<in> set (cs_tools s)" "sm_started x" for i x
    using that old by (auto simp: update_mem [OF d])
  with in_s have st: "started_tools (put_tool j t s) = started_tools s"
    by (intro set_eqI) (simp only: started_iff put_tool_sel, blast)
  have "distinct (map fst (AList.update j t (cs_tools s)))" using distinct_update [OF d] .
  moreover have "\<forall>(j1, t1) \<in> set (AList.update j t (cs_tools s)). \<forall>(j2, t2) \<in> set (AList.update j t (cs_tools s)).
      sm_started t1 \<longrightarrow> sm_started t2 \<longrightarrow> sm_output_index t1 = sm_output_index t2 \<longrightarrow> j1 = j2"
    using in_s tools_apart [OF ok] by blast
  ultimately have "tools_ok fresh (put_tool j t s)" using ok by (simp add: tools_ok_def st)
  then show ?thesis using J by (simp add: joint_def bridge_def st)
qed

section \<open>Operations of the adapter\<close>

lemma joint_update:
  assumes "joint decode fresh D e s"
  shows "joint decode fresh D e (s\<lparr>cs_reasoning_at := p1\<rparr>)" "joint decode fresh D e (s\<lparr>cs_reasoning_closed := b1\<rparr>)"
    "joint decode fresh D e (s\<lparr>cs_text_at := p2\<rparr>)" "joint decode fresh D e (s\<lparr>cs_refusal_at := p3\<rparr>)"
    "joint decode fresh D e (s\<lparr>cs_text := t1\<rparr>)" "joint decode fresh D e (s\<lparr>cs_reasoning := t2\<rparr>)"
    "joint decode fresh D e (s\<lparr>cs_usage := u\<rparr>)" "joint decode fresh D e (s\<lparr>cs_finish := t3\<rparr>)"
    "joint decode fresh D e (s\<lparr>cs_inner := cs\<rparr>)" "joint decode fresh D e (s\<lparr>cs_started := b2\<rparr>)"
    "joint decode fresh D e (s\<lparr>cs_next_output := Suc (cs_next_output s)\<rparr>)"
    "joint decode fresh D e (s\<lparr>cs_reasoning_at := p1, cs_next_output := Suc (cs_next_output s)\<rparr>)"
    "joint decode fresh D e (s\<lparr>cs_text_at := p2, cs_next_output := Suc (cs_next_output s)\<rparr>)"
    "joint decode fresh D e (s\<lparr>cs_refusal_at := p3, cs_next_output := Suc (cs_next_output s)\<rparr>)"
  by (rule joint_same [OF assms]; simp)+

lemma joint_close_reasoning: "joint decode fresh D e s \<Longrightarrow> joint decode fresh D e (close_reasoning s)"
  by (auto simp: close_reasoning_def split: option.split intro!: joint_message_item joint_ignored joint_update)

lemma joint_add_reasoning: "joint decode fresh D e s \<Longrightarrow> joint decode fresh D e (add_reasoning f d s)"
  by (auto simp: add_reasoning_def Let_def intro!: joint_message_item joint_ignored joint_update)

lemma joint_note_reasoning: "joint decode fresh D e s \<Longrightarrow> joint decode fresh D e (note_reasoning f r s)"
  by (simp add: note_reasoning_def joint_add_reasoning joint_update)

lemma joint_open_part: "joint decode fresh D e s \<Longrightarrow> joint decode fresh D e (open_part p part s)"
  by (simp add: open_part_def joint_message_item joint_ignored)

lemma joint_add_text: "joint decode fresh D e s \<Longrightarrow> joint decode fresh D e (add_text f d s)"
  by (simp add: add_text_def Let_def joint_text_delta joint_update joint_open_part joint_close_reasoning split: option.split)

lemma joint_add_refusal: "joint decode fresh D e s \<Longrightarrow> joint decode fresh D e (add_refusal f d s)"
  by (simp add: add_refusal_def Let_def joint_refusal_delta joint_update joint_open_part joint_close_reasoning split: option.split)

lemma joint_finish_text: "joint decode fresh D e s \<Longrightarrow> joint decode fresh D e (finish_text s)"
  by (simp add: finish_text_def joint_part_done joint_message_item split: option.split)

lemma joint_finish_refusal: "joint decode fresh D e s \<Longrightarrow> joint decode fresh D e (finish_refusal s)"
  by (simp add: finish_refusal_def joint_part_done joint_message_item joint_refusal_done split: option.split)

lemma close_reasoning_sel [simp]:
  "cs_tools (close_reasoning s) = cs_tools s" "cs_finish (close_reasoning s) = cs_finish s"
  by (simp_all add: close_reasoning_def enqueue_def split: option.split)

lemma update_twice: "AList.update j a (AList.update j b al) = AList.update j a al"
  by (induction al) auto

lemma put_tool_again:
  "put_tool j t1 (enqueue ty body (put_tool j t0 s)) = enqueue ty body (put_tool j t1 s)"
  by (simp add: put_tool_def enqueue_def update_twice)

lemma joint_add_tool_delta:
  assumes J: "joint decode fresh {} e s" and inj: "inj fresh"
  shows "joint decode fresh {} e (add_tool_delta fresh d s)"
proof -
  let ?j = "kt_index d"
  define old where "old = (case map_of (cs_tools s) ?j of None \<Rightarrow> new_tool | Some t \<Rightarrow> t)"
  define t where "t = merge_tool d old"
  have dist: "distinct (map fst (cs_tools s))" using J by (simp add: joint_def tools_ok_def)
  have known: "old = t0" if "(?j, t0) \<in> set (cs_tools s)" for t0
    using map_of_is_SomeI [OF dist that] by (simp add: old_def)
  have here: "(?j, old) \<in> set (cs_tools s)" if "sm_started old"
    using that by (auto simp: old_def new_tool_def dest: map_of_SomeD split: option.splits)
  have f: "sm_started t = sm_started old" "sm_output_index t = sm_output_index old" "sm_item_id t = sm_item_id old"
    "sm_arguments t = sm_arguments old @ kt_arguments d"
    by (simp_all add: t_def merge_tool_def)
  consider "sm_started old" | "\<not> sm_started old" "sm_call_id t \<noteq> []" "sm_name t \<noteq> []"
    | "\<not> sm_started old" "sm_call_id t = [] \<or> sm_name t = []" by blast
  then show ?thesis
  proof cases
    case 1
    then have d: "add_tool_delta fresh d s = (let s1 = put_tool ?j t s
        in if kt_arguments d \<noteq> [] then tool_delta_event t (kt_arguments d) s1 else s1)"
      by (simp add: add_tool_delta_def Let_def old_def [symmetric] t_def [symmetric])
    show ?thesis
    proof (cases "kt_arguments d = []")
      case True
      with joint_put_same [OF J here [OF 1] 1, of t] f 1 d show ?thesis by simp
    next
      case False
      with joint_tool_delta [OF J inj here [OF 1] 1, of t "kt_arguments d"] f 1 d show ?thesis by simp
    qed
  next
    case 3
    then have "add_tool_delta fresh d s = put_tool ?j t s"
      by (auto simp: add_tool_delta_def Let_def old_def [symmetric] t_def [symmetric])
    moreover have "\<not> sm_started t0" if "(?j, t0) \<in> set (cs_tools s)" for t0
      using known [OF that] 3(1) by simp
    ultimately show ?thesis using joint_put_waiting [OF J, of ?j t] 3(1) f(1) by simp
  next
    case 2
    let ?s = "close_reasoning s"
    let ?n = "cs_next_output ?s"
    define t1 where "t1 = t\<lparr>sm_started := True, sm_item_id := ''fc_'' @ fresh ?n, sm_output_index := ?n\<rparr>"
    define t0 where "t0 = t1\<lparr>sm_arguments := []\<rparr>"
    let ?x = "\<lambda>t. enqueue ''response.output_item.added'' (at_output ?n (call_output t1 ''in_progress'' []))
        (put_tool ?j t (?s\<lparr>cs_next_output := Suc ?n\<rparr>))"
    have d: "add_tool_delta fresh d s =
        (if sm_arguments t1 \<noteq> [] then tool_delta_event t1 (sm_arguments t1) (?x t1) else ?x t1)"
      using 2 by (simp add: add_tool_delta_def Let_def take_output_def old_def [symmetric] t_def [symmetric] t1_def)
    have c: "call_output t0 a b = call_output t1 a b" for a b by (simp add: call_output_def t0_def)
    have J0: "joint decode fresh {} e (?x t0)"
      unfolding c [symmetric]
    proof (rule joint_tool_added [OF joint_close_reasoning [OF J] inj])
      show "\<not> sm_started u" if "(?j, u) \<in> set (cs_tools ?s)" for u
        using that known [of u] 2(1) by simp
    qed (use 2 in \<open>simp_all add: t0_def t1_def\<close>)
    show ?thesis
    proof (cases "sm_arguments t1 = []")
      case True
      then have "t0 = t1" by (simp add: t0_def)
      with J0 d True show ?thesis by simp
    next
      case False
      have m: "(?j, t0) \<in> set (cs_tools (?x t0))"
        using dist by (simp add: enqueue_def update_mem)
      have "joint decode fresh {} e (tool_delta_event t1 (sm_arguments t1) (put_tool ?j t1 (?x t0)))"
        using False by (intro joint_tool_delta [OF J0 inj m]) (simp_all add: t0_def t1_def)
      with d False show ?thesis by (simp add: put_tool_again)
    qed
  qed
qed

section \<open>Chunks\<close>

lemma joint_fold:
  assumes "\<And>x s. joint decode fresh {} e s \<Longrightarrow> joint decode fresh {} e (f x s)"
  shows "joint decode fresh {} e s \<Longrightarrow> joint decode fresh {} e (fold f xs s)"
  by (induction xs arbitrary: s) (simp_all add: assms)

lemma joint_add_choice:
  "inj fresh \<Longrightarrow> joint decode fresh {} e s \<Longrightarrow> joint decode fresh {} e (add_choice fresh c s)"
  by (simp add: add_choice_def Let_def joint_fold joint_add_tool_delta joint_add_text joint_add_refusal
      joint_note_reasoning joint_update)

lemma joint_add_chunk:
  "inj fresh \<Longrightarrow> joint decode fresh {} e s \<Longrightarrow> joint decode fresh {} e (add_chunk fresh c s)"
  by (simp add: add_chunk_def capture_usage_def joint_fold joint_add_choice joint_update)

lemma joint_read_chunks:
  "inj fresh \<Longrightarrow> joint decode fresh {} e s \<Longrightarrow> joint decode fresh {} e (read_chunks fresh cs s)"
  by (induction cs arbitrary: s) (simp_all add: Let_def joint_update joint_add_chunk)

lemma joint_finish_calls:
  assumes "inj fresh" and "joint decode fresh D e s" and "set ts \<subseteq> set (cs_tools s)"
    and "finish_calls ts s = Continue s'"
  shows "joint decode fresh (D \<union> (sm_output_index \<circ> snd) ` set ts) e s' \<and> cs_tools s' = cs_tools s \<and>
    cs_finish s' = cs_finish s \<and> (\<forall>kt \<in> set ts. sm_started (snd kt))"
  using assms(2-)
proof (induction ts arbitrary: D s)
  case (Cons kt ts)
  obtain k t where kt: "kt = (k, t)" by (cases kt)
  from Cons.prems(3) have st: "sm_started t" and r: "finish_calls ts (finish_call t s) = Continue s'"
    by (simp_all add: kt split: if_splits)
  from st Cons.prems(2) have "t \<in> started_tools s" by (force simp: kt started_tools_def)
  from joint_finish_call [OF Cons.prems(1) assms(1) this]
  have "joint decode fresh (insert (sm_output_index t) D) e (finish_call t s)" .
  moreover have c: "cs_tools (finish_call t s) = cs_tools s" "cs_finish (finish_call t s) = cs_finish s"
    by (simp_all add: finish_call_def enqueue_def)
  ultimately show ?case
    using Cons.IH [OF _ _ r, of "insert (sm_output_index t) D"] Cons.prems(2) st by (simp add: kt)
qed simp

section \<open>The end of the stream\<close>

lemma finish_loop_closed:
  assumes "\<And>k t. tool_at e k = Some t \<Longrightarrow> st_closed t \<and> valid_tool_arguments (st_arguments t)"
  shows "for_range (finish_step stop) ks (out, e) = Continue (out, e)"
proof (induction ks)
  case (Cons k ks)
  have "finish_step stop k (out, e) = Continue (out, e)"
    using assms [of k] by (simp add: finish_step_def split: option.split)
  with Cons show ?case by simp
qed simp

lemma finish_succeeds:
  assumes "live e" and "\<And>k t. (k, t) \<in> set (en_tools e) \<Longrightarrow> st_closed t \<and> valid_tool_arguments (st_arguments t)"
  shows "en_success (snd (finish stop e)) \<and> en_tools (snd (finish stop e)) = en_tools e"
proof -
  obtain out e1 where c: "close_text e = (out, e1)" by (cases "close_text e")
  then have t: "en_tools e1 = en_tools e" by (auto simp: close_text_def split: if_splits)
  have "for_range (finish_step stop) ks (out, e1) = Continue (out, e1)" for ks
    using assms(2) t by (intro finish_loop_closed) (auto simp: tool_at_def dest: map_of_SomeD)
  with c t assms(1) show ?thesis by (simp add: finish_def live_def)
qed

text \<open>What the client is told of the tools of the adapter.\<close>

definition told :: "chat_stream \<Rightarrow> encoder \<Rightarrow> bool" where
  "told s e \<longleftrightarrow> en_success e \<and> distinct (map (sm_output_index \<circ> snd) (cs_tools s)) \<and>
     (\<lambda>(k, u). (k, st_item_id u, st_arguments u)) ` set (en_tools e) =
       (\<lambda>(j, t). (int (sm_output_index t), sm_item_id t, tool_arguments t)) ` set (cs_tools s)"

definition ready :: "chat_stream \<Rightarrow> bool" where
  "ready s \<longleftrightarrow> cs_finish s \<noteq> ''length'' \<and> list_all (\<lambda>(j, t). valid_tool_arguments (tool_arguments t)) (cs_tools s)"

lemma indexes_distinct:
  assumes "tools_ok fresh s" and "\<forall>kt \<in> set (cs_tools s). sm_started (snd kt)"
  shows "distinct (map (sm_output_index \<circ> snd) (cs_tools s))"
proof -
  have d: "distinct (map fst (cs_tools s))" using assms(1) by (simp add: tools_ok_def)
  have "x = y" if "x \<in> set (cs_tools s)" "y \<in> set (cs_tools s)" "sm_output_index (snd x) = sm_output_index (snd y)" for x y
  proof -
    have "fst x = fst y"
      using that assms(2) tools_apart [OF assms(1), of "fst x" "snd x" "fst y" "snd y"] by (metis prod.collapse)
    with d that(1,2) show ?thesis by (metis distinct_map inj_onD)
  qed
  then show ?thesis using d by (auto simp: distinct_map intro!: inj_onI)
qed

lemma bridge_finished:
  assumes b: "bridge D s e" and ok': "tools_ok fresh s" and all: "\<forall>kt \<in> set (cs_tools s). sm_started (snd kt)"
    and D: "(sm_output_index \<circ> snd) ` set (cs_tools s) \<subseteq> D" and r: "ready s"
  shows "told s (snd (finish stop e))"
proof -
  have tool: "\<exists>kt \<in> set (cs_tools s). t = snd kt" "sm_output_index t \<in> D" if "t \<in> started_tools s" for t
    using that D by (auto simp: started_tools_def)
  have ok: "st_closed u \<and> valid_tool_arguments (st_arguments u)" if ku: "(k, u) \<in> set (en_tools e)" for k u
  proof -
    obtain t where t: "t \<in> started_tools s"
      "st_arguments u = (if sm_output_index t \<in> D then tool_arguments t else sm_arguments t)"
      "st_closed u \<longleftrightarrow> sm_output_index t \<in> D"
      by (rule bridge_tool_back [OF b ku]) blast
    with tool [OF t(1)] r show ?thesis by (auto simp: ready_def list_all_iff)
  qed
  have "live e" using b by (simp add: bridge_def)
  note fin = finish_succeeds [OF this ok, where stop = stop]
  let ?f = "\<lambda>(k, i, a, c). (k, i, a) :: int \<times> string \<times> string"
  have "(\<lambda>(k, u). (k, st_item_id u, st_arguments u)) ` set (en_tools e) = ?f ` enc_view ` set (en_tools e)"
    by (force simp: enc_view_def image_image)
  also have "\<dots> = ?f ` tool_view D ` started_tools s" using b by (simp add: bridge_def)
  also have "\<dots> = (\<lambda>t. (int (sm_output_index t), sm_item_id t, tool_arguments t)) ` started_tools s"
    unfolding image_image using tool(2) by (intro image_cong) (simp_all add: tool_view_def)
  also have "started_tools s = snd ` set (cs_tools s)" using all by (auto simp: started_tools_def)
  finally show ?thesis using fin indexes_distinct [OF ok' all] by (simp add: told_def image_image case_prod_beta)
qed

lemma told_cong: "cs_tools s' = cs_tools s \<Longrightarrow> told s' e = told s e"
  by (simp add: told_def)

lemma ready_cong: "cs_tools s' = cs_tools s \<Longrightarrow> cs_finish s' = cs_finish s \<Longrightarrow> ready s' = ready s"
  by (simp add: ready_def)

text \<open>The completed event itself, after the events that closed everything.\<close>

lemma told_completed:
  assumes J: "joint decode fresh D e s" and all: "\<forall>kt \<in> set (cs_tools s). sm_started (snd kt)"
    and D: "(sm_output_index \<circ> snd) ` set (cs_tools s) \<subseteq> D" and r: "ready s"
    and d: "list_all (decodes decode) (cs_queue (enqueue ''response.completed'' body s))"
  shows "told s (enc_run decode (cs_queue (enqueue ''response.completed'' body s)) e)"
proof -
  let ?ev = "(''response.completed'', tagged ''response.completed'' (cs_sequence s) body)"
  have q: "cs_queue (enqueue ''response.completed'' body s) = cs_queue s @ [?ev]"
    by (simp add: enqueue_def tagged_def)
  let ?e = "enc_run decode (cs_queue s) e"
  have b: "bridge D s ?e" and dec: "decodes decode ?ev" using J d unfolding q by (simp_all add: joint_def)
  let ?e1 = "note_usage (snd (event_bytes ?ev)) ?e"
  have "enc_step decode ?ev ?e = snd (finish (en_stop_reason ?e1) ?e1)"
    using enc_step_dispatch [OF dec] b by (simp add: bridge_def dispatch_def)
  with bridge_finished [OF bridge_note_usage [OF b] joint_tools [OF J] all D r] show ?thesis
    unfolding q by (simp add: enc_run_def)
qed

lemma told_end_of_chunks:
  assumes J: "joint decode fresh {} e s" and inj: "inj fresh" and n: "end_of_chunks s = (True, s')" and r: "ready s'"
    and d: "list_all (decodes decode) (cs_current s' # cs_queue s')"
  shows "cs_ended s' \<and> told s' (enc_run decode (cs_current s' # cs_queue s') e)"
proof -
  define s1 where "s1 = (if cs_finish s = [] then s\<lparr>cs_finish := ''stop''\<rparr> else s)"
  define s2 where "s2 = finish_refusal (finish_text (close_reasoning s1))"
  have J2: "joint decode fresh {} e s2"
    using J by (simp add: s1_def s2_def joint_finish_refusal joint_finish_text joint_close_reasoning joint_update)
  have ts: "set (tools_in_order s2) = set (cs_tools s2)" by (simp add: tools_in_order_def)
  obtain s3 where c: "finish_calls (tools_in_order s2) s2 = Continue s3"
    using n by (auto simp: end_of_chunks_def Let_def s1_def [symmetric] s2_def [symmetric] split: option.splits ctl.splits)
  note f = joint_finish_calls [OF inj J2 eq_refl [OF ts] c]
  let ?ty = "if cs_finish s3 = ''length'' then ''response.incomplete'' else ''response.completed''"
  from n c obtain body where s': "s' = pop ((enqueue ?ty body s3)\<lparr>cs_ended := True\<rparr>)"
    by (auto simp: end_of_chunks_def Let_def s1_def [symmetric] s2_def [symmetric] split: option.splits)
  have same: "cs_tools s' = cs_tools s3" "cs_finish s' = cs_finish s3"
    unfolding s' by (simp_all add: pop_def enqueue_def)
  with r have r3: "ready s3" and fin: "cs_finish s3 \<noteq> ''length''" by (simp_all add: ready_cong ready_def)
  have q: "cs_current s' # cs_queue s' = cs_queue (enqueue ''response.completed'' body s3)"
    unfolding s' using fin by (simp add: pop_def)
  have "told s3 (enc_run decode (cs_queue (enqueue ''response.completed'' body s3)) e)"
    by (rule told_completed [OF conjunct1 [OF f] _ _ r3 d [unfolded q]]) (use f ts in auto)
  moreover have "cs_ended s'" by (simp add: s')
  ultimately show ?thesis unfolding q by (simp add: told_cong [OF same(1)])
qed

lemma joint_pop:
  assumes "joint decode fresh D e s" and "cs_queue s = ev # q" and "decodes decode ev"
  shows "joint decode fresh D (enc_step decode ev e) (pop s)"
  using assms by (simp add: joint_def pop_def tools_ok_def started_tools_def bridge_def enc_run_def)

lemma chat_run_ended_sel:
  "cs_ended s \<Longrightarrow> cs_tools (snd (chat_run fresh s)) = cs_tools s \<and> cs_finish (snd (chat_run fresh s)) = cs_finish s"
proof (induction "cs_queue s" arbitrary: s)
  case Nil
  then show ?case by (simp add: chat_run.simps [of fresh s] chat_next_def)
next
  case (Cons ev evs)
  then have q: "cs_queue s \<noteq> []" "evs = cs_queue (pop s)" by (metis list.distinct(1), metis list.sel(3) pop_sel(4))
  with Cons.hyps(1) [OF q(2)] Cons.prems show ?case
    by (simp add: chat_run.simps [of fresh s] chat_next_def case_prod_beta Let_def) (simp add: pop_def)
qed

lemma chat_run_told:
  assumes "inj fresh" and "chat_run fresh s = (evs, f)" and "joint decode fresh {} e s" and "\<not> cs_ended s"
    and "list_all (decodes decode) evs" and "chat_err f = None" and "ready f"
  shows "told f (enc_run decode evs e)"
  using assms
proof (induction fresh s arbitrary: evs e rule: chat_run.induct)
  case (1 fresh s)
  have popped: ?case if n: "chat_next fresh s = (True, pop s1)" and q: "cs_queue s1 \<noteq> []"
    and J: "joint decode fresh {} e s1" and l: "\<not> cs_ended s1" for s1
  proof -
    obtain q rest where c: "cs_queue s1 = hd (cs_queue s1) # q" "evs = hd (cs_queue s1) # rest"
      "chat_run fresh (pop s1) = (rest, f)"
      by (rule chat_run_pop [OF n q 1(3)])
    with 1(6) have "decodes decode (hd (cs_queue s1))" by simp
    from joint_pop [OF J c(1) this]
    have "joint decode fresh {} (enc_step decode (hd (cs_queue s1)) e) (pop s1)" .
    from 1(1) [OF n [symmetric] refl 1(2) c(3) this] c(2) l 1(6-8) show ?thesis by (simp add: enc_run_def)
  qed
  let ?r = "read_chunks fresh (cs_inner s) s"
  let ?c = "enqueue ''response.created'' [(''response'', response_value s ''in_progress'' VNull [])] (s\<lparr>cs_started := True\<rparr>)"
  consider "cs_queue s \<noteq> []" | "cs_queue s = []" "\<not> cs_started s" | "cs_queue s = []" "cs_started s" "cs_queue ?r \<noteq> []"
    | "cs_queue s = []" "cs_started s" "cs_queue ?r = []" by blast
  then show ?case
  proof cases
    case c: 1
    show ?thesis by (rule popped [OF _ c 1(4,5)]) (simp add: chat_next_def c)
  next
    case c: 2
    have j: "joint decode fresh {} e ?c" using 1(4) by (simp add: joint_ignored joint_update)
    show ?thesis by (rule popped [OF _ _ j]) (simp_all add: chat_next_def c 1(5))
  next
    case c: 3
    have "cs_ended ?r = cs_ended s" using read_chunks_extends [OF c(1)] by (auto simp: extends_def)
    then have "chat_next fresh s = (True, pop ?r)" "\<not> cs_ended ?r" using c 1(5) by (simp_all add: chat_next_def Let_def)
    from popped [OF this(1) c(3) joint_read_chunks [OF 1(2,4)] this(2)] show ?thesis .
  next
    case c: 4
    then have n: "chat_next fresh s = end_of_chunks ?r" using 1(5) by (simp add: chat_next_def Let_def)
    show ?thesis
    proof (cases "end_of_chunks ?r")
      case (Pair b s')
      show ?thesis
      proof (cases b)
        case True
        with Pair n 1(3) obtain rest where run: "chat_run fresh s' = (rest, f)" "evs = cs_current s' # rest"
          by (auto simp: chat_run.simps [of fresh s] split: prod.splits)
        have "cs_ended s'" using end_of_chunks_ended [of ?r] Pair by simp
        note e = chat_run_ended [OF this, of fresh] chat_run_ended_sel [OF this, of fresh]
        have "rest = cs_queue s'" and t: "cs_tools f = cs_tools s'" "cs_finish f = cs_finish s'"
          using e unfolding run(1) fst_conv snd_conv by blast+
        then have evs: "evs = cs_current s' # cs_queue s'" using run(2) by simp
        have "ready s'" using 1(8) ready_cong [OF t] by blast
        moreover have "end_of_chunks ?r = (True, s')" using Pair True by simp
        ultimately have "cs_ended s' \<and> told s' (enc_run decode (cs_current s' # cs_queue s') e)"
          using told_end_of_chunks [OF joint_read_chunks [OF 1(2,4)] 1(2) _ _ 1(6) [unfolded evs]] by blast
        then show ?thesis unfolding evs told_cong [OF t(1)] by blast
      next
        case False
        with Pair n 1(3) have "f = s'" by (simp add: chat_run.simps [of fresh s])
        with Pair False have "cs_err f \<noteq> None"
          by (auto simp: end_of_chunks_def fail_chat_def Let_def split: option.splits ctl.splits)
        with 1(7) show ?thesis by (simp add: chat_err_def split: option.splits)
      qed
    qed
  qed
qed

text \<open>
  C29 (a chat provider's tool calls reach the client). Whatever chunks a Chat Completions provider
  sends: if its stream ends without an error and not at the token limit, and the arguments of every
  tool call, put together from their fragments, are a JSON object (none counts as the empty one),
  then the Messages encoder, fed with the adapter's events, ends the client's message successfully,
  and the tool calls the client puts together from its events are the provider's, each once: its
  arguments, and the id and name known when the call was announced, which is with the first fragment
  that leaves neither empty (a name that goes on after that reaches the client cut). The hypotheses on
  other code: the adapter's ids are fresh, and the SDK's decoder returns the fields an event's payload
  holds.
\<close>

theorem chat_tool_calls_reach_messages:
  assumes "inj fresh"
    and "chat_run fresh (open_chat_stream uuid created model expose chunks err) = (evs, s)"
    and "list_all (decodes decode) evs"
    and "chat_err s = None" and "cs_finish s \<noteq> ''length''"
    and "list_all (\<lambda>j. valid_tool_arguments (given_arguments j (fragments chunks))) (call_indexes (fragments chunks))"
  shows "let (out, e) = encode_message decode msg requested (map event_bytes evs) in
     en_success e \<and>
     (\<exists>js. distinct js \<and> set js = kt_index ` set (fragments chunks) \<and>
        list_all2 (\<lambda>j (call, name, args). announced j (fragments chunks) = Some (call, name) \<and>
          args = given_arguments j (fragments chunks)) js (client_calls out))"
proof -
  let ?s = "open_chat_stream uuid created model expose chunks err"
  define e where "e = snd (start_events (new_stream_encoder msg requested))"
  have f: "en_tools e = []" "en_refusal_text e = []" "en_text_open e = False" "en_started e" "\<not> en_terminal e"
    by (simp_all add: e_def start_events_def new_stream_encoder_def)
  then have "live e" by (simp add: live_def enc_ok_def)
  with f have "joint decode fresh {} e ?s"
    by (simp add: joint_def tools_ok_def started_tools_def bridge_def open_chat_stream_def enc_run_def)
  moreover have "\<not> cs_ended ?s" by (simp add: open_chat_stream_def)
  moreover have calls: "calls_told (fragments chunks) evs (cs_tools s)"
    using chat_run_calls [OF assms(2), of "[]" "[]"] assms(4) by (simp add: open_chat_stream_def)
  moreover have "ready s"
    using calls_told_tool(1,3) [OF calls] assms(5,6) by (fastforce simp: ready_def list_all_iff)
  ultimately have "told s (enc_run decode evs e)" using chat_run_told assms(1-4) by blast
  moreover obtain out e' where m: "encode_message decode msg requested (map event_bytes evs) = (out, e')"
    by (cases "encode_message decode msg requested (map event_bytes evs)")
  moreover have "snd (encode_message decode msg requested (map event_bytes evs)) = enc_run decode evs e"
    by (simp add: encode_message_def case_prod_beta enc_run_encode [symmetric] e_def Let_def)
  ultimately have t: "told s e'" by simp
  with client_reads_calls [OF m assms(3) _ calls] show ?thesis by (simp add: told_def m)
qed

text \<open>One chunk with text, one with a tool call whose arguments come in two fragments.\<close>

definition sample_delta :: "string \<Rightarrow> string \<Rightarrow> string \<Rightarrow> chunk_tool" where
  "sample_delta call name args = \<lparr>kt_index = 0, kt_id = call, kt_name = name, kt_arguments = args\<rparr>"

definition sample_chunk :: "string \<Rightarrow> chunk_tool list \<Rightarrow> string \<Rightarrow> chunk" where
  "sample_chunk content tools fin =
     \<lparr>kc_usage = \<lparr>cu_prompt = 0, cu_completion = 0, cu_total = 0, cu_cached = 0, cu_cache_write = 0, cu_reasoning = 0\<rparr>,
      kc_choices = [\<lparr>kh_index = 0, kh_content = content, kh_refusal = [], kh_raw = ''{}'', kh_tools = tools, kh_finish = fin\<rparr>]\<rparr>"

definition sample_fresh :: "nat \<Rightarrow> string" where
  "sample_fresh n = replicate n CHR ''x''"

definition sample_chat :: "queued_event list \<times> chat_stream" where
  "sample_chat = chat_run sample_fresh (open_chat_stream ''r'' 0 ''m'' False
     [sample_chunk ''hi'' [] [], sample_chunk [] [sample_delta ''c'' ''f'' ''{'', sample_delta [] [] ''}''] ''tool_calls''] None)"

text \<open>A decoder for these payloads.\<close>

definition sample_decode :: "string \<Rightarrow> upstream_event option" where
  "sample_decode p = map_option (\<lambda>ev. union_of (snd ev)) (find (\<lambda>ev. snd (event_bytes ev) = p) (fst sample_chat))"

lemma sample_fresh_inj: "inj sample_fresh"
  by (rule injI) (metis sample_fresh_def length_replicate)

lemma find_distinct:
  "distinct (map f xs) \<Longrightarrow> x \<in> set xs \<Longrightarrow> find (\<lambda>y. f y = f x) xs = Some x"
  by (induction xs) (auto simp: image_iff)

lemma sample_chat_facts:
  "case sample_chat of (evs, s) \<Rightarrow>
     chat_err s = None \<and> cs_finish s = ''tool_calls'' \<and>
     cs_tools s = [(0, \<lparr>sm_output_index = 1, sm_item_id = ''fc_x'', sm_call_id = ''c'', sm_name = ''f'',
       sm_arguments = ''{}'', sm_started = True\<rparr>)] \<and>
     length evs = 13 \<and> distinct (map (snd \<circ> event_bytes) evs)"
  by code_simp

lemma sample_chat_end:
  "chat_err (snd sample_chat) = None" "cs_finish (snd sample_chat) = ''tool_calls''"
  "cs_tools (snd sample_chat) = [(0, \<lparr>sm_output_index = 1, sm_item_id = ''fc_x'', sm_call_id = ''c'', sm_name = ''f'',
     sm_arguments = ''{}'', sm_started = True\<rparr>)]"
  "length (fst sample_chat) = 13" "distinct (map (snd \<circ> event_bytes) (fst sample_chat))"
  using sample_chat_facts by (simp_all add: case_prod_beta)

lemma sample_decodes: "list_all (decodes sample_decode) (fst sample_chat)"
  using find_distinct [OF sample_chat_end(5)] by (simp add: list_all_iff decodes_def sample_decode_def)

lemma sample_arguments: "valid_tool_arguments ''{}''"
  by code_simp

definition sample_chunks :: "chunk list" where
  "sample_chunks = [sample_chunk ''hi'' [] [], sample_chunk [] [sample_delta ''c'' ''f'' ''{'', sample_delta [] [] ''}''] ''tool_calls'']"

lemma sample_fragments:
  "call_indexes (fragments sample_chunks) = [0]" "kt_index ` set (fragments sample_chunks) = {0}"
  "announced 0 (fragments sample_chunks) = Some (''c'', ''f'')" "given_arguments 0 (fragments sample_chunks) = ''{}''"
  by (simp_all add: sample_chunks_def fragments_def said_choices_def sample_chunk_def sample_delta_def call_indexes_def
      announced_def of_call_def given_arguments_def spoken_arguments_def)

lemma one_index: "distinct js \<Longrightarrow> set js = {x} \<Longrightarrow> js = [x]"
  by (cases js) (auto simp: subset_singleton_iff dest: sym)

theorem chat_tool_calls_reach_messages_witness:
  "length (fst sample_chat) = 13 \<and>
   (let (out, e) = encode_message sample_decode ''u'' ''claude'' (map event_bytes (fst sample_chat)) in
     en_success e \<and> client_calls out = [(''c'', ''f'', ''{}'')])"
proof -
  obtain out e where m: "encode_message sample_decode ''u'' ''claude'' (map event_bytes (fst sample_chat)) = (out, e)"
    by (cases "encode_message sample_decode ''u'' ''claude'' (map event_bytes (fst sample_chat))")
  have "sample_chat = chat_run sample_fresh (open_chat_stream ''r'' 0 ''m'' False sample_chunks None)"
    by (simp add: sample_chat_def sample_chunks_def)
  then have "chat_run sample_fresh (open_chat_stream ''r'' 0 ''m'' False sample_chunks None) = (fst sample_chat, snd sample_chat)"
    by simp
  from chat_tool_calls_reach_messages [OF sample_fresh_inj this sample_decodes sample_chat_end(1), of "''u''" "''claude''"]
  show ?thesis
    by (auto simp: m sample_chat_end sample_fragments sample_arguments list_all2_Cons1 dest!: one_index)
qed

end
