(* ===== verification/Chat_Compat.thy ===== *)
theory Chat_Compat
  imports Anthropic_Upstream Chat_Stream
begin

text \<open>
  The Chat Completions bridge (\<open>internal/upstream/chatcompat.go\<close>): a Responses request as the body of
  a Chat Completions request, and a completion as a Responses body. Arguments: \<open>fl\<close> reads the
  literal of a float64, \<open>show\<close> is its shortest decimal, \<open>sdk\<close> decodes the body into the SDK's typed
  request. A fault says which check failed and where; the wording around it is left out.
\<close>

section \<open>Faults\<close>

datatype content_fault = ContentShape | PartShape nat | PartImage nat | PartType nat string

datatype item_fault =
    ItemShape | ItemRole string | ItemContent content_fault | ItemArguments | ItemNames | ItemCallId
  | ItemOutput | ReasoningEmpty | ReasoningOrphan | ItemType string

datatype chat_tool_fault = ToolShape | ToolKind | ToolParameters

datatype chat_fault =
    RequestShape | HasPrevious | NothingToSend | EffortShape | EffortRange string
  | InputShape | InputItem nat item_fault | ToolItem nat chat_tool_fault
  | ChoiceShape | ChoiceName string | ChoiceKind string
  | FormatShape | FormatNames | FormatSchema | FormatKind string | FieldValue string | TypedRequest

section \<open>Values of any type\<close>

text \<open>
  A value decoded into \<open>any\<close> and written again: numbers become float64, the last of two members of
  an object with the same name stays, members are sorted.
\<close>

fun any_value :: "(string \<Rightarrow> rat option) \<Rightarrow> (rat \<Rightarrow> string) \<Rightarrow> json \<Rightarrow> jval option"
  and any_elements :: "(string \<Rightarrow> rat option) \<Rightarrow> (rat \<Rightarrow> string) \<Rightarrow> (string \<times> json) list \<Rightarrow> jval list option"
  and any_members ::
    "(string \<Rightarrow> rat option) \<Rightarrow> (rat \<Rightarrow> string) \<Rightarrow> (string \<times> (string \<times> json)) list \<Rightarrow> (string \<times> jval) list option" where
  "any_value fl show JNull = Some VNull"
| "any_value fl show (JBool b) = Some (VBool b)"
| "any_value fl show (JNum l) = map_option (VRaw \<circ> show) (fl l)"
| "any_value fl show (JStr s) = Some (VStr s)"
| "any_value fl show (JArr xs) = map_option VArr (any_elements fl show xs)"
| "any_value fl show (JObj ms) =
     map_option (\<lambda>kvs. vmap (fold (\<lambda>(k, v). AList.update k v) kvs [])) (any_members fl show ms)"
| "any_elements fl show [] = Some []"
| "any_elements fl show ((_, x) # xs) =
     (case any_value fl show x of
        None \<Rightarrow> None
      | Some v \<Rightarrow> map_option (Cons v) (any_elements fl show xs))"
| "any_members fl show [] = Some []"
| "any_members fl show ((k, _, x) # ms) =
     (case any_value fl show x of
        None \<Rightarrow> None
      | Some v \<Rightarrow> map_option (Cons (k, v)) (any_members fl show ms))"

definition raw_any :: "(string \<Rightarrow> rat option) \<Rightarrow> (rat \<Rightarrow> string) \<Rightarrow> raw_message option \<Rightarrow> jval option" where
  "raw_any fl show r = (case r of None \<Rightarrow> None | Some (_, v) \<Rightarrow> any_value fl show v)"

text \<open>The guard \<open>len(raw) > 0 && string(raw) != "null"\<close>.\<close>

definition present :: "raw_message option \<Rightarrow> bool" where
  "present r \<longleftrightarrow> raw_bytes r \<noteq> [] \<and> raw_bytes r \<noteq> ''null''"

definition json_value_to_string ::
    "(string \<Rightarrow> rat option) \<Rightarrow> (rat \<Rightarrow> string) \<Rightarrow> raw_message option \<Rightarrow> string option" where
  "json_value_to_string fl show r =
     (if raw_bytes r = [] then Some []
      else case raw_string r of
             Some s \<Rightarrow> Some s
           | None \<Rightarrow> map_option marshal (raw_any fl show r))"

section \<open>Reasoning effort\<close>

definition decode_reasoning_effort :: "raw_message option \<Rightarrow> string option" where
  "decode_reasoning_effort r = map_option (to_lower \<circ> trim_space) (raw_string r)"

definition is_deep_seek_v41_flash :: "string \<Rightarrow> bool" where
  "is_deep_seek_v41_flash model = equal_fold (trim_space model) ''deepseek-ai/deepseek-v4.1-flash''"

text \<open>\<open>strconv.Atoi\<close>.\<close>

definition atoi :: "string \<Rightarrow> int option" where
  "atoi s =
     (let sign = (case s of [] \<Rightarrow> False | c # _ \<Rightarrow> c = CHR ''-'' \<or> c = CHR ''+'');
          ds = (if sign then tl s else s);
          n = (if sign \<and> hd s = CHR ''-'' then - digits_value ds else digits_value ds)
      in if ds \<noteq> [] \<and> list_all is_digit ds \<and> in_int64 n then Some n else None)"

definition deep_seek_v41_reasoning_effort :: "string \<Rightarrow> int option" where
  "deep_seek_v41_reasoning_effort effort =
     (if effort = ''minimal'' then Some 1
      else if effort = ''low'' then Some 25
      else if effort = ''medium'' then Some 50
      else if effort = ''high'' then Some 75
      else if effort = ''xhigh'' then Some 90
      else if effort = ''max'' then Some 100
      else case atoi effort of
             None \<Rightarrow> None
           | Some n \<Rightarrow> if 1 \<le> n \<and> n \<le> 100 then Some n else None)"

section \<open>Messages\<close>

text \<open>
  A message as the map the code builds: \<open>tool_calls\<close> and \<open>reasoning_content\<close> are absent when empty,
  \<open>tool_call_id\<close> is that of a tool's answer.
\<close>

record chat_call =
  cl_id :: string
  cl_name :: string
  cl_arguments :: string

record chat_message =
  cm_role :: string
  cm_content :: jval
  cm_calls :: "chat_call list"
  cm_reasoning :: string
  cm_answers :: string

definition plain_message :: "string \<Rightarrow> jval \<Rightarrow> chat_message" where
  "plain_message role content =
     \<lparr>cm_role = role, cm_content = content, cm_calls = [], cm_reasoning = [], cm_answers = []\<rparr>"

definition chat_call_value :: "chat_call \<Rightarrow> jval" where
  "chat_call_value c =
     vmap [(''id'', VStr (cl_id c)), (''type'', VStr ''function''),
           (''function'', vmap [(''name'', VStr (cl_name c)), (''arguments'', VStr (cl_arguments c))])]"

definition chat_message_value :: "chat_message \<Rightarrow> jval" where
  "chat_message_value m =
     vmap ([(''role'', VStr (cm_role m)), (''content'', cm_content m)] @
           (if cm_calls m = [] then [] else [(''tool_calls'', VArr (map chat_call_value (cm_calls m)))]) @
           omit_empty ''reasoning_content'' (cm_reasoning m) @ omit_empty ''tool_call_id'' (cm_answers m))"

section \<open>Content\<close>

definition content_part :: "nat \<Rightarrow> raw_message \<Rightarrow> content_fault + jval" where
  "content_part i r =
     (let names = [''type'', ''text'', ''image_url'', ''detail''];
          parts = do { ms \<leftarrow> dec_struct [] [r]; ty \<leftarrow> dec_string [] (field_values names ''type'' ms);
                       tx \<leftarrow> dec_string [] (field_values names ''text'' ms);
                       d \<leftarrow> dec_string [] (field_values names ''detail'' ms);
                       Some (ty, tx, dec_raw (field_values names ''image_url'' ms), d) } in
      case parts of
        None \<Rightarrow> Inl (PartShape i)
      | Some (ty, tx, img, detail) \<Rightarrow>
          if ty = ''input_text'' \<or> ty = ''output_text'' then
            Inr (vmap [(''type'', VStr ''text''), (''text'', VStr tx)])
          else if ty = ''input_image'' then
            (case raw_string img of
               None \<Rightarrow> Inl (PartImage i)
             | Some url \<Rightarrow>
                 if url = [] then Inl (PartImage i)
                 else Inr (vmap [(''type'', VStr ''image_url''),
                                 (''image_url'', vmap ((''url'', VStr url) # omit_empty ''detail'' detail))]))
          else Inl (PartType i ty))"

fun content_parts :: "nat \<Rightarrow> raw_message list \<Rightarrow> content_fault + jval list" where
  "content_parts i [] = Inr []"
| "content_parts i (r # rs) =
     (case content_part i r of
        Inl e \<Rightarrow> Inl e
      | Inr v \<Rightarrow> (case content_parts (Suc i) rs of Inl e \<Rightarrow> Inl e | Inr vs \<Rightarrow> Inr (v # vs)))"

definition responses_content_to_chat :: "raw_message option \<Rightarrow> content_fault + jval" where
  "responses_content_to_chat r =
     (if \<not> present r then Inr (VStr [])
      else if hd (raw_bytes r) = CHR 0x22 then
        (case raw_string r of None \<Rightarrow> Inl ContentShape | Some s \<Rightarrow> Inr (VStr s))
      else
        (case (case r of None \<Rightarrow> None | Some m \<Rightarrow> dec_slice [] [m]) of
           None \<Rightarrow> Inl ContentShape
         | Some parts \<Rightarrow> map_sum id VArr (content_parts 0 parts)))"

section \<open>Input items\<close>

record input_item =
  ii_type :: string
  ii_role :: string
  ii_content :: "raw_message option"
  ii_call_id :: string
  ii_name :: string
  ii_arguments :: string
  ii_output :: "raw_message option"

definition input_item_names :: "string list" where
  "input_item_names = [''type'', ''role'', ''content'', ''call_id'', ''name'', ''arguments'', ''output'']"

definition dec_input_item :: "raw_message \<Rightarrow> input_item option" where
  "dec_input_item r =
     (case dec_struct [] [r] of
        None \<Rightarrow> None
      | Some ms \<Rightarrow>
          (let f = (\<lambda>k. field_values input_item_names k ms) in
           do { ty \<leftarrow> dec_string [] (f ''type''); ro \<leftarrow> dec_string [] (f ''role'');
                ci \<leftarrow> dec_string [] (f ''call_id''); na \<leftarrow> dec_string [] (f ''name'');
                ar \<leftarrow> dec_string [] (f ''arguments'');
                Some \<lparr>ii_type = ty, ii_role = ro, ii_content = dec_raw (f ''content''), ii_call_id = ci, ii_name = na,
                      ii_arguments = ar, ii_output = dec_raw (f ''output'')\<rparr> }))"

definition chat_roles :: "string list" where
  "chat_roles = [''user'', ''assistant'', ''system'', ''developer'']"

definition item_arguments :: "input_item \<Rightarrow> string" where
  "item_arguments it = (if ii_arguments it = [] then ''{}'' else ii_arguments it)"

text \<open>A call joins the assistant message before it, if that is the last one.\<close>

definition add_call :: "chat_call \<Rightarrow> chat_message list \<Rightarrow> chat_message list" where
  "add_call c out =
     (if out \<noteq> [] \<and> cm_role (last out) = ''assistant''
      then butlast out @ [(last out)\<lparr>cm_calls := cm_calls (last out) @ [c]\<rparr>]
      else out @ [(plain_message ''assistant'' VNull)\<lparr>cm_calls := [c]\<rparr>])"

text \<open>Reasoning goes to the nearest assistant message before it; the argument is reversed.\<close>

fun attach_reasoning :: "string \<Rightarrow> chat_message list \<Rightarrow> chat_message list option" where
  "attach_reasoning s [] = None"
| "attach_reasoning s (m # ms) =
     (if cm_role m = ''assistant'' then Some (m\<lparr>cm_reasoning := s\<rparr> # ms)
      else map_option (Cons m) (attach_reasoning s ms))"

definition item_to_chat ::
    "(string \<Rightarrow> rat option) \<Rightarrow> (rat \<Rightarrow> string) \<Rightarrow> input_item \<Rightarrow> chat_message list \<Rightarrow> item_fault + chat_message list" where
  "item_to_chat fl show it out =
     (if ii_type it = ''message'' then
        (if ii_role it \<notin> set chat_roles then Inl (ItemRole (ii_role it))
         else (case responses_content_to_chat (ii_content it) of
                 Inl f \<Rightarrow> Inl (ItemContent f)
               | Inr v \<Rightarrow> Inr (out @ [plain_message (ii_role it) v])))
      else if ii_type it = ''function_call'' then
        (if ii_arguments it \<noteq> [] \<and> \<not> json_valid (ii_arguments it) then Inl ItemArguments
         else if ii_call_id it = [] \<or> ii_name it = [] then Inl ItemNames
         else Inr (add_call \<lparr>cl_id = ii_call_id it, cl_name = ii_name it, cl_arguments = item_arguments it\<rparr> out))
      else if ii_type it = ''function_call_output'' then
        (if ii_call_id it = [] then Inl ItemCallId
         else (case json_value_to_string fl show (ii_output it) of
                 None \<Rightarrow> Inl ItemOutput
               | Some s \<Rightarrow> Inr (out @ [(plain_message ''tool'' (VStr s))\<lparr>cm_answers := ii_call_id it\<rparr>])))
      else if ii_type it = ''chat_reasoning'' then
        (case raw_string (ii_content it) of
           None \<Rightarrow> Inl ReasoningEmpty
         | Some s \<Rightarrow>
             if s = [] then Inl ReasoningEmpty
             else (case attach_reasoning s (rev out) of
                     None \<Rightarrow> Inl ReasoningOrphan
                   | Some ms \<Rightarrow> Inr (rev ms)))
      else Inl (ItemType (ii_type it)))"

definition convert_item ::
    "(string \<Rightarrow> rat option) \<Rightarrow> (rat \<Rightarrow> string) \<Rightarrow> nat \<times> raw_message \<Rightarrow> chat_message list
      \<Rightarrow> (chat_message list, chat_fault) ctl" where
  "convert_item fl show ir out =
     (case dec_input_item (snd ir) of
        None \<Rightarrow> Return (InputItem (fst ir) ItemShape)
      | Some it \<Rightarrow>
          (case item_to_chat fl show it out of
             Inl e \<Rightarrow> Return (InputItem (fst ir) e)
           | Inr out' \<Rightarrow> Continue out'))"

definition responses_input_to_chat ::
    "(string \<Rightarrow> rat option) \<Rightarrow> (rat \<Rightarrow> string) \<Rightarrow> raw_message option \<Rightarrow> chat_fault + chat_message list" where
  "responses_input_to_chat fl show r =
     (if \<not> present r then Inr []
      else if hd (raw_bytes r) = CHR 0x22 then
        (case raw_string r of
           None \<Rightarrow> Inl InputShape | Some s \<Rightarrow> Inr [plain_message ''user'' (VStr s)])
      else
        (case (case r of None \<Rightarrow> None | Some m \<Rightarrow> dec_slice [] [m]) of
           None \<Rightarrow> Inl InputShape
         | Some items \<Rightarrow>
             (case for_range (convert_item fl show) (enumerate 0 items) [] of
                Return e \<Rightarrow> Inl e
              | Continue out \<Rightarrow> Inr out)))"

section \<open>Tools, tool choice and format\<close>

definition tool_to_chat ::
    "(string \<Rightarrow> rat option) \<Rightarrow> (rat \<Rightarrow> string) \<Rightarrow> raw_message \<Rightarrow> chat_tool_fault + jval" where
  "tool_to_chat fl show r =
     (let names = [''type'', ''name'', ''description'', ''parameters'', ''strict''];
          fields = do { ms \<leftarrow> dec_struct [] [r]; ty \<leftarrow> dec_string [] (field_values names ''type'' ms);
                        n \<leftarrow> dec_string [] (field_values names ''name'' ms);
                        d \<leftarrow> dec_string [] (field_values names ''description'' ms);
                        st \<leftarrow> dec_bool_ptr None (field_values names ''strict'' ms);
                        Some (ty, n, d, dec_raw (field_values names ''parameters'' ms), st) } in
      case fields of
        None \<Rightarrow> Inl ToolShape
      | Some (ty, n, d, ps, st) \<Rightarrow>
          if ty \<noteq> ''function'' \<or> n = [] then Inl ToolKind
          else
            (case (if present ps then map_option (\<lambda>v. [(''parameters'', v)]) (raw_any fl show ps) else Some []) of
               None \<Rightarrow> Inl ToolParameters
             | Some pv \<Rightarrow>
                 Inr (vmap [(''type'', VStr ''function''),
                   (''function'', vmap ((''name'', VStr n) # omit_empty ''description'' d @ pv @ omit_none VBool ''strict'' st))])))"

fun responses_tools_to_chat ::
    "(string \<Rightarrow> rat option) \<Rightarrow> (rat \<Rightarrow> string) \<Rightarrow> nat \<Rightarrow> raw_message list \<Rightarrow> chat_fault + jval list" where
  "responses_tools_to_chat fl show i [] = Inr []"
| "responses_tools_to_chat fl show i (r # rs) =
     (case tool_to_chat fl show r of
        Inl e \<Rightarrow> Inl (ToolItem i e)
      | Inr v \<Rightarrow>
          (case responses_tools_to_chat fl show (Suc i) rs of Inl e \<Rightarrow> Inl e | Inr vs \<Rightarrow> Inr (v # vs)))"

definition responses_tool_choice_to_chat :: "raw_message option \<Rightarrow> chat_fault + jval" where
  "responses_tool_choice_to_chat r =
     (case raw_string r of
        Some s \<Rightarrow> if s \<in> set [''auto'', ''none'', ''required''] then Inr (VStr s) else Inl (ChoiceName s)
      | None \<Rightarrow>
          (let names = [''type'', ''name''];
               fields = do { ms \<leftarrow> raw_struct r; ty \<leftarrow> dec_string [] (field_values names ''type'' ms);
                             n \<leftarrow> dec_string [] (field_values names ''name'' ms); Some (ty, n) } in
           case fields of
             None \<Rightarrow> Inl ChoiceShape
           | Some (ty, n) \<Rightarrow>
               if ty \<noteq> ''function'' \<or> n = [] then Inl (ChoiceKind ty)
               else Inr (vmap [(''type'', VStr ''function''), (''function'', vmap [(''name'', VStr n)])])))"

definition responses_format_to_chat ::
    "(string \<Rightarrow> rat option) \<Rightarrow> (rat \<Rightarrow> string) \<Rightarrow> raw_message option \<Rightarrow> chat_fault + jval" where
  "responses_format_to_chat fl show r =
     (let names = [''type'', ''name'', ''schema'', ''strict''];
          fields = do { ms \<leftarrow> raw_struct r; ty \<leftarrow> dec_string [] (field_values names ''type'' ms);
                        n \<leftarrow> dec_string [] (field_values names ''name'' ms);
                        st \<leftarrow> dec_bool_ptr None (field_values names ''strict'' ms);
                        Some (ty, n, dec_raw (field_values names ''schema'' ms), st) } in
      case fields of
        None \<Rightarrow> Inl FormatShape
      | Some (ty, n, schema, st) \<Rightarrow>
          if ty = ''json_object'' then Inr (vmap [(''type'', VStr ''json_object'')])
          else if ty = ''json_schema'' then
            (if n = [] \<or> raw_bytes schema = [] then Inl FormatNames
             else case raw_any fl show schema of
                    None \<Rightarrow> Inl FormatSchema
                  | Some v \<Rightarrow>
                      Inr (vmap [(''type'', VStr ''json_schema''),
                        (''json_schema'', vmap ([(''name'', VStr n), (''schema'', v)] @ omit_none VBool ''strict'' st))]))
          else Inl (FormatKind ty))"

section \<open>The request\<close>

record responses_request =
  rq_input :: "raw_message option"
  rq_instructions :: string
  rq_tools :: "raw_message list"
  rq_tool_choice :: "raw_message option"
  rq_max_output :: "int option"
  rq_temperature :: "rat option"
  rq_top_p :: "rat option"
  rq_parallel :: "bool option"
  rq_previous :: string
  rq_effort :: "raw_message option"
  rq_format :: "raw_message option"

definition responses_request_names :: "string list" where
  "responses_request_names =
     [''input'', ''instructions'', ''tools'', ''tool_choice'', ''max_output_tokens'', ''temperature'', ''top_p'',
      ''parallel_tool_calls'', ''previous_response_id'', ''reasoning'', ''text'']"

definition dec_responses_request ::
    "(string \<Rightarrow> rat option) \<Rightarrow> (string \<times> raw_message) list \<Rightarrow> responses_request option" where
  "dec_responses_request fl ms =
     (let f = (\<lambda>k. field_values responses_request_names k ms) in
      do { ins \<leftarrow> dec_string [] (f ''instructions''); ts \<leftarrow> dec_slice [] (f ''tools'');
           mx \<leftarrow> dec_int_ptr None (f ''max_output_tokens''); te \<leftarrow> dec_float_ptr fl None (f ''temperature'');
           tp \<leftarrow> dec_float_ptr fl None (f ''top_p''); pa \<leftarrow> dec_bool_ptr None (f ''parallel_tool_calls'');
           pr \<leftarrow> dec_string [] (f ''previous_response_id''); re \<leftarrow> dec_struct [] (f ''reasoning'');
           tx \<leftarrow> dec_struct [] (f ''text'');
           Some \<lparr>rq_input = dec_raw (f ''input''), rq_instructions = ins, rq_tools = ts,
                 rq_tool_choice = dec_raw (f ''tool_choice''), rq_max_output = mx, rq_temperature = te, rq_top_p = tp,
                 rq_parallel = pa, rq_previous = pr, rq_effort = dec_raw (field_values [''effort''] ''effort'' re),
                 rq_format = dec_raw (field_values [''format''] ''format'' tx)\<rparr> })"

definition chat_messages ::
    "(string \<Rightarrow> rat option) \<Rightarrow> (rat \<Rightarrow> string) \<Rightarrow> responses_request \<Rightarrow> chat_fault + chat_message list" where
  "chat_messages fl show t =
     (case responses_input_to_chat fl show (rq_input t) of
        Inl e \<Rightarrow> Inl e
      | Inr input \<Rightarrow>
          (let ms = (if rq_instructions t = [] then [] else [plain_message ''system'' (VStr (rq_instructions t))]) @ input
           in if ms = [] then Inl NothingToSend else Inr ms))"

text \<open>The options that set members the SDK's type does not have: a path and its value.\<close>

definition reasoning_options :: "chat_message list \<Rightarrow> (string \<times> jval) list" where
  "reasoning_options ms =
     map (\<lambda>(i, m). (''messages.'' @ itoa (int i) @ ''.reasoning_content'', VStr (cm_reasoning m)))
       (filter (\<lambda>(i, m). cm_reasoning m \<noteq> []) (enumerate 0 ms))"

text \<open>The effort as an option or as a member of the body.\<close>

definition effort_members ::
    "string \<Rightarrow> raw_message option \<Rightarrow> chat_fault + (string \<times> jval) list \<times> (string \<times> jval) list" where
  "effort_members model r =
     (if \<not> present r then Inr ([], [])
      else case decode_reasoning_effort r of
             None \<Rightarrow> Inl EffortShape
           | Some e \<Rightarrow>
               if is_deep_seek_v41_flash model then
                 (case deep_seek_v41_reasoning_effort e of
                    None \<Rightarrow> Inl (EffortRange e)
                  | Some n \<Rightarrow> Inr ([(''reasoning_effort'', VInt n)], []))
               else Inr ([], [(''reasoning_effort'', VStr e)]))"

definition copied_fields :: "string list" where
  "copied_fields =
     [''frequency_penalty'', ''presence_penalty'', ''seed'', ''stop'', ''user'', ''logit_bias'']"

definition copy_field ::
    "(string \<Rightarrow> rat option) \<Rightarrow> (rat \<Rightarrow> string) \<Rightarrow> (string \<times> raw_message) list \<Rightarrow> string
      \<Rightarrow> (string \<times> jval) list \<Rightarrow> ((string \<times> jval) list, chat_fault) ctl" where
  "copy_field fl show ms k body =
     (case map_lookup ms k of
        None \<Rightarrow> Continue body
      | Some r \<Rightarrow>
          (case raw_any fl show (Some r) of
             None \<Rightarrow> Return (FieldValue k)
           | Some v \<Rightarrow> Continue (body @ [(k, v)])))"

definition tools_member ::
    "(string \<Rightarrow> rat option) \<Rightarrow> (rat \<Rightarrow> string) \<Rightarrow> responses_request \<Rightarrow> chat_fault + (string \<times> jval) list" where
  "tools_member fl show t =
     (if rq_tools t = [] then Inr []
      else map_sum id (\<lambda>vs. [(''tools'', VArr vs)]) (responses_tools_to_chat fl show 0 (rq_tools t)))"

definition choice_member :: "responses_request \<Rightarrow> chat_fault + (string \<times> jval) list" where
  "choice_member t =
     (if \<not> present (rq_tool_choice t) then Inr []
      else map_sum id (\<lambda>v. [(''tool_choice'', v)]) (responses_tool_choice_to_chat (rq_tool_choice t)))"

definition format_member ::
    "(string \<Rightarrow> rat option) \<Rightarrow> (rat \<Rightarrow> string) \<Rightarrow> responses_request \<Rightarrow> chat_fault + (string \<times> jval) list" where
  "format_member fl show t =
     (if \<not> present (rq_format t) then Inr []
      else map_sum id (\<lambda>v. [(''response_format'', v)]) (responses_format_to_chat fl show (rq_format t)))"

text \<open>Sequencing of fallible steps.\<close>

definition bind_sum :: "'e + 'a \<Rightarrow> ('a \<Rightarrow> 'e + 'b) \<Rightarrow> 'e + 'b" where
  "bind_sum r f = (case r of Inl e \<Rightarrow> Inl e | Inr x \<Rightarrow> f x)"

text \<open>The body and the options, before the SDK decodes the body into its own type.\<close>

definition chat_request_body ::
    "(string \<Rightarrow> rat option) \<Rightarrow> (rat \<Rightarrow> string) \<Rightarrow> string \<Rightarrow> (string \<times> raw_message) list \<Rightarrow> responses_request
      \<Rightarrow> chat_fault + (string \<times> jval) list \<times> (string \<times> jval) list" where
  "chat_request_body fl show model ms t =
     bind_sum (chat_messages fl show t) (\<lambda>msgs.
     bind_sum (effort_members model (rq_effort t)) (\<lambda>(effort_options, effort).
     bind_sum (tools_member fl show t) (\<lambda>tools.
     bind_sum (choice_member t) (\<lambda>choice.
     bind_sum (format_member fl show t) (\<lambda>format.
       (let body =
          [(''model'', VStr model), (''messages'', VArr (map chat_message_value msgs))] @ effort @
          omit_none VInt ''max_tokens'' (rq_max_output t) @ omit_none (VRaw \<circ> show) ''temperature'' (rq_temperature t) @
          omit_none (VRaw \<circ> show) ''top_p'' (rq_top_p t) @ omit_none VBool ''parallel_tool_calls'' (rq_parallel t) @
          tools @ choice @ format
        in case for_range (copy_field fl show ms) copied_fields body of
             Return e \<Rightarrow> Inl e
           | Continue body' \<Rightarrow> Inr (body', reasoning_options msgs @ effort_options)))))))"

definition responses_to_chat_completion_request ::
    "(string \<Rightarrow> rat option) \<Rightarrow> (rat \<Rightarrow> string) \<Rightarrow> (string \<Rightarrow> 'p option) \<Rightarrow> string \<Rightarrow> string
      \<Rightarrow> chat_fault + 'p \<times> (string \<times> jval) list" where
  "responses_to_chat_completion_request fl show sdk raw model =
     (case unmarshal_struct raw of
        None \<Rightarrow> Inl RequestShape
      | Some ms \<Rightarrow>
          (case dec_responses_request fl ms of
             None \<Rightarrow> Inl RequestShape
           | Some t \<Rightarrow>
               if rq_previous t \<noteq> [] then Inl HasPrevious
               else
                 (case chat_request_body fl show model ms t of
                    Inl e \<Rightarrow> Inl e
                  | Inr (body, options) \<Rightarrow>
                      (case sdk (marshal (vmap body)) of
                         None \<Rightarrow> Inl TypedRequest
                       | Some p \<Rightarrow> Inr (p, options)))))"

section \<open>The answer\<close>

record completion_call =
  ca_type :: string
  ca_id :: string
  ca_name :: string
  ca_arguments :: string

text \<open>\<open>cp_raw\<close> is the raw JSON of the message, read for vendor fields.\<close>

record completion_choice =
  cp_content :: string
  cp_refusal :: string
  cp_calls :: "completion_call list"
  cp_finish :: string
  cp_raw :: string

record chat_completion =
  cn_id :: string
  cn_created :: int
  cn_model :: string
  cn_choices :: "completion_choice list"
  cn_usage :: completion_usage

text \<open>Runes outside ASCII are dropped, so the loop can be read bytewise.\<close>

definition safe_char :: "char \<Rightarrow> bool" where
  "safe_char c \<longleftrightarrow>
     (97 \<le> byte c \<and> byte c \<le> 122) \<or> (65 \<le> byte c \<and> byte c \<le> 90) \<or> (48 \<le> byte c \<and> byte c \<le> 57) \<or>
     c = CHR ''_'' \<or> c = CHR ''-''"

definition safe_id :: "string \<Rightarrow> string" where
  "safe_id s = filter safe_char s"

text \<open>The random id of an answer that has none is an argument.\<close>

definition chat_completion_response_id :: "string \<Rightarrow> chat_completion \<Rightarrow> string" where
  "chat_completion_response_id uuid r =
     (if cn_id r = [] then ''resp_'' @ safe_id uuid
      else if has_prefix (safe_id (cn_id r)) ''resp_'' then safe_id (cn_id r)
      else ''resp_'' @ safe_id (cn_id r))"

definition completion_call_item :: "string \<Rightarrow> nat \<Rightarrow> completion_call \<Rightarrow> jval" where
  "completion_call_item rid i c =
     (let item = ''fc_'' @ safe_id (ca_id c);
          item' = (if item = ''fc_'' then ''fc_'' @ trim_prefix rid ''resp_'' @ ''_'' @ itoa (int i) else item)
      in vmap [(''id'', VStr item'), (''type'', VStr ''function_call''), (''status'', VStr ''completed''),
               (''call_id'', VStr (ca_id c)), (''name'', VStr (ca_name c)), (''arguments'', VStr (ca_arguments c))])"

text \<open>The output items, or the type of the first call that is not a function.\<close>

definition completion_output :: "string \<Rightarrow> completion_choice \<Rightarrow> string + jval list" where
  "completion_output rid ch =
     (let msg = ''msg_'' @ trim_prefix rid ''resp_'';
          content = (if cp_content ch = [] then [] else [message_output msg ''completed'' [text_part (cp_content ch)]]);
          refusal = (if cp_refusal ch = [] then []
                     else [message_output (msg @ ''_refusal'') ''completed'' [refusal_part (cp_refusal ch)]])
      in case find (\<lambda>c. ca_type c \<noteq> ''function'') (cp_calls ch) of
           Some c \<Rightarrow> Inl (ca_type c)
         | None \<Rightarrow> Inr (content @ refusal @ map (\<lambda>(i, c). completion_call_item rid i c) (enumerate 0 (cp_calls ch))))"

datatype completion_fault = NoChoices | CallType string

definition chat_completion_response_body :: "string \<Rightarrow> chat_completion \<Rightarrow> completion_fault + jval" where
  "chat_completion_response_body uuid r =
     (case cn_choices r of
        [] \<Rightarrow> Inl NoChoices
      | ch # _ \<Rightarrow>
          (let rid = chat_completion_response_id uuid r; cut = (cp_finish ch = ''length'') in
           case completion_output rid ch of
             Inl ty \<Rightarrow> Inl (CallType ty)
           | Inr out \<Rightarrow>
               Inr (vmap [(''id'', VStr rid), (''object'', VStr ''response''), (''created_at'', VInt (cn_created r)),
                 (''status'', VStr (if cut then ''incomplete'' else ''completed'')), (''model'', VStr (cn_model r)),
                 (''output'', VArr out), (''usage'', usage_value (Some (cn_usage r))),
                 (''incomplete_details'',
                   if cut then vmap [(''reason'', VStr ''max_output_tokens'')] else VNull),
                 (''error'', VNull)])))"

end
