(* ===== verification/Chat_Conversation.thy ===== *)
theory Chat_Conversation
  imports Chat_Compat Json_Roundtrip
begin

text \<open>
  A Messages conversation on its way to a Chat Completions provider: translated into Responses input
  items (\<open>Anthropic_Upstream\<close>), written as JSON, read again and translated into chat messages
  (\<open>Chat_Compat\<close>). The calls and answers arrive as they left.
\<close>

section \<open>What the first translation writes\<close>

lemma plain_vmap [simp]: "plain_value (vmap ms) \<longleftrightarrow> list_all (\<lambda>(k, v). plain_value v) ms"
  by (simp add: vmap_def list_all_iff sort_members_set)

definition as_raw :: "jval \<Rightarrow> raw_message" where
  "as_raw v = (marshal v, tree_of v)"

text \<open>The text a chat provider gets for an output: the string itself, else the JSON of the parts.\<close>

definition flat :: "jval \<Rightarrow> string" where
  "flat v = (case v of VStr t \<Rightarrow> t | _ \<Rightarrow> marshal v)"

definition readable :: "jval \<Rightarrow> bool" where
  "readable w \<longleftrightarrow> plain_value w \<and> (\<forall>fl show. json_value_to_string fl show (Some (as_raw w)) = Some (flat w))"

definition reasoning_item :: "string \<Rightarrow> jval" where
  "reasoning_item s = vmap [(''type'', VStr ''chat_reasoning''), (''content'', VStr s)]"

definition sendable :: "jval \<Rightarrow> bool" where
  "sendable v \<longleftrightarrow> plain_value v \<and>
     ((\<exists>role c. v = message_item role c) \<or> (\<exists>b. v = call_item b) \<or> (\<exists>b w. v = result_item b w \<and> readable w) \<or>
      (\<exists>s. v = reasoning_item s))"

lemma sendable_items [simp]:
  "sendable (message_item role c) \<longleftrightarrow> plain_value c" "sendable (call_item b)"
  "readable w \<Longrightarrow> sendable (result_item b w)" "sendable (reasoning_item s)"
proof -
  have p: "plain_value (message_item role c) \<longleftrightarrow> plain_value c" "plain_value (call_item b)"
    "plain_value (result_item b w) \<longleftrightarrow> plain_value w" "plain_value (reasoning_item s)"
    by (simp_all add: message_item_def call_item_def result_item_def reasoning_item_def)
  then show "sendable (message_item role c) \<longleftrightarrow> plain_value c" "sendable (call_item b)"
    "readable w \<Longrightarrow> sendable (result_item b w)" "sendable (reasoning_item s)"
    unfolding sendable_def readable_def by blast+
qed

lemma plain_image: "image_to_responses_content r = Inr v \<Longrightarrow> plain_value v"
  by (auto simp: image_to_responses_content_def Let_def split: option.splits if_splits)

lemma plain_document: "document_to_responses_content r title = Inr v \<Longrightarrow> plain_value v"
  by (auto simp: document_to_responses_content_def Let_def split: option.splits if_splits)

lemma plain_nested: "nested_content tid b = Inr v \<Longrightarrow> plain_value v"
  by (auto simp: nested_content_def input_text_def plain_image plain_document split: if_splits sum.splits)

lemma plain_collected: "collect_content (nested_content tid) bs = Inr vs \<Longrightarrow> list_all plain_value vs"
  by (induction bs arbitrary: vs) (auto simp: plain_nested split: sum.splits)

text \<open>Parts are objects of strings: decoded into \<open>any\<close> and written again they are the same.\<close>

definition stable :: "jval \<Rightarrow> bool" where
  "stable v \<longleftrightarrow> (\<forall>fl show. any_value fl show (tree_of v) = Some v)"

lemma stable_image: "image_to_responses_content r = Inr v \<Longrightarrow> stable v"
  by (auto simp: image_to_responses_content_def Let_def stable_def vmap_def sort_members_def byte_def
      split: option.splits if_splits)

lemma stable_document: "document_to_responses_content r title = Inr v \<Longrightarrow> stable v"
  by (auto simp: document_to_responses_content_def Let_def stable_def vmap_def sort_members_def byte_def
      split: option.splits if_splits)

lemma stable_text: "stable (input_text s)"
  by (simp add: input_text_def stable_def vmap_def sort_members_def byte_def)

lemma stable_nested: "nested_content tid b = Inr v \<Longrightarrow> stable v"
  by (auto simp: nested_content_def stable_text stable_image stable_document split: if_splits sum.splits)

lemma stable_collected: "collect_content (nested_content tid) bs = Inr vs \<Longrightarrow> list_all stable vs"
  by (induction bs arbitrary: vs) (auto simp: stable_nested split: sum.splits)

lemma any_elements_stable:
  "list_all stable vs \<Longrightarrow> any_elements fl sh (map (\<lambda>v. (marshal v, tree_of v)) vs) = Some vs"
  by (induction vs) (auto simp: stable_def)

lemma readable_string: "readable (VStr s)"
  by (simp add: readable_def json_value_to_string_def as_raw_def flat_def raw_string_def raw_bytes_def quote_string_def)

lemma readable_parts:
  assumes "list_all stable vs" and "list_all plain_value vs"
  shows "readable (VArr vs)"
proof -
  have "any_value fl sh (tree_of (VArr vs)) = Some (VArr vs)" for fl sh
    using any_elements_stable [OF assms(1), of fl sh] by simp
  with assms(2) show ?thesis
    by (simp add: readable_def json_value_to_string_def as_raw_def flat_def raw_string_def raw_any_def raw_bytes_def)
qed

lemma readable_result: "tool_result_to_responses_output b = Inr v \<Longrightarrow> readable v"
  using stable_collected plain_collected stable_text
  by (auto simp: tool_result_to_responses_output_def Let_def readable_string
      intro!: readable_parts split: if_splits option.splits sum.splits)
    (auto simp: input_text_def)

text \<open>The state of one message: items that can be sent, parts that can be written.\<close>

definition state_ok :: "message_state \<Rightarrow> bool" where
  "state_ok st \<longleftrightarrow> list_all sendable (fst st) \<and> list_all plain_value (fst (snd st))"

lemma state_ok_flush: "state_ok st \<Longrightarrow> state_ok (flush_message role st)"
  by (cases st) (simp add: state_ok_def flush_message_def)

lemma state_ok_block: "state_ok st \<Longrightarrow> convert_block role b st = Continue st' \<Longrightarrow> state_ok st'"
  using state_ok_flush [of st role]
  by (cases st; cases "flush_message role st")
    (auto simp: state_ok_def convert_block_def Let_def input_text_def plain_image plain_document readable_result
      split: if_splits sum.splits)

lemma state_ok_blocks:
  "for_range (convert_block role) bs st = Continue st' \<Longrightarrow> state_ok st \<Longrightarrow> state_ok st'"
  by (induction bs arbitrary: st) (auto dest: state_ok_block split: ctl.splits)

lemma reasoning_marker_sendable: "list_all sendable (reasoning_marker role chat cont)"
  by (simp add: reasoning_marker_def reasoning_item_def [symmetric] split: option.split)

lemma convert_message_sendable:
  assumes "convert_message digest conts True m out = Continue out'" and "list_all sendable out"
  shows "list_all sendable out'"
proof -
  have r: "list_all sendable (fst (flush_message role st))"
    if "for_range (convert_block (ms_role m)) bs (out, [], []) = Continue st" for role bs st
    using state_ok_flush [OF state_ok_blocks [OF that]] assms(2) by (simp add: state_ok_def)
  have "reasoning_items True cont = []" for cont by (simp add: reasoning_items_def split: option.split)
  with assms r show ?thesis unfolding convert_message_def Let_def
    by (auto simp: reasoning_marker_sendable input_text_def split: if_splits option.splits ctl.splits)
qed

lemma input_sendable:
  assumes "messages_to_input digest conts True ms = Inr items"
  shows "list_all sendable items"
proof -
  have "for_range (convert_message digest conts True) ms out = Continue items \<Longrightarrow> list_all sendable out \<Longrightarrow>
      list_all sendable items" for out
    by (induction ms arbitrary: out) (auto dest: convert_message_sendable split: ctl.splits)
  with assms show ?thesis by (auto simp: messages_to_input_def split: ctl.splits)
qed

section \<open>What the second translation reads\<close>

lemmas item_shapes = message_item_def call_item_def result_item_def reasoning_item_def

lemma read_items:
  "dec_input_item (as_raw (message_item role c)) =
     Some \<lparr>ii_type = ''message'', ii_role = role, ii_content = Some (as_raw c), ii_call_id = [], ii_name = [],
       ii_arguments = [], ii_output = None\<rparr>"
  "dec_input_item (as_raw (call_item b)) =
     Some \<lparr>ii_type = ''function_call'', ii_role = [], ii_content = None, ii_call_id = cb_id b, ii_name = cb_name b,
       ii_arguments = (if raw_bytes (cb_input b) \<noteq> [] \<and> raw_bytes (cb_input b) \<noteq> ''null''
                       then raw_bytes (cb_input b) else ''{}''), ii_output = None\<rparr>"
  "dec_input_item (as_raw (result_item b w)) =
     Some \<lparr>ii_type = ''function_call_output'', ii_role = [], ii_content = None, ii_call_id = cb_tool_use_id b,
       ii_name = [], ii_arguments = [], ii_output = Some (as_raw w)\<rparr>"
  "dec_input_item (as_raw (reasoning_item s)) =
     Some \<lparr>ii_type = ''chat_reasoning'', ii_role = [], ii_content = Some (as_raw (VStr s)), ii_call_id = [], ii_name = [],
       ii_arguments = [], ii_output = None\<rparr>"
  by (simp_all add: dec_input_item_def as_raw_def item_shapes vmap_def sort_members_def byte_def field_values_def
      field_of_def input_item_names_def dec_raw_def)

section \<open>Calls and answers of chat messages\<close>

definition message_trace :: "chat_message \<Rightarrow> trace_item list" where
  "message_trace m =
     map (\<lambda>c. Call (cl_id c) (cl_name c) (cl_arguments c)) (cm_calls m) @
     (if cm_role m = ''tool'' then [Answered (cm_answers m) (cm_content m)] else [])"

definition chat_trace :: "chat_message list \<Rightarrow> trace_item list" where
  "chat_trace ms = concat (map message_trace ms)"

text \<open>Calls sit on assistant messages, with complete names and JSON arguments; answers name their call.\<close>

definition chat_ok :: "chat_message \<Rightarrow> bool" where
  "chat_ok m \<longleftrightarrow>
     (cm_calls m \<noteq> [] \<longrightarrow> cm_role m = ''assistant'') \<and>
     list_all (\<lambda>c. cl_id c \<noteq> [] \<and> cl_name c \<noteq> [] \<and> json_valid (cl_arguments c)) (cm_calls m) \<and>
     (cm_role m = ''tool'' \<longrightarrow> cm_answers m \<noteq> [])"

lemma chat_trace_simps [simp]:
  "chat_trace [] = []" "chat_trace (ms @ ns) = chat_trace ms @ chat_trace ns"
  "chat_trace [m] = message_trace m"
  by (simp_all add: chat_trace_def)

lemma add_call_trace: "chat_trace (add_call c out) = chat_trace out @ [Call (cl_id c) (cl_name c) (cl_arguments c)]"
proof (cases "out \<noteq> [] \<and> cm_role (last out) = ''assistant''")
  case True
  then have "chat_trace out = chat_trace (butlast out) @ message_trace (last out)"
    by (metis append_butlast_last_id chat_trace_simps(2,3))
  with True show ?thesis by (simp add: add_call_def message_trace_def)
next
  case False
  then show ?thesis by (auto simp: add_call_def message_trace_def plain_message_def)
qed

lemma add_call_ok:
  assumes "list_all chat_ok out" and "cl_id c \<noteq> []" "cl_name c \<noteq> []" "json_valid (cl_arguments c)"
  shows "list_all chat_ok (add_call c out)"
proof (cases "out \<noteq> [] \<and> cm_role (last out) = ''assistant''")
  case True
  then have "list_all chat_ok (butlast out)" "chat_ok (last out)"
    using assms(1) by (auto simp: list_all_iff dest: in_set_butlastD)
  with True assms show ?thesis by (simp add: add_call_def chat_ok_def)
next
  case False
  with assms show ?thesis by (auto simp: add_call_def chat_ok_def plain_message_def)
qed

lemma attach_keeps:
  "attach_reasoning s ms = Some ns \<Longrightarrow> map message_trace ns = map message_trace ms \<and> (list_all chat_ok ns = list_all chat_ok ms)"
  by (induction ms arbitrary: ns) (auto simp: message_trace_def chat_ok_def split: if_splits)

lemma empty_object_valid: "json_valid ''{}''"
  by code_simp

text \<open>One item, whatever it is.\<close>

definition entry :: "(string \<Rightarrow> rat option) \<Rightarrow> (rat \<Rightarrow> string) \<Rightarrow> input_item \<Rightarrow> trace_item list" where
  "entry fl show it =
     (if ii_type it = ''function_call'' then [Call (ii_call_id it) (ii_name it) (item_arguments it)]
      else if ii_type it = ''function_call_output'' then
        (case json_value_to_string fl show (ii_output it) of
           None \<Rightarrow> [] | Some s \<Rightarrow> [Answered (ii_call_id it) (VStr s)])
      else [])"

lemma item_to_chat_trace:
  assumes "item_to_chat fl show it out = Inr out'"
  shows "chat_trace out' = chat_trace out @ entry fl show it \<and> (list_all chat_ok out \<longrightarrow> list_all chat_ok out')"
proof -
  consider "ii_type it = ''message''" | "ii_type it = ''function_call''" | "ii_type it = ''function_call_output''"
    | "ii_type it = ''chat_reasoning''"
    using assms by (fastforce simp: item_to_chat_def split: if_splits)
  then show ?thesis
  proof cases
    case 1
    then obtain v where "out' = out @ [plain_message (ii_role it) v]" "ii_role it \<in> set chat_roles"
      using assms by (auto simp: item_to_chat_def split: if_splits sum.splits)
    with 1 show ?thesis by (auto simp: entry_def message_trace_def plain_message_def chat_roles_def chat_ok_def)
  next
    case 2
    let ?c = "\<lparr>cl_id = ii_call_id it, cl_name = ii_name it, cl_arguments = item_arguments it\<rparr>"
    from 2 assms have c: "out' = add_call ?c out" "ii_call_id it \<noteq> []" "ii_name it \<noteq> []"
      "ii_arguments it = [] \<or> json_valid (ii_arguments it)"
      by (auto simp: item_to_chat_def split: if_splits)
    then have "json_valid (item_arguments it)" by (auto simp: item_arguments_def empty_object_valid)
    with c 2 show ?thesis by (simp add: add_call_trace add_call_ok entry_def)
  next
    case 3
    then obtain s where "out' = out @ [(plain_message ''tool'' (VStr s))\<lparr>cm_answers := ii_call_id it\<rparr>]" "ii_call_id it \<noteq> []"
      "json_value_to_string fl show (ii_output it) = Some s"
      using assms by (auto simp: item_to_chat_def split: if_splits option.splits)
    with 3 show ?thesis by (simp add: entry_def message_trace_def plain_message_def chat_ok_def)
  next
    case 4
    then obtain s ms where a: "attach_reasoning s (rev out) = Some ms" "out' = rev ms"
      using assms by (auto simp: item_to_chat_def split: if_splits option.splits)
    from attach_keeps [OF a(1)] have "map message_trace out' = map message_trace out"
      "list_all chat_ok out' = list_all chat_ok out"
      by (simp_all add: a(2) rev_map [symmetric] list_all_iff)
    with 4 show ?thesis by (simp add: entry_def chat_trace_def)
  qed
qed

lemma convert_item_Continue:
  "convert_item fl show ir out = Continue out' \<longleftrightarrow>
     (\<exists>it. dec_input_item (snd ir) = Some it \<and> item_to_chat fl show it out = Inr out')"
  by (simp add: convert_item_def split: option.split sum.split)

lemma convert_items_trace:
  "for_range (convert_item fl show) (enumerate n rs) out = Continue out' \<Longrightarrow>
    \<exists>its. dec_all dec_input_item rs = Some its \<and> chat_trace out' = chat_trace out @ concat (map (entry fl show) its) \<and>
      (list_all chat_ok out \<longrightarrow> list_all chat_ok out')"
proof (induction rs arbitrary: n out)
  case (Cons r rs)
  from Cons.prems obtain it o1 where i: "dec_input_item r = Some it" "item_to_chat fl show it out = Inr o1"
    "for_range (convert_item fl show) (enumerate (Suc n) rs) o1 = Continue out'"
    by (cases "convert_item fl show (n, r) out") (auto simp: convert_item_Continue)
  from Cons.IH [OF i(3)] item_to_chat_trace [OF i(2)] i(1) show ?case by force
qed simp

fun flat_step :: "trace_item \<Rightarrow> trace_item" where
  "flat_step (Call c n a) = Call c n a"
| "flat_step (Answered c v) = Answered c (VStr (flat v))"

lemma called_with_given:
  "(if raw_bytes (cb_input b) \<noteq> [] \<and> raw_bytes (cb_input b) \<noteq> ''null'' then raw_bytes (cb_input b) else ''{}'') = called_with b"
  "called_with b \<noteq> []"
  by (auto simp: called_with_def raw_bytes_def split: option.split)

lemma read_sendable:
  "sendable v \<Longrightarrow> \<exists>it. dec_input_item (as_raw v) = Some it \<and> entry fl show it = map flat_step (item_trace v)"
  unfolding sendable_def
proof (elim conjE disjE exE)
  fix b assume "v = call_item b"
  then show ?thesis
    by (simp add: read_items entry_def item_arguments_def called_with_given)
next
  fix b w assume "v = result_item b w" "readable w"
  then show ?thesis by (simp add: read_items entry_def readable_def)
qed (simp_all add: read_items entry_def, simp_all add: reasoning_item_def vmap_def sort_members_def byte_def)

lemma read_all_sendable:
  "list_all sendable vs \<Longrightarrow>
    \<exists>its. dec_all dec_input_item (map as_raw vs) = Some its \<and> concat (map (entry fl show) its) = map flat_step (items_trace vs)"
proof (induction vs)
  case (Cons v vs)
  from Cons.prems obtain it where "dec_input_item (as_raw v) = Some it" "entry fl show it = map flat_step (item_trace v)"
    using read_sendable [of v] by auto
  with Cons show ?case by (auto simp: items_trace_def)
qed (simp add: items_trace_def)

text \<open>A step of the chat messages and the block of the client it stands for.\<close>

fun told_step :: "content_block \<Rightarrow> trace_item \<Rightarrow> bool" where
  "told_step b (Call c n a) \<longleftrightarrow> cb_type b = ''tool_use'' \<and> c = cb_id b \<and> n = cb_name b \<and> a = called_with b"
| "told_step b (Answered c w) \<longleftrightarrow> cb_type b = ''tool_result'' \<and> c = cb_tool_use_id b \<and>
     (\<exists>v. shows_answer b v \<and> w = VStr (flat v))"

lemma told_flat: "list_all2 same_step bs ts \<Longrightarrow> list_all2 told_step bs (map flat_step ts)"
proof (induction rule: list_all2_induct)
  case (Cons b bs t ts)
  then show ?case by (cases t) auto
qed simp

text \<open>
  C30 (a chat provider gets the client's conversation). An accepted Messages conversation is
  translated into Responses input items, written as JSON and translated into chat messages. If both
  translations accept it, the calls and answers of the chat messages are, one for one and in order,
  the tool uses and tool results of the client's conversation: a call has the id, name and input
  of its tool use; an answer has the id of its tool result and its text, or, with images or
  documents, the JSON of its parts. Every answer comes after its call; calls sit on assistant messages,
  each with an id, a name and arguments that are JSON.
\<close>

theorem chat_provider_gets_conversation:
  assumes "parse_message fl raw = Inr p"
    and "messages_to_input digest conts True (mr_messages (pa_typed p)) = Inr items"
    and "responses_input_to_chat fl show (map_option (Pair (marshal (VArr items))) (json_parse (marshal (VArr items)))) = Inr msgs"
  shows "list_all2 told_step (steps (conversation (pa_typed p))) (chat_trace msgs) \<and>
    (\<forall>xs tid v ys. chat_trace msgs = xs @ Answered tid v # ys \<longrightarrow> (\<exists>n a. Call tid n a \<in> set xs)) \<and>
    list_all chat_ok msgs"
proof -
  have s: "list_all sendable items" by (rule input_sendable [OF assms(2)])
  then have p: "plain_value (VArr items)" by (auto simp: sendable_def list_all_iff)
  have r: "map_option (Pair (marshal (VArr items))) (json_parse (marshal (VArr items))) =
      Some (marshal (VArr items), JArr (map as_raw items))"
    using parse_marshal [OF p] by (simp add: as_raw_def)
  have "present (Some (marshal (VArr items), j))" "hd (raw_bytes (Some (marshal (VArr items), j))) \<noteq> CHR 0x22" for j
    by (simp_all add: present_def raw_bytes_def)
  with assms(3) have "for_range (convert_item fl show) (enumerate 0 (map as_raw items)) [] = Continue msgs"
    unfolding r by (simp add: responses_input_to_chat_def split: ctl.splits)
  from convert_items_trace [OF this] read_all_sendable [OF s, where fl = fl and ?show = "show"]
  have m: "chat_trace msgs = map flat_step (items_trace items)" "list_all chat_ok msgs" by auto
  have t: "list_all2 told_step (steps (conversation (pa_typed p))) (chat_trace msgs)"
    unfolding m(1) by (rule told_flat [OF input_trace [OF assms(2)]])
  have pr: "paired ([], []) (conversation (pa_typed p))"
    by (rule validate_blocks_paired [OF parse_message_Inr(1) [OF assms(1)]])
  have "\<exists>n a. Call tid n a \<in> set xs" if "chat_trace msgs = xs @ Answered tid v # ys" for xs tid v ys
  proof -
    from answers_follow [OF pr t that, of tid] obtain c t' where
      mem: "t' \<in> set xs" and c: "told_step c t'" "cb_type c = ''tool_use''" "cb_id c = tid" by auto
    from c have "\<exists>n a. t' = Call tid n a" by (cases t') auto
    with mem show ?thesis by blast
  qed
  with t m(2) show ?thesis by blast
qed

theorem chat_provider_gets_conversation_witness:
  "\<exists>p items msgs. parse_message (\<lambda>_. None) sample_request = Inr p \<and>
     messages_to_input (\<lambda>s. s) (\<lambda>_. None) True (mr_messages (pa_typed p)) = Inr items \<and>
     responses_input_to_chat (\<lambda>_. None) (\<lambda>_. []) (Some (marshal (VArr items), the (json_parse (marshal (VArr items))))) = Inr msgs \<and>
     list_all2 told_step (steps (conversation (pa_typed p))) sample_trace_items \<and> list_all chat_ok msgs \<and>
     chat_trace msgs = sample_trace_items"
proof -
  have "case parse_message (\<lambda>_. None) sample_request of Inl e \<Rightarrow> False
    | Inr p \<Rightarrow>
        (case messages_to_input (\<lambda>s. s) (\<lambda>_. None) True (mr_messages (pa_typed p)) of
           Inl f \<Rightarrow> False
         | Inr items \<Rightarrow>
             (case json_parse (marshal (VArr items)) of
                None \<Rightarrow> False
              | Some j \<Rightarrow>
                  (case responses_input_to_chat (\<lambda>_. None) (\<lambda>_. []) (Some (marshal (VArr items), j)) of
                     Inl f \<Rightarrow> False | Inr msgs \<Rightarrow> chat_trace msgs = sample_trace_items)))"
    by code_simp
  note t = this
  obtain p where 1: "parse_message (\<lambda>_. None) sample_request = Inr p"
    using t by (cases "parse_message (\<lambda>_. None) sample_request") auto
  obtain items where 2: "messages_to_input (\<lambda>s. s) (\<lambda>_. None) True (mr_messages (pa_typed p)) = Inr items"
    using t 1 by (cases "messages_to_input (\<lambda>s. s) (\<lambda>_. None) True (mr_messages (pa_typed p))") auto
  obtain j where 3: "json_parse (marshal (VArr items)) = Some j"
    using t 1 2 by (cases "json_parse (marshal (VArr items))") (simp_all del: marshal.simps)
  obtain msgs where 4: "responses_input_to_chat (\<lambda>_. None) (\<lambda>_. []) (Some (marshal (VArr items), j)) = Inr msgs"
    using t 1 2 3 by (cases "responses_input_to_chat (\<lambda>_. None) (\<lambda>_. []) (Some (marshal (VArr items), j))")
      (simp_all del: marshal.simps)
  have "chat_trace msgs = sample_trace_items" using t by (simp add: 1 2 3 4 del: marshal.simps)
  with 1 2 3 4 chat_provider_gets_conversation [OF 1 2, of "\<lambda>_. []" msgs] show ?thesis
    by (simp del: marshal.simps)
qed

end
