(* ===== verification/Chat_Agreement.thy ===== *)
theory Chat_Agreement
  imports Chat_Compat Chat_Calls "HOL-Library.Multiset"
begin

text \<open>
  The two ways a chat provider's answer reaches the gateway: as a completion
  (\<open>ChatCompletionResponseBody\<close>) and as chunks (\<open>chatCompletionEventStream\<close>). A stream says a
  completion; the final response of the adapter is the body the bridge makes of it, up to the ids of
  the items and their order.
\<close>

section \<open>What a stream says\<close>

text \<open>
  The completion a stream says, read off its chunks: the texts are the fragments in order, a call's
  name and arguments those of its index, its id the last one sent. A call without arguments counts as
  one with the empty object.
\<close>

definition spoken_call :: "chunk_tool list \<Rightarrow> int \<Rightarrow> completion_call" where
  "spoken_call ds j =
     \<lparr>ca_type = ''function'', ca_id = last_given (map kt_id (of_call j ds)),
      ca_name = concat (map kt_name (of_call j ds)), ca_arguments = given_arguments j ds\<rparr>"

definition spoken :: "chunk list \<Rightarrow> completion_choice" where
  "spoken chunks =
     \<lparr>cp_content = concat (map kh_content (said_choices chunks)), cp_refusal = concat (map kh_refusal (said_choices chunks)),
      cp_calls = map (spoken_call (fragments chunks)) (call_indexes (fragments chunks)),
      cp_finish = last_given (map kh_finish (said_choices chunks)), cp_raw = []\<rparr>"

definition counts :: "completion_usage \<Rightarrow> bool" where
  "counts u \<longleftrightarrow> cu_prompt u \<noteq> 0 \<or> cu_completion u \<noteq> 0 \<or> cu_total u \<noteq> 0"

definition spoken_usage :: "chunk list \<Rightarrow> completion_usage option" where
  "spoken_usage chunks =
     (let us = filter counts (map kc_usage chunks) in if us = [] then None else Some (last us))"

text \<open>The same as the adapter accumulates it.\<close>

record heard =
  hd_text :: string
  hd_refusal :: string
  hd_tools :: "(int \<times> streamed_tool) list"
  hd_finish :: string
  hd_usage :: "completion_usage option"

definition silence :: heard where
  "silence = \<lparr>hd_text = [], hd_refusal = [], hd_tools = [], hd_finish = [], hd_usage = None\<rparr>"

definition hear_choice :: "chunk_choice \<Rightarrow> heard \<Rightarrow> heard" where
  "hear_choice c h =
     (if kh_index c \<noteq> 0 then h
      else h\<lparr>hd_text := hd_text h @ kh_content c, hd_refusal := hd_refusal h @ kh_refusal c,
             hd_tools := fold hear_tool (kh_tools c) (hd_tools h),
             hd_finish := (if kh_finish c \<noteq> [] then kh_finish c else hd_finish h)\<rparr>)"

definition hear_usage :: "completion_usage \<Rightarrow> heard \<Rightarrow> heard" where
  "hear_usage u h =
     (if cu_prompt u = 0 \<and> cu_completion u = 0 \<and> cu_total u = 0 then h else h\<lparr>hd_usage := Some u\<rparr>)"

definition hear_chunk :: "chunk \<Rightarrow> heard \<Rightarrow> heard" where
  "hear_chunk c h = fold hear_choice (kc_choices c) (hear_usage (kc_usage c) h)"

definition said_call :: "streamed_tool \<Rightarrow> completion_call" where
  "said_call t = \<lparr>ca_type = ''function'', ca_id = sm_call_id t, ca_name = sm_name t, ca_arguments = tool_arguments t\<rparr>"

definition said_choice :: "heard \<Rightarrow> completion_choice" where
  "said_choice h =
     \<lparr>cp_content = hd_text h, cp_refusal = hd_refusal h, cp_calls = map (said_call \<circ> snd) (hd_tools h),
      cp_finish = hd_finish h, cp_raw = []\<rparr>"

definition hear_all :: "chunk_choice list \<Rightarrow> completion_usage option \<Rightarrow> heard" where
  "hear_all hs u =
     \<lparr>hd_text = concat (map kh_content hs), hd_refusal = concat (map kh_refusal hs),
      hd_tools = spoken_tools (concat (map kh_tools hs)), hd_finish = last_given (map kh_finish hs), hd_usage = u\<rparr>"

lemma hear_choices: "fold hear_choice cs (hear_all hs u) = hear_all (hs @ filter (\<lambda>c. kh_index c = 0) cs) u"
proof (induction cs arbitrary: hs)
  case (Cons c cs)
  have "hear_choice c (hear_all hs u) = (if kh_index c = 0 then hear_all (hs @ [c]) u else hear_all hs u)"
    by (simp add: hear_choice_def hear_all_def hear_spoken_all)
  with Cons [of hs] Cons [of "hs @ [c]"] show ?case by simp
qed simp

lemma heard_is_spoken: "fold hear_chunk chunks silence = hear_all (said_choices chunks) (spoken_usage chunks)"
proof (induction chunks rule: rev_induct)
  case Nil
  then show ?case
    by (simp add: silence_def hear_all_def said_choices_def spoken_usage_def spoken_tools_def call_indexes_def)
next
  case (snoc c chunks)
  have "hear_usage (kc_usage c) (hear_all hs u) = hear_all hs (if counts (kc_usage c) then Some (kc_usage c) else u)" for hs u
    by (simp add: hear_usage_def hear_all_def counts_def)
  then have step: "hear_chunk c (hear_all hs u) =
      hear_all (hs @ filter (\<lambda>c. kh_index c = 0) (kc_choices c)) (if counts (kc_usage c) then Some (kc_usage c) else u)" for hs u
    by (simp add: hear_chunk_def hear_choices)
  have "spoken_usage (chunks @ [c]) = (if counts (kc_usage c) then Some (kc_usage c) else spoken_usage chunks)"
    by (simp add: spoken_usage_def Let_def)
  moreover have "said_choices (chunks @ [c]) = said_choices chunks @ filter (\<lambda>c. kh_index c = 0) (kc_choices c)"
    by (simp add: said_choices_def)
  ultimately show ?case using step by (simp add: snoc)
qed

lemma said_is_spoken: "said_choice (fold hear_chunk chunks silence) = spoken chunks"
  unfolding heard_is_spoken
  by (simp add: said_choice_def hear_all_def spoken_def spoken_tools_def said_call_def spoken_tool_def spoken_call_def
      tool_arguments_def given_arguments_def fragments_def comp_def)

section \<open>The adapter hears every chunk\<close>

definition heard_of :: "chat_stream \<Rightarrow> heard" where
  "heard_of s =
     \<lparr>hd_text = cs_text s, hd_refusal = cs_refusal s, hd_tools = faces (cs_tools s), hd_finish = cs_finish s,
      hd_usage = cs_usage s\<rparr>"

text \<open>Parts open with their first fragment; without exposed reasoning no reasoning item opens.\<close>

definition parts_ok :: "chat_stream \<Rightarrow> bool" where
  "parts_ok s \<longleftrightarrow> (cs_text_at s = None \<longleftrightarrow> cs_text s = []) \<and> (cs_refusal_at s = None \<longleftrightarrow> cs_refusal s = []) \<and>
     \<not> cs_expose s \<and> cs_reasoning_at s = None"

definition same_parts :: "chat_stream \<Rightarrow> chat_stream \<Rightarrow> bool" where
  "same_parts s s' \<longleftrightarrow> heard_of s' = heard_of s \<and> cs_text_at s' = cs_text_at s \<and> cs_refusal_at s' = cs_refusal_at s \<and>
     cs_expose s' = cs_expose s \<and> cs_reasoning_at s' = cs_reasoning_at s \<and> cs_tools s' = cs_tools s"

lemma enqueue_fields [simp]:
  "cs_text (enqueue ty b s) = cs_text s" "cs_refusal (enqueue ty b s) = cs_refusal s" "cs_tools (enqueue ty b s) = cs_tools s"
  "cs_finish (enqueue ty b s) = cs_finish s" "cs_usage (enqueue ty b s) = cs_usage s"
  "cs_text_at (enqueue ty b s) = cs_text_at s" "cs_refusal_at (enqueue ty b s) = cs_refusal_at s"
  "cs_expose (enqueue ty b s) = cs_expose s" "cs_reasoning_at (enqueue ty b s) = cs_reasoning_at s"
  "heard_of (enqueue ty b s) = heard_of s"
  by (simp_all add: enqueue_def heard_of_def)

lemma closed_reasoning [simp]: "parts_ok s \<Longrightarrow> close_reasoning s = s"
  by (simp add: parts_ok_def close_reasoning_def)

lemma hear_add_text:
  assumes "parts_ok s" and "d \<noteq> []"
  shows "heard_of (add_text fresh d s) = (heard_of s)\<lparr>hd_text := cs_text s @ d\<rparr>" "parts_ok (add_text fresh d s)"
  using assms by (auto simp: add_text_def open_part_def heard_of_def parts_ok_def Let_def split: option.split)

lemma hear_add_refusal:
  assumes "parts_ok s" and "d \<noteq> []"
  shows "heard_of (add_refusal fresh d s) = (heard_of s)\<lparr>hd_refusal := cs_refusal s @ d\<rparr>" "parts_ok (add_refusal fresh d s)"
  using assms by (auto simp: add_refusal_def open_part_def heard_of_def parts_ok_def Let_def split: option.split)

lemma hear_note_reasoning:
  assumes "parts_ok s"
  shows "heard_of (note_reasoning fresh r s) = heard_of s" "parts_ok (note_reasoning fresh r s)"
  using assms by (auto simp: note_reasoning_def add_reasoning_def heard_of_def parts_ok_def)

lemma hear_add_tool_delta:
  assumes "parts_ok s"
  shows "heard_of (add_tool_delta fresh d s) = (heard_of s)\<lparr>hd_tools := hear_tool d (faces (cs_tools s))\<rparr>"
    "parts_ok (add_tool_delta fresh d s)"
proof -
  define old where "old = (case map_of (cs_tools s) (kt_index d) of None \<Rightarrow> new_tool | Some t \<Rightarrow> t)"
  have f: "hear_tool d (faces (cs_tools s)) = AList.update (kt_index d) (merge_tool d (face old)) (faces (cs_tools s))"
    by (simp add: hear_tool_def faces_lookup old_def split: option.split)
  show "heard_of (add_tool_delta fresh d s) = (heard_of s)\<lparr>hd_tools := hear_tool d (faces (cs_tools s))\<rparr>"
    using assms unfolding f add_tool_delta_def old_def [symmetric] Let_def
    by (simp add: tool_delta_event_def put_tool_def heard_of_def faces_update)
  show "parts_ok (add_tool_delta fresh d s)"
    using assms unfolding add_tool_delta_def old_def [symmetric] Let_def
    by (simp add: tool_delta_event_def put_tool_def parts_ok_def)
qed

lemma hear_tools:
  "parts_ok s \<Longrightarrow>
    heard_of (fold (add_tool_delta fresh) ds s) = (heard_of s)\<lparr>hd_tools := fold hear_tool ds (faces (cs_tools s))\<rparr> \<and>
    parts_ok (fold (add_tool_delta fresh) ds s)"
proof (induction ds arbitrary: s)
  case Nil
  then show ?case by (simp add: heard_of_def)
next
  case (Cons d ds)
  note h = hear_add_tool_delta [OF Cons.prems, of fresh d]
  from h(1) have "faces (cs_tools (add_tool_delta fresh d s)) = hear_tool d (faces (cs_tools s))"
    by (metis heard.select_convs(3) heard.surjective heard.update_convs(3) heard_of_def)
  with Cons.IH [OF h(2)] h(1) show ?case by simp
qed

lemma hear_add_choice:
  assumes "parts_ok s"
  shows "heard_of (add_choice fresh c s) = hear_choice c (heard_of s) \<and> parts_ok (add_choice fresh c s)"
proof (cases "kh_index c = 0")
  case True
  define s1 where "s1 = (if kh_content c \<noteq> [] then add_text fresh (kh_content c) s else s)"
  define s2 where "s2 = (if kh_refusal c \<noteq> [] then add_refusal fresh (kh_refusal c) s1 else s1)"
  define s3 where "s3 = note_reasoning fresh (vendor_reasoning (kh_raw c)) s2"
  have 1: "heard_of s1 = (heard_of s)\<lparr>hd_text := cs_text s @ kh_content c\<rparr>" "parts_ok s1"
    using hear_add_text [OF assms] assms by (simp_all add: s1_def heard_of_def)
  have "cs_refusal s1 = cs_refusal s" using 1(1) by (simp add: heard_of_def)
  with hear_add_refusal [OF 1(2)] 1
  have 2: "heard_of s2 = (heard_of s)\<lparr>hd_text := cs_text s @ kh_content c, hd_refusal := cs_refusal s @ kh_refusal c\<rparr>" "parts_ok s2"
    by (simp_all add: s2_def heard_of_def)
  have 3: "heard_of s3 = heard_of s2" "parts_ok s3"
    unfolding s3_def using hear_note_reasoning [OF 2(2)] by simp_all
  have t: "faces (cs_tools s3) = faces (cs_tools s)" using 2 3 by (simp add: heard_of_def)
  have "add_choice fresh c s = (let s4 = fold (add_tool_delta fresh) (kh_tools c) s3
      in if kh_finish c \<noteq> [] then s4\<lparr>cs_finish := kh_finish c\<rparr> else s4)"
    using True by (simp add: add_choice_def s1_def s2_def s3_def Let_def)
  with hear_tools [OF 3(2), of fresh "kh_tools c"] 2 3 True t show ?thesis
    by (simp add: hear_choice_def Let_def heard_of_def parts_ok_def)
next
  case False
  with assms show ?thesis by (simp add: add_choice_def hear_choice_def)
qed

lemma hear_add_chunk:
  assumes "parts_ok s"
  shows "heard_of (add_chunk fresh c s) = hear_chunk c (heard_of s) \<and> parts_ok (add_chunk fresh c s)"
proof -
  have "heard_of (fold (add_choice fresh) cs s) = fold hear_choice cs (heard_of s) \<and> parts_ok (fold (add_choice fresh) cs s)"
    if "parts_ok s" for cs s
    using that by (induction cs arbitrary: s) (simp_all add: hear_add_choice)
  moreover have "heard_of (capture_usage u s) = hear_usage u (heard_of s)" "parts_ok (capture_usage u s)" for u
    using assms by (simp_all add: capture_usage_def hear_usage_def heard_of_def parts_ok_def)
  ultimately show ?thesis by (simp add: add_chunk_def hear_chunk_def)
qed

text \<open>Heard so far, and what the unread chunks will add.\<close>

definition total :: "chat_stream \<Rightarrow> heard" where
  "total s = fold hear_chunk (cs_inner s) (heard_of s)"

lemma hear_inner [simp]: "heard_of (s\<lparr>cs_inner := cs\<rparr>) = heard_of s" "parts_ok (s\<lparr>cs_inner := cs\<rparr>) = parts_ok s"
  by (simp_all add: heard_of_def parts_ok_def)

lemma total_read_chunks:
  "parts_ok s \<Longrightarrow> total (read_chunks fresh cs s) = fold hear_chunk cs (heard_of s) \<and> parts_ok (read_chunks fresh cs s)"
  by (induction cs arbitrary: s) (simp_all add: total_def Let_def hear_add_chunk)

section \<open>The final response\<close>

definition member_at :: "string \<Rightarrow> jval \<Rightarrow> jval option" where
  "member_at k v = (case v of VObj ms \<Rightarrow> map_of ms k | _ \<Rightarrow> None)"

definition elements :: "jval option \<Rightarrow> jval list" where
  "elements v = (case v of Some (VArr vs) \<Rightarrow> vs | _ \<Rightarrow> [])"

text \<open>An item without its id.\<close>

definition nameless :: "jval \<Rightarrow> jval" where
  "nameless v = (case v of VObj ms \<Rightarrow> VObj (filter (\<lambda>m. fst m \<noteq> ''id'') ms) | _ \<Rightarrow> v)"

lemma nameless_items:
  "nameless (message_output i st ps) = nameless (message_output j st ps)"
  "nameless (call_output t st args) = nameless (call_output (face t) st args)"
  "ca_arguments c = args \<Longrightarrow> ca_id c = sm_call_id t \<Longrightarrow> ca_name c = sm_name t \<Longrightarrow>
     nameless (completion_call_item rid k c) = nameless (call_output t ''completed'' args)"
  by (simp_all add: nameless_def message_output_def call_output_def completion_call_item_def vmap_def sort_members_def
      byte_def Let_def face_def)

lemma outputs_agree:
  assumes "parts_ok s"
  obtains out where "completion_output rid (said_choice (heard_of s)) = Inr out"
    "mset (map nameless (output_items s)) = mset (map nameless out)"
proof -
  let ?h = "heard_of s"
  define tx where "tx = (if cs_text s = [] then [] else [message_output (''msg_'' @ trim_prefix rid ''resp_'') ''completed'' [text_part (cs_text s)]])"
  define rf where "rf = (if cs_refusal s = [] then []
      else [message_output (''msg_'' @ trim_prefix rid ''resp_'' @ ''_refusal'') ''completed'' [refusal_part (cs_refusal s)]])"
  define calls where "calls = map (said_call \<circ> snd) (hd_tools ?h)"
  let ?out = "tx @ rf @ map (\<lambda>(i, c). completion_call_item rid i c) (enumerate 0 calls)"
  have "find (\<lambda>c. ca_type c \<noteq> ''function'') calls = None"
    by (auto simp: find_None_iff calls_def said_call_def)
  then have out: "completion_output rid (said_choice ?h) = Inr ?out"
    by (simp add: completion_output_def said_choice_def calls_def [symmetric] Let_def tx_def rf_def)
      (simp add: heard_of_def)
  have "map nameless (map (\<lambda>(i, c). completion_call_item rid i c) (enumerate n (map (said_call \<circ> snd) (faces al)))) =
      map (\<lambda>(k, t). nameless (call_output t ''completed'' (tool_arguments t))) al"
    for n al
  proof (induction al arbitrary: n)
    case (Cons kt al)
    obtain k t where kt: "kt = (k, t)" by (cases kt)
    have "nameless (completion_call_item rid n (said_call (face t))) = nameless (call_output t ''completed'' (tool_arguments t))"
      by (intro nameless_items(3)) (simp_all add: said_call_def face_def tool_arguments_def)
    with Cons show ?case by (simp add: faces_def kt)
  qed (simp add: faces_def)
  from this [of 0]
  have c: "map nameless (map (\<lambda>(i, c). completion_call_item rid i c) (enumerate 0 calls)) =
      map (\<lambda>(k, t). nameless (call_output t ''completed'' (tool_arguments t))) (cs_tools s)"
    by (simp add: calls_def heard_of_def)
  define parts where "parts =
      (case cs_text_at s of None \<Rightarrow> [] | Some p \<Rightarrow> [(snd p, message_output (fst p) ''completed'' [text_part (cs_text s)])]) @
      (case cs_refusal_at s of None \<Rightarrow> [] | Some p \<Rightarrow> [(snd p, message_output (fst p) ''completed'' [refusal_part (cs_refusal s)])]) @
      map (\<lambda>(k, t). (sm_output_index t, call_output t ''completed'' (tool_arguments t))) (cs_tools s)"
  have "output_items s = map snd (sort_key fst parts)"
    using assms by (simp add: output_items_def parts_def parts_ok_def)
  then have "mset (map nameless (output_items s)) = mset (map nameless (map snd parts))"
    by simp
  also have "map nameless (map snd parts) = map nameless ?out"
    using assms c by (auto simp: parts_def parts_ok_def tx_def rf_def comp_def case_prod_beta
        intro: nameless_items(1) split: option.split)
  finally show ?thesis using out that by blast
qed

definition status_of :: "string \<Rightarrow> string" where
  "status_of fin = (if fin = ''length'' then ''incomplete'' else ''completed'')"

definition details_of :: "string \<Rightarrow> jval" where
  "details_of fin = (if fin = ''length'' then vmap [(''reason'', VStr ''max_output_tokens'')] else VNull)"

text \<open>The event is the last one of a stream that said \<open>h\<close>; no finish reason counts as \<open>stop\<close>.\<close>

definition concludes :: "heard \<Rightarrow> queued_event \<Rightarrow> bool" where
  "concludes h ev \<longleftrightarrow>
     (\<exists>s. parts_ok s \<and> heard_of s = h\<lparr>hd_finish := (if hd_finish h = [] then ''stop'' else hd_finish h)\<rparr> \<and>
        map_of (snd ev) ''response'' =
          Some (response_value s (status_of (hd_finish h)) (details_of (hd_finish h)) (output_items s)))"

lemma hear_finish:
  "heard_of (finish_text s) = heard_of s" "heard_of (finish_refusal s) = heard_of s" "heard_of (finish_call t s) = heard_of s"
  "parts_ok (finish_text s) = parts_ok s" "parts_ok (finish_refusal s) = parts_ok s" "parts_ok (finish_call t s) = parts_ok s"
  by (simp_all add: finish_text_def finish_refusal_def finish_call_def parts_ok_def split: option.split)

lemma hear_finish_calls:
  "finish_calls ts s = Continue s' \<Longrightarrow> heard_of s' = heard_of s \<and> parts_ok s' = parts_ok s"
proof (induction ts arbitrary: s)
  case (Cons kt ts)
  then show ?case by (cases kt) (auto simp: hear_finish split: if_splits)
qed simp

lemma end_concludes:
  assumes "parts_ok s" and "end_of_chunks s = (True, s')"
  shows "cs_ended s' \<and> (\<exists>evs ev. cs_current s' # cs_queue s' = evs @ [ev] \<and> concludes (heard_of s) ev)"
proof -
  define s1 where "s1 = (if cs_finish s = [] then s\<lparr>cs_finish := ''stop''\<rparr> else s)"
  define s2 where "s2 = finish_refusal (finish_text (close_reasoning s1))"
  let ?h = "heard_of s"
  have 1: "parts_ok s1" "heard_of s1 = ?h\<lparr>hd_finish := (if hd_finish ?h = [] then ''stop'' else hd_finish ?h)\<rparr>"
    using assms(1) by (simp_all add: s1_def parts_ok_def heard_of_def)
  then have 2: "parts_ok s2" "heard_of s2 = heard_of s1" by (simp_all add: s2_def hear_finish)
  obtain s3 where c: "finish_calls (tools_in_order s2) s2 = Continue s3"
    using assms(2) by (auto simp: end_of_chunks_def Let_def s1_def [symmetric] s2_def [symmetric] split: option.splits ctl.splits)
  from hear_finish_calls [OF c] 1 2
  have 3: "parts_ok s3" "heard_of s3 = ?h\<lparr>hd_finish := (if hd_finish ?h = [] then ''stop'' else hd_finish ?h)\<rparr>" by simp_all
  then have fin: "cs_finish s3 = ''length'' \<longleftrightarrow> hd_finish ?h = ''length''"
    by (auto simp: heard_of_def split: if_splits)
  let ?ty = "if cs_finish s3 = ''length'' then ''response.incomplete'' else ''response.completed''"
  let ?v = "response_value s3 (status_of (hd_finish ?h)) (details_of (hd_finish ?h)) (output_items s3)"
  have s': "s' = pop ((enqueue ?ty [(''response'', ?v)] s3)\<lparr>cs_ended := True\<rparr>)"
    using assms(2) c fin by (simp add: end_of_chunks_def Let_def s1_def [symmetric] s2_def [symmetric] status_of_def
        details_of_def split: option.splits if_splits)
  have "cs_current s' # cs_queue s' = cs_queue s3 @
      [(?ty, [(''response'', ?v), (''type'', VStr ?ty), (''sequence_number'', VInt (int (cs_sequence s3)))])]"
    unfolding s' by (simp only: pop_sel) (simp add: enqueue_def hd_append)
  moreover have "concludes ?h (?ty, [(''response'', ?v), (''type'', VStr ?ty), (''sequence_number'', VInt (int (cs_sequence s3)))])"
    unfolding concludes_def using 3 by (intro exI [of _ s3]) simp
  moreover have "cs_ended s'" by (simp add: s')
  ultimately show ?thesis by blast
qed

lemma hear_pop [simp]: "heard_of (pop s) = heard_of s" "parts_ok (pop s) = parts_ok s" "total (pop s) = total s"
  by (simp_all add: pop_def heard_of_def parts_ok_def total_def)

lemma chat_run_concludes:
  assumes "chat_run fresh s = (evs, f)" and "parts_ok s" and "\<not> cs_ended s" and "chat_err f = None"
  shows "\<exists>xs ev. evs = xs @ [ev] \<and> concludes (total s) ev"
  using assms
proof (induction fresh s arbitrary: evs rule: chat_run.induct)
  case (1 fresh s)
  have popped: ?case if n: "chat_next fresh s = (True, pop s1)" and p: "parts_ok s1" and l: "\<not> cs_ended s1"
    and t: "total s1 = total s" for s1
  proof -
    obtain rest where r: "chat_run fresh (pop s1) = (rest, f)" "evs = cs_current (pop s1) # rest"
      using n 1(2) by (auto simp: chat_run.simps [of fresh s] split: prod.splits)
    with 1(1) [OF n [symmetric] refl r(1)] p l t 1(5) show ?thesis by (metis append_Cons hear_pop(2,3) pop_sel(1))
  qed
  let ?r = "read_chunks fresh (cs_inner s) s"
  let ?c = "enqueue ''response.created'' [(''response'', response_value s ''in_progress'' VNull [])] (s\<lparr>cs_started := True\<rparr>)"
  consider "cs_queue s \<noteq> []" | "cs_queue s = []" "\<not> cs_started s" | "cs_queue s = []" "cs_started s" "cs_queue ?r \<noteq> []"
    | "cs_queue s = []" "cs_started s" "cs_queue ?r = []" by blast
  then show ?case
  proof cases
    case c: 1
    then have "chat_next fresh s = (True, pop s)" by (simp add: chat_next_def)
    from popped [OF this 1(3,4) refl] show ?thesis .
  next
    case c: 2
    have "chat_next fresh s = (True, pop ?c)" using c 1(4) by (simp add: chat_next_def)
    moreover have "parts_ok ?c" using 1(3) by (simp add: parts_ok_def)
    moreover have "total ?c = total s" by (simp add: total_def) (simp add: heard_of_def)
    ultimately show ?thesis using popped [of ?c] 1(4) by simp
  next
    case c: 3
    have e: "\<not> cs_ended ?r" using read_chunks_extends [OF c(1)] 1(4) by (auto simp: extends_def)
    have n: "chat_next fresh s = (True, pop ?r)" using c 1(4) by (simp add: chat_next_def Let_def)
    from total_read_chunks [OF 1(3)] popped [OF n _ e] show ?thesis by (metis total_def)
  next
    case c: 4
    have n: "chat_next fresh s = end_of_chunks ?r" using c 1(4) by (simp add: chat_next_def Let_def)
    have "cs_inner ?r = []" using read_chunks_extends [OF c(1), of fresh "cs_inner s"] c(3) by simp
    with total_read_chunks [OF 1(3)] have p: "parts_ok ?r" "heard_of ?r = total s"
      by (metis fold_simps(1) total_def)+
    obtain b s' where e: "end_of_chunks ?r = (b, s')" by (cases "end_of_chunks ?r")
    show ?thesis
    proof (cases b)
      case True
      from end_concludes [OF p(1), of s'] e True p(2) obtain xs ev where
        d: "cs_ended s'" "cs_current s' # cs_queue s' = xs @ [ev]" "concludes (total s) ev" by auto
      obtain rest where r: "chat_run fresh s' = (rest, f)" "evs = cs_current s' # rest"
        using n e True 1(2) by (auto simp: chat_run.simps [of fresh s] split: prod.splits)
      have "rest = cs_queue s'" using chat_run_ended [OF d(1), of fresh] unfolding r(1) by simp
      with r(2) d show ?thesis by auto
    next
      case False
      with n e 1(2) have "f = s'" by (simp add: chat_run.simps [of fresh s])
      with e False have "cs_err f \<noteq> None"
        by (auto simp: end_of_chunks_def fail_chat_def Let_def split: option.splits ctl.splits)
      with 1(5) show ?thesis by (simp add: chat_err_def split: option.splits)
    qed
  qed
qed

lemma response_members:
  "member_at ''status'' (response_value s st inc outs) = Some (VStr st)"
  "member_at ''incomplete_details'' (response_value s st inc outs) = Some inc"
  "member_at ''usage'' (response_value s st inc outs) = Some (usage_value (cs_usage s))"
  "member_at ''output'' (response_value s st inc outs) = Some (VArr outs)"
  by (simp_all add: member_at_def response_value_def vmap_def sort_members_def byte_def)

lemma body_members:
  assumes "cn_choices r = [said_choice h]" and "completion_output (chat_completion_response_id u r) (said_choice h) = Inr out"
  shows "\<exists>body. chat_completion_response_body u r = Inr body \<and>
    member_at ''status'' body = Some (VStr (status_of (hd_finish h))) \<and>
    member_at ''incomplete_details'' body = Some (details_of (hd_finish h)) \<and>
    member_at ''usage'' body = Some (usage_value (Some (cn_usage r))) \<and> member_at ''output'' body = Some (VArr out)"
  using assms
  by (simp add: chat_completion_response_body_def member_at_def vmap_def sort_members_def byte_def Let_def)
    (simp add: said_choice_def status_of_def details_of_def vmap_def sort_members_def)

lemma finish_apart: "completion_output rid (said_choice (h\<lparr>hd_finish := f\<rparr>)) = completion_output rid (said_choice h)"
  by (simp add: completion_output_def said_choice_def Let_def split: option.split)

text \<open>
  C31 (streamed or not, the same answer). Whatever way a chat provider cuts an answer into chunks, if
  its stream ends without an error, reports its usage and reasoning is not exposed, then the final
  response of the adapter's stream is the body the bridge makes of the completion the chunks say: the
  same status, incomplete details and usage, and the same output items up to their ids and their order.
  The completion is read off the chunks: the texts are the fragments in order, a call's name and
  arguments those of its index, its id the last one sent, the finish reason and the usage the last ones
  sent. A call for which no arguments were sent counts as one with the empty object, which is what the
  stream makes of it (a plain completion whose arguments are the empty string keeps them empty).
\<close>

theorem streamed_answer_is_plain_answer:
  assumes "chat_run fresh (open_chat_stream uuid created model False chunks err) = (evs, s)" and "chat_err s = None"
    and "cn_choices r = [spoken chunks]" and "spoken_usage chunks = Some (cn_usage r)"
  shows "\<exists>final body. map_of (snd (last evs)) ''response'' = Some final \<and>
     chat_completion_response_body plain_uuid r = Inr body \<and>
     list_all (\<lambda>k. member_at k final \<noteq> None \<and> member_at k final = member_at k body)
       [''status'', ''incomplete_details'', ''usage''] \<and>
     mset (map nameless (elements (member_at ''output'' final))) =
       mset (map nameless (elements (member_at ''output'' body)))"
proof -
  let ?s = "open_chat_stream uuid created model False chunks err"
  let ?h = "fold hear_chunk chunks silence"
  have "parts_ok ?s" "\<not> cs_ended ?s" "total ?s = ?h"
    by (simp_all add: open_chat_stream_def parts_ok_def total_def heard_of_def silence_def faces_def)
  with chat_run_concludes [OF assms(1) _ _ assms(2)] obtain xs ev where e: "evs = xs @ [ev]" "concludes ?h ev" by auto
  then obtain z where z: "parts_ok z" "heard_of z = ?h\<lparr>hd_finish := (if hd_finish ?h = [] then ''stop'' else hd_finish ?h)\<rparr>"
    "map_of (snd ev) ''response'' = Some (response_value z (status_of (hd_finish ?h)) (details_of (hd_finish ?h)) (output_items z))"
    by (auto simp: concludes_def)
  have "hd_tools (heard_of z) = hd_tools ?h" "hd_usage (heard_of z) = hd_usage ?h" unfolding z(2) by simp_all
  then have u: "hd_usage ?h = cs_usage z" by (simp add: heard_of_def)
  have said: "cn_choices r = [said_choice ?h]" "hd_usage ?h = Some (cn_usage r)"
    using assms(3,4) by (simp_all add: said_is_spoken) (simp add: heard_is_spoken hear_all_def)
  from outputs_agree [OF z(1)] obtain out where
    o: "completion_output (chat_completion_response_id plain_uuid r) (said_choice (heard_of z)) = Inr out"
    "mset (map nameless (output_items z)) = mset (map nameless out)" .
  have "completion_output rid (said_choice (heard_of z)) = completion_output rid (said_choice ?h)" for rid
    unfolding z(2) finish_apart ..
  with o(1) have "completion_output (chat_completion_response_id plain_uuid r) (said_choice ?h) = Inr out" by simp
  from body_members [OF said(1) this] o(2) z(3) u said(2) e(1) show ?thesis
    by (auto simp: response_members elements_def)
qed

text \<open>Text and one call, in three chunks; the completion they say.\<close>

definition agreement_delta :: "string \<Rightarrow> string \<Rightarrow> string \<Rightarrow> chunk_tool" where
  "agreement_delta call name args = \<lparr>kt_index = 0, kt_id = call, kt_name = name, kt_arguments = args\<rparr>"

definition agreement_chunk :: "int \<Rightarrow> string \<Rightarrow> chunk_tool list \<Rightarrow> string \<Rightarrow> chunk" where
  "agreement_chunk n content tools fin =
     \<lparr>kc_usage = \<lparr>cu_prompt = n, cu_completion = n, cu_total = 2 * n, cu_cached = 0, cu_cache_write = 0, cu_reasoning = 0\<rparr>,
      kc_choices = [\<lparr>kh_index = 0, kh_content = content, kh_refusal = [], kh_raw = ''{}'', kh_tools = tools, kh_finish = fin\<rparr>]\<rparr>"

definition agreement_chunks :: "chunk list" where
  "agreement_chunks =
     [agreement_chunk 0 ''h'' [] [], agreement_chunk 0 ''i'' [agreement_delta ''c'' ''f'' ''{''] [],
      agreement_chunk 3 [] [agreement_delta [] [] ''}''] ''tool_calls'']"

definition agreement_completion :: chat_completion where
  "agreement_completion =
     \<lparr>cn_id = ''x'', cn_created = 0, cn_model = ''m'',
      cn_choices = [\<lparr>cp_content = ''hi'', cp_refusal = [],
        cp_calls = [\<lparr>ca_type = ''function'', ca_id = ''c'', ca_name = ''f'', ca_arguments = ''{}''\<rparr>],
        cp_finish = ''tool_calls'', cp_raw = []\<rparr>],
      cn_usage = \<lparr>cu_prompt = 3, cu_completion = 3, cu_total = 6, cu_cached = 0, cu_cache_write = 0, cu_reasoning = 0\<rparr>\<rparr>"

definition agreement_run :: "queued_event list \<times> chat_stream" where
  "agreement_run = chat_run (\<lambda>n. []) (open_chat_stream ''u'' 0 ''m'' False agreement_chunks None)"

lemma agreement_facts:
  "chat_err (snd agreement_run) = None \<and> length (fst agreement_run) = 14"
  by code_simp

lemma agreement_said:
  "cn_choices agreement_completion = [spoken agreement_chunks]"
  "spoken_usage agreement_chunks = Some (cn_usage agreement_completion)"
  by (simp_all add: agreement_completion_def spoken_def said_choices_def fragments_def agreement_chunks_def
      agreement_chunk_def agreement_delta_def call_indexes_def spoken_call_def of_call_def last_given_def
      given_arguments_def spoken_arguments_def spoken_usage_def counts_def)

theorem streamed_answer_is_plain_answer_witness:
  "length (fst agreement_run) = 14 \<and>
   (\<exists>final body. map_of (snd (last (fst agreement_run))) ''response'' = Some final \<and>
     chat_completion_response_body ''p'' agreement_completion = Inr body \<and>
     list_all (\<lambda>k. member_at k final \<noteq> None \<and> member_at k final = member_at k body)
       [''status'', ''incomplete_details'', ''usage''] \<and>
     mset (map nameless (elements (member_at ''output'' final))) =
       mset (map nameless (elements (member_at ''output'' body))))"
proof -
  have r: "chat_run (\<lambda>n. []) (open_chat_stream ''u'' 0 ''m'' False agreement_chunks None) =
      (fst agreement_run, snd agreement_run)" by (simp add: agreement_run_def)
  from streamed_answer_is_plain_answer [OF r _ agreement_said] agreement_facts show ?thesis by simp
qed

end
