(* ===== verification/Execute.thy ===== *)
theory Execute
  imports Chat_Compat
begin

text \<open>
  One candidate attempt (\<open>internal/upstream/execute.go\<close>): rewriting the body for the candidate and
  the plain call on either wire. sjson and gjson are arguments (\<open>jset\<close>, \<open>jexists\<close>, \<open>jobject\<close> and
  \<open>jitems\<close>, the elements of an array at a path), as are the SDK's calls.
\<close>

section \<open>Rewriting the body\<close>

text \<open>Messages written without a type get one.\<close>

definition needs_type :: "(string \<Rightarrow> bool) \<Rightarrow> (string \<Rightarrow> string \<Rightarrow> bool) \<Rightarrow> string \<Rightarrow> bool" where
  "needs_type is_object jexists item \<longleftrightarrow>
     is_object item \<and> \<not> jexists item ''type'' \<and> jexists item ''role''"

definition normalize_item ::
    "(string \<Rightarrow> bool) \<Rightarrow> (string \<Rightarrow> string \<Rightarrow> bool) \<Rightarrow> (string \<Rightarrow> string \<Rightarrow> json \<Rightarrow> go_error + string)
      \<Rightarrow> nat \<times> string \<Rightarrow> string \<Rightarrow> (string, go_error) ctl" where
  "normalize_item is_object jexists jset it out =
     (if needs_type is_object jexists (snd it) then
        (case jset out (''input.'' @ itoa (int (fst it)) @ ''.type'') (JStr ''message'') of
           Inl e \<Rightarrow> Return e | Inr out' \<Rightarrow> Continue out')
      else Continue out)"

definition normalize_input_items ::
    "(string \<Rightarrow> string \<Rightarrow> string list option) \<Rightarrow> (string \<Rightarrow> bool) \<Rightarrow> (string \<Rightarrow> string \<Rightarrow> bool)
      \<Rightarrow> (string \<Rightarrow> string \<Rightarrow> json \<Rightarrow> go_error + string) \<Rightarrow> string \<Rightarrow> go_error + string" where
  "normalize_input_items jitems is_object jexists jset raw =
     (case jitems raw ''input'' of
        None \<Rightarrow> Inr raw
      | Some items \<Rightarrow>
          (case for_range (normalize_item is_object jexists jset) (enumerate 0 items) raw of
             Return e \<Rightarrow> Inl e
           | Continue out \<Rightarrow> Inr out))"

definition rewrite_model ::
    "(string \<Rightarrow> string \<Rightarrow> string list option) \<Rightarrow> (string \<Rightarrow> bool) \<Rightarrow> (string \<Rightarrow> string \<Rightarrow> bool)
      \<Rightarrow> (string \<Rightarrow> string \<Rightarrow> json \<Rightarrow> go_error + string) \<Rightarrow> string \<Rightarrow> string \<Rightarrow> go_error + string" where
  "rewrite_model jitems is_object jexists jset raw upstream_model =
     (case jset raw ''model'' (JStr upstream_model) of
        Inl e \<Rightarrow> Inl e
      | Inr out \<Rightarrow> normalize_input_items jitems is_object jexists jset out)"

section \<open>Chat Completions\<close>

text \<open>
  \<open>wording\<close> and \<open>answer_wording\<close> are the errors of the two translations. The answer's id is computed
  twice, for the body and for the result; \<open>body_uuid\<close> and \<open>result_uuid\<close> are the random parts drawn.
\<close>

definition choice_reasoning :: "chat_completion \<Rightarrow> string" where
  "choice_reasoning r = (case cn_choices r of [] \<Rightarrow> [] | ch # _ \<Rightarrow> vendor_reasoning (cp_raw ch))"

definition execute_chat ::
    "(string \<Rightarrow> rat option) \<Rightarrow> (rat \<Rightarrow> string) \<Rightarrow> (string \<Rightarrow> 'p option) \<Rightarrow> (chat_fault \<Rightarrow> go_error)
      \<Rightarrow> (completion_fault \<Rightarrow> go_error) \<Rightarrow> ('p \<Rightarrow> (string \<times> jval) list \<Rightarrow> go_error + chat_completion)
      \<Rightarrow> string \<Rightarrow> string \<Rightarrow> candidate \<Rightarrow> string \<Rightarrow> go_error + upstream_result" where
  "execute_chat fl show sdk wording answer_wording chat_new body_uuid result_uuid c raw =
     (case responses_to_chat_completion_request fl show sdk raw (cd_upstream_model c) of
        Inl f \<Rightarrow> Inl (wording f)
      | Inr (p, options) \<Rightarrow>
          (case chat_new p options of
             Inl e \<Rightarrow> Inl e
           | Inr r \<Rightarrow>
               (case chat_completion_response_body body_uuid r of
                  Inl f \<Rightarrow> Inl (answer_wording f)
                | Inr body \<Rightarrow>
                    Inr \<lparr>ur_raw_body = Some (marshal body), ur_reasoning_content = choice_reasoning r,
                      ur_reasoning_items = [], ur_response_id = chat_completion_response_id result_uuid r,
                      ur_input_tokens = cu_prompt (cn_usage r), ur_cached_input_tokens = cu_cached (cn_usage r),
                      ur_cache_write_input_tokens = cu_cache_write (cn_usage r),
                      ur_output_tokens = cu_completion (cn_usage r), ur_model = cn_model r,
                      ur_status = (case cn_choices r of
                          [] \<Rightarrow> ''completed''
                        | ch # _ \<Rightarrow> if cp_finish ch = ''length'' then ''incomplete'' else ''completed'')\<rparr>)))"

section \<open>Responses\<close>

text \<open>The SDK's response: its raw JSON, or else what marshalling it gives.\<close>

record sdk_response =
  sr_raw :: string
  sr_marshal :: "go_error + string"
  sr_id :: string
  sr_model :: string
  sr_status :: string
  sr_items :: nat
  sr_input :: int
  sr_cached :: int
  sr_cache_write :: int
  sr_output :: int

definition empty_response_error :: go_error where
  "empty_response_error = plain_error ''upstream returned empty response''"

definition response_bytes :: "sdk_response \<Rightarrow> go_error + string" where
  "response_bytes r = (if sr_raw r \<noteq> [] then Inr (sr_raw r) else sr_marshal r)"

definition execute_responses ::
    "(string \<Rightarrow> go_error + 'q) \<Rightarrow> ('q \<Rightarrow> string \<Rightarrow> go_error + sdk_response) \<Rightarrow> candidate \<Rightarrow> string
      \<Rightarrow> go_error + upstream_result" where
  "execute_responses decode_params responses_new c raw =
     (case decode_params raw of
        Inl e \<Rightarrow> Inl e
      | Inr params \<Rightarrow>
          (case responses_new params (cd_upstream_model c) of
             Inl e \<Rightarrow> Inl e
           | Inr r \<Rightarrow>
               (case response_bytes r of
                  Inl e \<Rightarrow> Inl e
                | Inr out \<Rightarrow>
                    if (sr_status r = ''completed'' \<or> sr_status r = []) \<and> sr_items r = 0
                    then Inl empty_response_error
                    else
                      (let used = (\<lambda>n. if sr_input r \<noteq> 0 \<or> sr_output r \<noteq> 0 then n else 0)
                       in Inr \<lparr>ur_raw_body = Some out, ur_reasoning_content = [],
                           ur_reasoning_items = Upstream.responses_reasoning_items out, ur_response_id = sr_id r,
                           ur_input_tokens = used (sr_input r), ur_cached_input_tokens = used (sr_cached r),
                           ur_cache_write_input_tokens = used (sr_cache_write r),
                           ur_output_tokens = used (sr_output r), ur_model = sr_model r, ur_status = sr_status r\<rparr>))))"

text \<open>\<open>ExecuteNonStream\<close> of package upstream.\<close>

definition execute_call ::
    "(candidate \<Rightarrow> string \<Rightarrow> go_error + upstream_result) \<Rightarrow> (candidate \<Rightarrow> string \<Rightarrow> go_error + upstream_result)
      \<Rightarrow> candidate \<Rightarrow> string \<Rightarrow> go_error + upstream_result" where
  "execute_call chat responses c raw =
     (case cd_provider c of
        Some p \<Rightarrow> if rp_wire_api p = ''chat_completions'' then chat c raw else responses c raw
      | None \<Rightarrow> responses c raw)"

end
