(* ===== verification/Gateway.thy ===== *)
theory Gateway
  imports Server_Base
begin

text \<open>
  The front of the gateway (\<open>auth.go\<close>, \<open>middleware.go\<close>, \<open>routes.go\<close>, \<open>models.go\<close>, \<open>health.go\<close> and
  \<open>Handler\<close> of \<open>server.go\<close> in \<open>internal/server\<close>): the middlewares around the request multiplexer of
  net/http and the handlers that only read the snapshot. The handlers of the API are arguments; a
  handler may panic. A request is what they read of it: header values are those \<open>Header.Get\<close> returns.
\<close>

section \<open>Requests and handlers\<close>

record http_request =
  hq_method :: string
  hq_path :: string
  hq_authorization :: string
  hq_api_key :: string
  hq_request_id :: string

text \<open>One line of the access log: request id, method, path, milliseconds.\<close>

type_synonym access_line = "string \<times> string \<times> string \<times> int"

text \<open>\<open>'s\<close> is whatever state the API's handlers share.\<close>

record 's world =
  wd_access :: "access_line list"
  wd_state :: 's

datatype 's outcome = Served response "'s world" | Panicked response "'s world"

type_synonym 's handler = "http_request \<Rightarrow> response \<Rightarrow> 's world \<Rightarrow> 's outcome"
type_synonym 's middleware = "'s handler \<Rightarrow> 's handler"

section \<open>Authentication\<close>

definition is_public_path :: "string \<Rightarrow> bool" where
  "is_public_path p \<longleftrightarrow> p = ''/health'' \<or> p = ''/ready'' \<or> p = ''/version''"

definition presented_token :: "http_request \<Rightarrow> string" where
  "presented_token r =
     (let h = hq_authorization r in
      if h \<noteq> [] then (if 7 < length h \<and> equal_fold (take 7 h) ''bearer '' then trim_space (drop 7 h) else [])
      else trim_space (hq_api_key r))"

text \<open>The comparison in constant time is an equality.\<close>

definition token_matches :: "string \<Rightarrow> string \<Rightarrow> bool" where
  "token_matches got want \<longleftrightarrow> got \<noteq> [] \<and> got = want"

definition auth_message :: string where
  "auth_message = ''missing or invalid sleepyrouter token''"

definition write_unauthorized :: "string \<Rightarrow> response \<Rightarrow> response" where
  "write_unauthorized msg w = openai_write_error 401 ''invalid_api_key'' msg w"

definition refuse_token :: "http_request \<Rightarrow> response \<Rightarrow> response" where
  "refuse_token r w =
     (let w1 = set_header ''WWW-Authenticate'' (''Bearer realm='' @ [CHR 0x22] @ ''sleepyrouter'' @ [CHR 0x22]) w
      in if has_prefix (hq_path r) ''/v1/messages''
         then anthropic_write_error 401 ''authentication_error'' auth_message w1
         else write_unauthorized auth_message w1)"

text \<open>The snapshot is the store's current one, \<open>None\<close> before the first.\<close>

definition auth_middleware :: "runtime_snapshot option \<Rightarrow> 's middleware" where
  "auth_middleware snap next r w st =
     (case snap of
        None \<Rightarrow> next r w st
      | Some s \<Rightarrow>
          if \<not> sn_auth_required s \<or> is_public_path (hq_path r) then next r w st
          else if sn_auth_token s \<noteq> [] \<and> token_matches (presented_token r) (sn_auth_token s) then next r w st
          else Served (refuse_token r w) st)"

section \<open>The other middlewares\<close>

definition request_id_middleware :: "string \<Rightarrow> 's middleware" where
  "request_id_middleware rid next r w st =
     next (r\<lparr>hq_request_id := rid\<rparr>) (set_header ''X-SleepyRouter-Request-ID'' rid w) st"

text \<open>\<open>http.Error\<close>.\<close>

definition http_error :: "string \<Rightarrow> int \<Rightarrow> response \<Rightarrow> response" where
  "http_error msg code w =
     write_chunk (msg @ [CHR 0x0A])
       (write_header code
         (set_header ''X-Content-Type-Options'' ''nosniff''
           (set_header ''Content-Type'' ''text/plain; charset=utf-8'' w)))"

definition panic_body :: string where
  "panic_body =
     marshal (VObj [(''error'', VObj [(''message'', VStr ''internal error''), (''type'', VStr ''server_error''),
       (''code'', VStr ''panic'')])])"

definition recover_middleware :: "'s middleware" where
  "recover_middleware next r w st =
     (case next r w st of
        Served w' st' \<Rightarrow> Served w' st'
      | Panicked w' st' \<Rightarrow> Served (http_error panic_body 500 w') st')"

definition sensitive_names :: "string list" where
  "sensitive_names =
     [''authorization'', ''x-api-key'', ''api-key'', ''api_key'', ''apikey'', ''openrouter_api_key'',
      ''nvidia_api_key'', ''gemini_api_key'', ''google_api_key'', ''opencode_api_key'']"

definition log_redact :: "string \<Rightarrow> string" where
  "log_redact s = (if list_ex (str_contains (to_lower s)) sensitive_names then ''[redacted]'' else s)"

text \<open>A panic skips the line: the handler below does not return.\<close>

definition log_middleware :: "int \<Rightarrow> 's middleware" where
  "log_middleware ms next r w st =
     (case next r w st of
        Served w' st' \<Rightarrow>
          Served w' (st'\<lparr>wd_access := wd_access st' @ [(log_redact (hq_request_id r), hq_method r, hq_path r, ms)]\<rparr>)
      | Panicked w' st' \<Rightarrow> Panicked w' st')"

definition chain_handlers :: "'s handler \<Rightarrow> 's middleware list \<Rightarrow> 's handler" where
  "chain_handlers h mws = foldr (\<lambda>m g. m g) mws h"

section \<open>Routes\<close>

text \<open>
  The multiplexer on the patterns of the source, all without wildcards: the handler of the method and
  path (GET serves HEAD too), else 405 when another method has the path, else 404. The redirects of
  paths that are not clean are left out.
\<close>

datatype endpoint =
    Health | Ready | Version | Models | Responses | HoardResponses | Messages | CountTokens

definition routes :: "(string \<times> string \<times> endpoint) list" where
  "routes =
     [(''GET'', ''/health'', Health), (''GET'', ''/ready'', Ready), (''GET'', ''/version'', Version),
      (''GET'', ''/v1/models'', Models), (''POST'', ''/v1/responses'', Responses),
      (''POST'', ''/hoard/v1/responses'', HoardResponses), (''POST'', ''/v1/messages'', Messages),
      (''POST'', ''/v1/messages/count_tokens'', CountTokens)]"

definition method_serves :: "string \<Rightarrow> string \<Rightarrow> bool" where
  "method_serves pattern method \<longleftrightarrow> pattern = method \<or> (pattern = ''GET'' \<and> method = ''HEAD'')"

definition allowed_methods :: "string \<Rightarrow> string" where
  "allowed_methods m = (if m = ''GET'' then ''GET, HEAD'' else m)"

definition mux_serve :: "(endpoint \<Rightarrow> 's handler) \<Rightarrow> 's handler" where
  "mux_serve handlers r w st =
     (case find (\<lambda>(m, p, e). p = hq_path r \<and> method_serves m (hq_method r)) routes of
        Some (m, p, e) \<Rightarrow> handlers e r w st
      | None \<Rightarrow>
          (case find (\<lambda>(m, p, e). p = hq_path r) routes of
             Some (m, p, e) \<Rightarrow> Served (http_error ''Method Not Allowed'' 405 (set_header ''Allow'' (allowed_methods m) w)) st
           | None \<Rightarrow> Served (http_error ''404 page not found'' 404 w) st))"

section \<open>Handlers that read the snapshot\<close>

definition write_json :: "int \<Rightarrow> jval \<Rightarrow> response \<Rightarrow> response" where
  "write_json status v w =
     write_chunk (json_encode v) (write_header status (set_header ''Content-Type'' ''application/json'' w))"

record model_entry =
  me_id :: string
  me_owner :: string

definition model_entry_json :: "model_entry \<Rightarrow> jval" where
  "model_entry_json m =
     VObj [(''id'', VStr (me_id m)), (''object'', VStr ''model''), (''type'', VStr ''model''), (''created'', VInt 0),
           (''owned_by'', VStr (me_owner m)), (''display_name'', VStr (me_id m))]"

definition sort_strings :: "string list \<Rightarrow> string list" where
  "sort_strings ks = map fst (sort_members (map (\<lambda>k. (k, ())) ks))"

text \<open>\<open>add\<close>: an id that is listed already is skipped.\<close>

definition add_entry :: "string \<Rightarrow> string \<Rightarrow> model_entry list \<Rightarrow> model_entry list" where
  "add_entry i owner data = (if i \<in> set (map me_id data) then data else data @ [\<lparr>me_id = i, me_owner = owner\<rparr>])"

text \<open>Groups in the configured order, the others sorted, then the models sorted.\<close>

definition model_entries :: "runtime_snapshot \<Rightarrow> model_entry list" where
  "model_entries s =
     (let others = sort_strings (filter (\<lambda>g. g \<notin> set (sn_group_order s)) (gkeys (sn_groups s)));
          ids = sort_strings (gkeys (sn_models s));
          owner = (\<lambda>i. case map_of (sn_models s) i of None \<Rightarrow> [] | Some m \<Rightarrow> rm_provider_id m)
      in fold (\<lambda>i. add_entry i (owner i)) ids
           (fold (\<lambda>g. add_entry g ''sleepyrouter'') (sn_group_order s @ others) []))"

text \<open>An empty list of items is a nil slice, written as \<open>null\<close>.\<close>

definition handle_models :: "runtime_snapshot option \<Rightarrow> response \<Rightarrow> response" where
  "handle_models snap w =
     (let body = (\<lambda>data. vmap [(''object'', VStr ''list''), (''data'', data)]) in
      case snap of
        None \<Rightarrow> write_json 200 (body (VArr [])) w
      | Some s \<Rightarrow>
          (let es = model_entries s
           in write_json 200 (body (if es = [] then VNull else VArr (map model_entry_json es))) w))"

text \<open>What \<open>buildinfo\<close> holds, and the uptime in seconds.\<close>

record build_info =
  bi_version :: string
  bi_commit :: string
  bi_date :: string
  bi_go :: string

definition encode_ok :: "jval \<Rightarrow> response \<Rightarrow> response" where
  "encode_ok v w = write_chunk (json_encode v) (set_header ''Content-Type'' ''application/json'' w)"

definition handle_health :: "build_info \<Rightarrow> int \<Rightarrow> runtime_snapshot option \<Rightarrow> response \<Rightarrow> response" where
  "handle_health b uptime snap w =
     encode_ok (vmap [(''ok'', VBool True), (''service'', VStr ''sleepyrouter''), (''version'', VStr (bi_version b)),
       (''config_generation'', VInt (case snap of None \<Rightarrow> 0 | Some s \<Rightarrow> int (sn_generation s))),
       (''uptime_seconds'', VInt uptime)]) w"

definition handle_ready :: "runtime_snapshot option \<Rightarrow> response \<Rightarrow> response" where
  "handle_ready snap w =
     (case snap of
        None \<Rightarrow> http_error (marshal (VObj [(''ok'', VBool False)])) 503 w
      | Some _ \<Rightarrow> encode_ok (vmap [(''ok'', VBool True)]) w)"

definition handle_version :: "build_info \<Rightarrow> response \<Rightarrow> response" where
  "handle_version b w =
     encode_ok (vmap [(''version'', VStr (bi_version b)), (''commit'', VStr (bi_commit b)),
       (''build_date'', VStr (bi_date b)), (''go'', VStr (bi_go b))]) w"

section \<open>The handler of the server\<close>

text \<open>\<open>api\<close> serves the four endpoints that reach providers.\<close>

definition endpoints ::
    "build_info \<Rightarrow> int \<Rightarrow> runtime_snapshot option \<Rightarrow> (endpoint \<Rightarrow> 's handler) \<Rightarrow> endpoint \<Rightarrow> 's handler" where
  "endpoints b uptime snap api e =
     (case e of
        Health \<Rightarrow> (\<lambda>r w st. Served (handle_health b uptime snap w) st)
      | Ready \<Rightarrow> (\<lambda>r w st. Served (handle_ready snap w) st)
      | Version \<Rightarrow> (\<lambda>r w st. Served (handle_version b w) st)
      | Models \<Rightarrow> (\<lambda>r w st. Served (handle_models snap w) st)
      | _ \<Rightarrow> api e)"

definition server_handler ::
    "build_info \<Rightarrow> int \<Rightarrow> runtime_snapshot option \<Rightarrow> string \<Rightarrow> int \<Rightarrow> (endpoint \<Rightarrow> 's handler) \<Rightarrow> 's handler" where
  "server_handler b uptime snap rid ms api =
     chain_handlers (mux_serve (endpoints b uptime snap api))
       [request_id_middleware rid, recover_middleware, log_middleware ms, auth_middleware snap]"

section \<open>The listing\<close>

lemma add_entry_ids:
  "set (map me_id (add_entry i owner data)) = insert i (set (map me_id data))"
  "distinct (map me_id data) \<Longrightarrow> distinct (map me_id (add_entry i owner data))"
  by (auto simp: add_entry_def)

lemma add_entries_ids:
  "set (map me_id (fold (\<lambda>i. add_entry i (f i)) ids data)) = set ids \<union> set (map me_id data) \<and>
   (distinct (map me_id data) \<longrightarrow> distinct (map me_id (fold (\<lambda>i. add_entry i (f i)) ids data)))"
proof (induction ids arbitrary: data)
  case (Cons i ids)
  from Cons.IH [of "add_entry i (f i) data"] add_entry_ids [where i = i and owner = "f i" and data = data] show ?case by simp
qed simp

lemma set_sort_strings: "set (sort_strings ks) = set ks"
  by (simp add: sort_strings_def sort_members_set image_image)

lemma model_entries_ids:
  "distinct (map me_id (model_entries s))"
  "set (map me_id (model_entries s)) = set (sn_group_order s) \<union> set (gkeys (sn_groups s)) \<union> set (gkeys (sn_models s))"
proof -
  define gs where "gs = sn_group_order s @ sort_strings (filter (\<lambda>g. g \<notin> set (sn_group_order s)) (gkeys (sn_groups s)))"
  define owner where "owner = (\<lambda>i. case map_of (sn_models s) i of None \<Rightarrow> [] | Some m \<Rightarrow> rm_provider_id m)"
  have e: "model_entries s = fold (\<lambda>i. add_entry i (owner i)) (sort_strings (gkeys (sn_models s)))
      (fold (\<lambda>g. add_entry g ''sleepyrouter'') gs [])"
    by (simp add: model_entries_def gs_def owner_def Let_def)
  note g = add_entries_ids [of "\<lambda>_. ''sleepyrouter''" gs "[]"]
  note m = add_entries_ids [of owner "sort_strings (gkeys (sn_models s))" "fold (\<lambda>g. add_entry g ''sleepyrouter'') gs []"]
  show "distinct (map me_id (model_entries s))" using g m unfolding e by simp
  have "set gs = set (sn_group_order s) \<union> set (gkeys (sn_groups s))" by (auto simp: gs_def set_sort_strings)
  with g m show "set (map me_id (model_entries s)) = set (sn_group_order s) \<union> set (gkeys (sn_groups s)) \<union> set (gkeys (sn_models s))"
    unfolding e by (auto simp: set_sort_strings)
qed

section \<open>No token, no service\<close>

lemma write_json_sel [simp]:
  "rw_headers (write_json_error st b w) = rw_headers (set_header ''Content-Type'' ''application/json'' w)"
  by (simp add: write_json_error_def)

lemma set_header_lookup [simp]:
  "rw_status w = None \<Longrightarrow> map_of (rw_headers (set_header k v w)) k' = (if k' = k then Some v else map_of (rw_headers w) k')"
  by (simp add: set_header_def update_conv')

lemma refuse_token_sel:
  assumes "rw_status w = None"
  shows "rw_status (refuse_token r w) = Some 401"
    "map_of (rw_headers (refuse_token r w)) ''WWW-Authenticate'' \<noteq> None"
    "map_of (rw_headers (refuse_token r w)) ''X-SleepyRouter-Request-ID'' = map_of (rw_headers w) ''X-SleepyRouter-Request-ID''"
  using assms
  by (simp_all add: refuse_token_def write_unauthorized_def openai_write_error_def anthropic_write_error_def Let_def)

lemma http_error_header:
  "rw_status w = None \<Longrightarrow> map_of (rw_headers (http_error m c w)) ''X-SleepyRouter-Request-ID'' =
     map_of (rw_headers w) ''X-SleepyRouter-Request-ID''"
  by (simp add: http_error_def)

lemma encode_ok_header:
  "rw_status w = None \<Longrightarrow> map_of (rw_headers (encode_ok v w)) ''X-SleepyRouter-Request-ID'' =
     map_of (rw_headers w) ''X-SleepyRouter-Request-ID''"
  by (simp add: encode_ok_def)

lemma presented_token_id [simp]: "presented_token (r\<lparr>hq_request_id := i\<rparr>) = presented_token r"
  by (simp add: presented_token_def Let_def)

text \<open>What a public path is answered with does not depend on the API's handlers.\<close>

lemma public_served:
  assumes "is_public_path (hq_path r)" and "rw_status w = None"
  shows "\<exists>w'. (\<forall>api. mux_serve (endpoints b uptime snap api) r w st = Served w' st) \<and>
    map_of (rw_headers w') ''X-SleepyRouter-Request-ID'' = map_of (rw_headers w) ''X-SleepyRouter-Request-ID''"
proof (cases "method_serves ''GET'' (hq_method r)")
  case True
  with assms show ?thesis
    unfolding is_public_path_def
    by (elim disjE) (simp_all add: mux_serve_def routes_def endpoints_def handle_health_def handle_ready_def
        handle_version_def encode_ok_header http_error_header split: option.split)
next
  case False
  with assms show ?thesis
    unfolding is_public_path_def
    by (elim disjE) (simp_all add: mux_serve_def routes_def http_error_header)
qed

text \<open>
  C32 (no token, no service). With authentication on, a request that does not present the configured
  token, or any request when that token is empty, reaches no handler of the API: the answer and the
  state afterwards are the same whatever these handlers do, and only the access log has grown. Paths
  other than the three public ones are answered with 401 and a challenge. Every answer carries the
  request's id.
\<close>

theorem gateway_fails_closed:
  assumes "sn_auth_required s" and "sn_auth_token s = [] \<or> presented_token r \<noteq> sn_auth_token s"
  shows "\<exists>w. (\<forall>api. server_handler b uptime (Some s) rid ms api r new_response st =
        Served w (st\<lparr>wd_access := wd_access st @ [(log_redact rid, hq_method r, hq_path r, ms)]\<rparr>)) \<and>
     (\<not> is_public_path (hq_path r) \<longrightarrow>
        rw_status w = Some 401 \<and> map_of (rw_headers w) ''WWW-Authenticate'' \<noteq> None) \<and>
     map_of (rw_headers w) ''X-SleepyRouter-Request-ID'' = Some rid"
proof -
  let ?r = "r\<lparr>hq_request_id := rid\<rparr>"
  let ?w = "set_header ''X-SleepyRouter-Request-ID'' rid new_response"
  have new: "rw_status ?w = None" "map_of (rw_headers ?w) ''X-SleepyRouter-Request-ID'' = Some rid"
    by (simp_all add: new_response_def)
  show ?thesis
  proof (cases "is_public_path (hq_path r)")
    case True
    with public_served [of ?r ?w b uptime "Some s" st] new obtain w' where
      "\<forall>api. mux_serve (endpoints b uptime (Some s) api) ?r ?w st = Served w' st"
      "map_of (rw_headers w') ''X-SleepyRouter-Request-ID'' = Some rid" by auto
    with True show ?thesis
      by (intro exI [of _ w']) (simp add: server_handler_def chain_handlers_def request_id_middleware_def
          recover_middleware_def log_middleware_def auth_middleware_def)
  next
    case False
    with assms have "auth_middleware (Some s) h ?r ?w st = Served (refuse_token ?r ?w) st" for h
      by (auto simp: auth_middleware_def token_matches_def)
    with refuse_token_sel [OF new(1), of ?r] new(2) show ?thesis
      by (intro exI [of _ "refuse_token ?r ?w"]) (simp add: server_handler_def chain_handlers_def request_id_middleware_def
          recover_middleware_def log_middleware_def)
  qed
qed

text \<open>A request for messages without a token, and one with a wrong one.\<close>

definition locked_snapshot :: runtime_snapshot where
  "locked_snapshot = sample_snapshot\<lparr>sn_auth_required := True, sn_auth_token := ''token''\<rparr>"

definition messages_call :: "string \<Rightarrow> http_request" where
  "messages_call key =
     \<lparr>hq_method = ''POST'', hq_path = ''/v1/messages'', hq_authorization = [], hq_api_key = key, hq_request_id = []\<rparr>"

definition dev_build :: build_info where
  "dev_build = \<lparr>bi_version = ''dev'', bi_commit = ''unknown'', bi_date = ''unknown'', bi_go = ''go''\<rparr>"

theorem gateway_fails_closed_witness:
  "\<exists>w. server_handler dev_build 0 (Some locked_snapshot) ''id'' 1 (\<lambda>e r w st. Panicked w st) (messages_call ''wrong'')
         new_response \<lparr>wd_access = [], wd_state = ()\<rparr> =
       Served w \<lparr>wd_access = [(''id'', ''POST'', ''/v1/messages'', 1)], wd_state = ()\<rparr> \<and> rw_status w = Some 401"
proof -
  have 1: "sn_auth_required locked_snapshot" by (simp add: locked_snapshot_def)
  have 2: "sn_auth_token locked_snapshot = [] \<or> presented_token (messages_call ''wrong'') \<noteq> sn_auth_token locked_snapshot"
    by (simp add: locked_snapshot_def presented_token_def messages_call_def) code_simp
  have 3: "\<not> is_public_path (hq_path (messages_call ''wrong''))" by (simp add: is_public_path_def messages_call_def)
  have 4: "log_redact ''id'' = ''id''" by code_simp
  from gateway_fails_closed [OF 1 2, of dev_build 0 "''id''" 1 "\<lparr>wd_access = [], wd_state = ()\<rparr>"] 3 4 show ?thesis
    by (auto simp: messages_call_def)
qed

end
