(* ===== verification/Watch.thy ===== *)
theory Watch
  imports Go_Base
begin

text \<open>
  The watcher of the configuration directory (\<open>internal/config/watch.go\<close>): the goroutine's select loop
  as a step relation. fsnotify delivers the paths of changed files; a change of \<open>config.toml\<close> or
  \<open>.env\<close> (re)arms one timer, and the callback runs when the timer of the last change fires. Times are
  nanoseconds. The callback itself is \<open>Config_Store.on_reload\<close>; a panic in it is recovered. What the
  loop guarantees is stated over its inputs alone: which files changed when, and when the callback ran.
\<close>

section \<open>The loop\<close>

definition debounce :: int where
  "debounce = 300000000"

text \<open>\<open>filepath.Base\<close>.\<close>

definition file_base :: "string \<Rightarrow> string" where
  "file_base path =
     (if path = [] then ''.''
      else (let base = rev (takeWhile (\<lambda>c. c \<noteq> CHR ''/'') (dropWhile (\<lambda>c. c = CHR ''/'') (rev path)))
            in if base = [] then ''/'' else base))"

definition relevant :: "string \<Rightarrow> bool" where
  "relevant name = (let base = file_base name in base = ''config.toml'' \<or> base = ''.env'')"

text \<open>\<open>wt_due\<close> is when the armed timer fires, \<open>None\<close> when the loop waits for no timer.\<close>

record watcher =
  wt_now :: int
  wt_due :: "int option"
  wt_running :: bool

text \<open>\<open>TimerFires\<close>: the loop receives from the timer and runs the callback.\<close>

datatype watch_input = FileEvent string | ChannelClosed | WatchError | TimerFires | StopCalled | Wait int

definition start_watch :: "int \<Rightarrow> watcher" where
  "start_watch now = \<lparr>wt_now = now, wt_due = None, wt_running = True\<rparr>"

definition trigger :: "watcher \<Rightarrow> watcher" where
  "trigger w = w\<lparr>wt_due := Some (wt_now w + debounce)\<rparr>"

definition run_callback :: "watcher \<Rightarrow> watcher" where
  "run_callback w = w\<lparr>wt_due := None\<rparr>"

definition leave_loop :: "watcher \<Rightarrow> watcher" where
  "leave_loop w = w\<lparr>wt_running := False, wt_due := None\<rparr>"

text \<open>
  One iteration for each ready channel, and the passing of time. \<open>select\<close> picks any ready channel, so
  a due timer may wait while events are served.
\<close>

inductive watch_step :: "watcher \<Rightarrow> watch_input \<Rightarrow> watcher \<Rightarrow> bool" where
  change: "wt_running w \<Longrightarrow> relevant name \<Longrightarrow> watch_step w (FileEvent name) (trigger w)"
| other: "wt_running w \<Longrightarrow> \<not> relevant name \<Longrightarrow> watch_step w (FileEvent name) w"
| closed: "wt_running w \<Longrightarrow> watch_step w ChannelClosed (leave_loop w)"
| failed: "wt_running w \<Longrightarrow> watch_step w WatchError w"
| fires: "wt_running w \<Longrightarrow> wt_due w = Some t \<Longrightarrow> t \<le> wt_now w \<Longrightarrow> watch_step w TimerFires (run_callback w)"
| stopped: "wt_running w \<Longrightarrow> watch_step w StopCalled (leave_loop w)"
| passes: "0 \<le> d \<Longrightarrow> watch_step w (Wait d) (w\<lparr>wt_now := wt_now w + d\<rparr>)"

inductive_cases watch_stepE: "watch_step w i w'"

inductive_simps watch_step_simps:
  "watch_step w TimerFires w'" "watch_step w (Wait d) w'" "watch_step w StopCalled w'"

inductive watch_run :: "watcher \<Rightarrow> watch_input list \<Rightarrow> watcher \<Rightarrow> bool" where
  start: "watch_run w [] w"
| step: "watch_run w is w' \<Longrightarrow> watch_step w' i w'' \<Longrightarrow> watch_run w (is @ [i]) w''"

section \<open>What happened, by the inputs\<close>

text \<open>A path that names the file \<open>f\<close> in some directory.\<close>

definition names_file :: "string \<Rightarrow> string \<Rightarrow> bool" where
  "names_file f path \<longleftrightarrow> (\<exists>dir n. path = dir @ f @ replicate n CHR ''/'' \<and> (dir = [] \<or> last dir = CHR ''/''))"

lemma slashes: "takeWhile (\<lambda>c. c = CHR ''/'') xs = replicate (length (takeWhile (\<lambda>c. c = CHR ''/'') xs)) CHR ''/''"
  by (induction xs) auto

lemma file_base_names:
  assumes "f \<noteq> []" "CHR ''/'' \<notin> set f" "f \<noteq> ''.''"
  shows "file_base path = f \<longleftrightarrow> names_file f path"
proof -
  let ?s = "\<lambda>c. c = CHR ''/''" and ?n = "\<lambda>c. c \<noteq> CHR ''/''"
  let ?r = "dropWhile ?s (rev path)"
  have "f \<noteq> ''/''" using assms(2) by auto
  then have b: "file_base path = f \<longleftrightarrow> takeWhile ?n ?r = rev f"
    using assms by (auto simp: file_base_def Let_def rev_swap)
  show ?thesis
  proof
    assume "file_base path = f"
    then have t: "takeWhile ?n ?r = rev f" using b by simp
    have "rev path = takeWhile ?s (rev path) @ rev f @ dropWhile ?n ?r"
      unfolding t [symmetric] by simp
    then obtain n where "rev path = replicate n CHR ''/'' @ rev f @ dropWhile ?n ?r" using slashes by metis
    then have "path = rev (dropWhile ?n ?r) @ f @ replicate n CHR ''/''"
      by (metis append.assoc rev_append rev_replicate rev_rev_ident)
    moreover have "dropWhile ?n ?r = [] \<or> hd (dropWhile ?n ?r) = CHR ''/''"
      using hd_dropWhile [of ?n ?r] by blast
    ultimately show "names_file f path" unfolding names_file_def by (metis last_rev rev_is_Nil_conv)
  next
    assume "names_file f path"
    then obtain dir n where p: "path = dir @ f @ replicate n CHR ''/''" "dir = [] \<or> last dir = CHR ''/''"
      unfolding names_file_def by blast
    have f: "list_all ?n (rev f)" using assms(2) by (auto simp: list_all_iff)
    have "?r = dropWhile ?s (rev f @ rev dir)" by (simp add: p(1) dropWhile_append)
    also have "\<dots> = rev f @ rev dir" using assms(1) f by (cases "rev f") auto
    finally have "takeWhile ?n ?r = rev f @ takeWhile ?n (rev dir)" using f by (simp add: takeWhile_append list_all_iff)
    moreover have "takeWhile ?n (rev dir) = []" using p(2) by (cases dir rule: rev_cases) auto
    ultimately show "file_base path = f" using b by simp
  qed
qed

definition watched :: "string \<Rightarrow> bool" where
  "watched path \<longleftrightarrow> names_file ''config.toml'' path \<or> names_file ''.env'' path"

lemma relevant_watched: "relevant path \<longleftrightarrow> watched path"
  by (simp add: relevant_def watched_def Let_def file_base_names)

text \<open>Changes of the two files and runs of the callback, with their times.\<close>

datatype watch_note = Changed | Reloaded

fun clock :: "int \<Rightarrow> watch_input list \<Rightarrow> int" where
  "clock now [] = now"
| "clock now (Wait d # is) = clock (now + d) is"
| "clock now (i # is) = clock now is"

fun timeline :: "int \<Rightarrow> watch_input list \<Rightarrow> (int \<times> watch_note) list" where
  "timeline now [] = []"
| "timeline now (Wait d # is) = timeline (now + d) is"
| "timeline now (FileEvent path # is) = (if watched path then [(now, Changed)] else []) @ timeline now is"
| "timeline now (TimerFires # is) = (now, Reloaded) # timeline now is"
| "timeline now (i # is) = timeline now is"

lemma clock_append: "clock now (is @ js) = clock (clock now is) js"
  by (induction now "is" rule: clock.induct) simp_all

lemma timeline_append: "timeline now (is @ js) = timeline now is @ timeline (clock now is) js"
  by (induction now "is" rule: timeline.induct) simp_all

section \<open>Debouncing\<close>

text \<open>Every run of the callback directly follows a change at least the debounce older.\<close>

definition debounced :: "(int \<times> watch_note) list \<Rightarrow> bool" where
  "debounced es \<longleftrightarrow>
     (\<forall>xs t ys. es = xs @ (t, Reloaded) # ys \<longrightarrow> (\<exists>zs s. xs = zs @ [(s, Changed)] \<and> s + debounce \<le> t))"

lemma debounced_Nil [simp]: "debounced []"
  by (simp add: debounced_def)

lemma debounced_snoc:
  assumes "debounced es" and "snd e = Reloaded \<Longrightarrow> \<exists>zs s. es = zs @ [(s, Changed)] \<and> s + debounce \<le> fst e"
  shows "debounced (es @ [e])"
  unfolding debounced_def
proof (intro allI impI)
  fix xs u ys
  assume e: "es @ [e] = xs @ (u, Reloaded) # ys"
  show "\<exists>zs s. xs = zs @ [(s, Changed)] \<and> s + debounce \<le> u"
  proof (cases ys rule: rev_cases)
    case Nil
    with e have "es = xs" "e = (u, Reloaded)" by simp_all
    with assms(2) show ?thesis by simp
  next
    case (snoc ys' y)
    with e have "es = xs @ (u, Reloaded) # ys'" by simp
    with assms(1) show ?thesis unfolding debounced_def by blast
  qed
qed

lemma debounced_changed: "debounced es \<Longrightarrow> debounced (es @ [(t, Changed)])"
  by (rule debounced_snoc) simp_all

text \<open>
  The loop's invariant: the timer is armed exactly when the last thing that happened is a change, for
  the time of that change plus the debounce.
\<close>

definition watch_ok :: "int \<Rightarrow> watch_input list \<Rightarrow> watcher \<Rightarrow> bool" where
  "watch_ok now is w \<longleftrightarrow> wt_now w = clock now is \<and> debounced (timeline now is) \<and>
     (case wt_due w of
        Some t \<Rightarrow> \<exists>zs. timeline now is = zs @ [(t - debounce, Changed)]
      | None \<Rightarrow> wt_running w \<longrightarrow> timeline now is = [] \<or> snd (last (timeline now is)) = Reloaded)"

lemma watch_ok_step:
  assumes "watch_step w i w'" and "watch_ok now is w"
  shows "watch_ok now (is @ [i]) w'"
  using assms
proof (cases rule: watch_step.cases)
  case (fires t)
  with assms(2) obtain zs where z: "timeline now is = zs @ [(t - debounce, Changed)]" "debounced (timeline now is)"
    by (auto simp: watch_ok_def)
  have "wt_now w = clock now is" using assms(2) by (simp add: watch_ok_def)
  then have "debounced (timeline now is @ [(clock now is, Reloaded)])"
    using z fires by (intro debounced_snoc) auto
  with fires assms(2) show ?thesis
    by (simp add: watch_ok_def run_callback_def timeline_append clock_append)
qed (auto simp: watch_ok_def trigger_def leave_loop_def debounced_changed timeline_append clock_append relevant_watched
    split: option.splits)

lemma watch_ok_run: "watch_run w is w' \<Longrightarrow> watch_ok now [] w \<Longrightarrow> watch_ok now is w'"
  by (induction rule: watch_run.induct) (auto dest: watch_ok_step)

text \<open>
  C33 (a change is reloaded, once it has settled). In every run of the watcher, by the file events it
  was sent: each run of the callback follows a change of a path that names \<open>config.toml\<close> or \<open>.env\<close>, at
  least 300 ms earlier, with no other such change and no other run in between, so a burst of changes is
  reloaded once and other files never are; and while the watcher runs, a change after which the
  callback has not run yet is reloaded by waiting until 300 ms after the last such change: then the
  callback can run.
\<close>

theorem changes_are_reloaded:
  assumes "watch_run (start_watch now) is w"
  shows "debounced (timeline now is) \<and>
    (wt_running w \<longrightarrow>
       timeline now is = [] \<or> snd (last (timeline now is)) = Reloaded \<or>
       (\<exists>w'. watch_run (start_watch now)
          (is @ [Wait (max 0 (fst (last (timeline now is)) + debounce - clock now is)), TimerFires]) w'))"
proof -
  have "watch_ok now [] (start_watch now)" by (simp add: watch_ok_def start_watch_def)
  from watch_ok_run [OF assms this] have ok: "watch_ok now is w" .
  have "\<exists>w'. watch_run (start_watch now)
      (is @ [Wait (max 0 (fst (last (timeline now is)) + debounce - clock now is)), TimerFires]) w'"
    if r: "wt_running w" and t: "wt_due w = Some t" for t
  proof -
    from ok t have "fst (last (timeline now is)) + debounce = t" "wt_now w = clock now is"
      by (auto simp: watch_ok_def)
    then have d: "max 0 (fst (last (timeline now is)) + debounce - clock now is) = max 0 (t - wt_now w)" (is "?d = _") by simp
    let ?w = "w\<lparr>wt_now := wt_now w + ?d\<rparr>"
    have "watch_run (start_watch now) (is @ [Wait ?d]) ?w"
      by (rule watch_run.step [OF assms]) (simp add: watch_step_simps)
    moreover have "watch_step ?w TimerFires (run_callback ?w)"
      unfolding d using r t by (intro watch_step.fires [of _ t]) simp_all
    ultimately have "watch_run (start_watch now) ((is @ [Wait ?d]) @ [TimerFires]) (run_callback ?w)"
      by (rule watch_run.step)
    then show ?thesis by auto
  qed
  with ok show ?thesis unfolding watch_ok_def by (cases "wt_due w") auto
qed

text \<open>Two changes within a tenth of a second and some other file's; the second is still outstanding.\<close>

definition burst :: "watch_input list" where
  "burst = [FileEvent ''/h/config.toml'', Wait 100000000, FileEvent ''/h/x'', FileEvent ''/h/.env'', Wait 200000000]"

lemma burst_run:
  "watch_run (start_watch 0) burst \<lparr>wt_now = 300000000, wt_due = Some 400000000, wt_running = True\<rparr>"
proof -
  let ?w = "\<lambda>n d. \<lparr>wt_now = n, wt_due = d, wt_running = True\<rparr>"
  have 1: "watch_step (start_watch 0) (FileEvent ''/h/config.toml'') (?w 0 (Some 300000000))"
    using watch_step.change [of "start_watch 0" "''/h/config.toml''"]
    by (simp add: start_watch_def trigger_def relevant_def file_base_def debounce_def)
  have 2: "watch_step (?w 0 (Some 300000000)) (Wait 100000000) (?w 100000000 (Some 300000000))"
    by (simp add: watch_step_simps)
  have 3: "watch_step (?w 100000000 (Some 300000000)) (FileEvent ''/h/x'') (?w 100000000 (Some 300000000))"
    by (rule watch_step.other) (simp_all add: relevant_def file_base_def)
  have 4: "watch_step (?w 100000000 (Some 300000000)) (FileEvent ''/h/.env'') (?w 100000000 (Some 400000000))"
    using watch_step.change [of "?w 100000000 (Some 300000000)" "''/h/.env''"]
    by (simp add: trigger_def relevant_def file_base_def debounce_def)
  have 5: "watch_step (?w 100000000 (Some 400000000)) (Wait 200000000) (?w 300000000 (Some 400000000))"
    by (simp add: watch_step_simps)
  from watch_run.step [OF watch_run.step [OF watch_run.step [OF watch_run.step [OF watch_run.step
      [OF watch_run.start 1] 2] 3] 4] 5]
  show ?thesis by (simp add: burst_def)
qed

lemma burst_timeline: "timeline 0 burst = [(0, Changed), (100000000, Changed)]" "clock 0 burst = 300000000"
  by (simp_all add: burst_def relevant_watched [symmetric] relevant_def file_base_def)

theorem changes_are_reloaded_witness:
  "timeline 0 burst = [(0, Changed), (100000000, Changed)] \<and>
   (\<exists>w. watch_run (start_watch 0) (burst @ [Wait 100000000, TimerFires]) w)"
  using changes_are_reloaded [OF burst_run] by (simp add: burst_timeline debounce_def)

end
