(* ===== verification/Usage_Store.thy ===== *)
theory Usage_Store
  imports Server_Base "HOL-Library.Monad_Syntax" "HOL-Library.Sublist"
begin

text \<open>
  The usage store (\<open>internal/usage/store.go\<close>, \<open>internal/usage/sqlite.go\<close>): the bounded queue and its
  one worker as a state machine, the SQL statements it executes as functions on the two tables, the
  aggregation behind \<open>sleepyrouter usage\<close>, and the migration of old databases. A table is an association
  list with its primary key, in row order. What SQLite may choose is a parameter: whether a statement
  succeeds, the text of \<open>datetime('now')\<close>, and the order in which groups of equal size are returned. The
  list of accepted requests is the model's own, for stating what is lost.
\<close>

section \<open>Tables and statements\<close>

record request_row =
  rq_request_id :: string
  rq_started_at :: string
  rq_completed_at :: string
  rq_protocol :: string
  rq_requested_model :: string
  rq_routed_model :: string
  rq_provider :: string
  rq_attempts :: nat
  rq_input_tokens :: int
  rq_cached_input_tokens :: int
  rq_cache_write_input_tokens :: int
  rq_output_tokens :: int
  rq_success :: int
  rq_error_class :: string
  rq_duration_ms :: int
  rq_claude_session_id :: string
  rq_config_generation :: nat

record attempt_row =
  at_request_id :: string
  at_attempt_index :: nat
  at_model :: string
  at_provider :: string
  at_started_at :: string
  at_duration_ms :: int
  at_success :: int
  at_status_code :: int
  at_error_class :: string

record usage_db =
  db_requests :: "(string \<times> request_row) list"
  db_attempts :: "((string \<times> nat) \<times> attempt_row) list"

definition empty_db :: usage_db where
  "empty_db = \<lparr>db_requests = [], db_attempts = []\<rparr>"

text \<open>\<open>INSERT OR REPLACE\<close>: a row with the same primary key is deleted first.\<close>

definition replace_row :: "'k \<Rightarrow> 'r \<Rightarrow> ('k \<times> 'r) list \<Rightarrow> ('k \<times> 'r) list" where
  "replace_row k r t = filter (\<lambda>(k', _). k' \<noteq> k) t @ [(k, r)]"

datatype statement = PutRequest usage_record | PutAttempt usage_attempt

definition bit_of :: "bool \<Rightarrow> int" where
  "bit_of b = (if b then 1 else 0)"

definition insert_statements :: "usage_rows \<Rightarrow> statement list" where
  "insert_statements rows = PutRequest (fst rows) # map PutAttempt (snd rows)"

text \<open>The columns in the order of the statement, with the values bound to them.\<close>

definition bind_request :: "string \<Rightarrow> usage_record \<Rightarrow> request_row" where
  "bind_request now r =
     \<lparr>rq_request_id = us_request_id r, rq_started_at = now, rq_completed_at = now, rq_protocol = us_protocol r,
      rq_requested_model = us_requested_model r, rq_routed_model = us_routed_model r, rq_provider = us_provider r,
      rq_attempts = us_attempts r, rq_input_tokens = us_in_tokens r, rq_cached_input_tokens = us_cached_in r,
      rq_cache_write_input_tokens = us_cache_write_in r, rq_output_tokens = us_out_tokens r,
      rq_success = bit_of (us_success r), rq_error_class = us_error_class r, rq_duration_ms = us_duration_ms r,
      rq_claude_session_id = us_session_id r, rq_config_generation = us_config_gen r\<rparr>"

definition bind_attempt :: "string \<Rightarrow> usage_attempt \<Rightarrow> attempt_row" where
  "bind_attempt now a =
     \<lparr>at_request_id = ua_request_id a, at_attempt_index = ua_index a, at_model = ua_model a, at_provider = ua_provider a,
      at_started_at = now, at_duration_ms = ua_duration_ms a, at_success = bit_of (ua_success a),
      at_status_code = ua_status_code a, at_error_class = ua_error_class a\<rparr>"

fun exec_statement :: "string \<Rightarrow> statement \<Rightarrow> usage_db \<Rightarrow> usage_db" where
  "exec_statement now (PutRequest r) db =
     (let row = bind_request now r in db\<lparr>db_requests := replace_row (rq_request_id row) row (db_requests db)\<rparr>)"
| "exec_statement now (PutAttempt a) db =
     (let row = bind_attempt now a in
      db\<lparr>db_attempts := replace_row (at_request_id row, at_attempt_index row) row (db_attempts db)\<rparr>)"

section \<open>The queue and its worker\<close>

record usage_store =
  sto_enabled :: bool
  sto_open :: bool
  sto_closed :: bool
  sto_queue :: "usage_rows list"
  sto_running :: "statement list"
  sto_db :: usage_db
  sto_accepted :: "usage_rows list"

definition queue_cap :: nat where
  "queue_cap = 1024"

definition open_store :: "bool \<Rightarrow> bool \<Rightarrow> usage_db \<Rightarrow> usage_store" where
  "open_store enabled opens db =
     \<lparr>sto_enabled = enabled, sto_open = (enabled \<and> opens), sto_closed = False, sto_queue = [],
      sto_running = [], sto_db = db, sto_accepted = []\<rparr>"

definition record_request :: "usage_rows \<Rightarrow> usage_store \<Rightarrow> usage_store" where
  "record_request rows s =
     (if \<not> sto_enabled s \<or> \<not> sto_open s then s
      else if length (sto_queue s) < queue_cap
      then s\<lparr>sto_queue := sto_queue s @ [rows], sto_accepted := sto_accepted s @ [rows]\<rparr>
      else s)"

text \<open>The worker takes the next job when the last is done, and executes it statement by statement.\<close>

definition worker_receive :: "usage_store \<Rightarrow> usage_store" where
  "worker_receive s =
     (case sto_queue s of
        [] \<Rightarrow> s
      | rows # rest \<Rightarrow>
          if sto_running s = [] then s\<lparr>sto_queue := rest, sto_running := insert_statements rows\<rparr> else s)"

definition worker_exec :: "string \<Rightarrow> bool \<Rightarrow> usage_store \<Rightarrow> usage_store" where
  "worker_exec now ok s =
     (case sto_running s of
        [] \<Rightarrow> s
      | st # rest \<Rightarrow>
          s\<lparr>sto_running := rest,
            sto_db := (if ok \<and> \<not> sto_closed s then exec_statement now st (sto_db s) else sto_db s)\<rparr>)"

text \<open>\<open>Close\<close> closes the database and leaves the channel and what waits in it.\<close>

definition close_store :: "usage_store \<Rightarrow> usage_store" where
  "close_store s = (if sto_open s then s\<lparr>sto_closed := True\<rparr> else s)"

datatype store_input = Record usage_rows | Receive | Exec string bool | Close

fun store_step :: "usage_store \<Rightarrow> store_input \<Rightarrow> usage_store" where
  "store_step s (Record rows) = record_request rows s"
| "store_step s Receive = worker_receive s"
| "store_step s (Exec now ok) = worker_exec now ok s"
| "store_step s Close = close_store s"

definition run_store :: "usage_store \<Rightarrow> store_input list \<Rightarrow> usage_store" where
  "run_store s ins = foldl store_step s ins"

section \<open>Aggregation\<close>

datatype condition = ModelIs string string | StartedFrom string | StartedBefore string

text \<open>A Go time in UTC to the second; \<open>None\<close> is the zero time.\<close>

record civil =
  cv_year :: nat
  cv_month :: nat
  cv_day :: nat
  cv_hour :: nat
  cv_minute :: nat
  cv_second :: nat

fun pad_digits :: "nat \<Rightarrow> nat \<Rightarrow> string" where
  "pad_digits 0 n = []"
| "pad_digits (Suc w) n = pad_digits w (n div 10) @ [char_of (48 + n mod 10)]"

definition time_text :: "civil \<Rightarrow> string" where
  "time_text c =
     pad_digits 4 (cv_year c) @ ''-'' @ pad_digits 2 (cv_month c) @ ''-'' @ pad_digits 2 (cv_day c) @ '' '' @
     pad_digits 2 (cv_hour c) @ '':'' @ pad_digits 2 (cv_minute c) @ '':'' @ pad_digits 2 (cv_second c)"

definition filtered_where :: "string \<Rightarrow> civil option \<Rightarrow> civil option \<Rightarrow> condition list" where
  "filtered_where model from_time to_time =
     (if model = [] then [] else [ModelIs model model]) @
     (case from_time of None \<Rightarrow> [] | Some t \<Rightarrow> [StartedFrom (time_text t)]) @
     (case to_time of None \<Rightarrow> [] | Some t \<Rightarrow> [StartedBefore (time_text t)])"

fun cond_holds :: "condition \<Rightarrow> request_row \<Rightarrow> bool" where
  "cond_holds (ModelIs m n) r = (rq_routed_model r = m \<or> rq_requested_model r = n)"
| "cond_holds (StartedFrom t) r = (\<not> str_less (rq_started_at r) t)"
| "cond_holds (StartedBefore t) r = str_less (rq_started_at r) t"

definition select_rows :: "condition list \<Rightarrow> usage_db \<Rightarrow> request_row list" where
  "select_rows conds db = filter (\<lambda>r. list_all (\<lambda>c. cond_holds c r) conds) (map snd (db_requests db))"

record counters =
  ct_requests :: int
  ct_failed :: int
  ct_input :: int
  ct_cached :: int
  ct_cache_write :: int
  ct_output :: int

record usage_summary = counters +
  sm_by_model :: "(string \<times> counters) list"

definition zero_counters :: counters where
  "zero_counters = \<lparr>ct_requests = 0, ct_failed = 0, ct_input = 0, ct_cached = 0, ct_cache_write = 0, ct_output = 0\<rparr>"

text \<open>\<open>COALESCE(SUM(...), 0)\<close>: an overflow of a partial sum is an error of the query.\<close>

fun sum_from :: "int \<Rightarrow> int list \<Rightarrow> int option" where
  "sum_from acc [] = Some acc"
| "sum_from acc (x # xs) = (if in_int64 (acc + x) then sum_from (acc + x) xs else None)"

definition count_failed :: "request_row \<Rightarrow> int" where
  "count_failed r = (if rq_success r = 0 then 1 else 0)"

definition aggregate :: "request_row list \<Rightarrow> counters option" where
  "aggregate rows =
     do {
       failed \<leftarrow> sum_from 0 (map count_failed rows);
       inp \<leftarrow> sum_from 0 (map rq_input_tokens rows);
       cached \<leftarrow> sum_from 0 (map rq_cached_input_tokens rows);
       written \<leftarrow> sum_from 0 (map rq_cache_write_input_tokens rows);
       outp \<leftarrow> sum_from 0 (map rq_output_tokens rows);
       Some \<lparr>ct_requests = int (length rows), ct_failed = failed, ct_input = inp, ct_cached = cached,
             ct_cache_write = written, ct_output = outp\<rparr>
     }"

text \<open>\<open>COALESCE(NULLIF(routed_model, ''), requested_model)\<close>.\<close>

definition model_key :: "request_row \<Rightarrow> string" where
  "model_key r =
     (if rq_routed_model r = [] then rq_requested_model r
      else rq_routed_model r)"

definition aggregate_group :: "request_row list \<Rightarrow> string \<Rightarrow> (string \<times> counters) option" where
  "aggregate_group rows m = map_option (Pair m) (aggregate (filter (\<lambda>r. model_key r = m) rows))"

definition group_rows :: "(string list \<Rightarrow> string list) \<Rightarrow> request_row list \<Rightarrow> (string \<times> counters) list option" where
  "group_rows order rows =
     map_option (sort_key (\<lambda>(_, c). - ct_requests c))
       (dec_all (aggregate_group rows) (order (remdups (map model_key rows))))"

definition summary_of :: "counters \<Rightarrow> (string \<times> counters) list \<Rightarrow> usage_summary" where
  "summary_of c ms =
     \<lparr>ct_requests = ct_requests c, ct_failed = ct_failed c, ct_input = ct_input c, ct_cached = ct_cached c,
      ct_cache_write = ct_cache_write c, ct_output = ct_output c, sm_by_model = ms\<rparr>"

definition summary_filtered ::
    "(string list \<Rightarrow> string list) \<Rightarrow> string \<Rightarrow> civil option \<Rightarrow> civil option \<Rightarrow> usage_store \<Rightarrow> usage_summary" where
  "summary_filtered order model from_time to_time s =
     (if \<not> sto_enabled s \<or> \<not> sto_open s \<or> sto_closed s then summary_of zero_counters []
      else (let rows = select_rows (filtered_where model from_time to_time) (sto_db s) in
        summary_of (case aggregate rows of None \<Rightarrow> zero_counters | Some c \<Rightarrow> c)
          (case group_rows order rows of None \<Rightarrow> [] | Some ms \<Rightarrow> ms)))"

section \<open>Migration\<close>

type_synonym schema = "(string \<times> string list) list"

definition request_columns :: "string list" where
  "request_columns =
     [''request_id'', ''started_at'', ''completed_at'', ''protocol'', ''requested_model'', ''routed_model'',
      ''provider'', ''attempts'', ''input_tokens'', ''cached_input_tokens'', ''cache_write_input_tokens'',
      ''output_tokens'', ''success'', ''error_class'', ''duration_ms'', ''claude_session_id'',
      ''config_generation'']"

definition attempt_columns :: "string list" where
  "attempt_columns =
     [''request_id'', ''attempt_index'', ''model'', ''provider'', ''started_at'', ''duration_ms'',
      ''success'', ''status_code'', ''error_class'']"

definition create_table :: "string \<Rightarrow> string list \<Rightarrow> schema \<Rightarrow> schema" where
  "create_table t cols sch = (if map_of sch t = None then sch @ [(t, cols)] else sch)"

text \<open>Altering a table that is not there fails.\<close>

definition ensure_column :: "string \<Rightarrow> string \<Rightarrow> schema \<Rightarrow> schema option" where
  "ensure_column t col sch =
     (case map_of sch t of
        None \<Rightarrow> None
      | Some cols \<Rightarrow> if col \<in> set cols then Some sch else Some (AList.update t (cols @ [col]) sch))"

definition migrate :: "schema \<Rightarrow> schema option" where
  "migrate sch =
     do {
       sch1 \<leftarrow> ensure_column ''requests'' ''cached_input_tokens''
                (create_table ''requests'' request_columns sch);
       sch2 \<leftarrow> ensure_column ''requests'' ''cache_write_input_tokens'' sch1;
       Some (create_table ''attempts'' attempt_columns sch2)
     }"

section \<open>What reaches the tables\<close>

lemma map_of_replace_row: "map_of (replace_row k r t) = (map_of t)(k \<mapsto> r)"
proof -
  have "map_of (filter (\<lambda>(k', _). k' \<noteq> k) t) = (map_of t)(k := None)"
    by (induction t) (auto simp: fun_eq_iff)
  then show ?thesis by (auto simp: replace_row_def fun_eq_iff map_add_def split: option.split)
qed

lemma replace_row_keys: "distinct (map fst t) \<Longrightarrow> distinct (map fst (replace_row k r t))"
  by (auto simp: replace_row_def distinct_map inj_on_def)

text \<open>
  What a reader of the tables finds under a key, apart from the times: a row is a success unless its
  column says 0, as the report reads it.
\<close>

definition read_request :: "request_row \<Rightarrow> usage_record" where
  "read_request row =
     \<lparr>us_request_id = rq_request_id row, us_protocol = rq_protocol row, us_requested_model = rq_requested_model row,
      us_routed_model = rq_routed_model row, us_provider = rq_provider row, us_attempts = rq_attempts row,
      us_in_tokens = rq_input_tokens row, us_out_tokens = rq_output_tokens row,
      us_cached_in = rq_cached_input_tokens row, us_cache_write_in = rq_cache_write_input_tokens row,
      us_success = (rq_success row \<noteq> 0), us_error_class = rq_error_class row, us_duration_ms = rq_duration_ms row,
      us_session_id = rq_claude_session_id row, us_config_gen = rq_config_generation row\<rparr>"

definition read_attempt :: "attempt_row \<Rightarrow> usage_attempt" where
  "read_attempt row =
     \<lparr>ua_request_id = at_request_id row, ua_index = at_attempt_index row, ua_model = at_model row,
      ua_provider = at_provider row, ua_duration_ms = at_duration_ms row, ua_success = (at_success row \<noteq> 0),
      ua_status_code = at_status_code row, ua_error_class = at_error_class row\<rparr>"

definition request_records :: "usage_db \<Rightarrow> string \<Rightarrow> usage_record option" where
  "request_records db = (\<lambda>k. map_option read_request (map_of (db_requests db) k))"

definition attempt_records :: "usage_db \<Rightarrow> string \<times> nat \<Rightarrow> usage_attempt option" where
  "attempt_records db = (\<lambda>k. map_option read_attempt (map_of (db_attempts db) k))"

lemma read_bound [simp]:
  "read_request (bind_request now r) = r" "rq_request_id (bind_request now r) = us_request_id r"
  "read_attempt (bind_attempt now a) = a" "at_request_id (bind_attempt now a) = ua_request_id a"
  "at_attempt_index (bind_attempt now a) = ua_index a"
  by (simp_all add: read_request_def bind_request_def read_attempt_def bind_attempt_def bit_of_def)

lemma exec_request_records:
  "request_records (exec_statement now (PutRequest r) db) = (request_records db)(us_request_id r \<mapsto> r)"
  "request_records (exec_statement now (PutAttempt a) db) = request_records db"
  by (auto simp: request_records_def map_of_replace_row fun_eq_iff Let_def)

lemma exec_attempt_records:
  "attempt_records (exec_statement now (PutRequest r) db) = attempt_records db"
  "attempt_records (exec_statement now (PutAttempt a) db) = (attempt_records db)((ua_request_id a, ua_index a) \<mapsto> a)"
  by (auto simp: attempt_records_def map_of_replace_row fun_eq_iff Let_def)

declare exec_statement.simps [simp del]

text \<open>
  What both tables promise: a statement writes one row or none, and a log of statements leaves under each
  key what the last of its writes put there.
\<close>

locale keyed_table =
  fixes exec :: "string \<Rightarrow> statement \<Rightarrow> 'd \<Rightarrow> 'd"
    and contents :: "'d \<Rightarrow> 'k \<Rightarrow> 'v option"
    and puts :: "statement \<Rightarrow> ('k \<times> 'v) list"
  assumes exec_contents: "contents (exec now st d) = contents d ++ map_of (rev (puts st))"
begin

lemma log_contents:
  "contents (foldl (\<lambda>d (now, st). exec now st d) d log) =
     contents d ++ map_of (rev (concat (map (puts \<circ> snd) log)))"
proof (induction log rule: rev_induct)
  case (snoc e log)
  obtain now st where "e = (now, st)" by (cases e)
  with snoc show ?case by (simp add: exec_contents map_add_assoc)
qed simp

end

fun request_put :: "statement \<Rightarrow> (string \<times> usage_record) list" where
  "request_put (PutRequest r) = [(us_request_id r, r)]"
| "request_put (PutAttempt a) = []"

fun attempt_put :: "statement \<Rightarrow> ((string \<times> nat) \<times> usage_attempt) list" where
  "attempt_put (PutRequest r) = []"
| "attempt_put (PutAttempt a) = [((ua_request_id a, ua_index a), a)]"

interpretation requests: keyed_table exec_statement request_records request_put
proof
  fix now st db
  show "request_records (exec_statement now st db) = request_records db ++ map_of (rev (request_put st))"
    by (cases st) (simp_all add: exec_request_records map_add_def fun_eq_iff)
qed

interpretation attempts: keyed_table exec_statement attempt_records attempt_put
proof
  fix now st db
  show "attempt_records (exec_statement now st db) = attempt_records db ++ map_of (rev (attempt_put st))"
    by (cases st) (simp_all add: exec_attempt_records map_add_def fun_eq_iff)
qed

definition exec_log :: "(string \<times> statement) list \<Rightarrow> usage_db \<Rightarrow> usage_db" where
  "exec_log log db = foldl (\<lambda>d (now, st). exec_statement now st d) db log"

lemma exec_log_snoc: "exec_log (log @ [(now, st)]) db = exec_statement now st (exec_log log db)"
  by (simp add: exec_log_def)

lemma puts_of_statements:
  "concat (map request_put (insert_statements rows)) = [(us_request_id (fst rows), fst rows)]"
  "concat (map attempt_put (insert_statements rows)) = map (\<lambda>a. ((ua_request_id a, ua_index a), a)) (snd rows)"
proof -
  have "concat (map request_put (map PutAttempt as)) = []"
    "concat (map attempt_put (map PutAttempt as)) = map (\<lambda>a. ((ua_request_id a, ua_index a), a)) as" for as
    by (induction as) auto
  then show "concat (map request_put (insert_statements rows)) = [(us_request_id (fst rows), fst rows)]"
    "concat (map attempt_put (insert_statements rows)) = map (\<lambda>a. ((ua_request_id a, ua_index a), a)) (snd rows)"
    by (simp_all add: insert_statements_def)
qed

lemma puts_of_rows:
  "concat (map request_put (concat (map insert_statements rows))) = map (\<lambda>(r, _). (us_request_id r, r)) rows"
  "concat (map attempt_put (concat (map insert_statements rows))) =
     concat (map (\<lambda>(_, as). map (\<lambda>a. ((ua_request_id a, ua_index a), a)) as) rows)"
  by (induction rows) (simp_all add: puts_of_statements split_beta)

section \<open>Invariants of the store\<close>

lemma run_store_Nil [simp]: "run_store s [] = s"
  by (simp add: run_store_def)

lemma run_store_snoc: "run_store s (ins @ [i]) = store_step (run_store s ins) i"
  by (simp add: run_store_def)

fun offered :: "store_input list \<Rightarrow> usage_rows list" where
  "offered [] = []"
| "offered (Record rows # ins) = rows # offered ins"
| "offered (_ # ins) = offered ins"

lemma offered_append: "offered (xs @ ys) = offered xs @ offered ys"
  by (induction xs rule: offered.induct) auto

lemmas store_ops = record_request_def worker_receive_def worker_exec_def close_store_def

lemma store_step_flags: "sto_enabled (store_step s i) = sto_enabled s \<and> sto_open (store_step s i) = sto_open s"
  by (cases i) (auto simp: store_ops split: list.split)

lemma run_store_flags: "sto_enabled (run_store s ins) = sto_enabled s \<and> sto_open (run_store s ins) = sto_open s"
  by (induction ins rule: rev_induct) (simp_all add: run_store_snoc store_step_flags)

lemma queue_bounded:
  "length (sto_queue (run_store (open_store e op db) ins)) \<le> queue_cap"
proof (induction ins rule: rev_induct)
  case Nil
  then show ?case by (simp add: open_store_def)
next
  case (snoc i ins)
  then show ?case by (cases i) (auto simp: run_store_snoc store_ops split: list.splits)
qed

lemma accepted_subseq: "subseq (sto_accepted (run_store (open_store e op db) ins)) (offered ins)"
proof (induction ins rule: rev_induct)
  case Nil
  then show ?case by (simp add: open_store_def)
next
  case (snoc i ins)
  then show ?case
    by (cases i) (auto simp: run_store_snoc offered_append store_ops split: list.split
        intro: list_emb_append_mono list_emb_prefix)
qed

text \<open>Without failing writes nothing accepted is lost on the way to the tables.\<close>

fun write_succeeds :: "store_input \<Rightarrow> bool" where
  "write_succeeds (Exec now ok) = ok"
| "write_succeeds Close = False"
| "write_succeeds _ = True"

text \<open>
  The accepted rows are those the worker took and those in the queue; its log holds the statements of
  all it took, except what is left of the last.
\<close>

definition accounted :: "usage_db \<Rightarrow> usage_store \<Rightarrow> bool" where
  "accounted db s \<longleftrightarrow> \<not> sto_closed s \<and>
     (\<exists>taken log. sto_accepted s = taken @ sto_queue s \<and>
        map snd log @ sto_running s = concat (map insert_statements taken) \<and> sto_db s = exec_log log db \<and>
        (sto_running s = [] \<or> taken \<noteq> [] \<and> length (sto_running s) \<le> length (insert_statements (last taken))))"

lemma accounted_step:
  assumes "accounted db s" and "write_succeeds i"
  shows "accounted db (store_step s i)"
proof -
  obtain taken log where t: "sto_accepted s = taken @ sto_queue s"
      "map snd log @ sto_running s = concat (map insert_statements taken)" "sto_db s = exec_log log db"
      "sto_running s = [] \<or> taken \<noteq> [] \<and> length (sto_running s) \<le> length (insert_statements (last taken))"
      "\<not> sto_closed s"
    using assms(1) unfolding accounted_def by blast
  show ?thesis
  proof (cases i)
    case (Exec now ok)
    with assms(2) have ok: "ok" by simp
    show ?thesis
    proof (cases "sto_running s")
      case Nil
      with assms(1) show ?thesis by (simp add: Exec worker_exec_def)
    next
      case (Cons st rest)
      with t ok show ?thesis unfolding accounted_def
        by (intro conjI exI [of _ taken] exI [of _ "log @ [(now, st)]"]) (auto simp: Exec worker_exec_def exec_log_snoc)
    qed
  next
    case (Record rows)
    with t show ?thesis unfolding accounted_def
      by (intro conjI exI [of _ taken] exI [of _ log]) (auto simp: record_request_def)
  next
    case Receive
    show ?thesis
    proof (cases "sto_queue s = [] \<or> sto_running s \<noteq> []")
      case True
      then have "worker_receive s = s" by (auto simp: worker_receive_def split: list.split)
      with assms(1) show ?thesis by (simp add: Receive)
    next
      case False
      then obtain rows rest where "sto_queue s = rows # rest" by (cases "sto_queue s") auto
      with t False show ?thesis unfolding accounted_def
        by (intro conjI exI [of _ "taken @ [rows]"] exI [of _ log]) (auto simp: Receive worker_receive_def)
    qed
  next
    case Close
    with assms(2) show ?thesis by simp
  qed
qed

lemma accepted_accounted: "list_all write_succeeds ins \<Longrightarrow> accounted db (run_store (open_store e op db) ins)"
proof (induction ins rule: rev_induct)
  case Nil
  then show ?case unfolding accounted_def
    by (intro conjI exI [of _ "[]"]) (auto simp: open_store_def exec_log_def)
next
  case (snoc i ins)
  then show ?case by (simp add: run_store_snoc accounted_step)
qed

text \<open>How many accepted rows the table of requests holds: all but those in the queue and the one in work.\<close>

definition stored_first :: "usage_db \<Rightarrow> usage_store \<Rightarrow> nat \<Rightarrow> bool" where
  "stored_first db s n \<longleftrightarrow> n \<le> length (sto_accepted s) \<and> request_records (sto_db s) =
     request_records db ++ map_of (rev (map (\<lambda>(r, _). (us_request_id r, r)) (take n (sto_accepted s))))"

lemma accounted_stored:
  assumes "accounted db s"
  shows "\<exists>n. n + length (sto_queue s) \<le> length (sto_accepted s) \<and>
    length (sto_accepted s) \<le> Suc (n + length (sto_queue s)) \<and> stored_first db s n"
proof -
  obtain taken log where t: "sto_accepted s = taken @ sto_queue s"
      "map snd log @ sto_running s = concat (map insert_statements taken)" "sto_db s = exec_log log db"
      "sto_running s = [] \<or> taken \<noteq> [] \<and> length (sto_running s) \<le> length (insert_statements (last taken))"
    using assms unfolding accounted_def by blast
  have db: "request_records (sto_db s) = request_records db ++ map_of (rev (concat (map request_put (map snd log))))"
    using requests.log_contents [of db log] by (simp add: t(3) exec_log_def comp_def)
  show ?thesis
  proof (cases "sto_running s = []")
    case True
    with t(2) have "map snd log = concat (map insert_statements taken)" by simp
    then have "stored_first db s (length taken)"
      using db t(1) by (simp only: puts_of_rows stored_first_def) simp
    with t(1) show ?thesis by (intro exI [of _ "length taken"]) simp
  next
    case False
    with t(4) obtain before cur where c: "taken = before @ [cur]" "length (sto_running s) \<le> length (insert_statements cur)"
      by (cases taken rule: rev_cases) auto
    define part where "part = take (length (insert_statements cur) - length (sto_running s)) (insert_statements cur)"
    have "map snd log @ sto_running s = concat (map insert_statements before) @ insert_statements cur"
      using t(2) c(1) by simp
    then have "map snd log = take (length (concat (map insert_statements before) @ insert_statements cur) - length (sto_running s))
        (concat (map insert_statements before) @ insert_statements cur)"
      by (metis append_eq_conv_conj diff_add_inverse2 length_append)
    also have "\<dots> = concat (map insert_statements before) @ part"
      using c(2) by (simp add: part_def)
    finally have l: "map snd log = concat (map insert_statements before) @ part" .
    have puts: "concat (map request_put (map snd log)) =
        map (\<lambda>(r, _). (us_request_id r, r)) before @ concat (map request_put part)"
      unfolding l by (simp only: map_append concat_append puts_of_rows)
    have none: "concat (map request_put (take m (map PutAttempt as))) = []" for m as
      unfolding take_map by (induction as arbitrary: m) (auto simp: take_Cons split: nat.split)
    show ?thesis
    proof (cases part)
      case Nil
      with puts db t(1) c(1) have "stored_first db s (length before)" by (simp add: stored_first_def)
      with t(1) c(1) show ?thesis by (intro exI [of _ "length before"]) simp
    next
      case (Cons st sts)
      then obtain m where "length (insert_statements cur) - length (sto_running s) = Suc m"
        by (cases "length (insert_statements cur) - length (sto_running s)") (auto simp: part_def)
      then have "concat (map request_put part) = [(us_request_id (fst cur), fst cur)]"
        using none by (simp add: part_def insert_statements_def)
      with puts db t(1) c(1) have "stored_first db s (Suc (length before))"
        by (simp add: stored_first_def case_prod_beta)
      with t(1) c(1) show ?thesis by (intro exI [of _ "Suc (length before)"]) simp
    qed
  qed
qed

text \<open>A record is refused only while the queue is full, that is, while that many accepted rows wait.\<close>

lemma refused_when_full:
  assumes "list_all write_succeeds ins"
  shows "sto_accepted (run_store (open_store True True db) (ins @ [Record rows])) =
      sto_accepted (run_store (open_store True True db) ins) @ [rows] \<or>
    sto_accepted (run_store (open_store True True db) (ins @ [Record rows])) = sto_accepted (run_store (open_store True True db) ins) \<and>
    (\<exists>n. n + queue_cap \<le> length (sto_accepted (run_store (open_store True True db) ins)) \<and>
       length (sto_accepted (run_store (open_store True True db) ins)) \<le> Suc (n + queue_cap) \<and>
       stored_first db (run_store (open_store True True db) ins) n)"
proof -
  let ?s = "run_store (open_store True True db) ins"
  have fl: "sto_enabled ?s" "sto_open ?s" by (simp_all add: run_store_flags) (simp_all add: open_store_def)
  show ?thesis
  proof (cases "length (sto_queue ?s) < queue_cap")
    case True
    with fl show ?thesis by (simp add: run_store_snoc record_request_def)
  next
    case False
    with queue_bounded [of True True db ins] have q: "length (sto_queue ?s) = queue_cap" by simp
    from accounted_stored [OF accepted_accounted [OF assms, of db True True]] False fl show ?thesis
      by (simp add: run_store_snoc record_request_def q)
  qed
qed

lemma accepted_all:
  assumes "length (offered ins) \<le> queue_cap"
  shows "sto_accepted (run_store (open_store True True db) ins) = offered ins \<and>
    length (sto_queue (run_store (open_store True True db) ins)) \<le> length (offered ins)"
  using assms
proof (induction ins rule: rev_induct)
  case Nil
  then show ?case by (simp add: open_store_def)
next
  case (snoc i ins)
  have fl: "sto_enabled (run_store (open_store True True db) ins)" "sto_open (run_store (open_store True True db) ins)"
    by (simp_all add: run_store_flags) (simp_all add: open_store_def)
  from snoc fl show ?case
    by (cases i) (auto simp: run_store_snoc offered_append store_ops split: list.split)
qed

lemma closed_stays: "sto_closed s \<Longrightarrow> sto_closed (run_store s ins) \<and> sto_db (run_store s ins) = sto_db s"
proof (induction ins rule: rev_induct)
  case (snoc i ins)
  then show ?case by (cases i) (auto simp: run_store_snoc store_ops split: list.split)
qed simp

section \<open>Sums\<close>

lemma sum_from_fits:
  "list_all (\<lambda>x. 0 \<le> x) xs \<Longrightarrow> 0 \<le> acc \<Longrightarrow> acc + sum_list xs < 2 ^ 63 \<Longrightarrow> sum_from acc xs = Some (acc + sum_list xs)"
proof (induction xs arbitrary: acc)
  case (Cons x xs)
  have "0 \<le> sum_list xs" using Cons.prems(1) by (auto simp: list_all_iff intro: sum_list_nonneg)
  with Cons show ?case by (simp add: in_int64_def)
qed simp

lemma sum_from_value: "sum_from acc xs = Some n \<Longrightarrow> n = acc + sum_list xs"
proof (induction xs arbitrary: acc)
  case (Cons x xs)
  then have "n = (acc + x) + sum_list xs" by (auto split: if_splits)
  then show ?case by simp
qed simp

lemma sum_list_groups:
  assumes "distinct gs" "key ` set rows \<subseteq> set gs"
  shows "sum_list (map (\<lambda>g. sum_list (map f (filter (\<lambda>r. key r = g) rows))) gs) = (sum_list (map f rows) :: int)"
  using assms(2)
proof (induction rows)
  case (Cons r rows)
  have "sum_list (map (\<lambda>g. if key r = g then f r else 0) gs) = f r"
    using Cons.prems assms(1) by (simp add: sum_list_distinct_conv_sum_set sum.delta)
  moreover have "sum_list (map (\<lambda>g. sum_list (map f (filter (\<lambda>x. key x = g) (r # rows)))) gs) =
      sum_list (map (\<lambda>g. if key r = g then f r else 0) gs) +
      sum_list (map (\<lambda>g. sum_list (map f (filter (\<lambda>x. key x = g) rows))) gs)"
    unfolding sum_list_addf [symmetric] by (rule arg_cong [where f = sum_list]) auto
  ultimately show ?case using Cons by simp
qed simp

text \<open>The counters of some rows as plain sums.\<close>

definition exact_counters :: "request_row list \<Rightarrow> counters" where
  "exact_counters rows =
     \<lparr>ct_requests = int (length rows), ct_failed = sum_list (map count_failed rows),
      ct_input = sum_list (map rq_input_tokens rows),
      ct_cached = sum_list (map rq_cached_input_tokens rows),
      ct_cache_write = sum_list (map rq_cache_write_input_tokens rows),
      ct_output = sum_list (map rq_output_tokens rows)\<rparr>"

lemma aggregate_exact: "aggregate rows = Some c \<Longrightarrow> c = exact_counters rows"
  by (auto simp: aggregate_def exact_counters_def dest!: sum_from_value split: bind_splits)

definition column_fits :: "(request_row \<Rightarrow> int) \<Rightarrow> request_row list \<Rightarrow> bool" where
  "column_fits f rows \<longleftrightarrow> list_all (\<lambda>r. 0 \<le> f r) rows \<and> sum_list (map f rows) < 2 ^ 63"

definition counts_fit :: "request_row list \<Rightarrow> bool" where
  "counts_fit rows \<longleftrightarrow>
     column_fits count_failed rows \<and> column_fits rq_input_tokens rows \<and>
     column_fits rq_cached_input_tokens rows \<and> column_fits rq_cache_write_input_tokens rows \<and>
     column_fits rq_output_tokens rows"

lemma column_fits_filter: "column_fits f rows \<Longrightarrow> column_fits f (filter P rows)"
proof -
  assume a: "column_fits f rows"
  have "sum_list (map f (filter P rows)) \<le> sum_list (map f rows)"
    using a unfolding column_fits_def by (induction rows) (auto simp: column_fits_def)
  with a show ?thesis by (auto simp: column_fits_def list_all_iff)
qed

lemma counts_fit_filter: "counts_fit rows \<Longrightarrow> counts_fit (filter P rows)"
  by (simp add: counts_fit_def column_fits_filter)

lemma sum_from_column: "column_fits f rows \<Longrightarrow> sum_from 0 (map f rows) = Some (sum_list (map f rows))"
  using sum_from_fits [of "map f rows" 0] by (simp add: column_fits_def list_all_iff)

lemma aggregate_fits: "counts_fit rows \<Longrightarrow> aggregate rows = Some (exact_counters rows)"
  by (simp add: counts_fit_def aggregate_def exact_counters_def sum_from_column)

lemma dec_all_map: "(\<And>x. x \<in> set xs \<Longrightarrow> f x = Some (g x)) \<Longrightarrow> dec_all f xs = Some (map g xs)"
  by (induction xs) auto

lemma group_rows_fits:
  assumes "counts_fit rows"
  shows "group_rows order rows =
    Some (sort_key (\<lambda>(_, c). - ct_requests c)
      (map (\<lambda>m. (m, exact_counters (filter (\<lambda>r. model_key r = m) rows))) (order (remdups (map model_key rows)))))"
  unfolding group_rows_def
  by (subst dec_all_map [where g = "\<lambda>m. (m, exact_counters (filter (\<lambda>r. model_key r = m) rows))"])
    (simp_all add: aggregate_group_def aggregate_fits counts_fit_filter assms)

text \<open>The lines of the report, before they are ordered.\<close>

definition group_lines :: "request_row list \<Rightarrow> string list \<Rightarrow> (string \<times> counters) list" where
  "group_lines rows gs = map (\<lambda>m. (m, exact_counters (filter (\<lambda>r. model_key r = m) rows))) gs"

lemma group_lines_distinct: "distinct gs \<Longrightarrow> distinct (group_lines rows gs)"
  by (simp add: group_lines_def distinct_map inj_on_def)

lemma sort_key_sum: "distinct xs \<Longrightarrow> sum_list (map f (sort_key k xs)) = (sum_list (map f xs) :: int)"
  by (simp add: sum_list_distinct_conv_sum_set)

lemma int_length_sum: "int (length xs) = sum_list (map (\<lambda>_. 1) xs)"
  by (induction xs) auto

lemma group_lines_sums:
  assumes "distinct gs" "model_key ` set rows \<subseteq> set gs"
    and "f \<in> {ct_requests, ct_failed, ct_input, ct_cached, ct_cache_write, ct_output}"
  shows "sum_list (map (f \<circ> snd) (sort_key k (group_lines rows gs))) = f (exact_counters rows)"
proof -
  note groups = sum_list_groups [OF assms(1,2)]
  have "sum_list (map (f \<circ> snd) (group_lines rows gs)) = f (exact_counters rows)"
    using assms(3) groups [of "\<lambda>_. 1"] groups [of count_failed] groups [of "rq_input_tokens"]
      groups [of "rq_cached_input_tokens"] groups [of "rq_cache_write_input_tokens"]
      groups [of "rq_output_tokens"]
    by (auto simp: group_lines_def comp_def exact_counters_def int_length_sum)
  then show ?thesis by (simp only: sort_key_sum [OF group_lines_distinct [OF assms(1)]])
qed

section \<open>Times\<close>

lemma pad_digits_length [simp]: "length (pad_digits w n) = w"
  by (induction w n rule: pad_digits.induct) auto

lemma str_less_append:
  "length u = length v \<Longrightarrow> str_less (u @ s) (v @ t) \<longleftrightarrow> str_less u v \<or> u = v \<and> str_less s t"
  by (induction u v rule: list_induct2) auto

lemma str_less_irrefl [simp]: "\<not> str_less s s"
  by (induction s) auto

lemma byte_digit: "d < 10 \<Longrightarrow> byte (char_of (48 + d)) = 48 + d"
  by (simp add: byte_def)

lemma pad_digits_inj: "m < 10 ^ w \<Longrightarrow> n < 10 ^ w \<Longrightarrow> pad_digits w m = pad_digits w n \<Longrightarrow> m = n"
proof (induction w arbitrary: m n)
  case (Suc w)
  have "m mod 10 = n mod 10"
    using Suc.prems(3) byte_digit [of "m mod 10"] byte_digit [of "n mod 10"] by simp
  moreover have "m div 10 = n div 10" using Suc by (intro Suc.IH) auto
  ultimately show ?case by (metis div_mult_mod_eq)
qed simp

lemma div_mod_less_iff: "m div 10 < n div 10 \<or> m div 10 = n div 10 \<and> m mod 10 < n mod 10 \<longleftrightarrow> m < (n :: nat)"
proof -
  have "m = 10 * (m div 10) + m mod 10" "n = 10 * (n div 10) + n mod 10" "m mod 10 < 10" "n mod 10 < 10"
    by simp_all
  then show ?thesis by linarith
qed

lemma pad_digits_iff: "m < 10 ^ w \<Longrightarrow> n < 10 ^ w \<Longrightarrow> pad_digits w m = pad_digits w n \<longleftrightarrow> m = n"
  using pad_digits_inj by blast

lemma pad_digits_less: "m < 10 ^ w \<Longrightarrow> n < 10 ^ w \<Longrightarrow> str_less (pad_digits w m) (pad_digits w n) \<longleftrightarrow> m < n"
proof (induction w arbitrary: m n)
  case (Suc w)
  have b: "m div 10 < 10 ^ w" "n div 10 < 10 ^ w" using Suc.prems by auto
  have "str_less (pad_digits (Suc w) m) (pad_digits (Suc w) n) \<longleftrightarrow>
      m div 10 < n div 10 \<or> m div 10 = n div 10 \<and> m mod 10 < n mod 10"
    using Suc.IH [OF b] pad_digits_iff [OF b] byte_digit [of "m mod 10"] byte_digit [of "n mod 10"]
    by (simp add: str_less_append)
  also have "\<dots> \<longleftrightarrow> m < n" by (rule div_mod_less_iff)
  finally show ?case .
qed simp

definition civil_ok :: "civil \<Rightarrow> bool" where
  "civil_ok c \<longleftrightarrow>
     cv_year c < 10000 \<and> 1 \<le> cv_month c \<and> cv_month c \<le> 12 \<and> 1 \<le> cv_day c \<and> cv_day c \<le> 31 \<and>
     cv_hour c < 24 \<and> cv_minute c < 60 \<and> cv_second c < 60"

text \<open>Chronological order: the fields lexicographically.\<close>

definition civil_less :: "civil \<Rightarrow> civil \<Rightarrow> bool" where
  "civil_less a b \<longleftrightarrow>
     cv_year a < cv_year b \<or> cv_year a = cv_year b \<and>
     (cv_month a < cv_month b \<or> cv_month a = cv_month b \<and>
     (cv_day a < cv_day b \<or> cv_day a = cv_day b \<and>
     (cv_hour a < cv_hour b \<or> cv_hour a = cv_hour b \<and>
     (cv_minute a < cv_minute b \<or> cv_minute a = cv_minute b \<and> cv_second a < cv_second b))))"

lemma time_text_less:
  assumes "civil_ok a" "civil_ok b"
  shows "str_less (time_text a) (time_text b) \<longleftrightarrow> civil_less a b"
proof -
  have y: "cv_year c < 10 ^ 4" and f: "cv_month c < 10 ^ 2" "cv_day c < 10 ^ 2" "cv_hour c < 10 ^ 2"
      "cv_minute c < 10 ^ 2" "cv_second c < 10 ^ 2" if "civil_ok c" for c
    using that by (auto simp: civil_ok_def)
  note fields = y [OF assms(1)] y [OF assms(2)] f [OF assms(1)] f [OF assms(2)]
  show ?thesis
    unfolding time_text_def civil_less_def
    by (simp add: str_less_append pad_digits_less [OF fields(1,2)] pad_digits_iff [OF fields(1,2)]
        pad_digits_less [OF fields(3) fields(8)] pad_digits_iff [OF fields(3) fields(8)]
        pad_digits_less [OF fields(4) fields(9)] pad_digits_iff [OF fields(4) fields(9)]
        pad_digits_less [OF fields(5) fields(10)] pad_digits_iff [OF fields(5) fields(10)]
        pad_digits_less [OF fields(6) fields(11)] pad_digits_iff [OF fields(6) fields(11)]
        pad_digits_less [OF fields(7) fields(12)] del: pad_digits.simps)
qed

section \<open>Migration keeps what is there\<close>

lemma ensure_column_spec:
  assumes "map_of sch t = Some cols"
  shows "\<exists>sch' cols'. ensure_column t col sch = Some sch' \<and> map_of sch' t = Some cols' \<and>
    set cols' = insert col (set cols) \<and> (\<forall>u. u \<noteq> t \<longrightarrow> map_of sch' u = map_of sch u)"
  using assms by (auto simp: ensure_column_def update_conv insert_absorb)

lemma ensure_column_idem: "ensure_column t col sch = Some sch' \<Longrightarrow> ensure_column t col sch' = Some sch'"
  by (auto simp: ensure_column_def update_conv split: option.splits if_splits)

section \<open>Properties\<close>

text \<open>
  C34 (accepted usage is stored): while writes succeed and the store is open, an idle worker has brought
  every accepted request to the tables: under each request id and each attempt number a reader finds,
  column by column and the success flag included, what was accepted last with it, and otherwise what
  was there before. What is accepted is what was offered, in order, except rows that were refused; and
  at any moment of the history a row is refused only when 1024 accepted rows wait for the worker: the
  table of requests then holds all accepted rows but those 1024 and, at most, the one in work.
\<close>

theorem accepted_usage_is_stored:
  assumes "list_all write_succeeds ins" "s = run_store (open_store True True db) ins"
    and "sto_queue s = []" "sto_running s = []"
  shows "request_records (sto_db s) =
      request_records db ++ map_of (rev (map (\<lambda>(r, _). (us_request_id r, r)) (sto_accepted s))) \<and>
    attempt_records (sto_db s) =
      attempt_records db ++
      map_of (rev (concat (map (\<lambda>(_, as). map (\<lambda>a. ((ua_request_id a, ua_index a), a)) as) (sto_accepted s)))) \<and>
    subseq (sto_accepted s) (offered ins) \<and>
    (\<forall>xs rows ys t. ins = xs @ Record rows # ys \<longrightarrow> t = run_store (open_store True True db) xs \<longrightarrow>
       sto_accepted (record_request rows t) = sto_accepted t @ [rows] \<or>
       sto_accepted (record_request rows t) = sto_accepted t \<and>
       (\<exists>n. n + queue_cap \<le> length (sto_accepted t) \<and> length (sto_accepted t) \<le> Suc (n + queue_cap) \<and>
          stored_first db t n)) \<and>
    (length (offered ins) \<le> queue_cap \<longrightarrow> sto_accepted s = offered ins)"
proof -
  obtain log where log: "map snd log = concat (map insert_statements (sto_accepted s))" "sto_db s = exec_log log db"
    using accepted_accounted [OF assms(1), of db True True] assms(2-4) unfolding accounted_def by auto
  then have "map (request_put \<circ> snd) log = map request_put (concat (map insert_statements (sto_accepted s)))"
      "map (attempt_put \<circ> snd) log = map attempt_put (concat (map insert_statements (sto_accepted s)))"
    by (metis map_map)+
  moreover have "sto_accepted (record_request rows t) = sto_accepted t @ [rows] \<or>
       sto_accepted (record_request rows t) = sto_accepted t \<and>
       (\<exists>n. n + queue_cap \<le> length (sto_accepted t) \<and> length (sto_accepted t) \<le> Suc (n + queue_cap) \<and>
          stored_first db t n)"
    if "ins = xs @ Record rows # ys" "t = run_store (open_store True True db) xs" for xs rows ys t
    using refused_when_full [of xs db rows] assms(1) that by (simp add: run_store_snoc)
  ultimately show ?thesis
    using log(2) accepted_subseq accepted_all assms(2)
    by (simp add: exec_log_def requests.log_contents attempts.log_contents puts_of_rows)
qed

text \<open>
  C35 (a closed store loses its queue): once \<open>Close\<close> has run, no step of the worker changes the tables:
  the rows still queued or in work at shutdown are lost.
\<close>

theorem closed_store_loses_queue:
  assumes "sto_open s"
  shows "sto_db (run_store (close_store s) ins) = sto_db s"
  using closed_stays [of "close_store s" ins] assms by (simp add: close_store_def)

text \<open>
  C36 (the usage report adds up): when no sum overflows, the totals of the report are the exact counters
  of the selected rows, and its lines split those rows by model: no model twice, each line with the
  exact, non-empty counters of its model's rows, largest first, and every column adding up to the total.
  The order in which SQLite returns the groups is arbitrary.
\<close>

theorem usage_summary_adds_up:
  assumes "sto_enabled s" "sto_open s" "\<not> sto_closed s"
    and rows: "rows = select_rows (filtered_where model from_time to_time) (sto_db s)"
    and fits: "counts_fit rows"
    and order: "distinct (order (remdups (map model_key rows)))"
      "set (order (remdups (map model_key rows))) = model_key ` set rows"
    and sum: "su = summary_filtered order model from_time to_time s"
  shows "counters.truncate su = exact_counters rows \<and>
    distinct (map fst (sm_by_model su)) \<and>
    sorted_wrt (\<lambda>a b. ct_requests (snd b) \<le> ct_requests (snd a)) (sm_by_model su) \<and>
    list_all (\<lambda>(m, c). c = exact_counters (filter (\<lambda>r. model_key r = m) rows) \<and> 0 < ct_requests c)
      (sm_by_model su) \<and>
    list_all (\<lambda>f. sum_list (map (f \<circ> snd) (sm_by_model su)) = f (exact_counters rows))
      [ct_requests, ct_failed, ct_input, ct_cached, ct_cache_write, ct_output]"
proof -
  define gs where "gs = order (remdups (map model_key rows))"
  define k where "k = (\<lambda>(_ :: string, c :: counters). - ct_requests c)"
  have gs: "distinct gs" "set gs = model_key ` set rows" using order by (simp_all add: gs_def)
  have g: "group_rows order rows = Some (sort_key k (group_lines rows gs))"
    using group_rows_fits [OF fits] by (simp add: k_def gs_def group_lines_def)
  have su: "su = summary_of (exact_counters rows) (sort_key k (group_lines rows gs))"
    using assms(1-3) rows sum g aggregate_fits [OF fits] by (simp add: summary_filtered_def Let_def)
  have lines: "sm_by_model su = sort_key k (group_lines rows gs)" by (simp add: su summary_of_def)
  have "counters.truncate su = exact_counters rows" by (simp add: su summary_of_def counters.defs)
  moreover have "distinct (map fst (sm_by_model su))"
    using group_lines_distinct [OF gs(1), of rows] by (auto simp: lines distinct_map group_lines_def inj_on_def)
  moreover have "sorted (map k (sm_by_model su))" by (simp add: lines)
  then have "sorted_wrt (\<lambda>a b. ct_requests (snd b) \<le> ct_requests (snd a)) (sm_by_model su)"
    by (simp add: sorted_map k_def split_beta)
  moreover have "list_all (\<lambda>(m, c). c = exact_counters (filter (\<lambda>r. model_key r = m) rows) \<and> 0 < ct_requests c)
      (sm_by_model su)"
    using gs(2) by (auto simp: lines list_all_iff group_lines_def exact_counters_def length_greater_0_conv [symmetric]
        filter_empty_conv simp del: length_greater_0_conv)
  moreover have "list_all (\<lambda>f. sum_list (map (f \<circ> snd) (sm_by_model su)) = f (exact_counters rows))
      [ct_requests, ct_failed, ct_input, ct_cached, ct_cache_write, ct_output]"
    using group_lines_sums [OF gs(1), of rows _ k] gs(2) by (simp add: lines)
  ultimately show ?thesis by blast
qed

text \<open>
  The period of a report: the rows a report is about are those of the given model, routed or
  requested, that started in the given period of time, lower bound included and upper bound excluded,
  although the code compares texts.
\<close>

lemma report_selects_period:
  assumes "civil_ok t" "rq_started_at r = time_text t"
    and "list_all civil_ok (case from_time of None \<Rightarrow> [] | Some a \<Rightarrow> [a])"
    and "list_all civil_ok (case to_time of None \<Rightarrow> [] | Some b \<Rightarrow> [b])"
  shows "r \<in> set (select_rows (filtered_where model from_time to_time) db) \<longleftrightarrow>
    r \<in> snd ` set (db_requests db) \<and>
    (model = [] \<or> rq_routed_model r = model \<or> rq_requested_model r = model) \<and>
    (case from_time of None \<Rightarrow> True | Some a \<Rightarrow> \<not> civil_less t a) \<and>
    (case to_time of None \<Rightarrow> True | Some b \<Rightarrow> civil_less t b)"
  using assms by (auto simp: select_rows_def filtered_where_def time_text_less split: option.splits)

section \<open>Witnesses\<close>

definition sample_record :: "string \<Rightarrow> string \<Rightarrow> int \<Rightarrow> bool \<Rightarrow> usage_record" where
  "sample_record rid routed inT ok =
     fst (usage_row rid ''openai_responses'' ''smart'' routed ''zen'' inT 3 1 0 1 ok [] 5 [] 1 [])"

definition sample_attempt :: usage_attempt where
  "sample_attempt =
     \<lparr>ua_request_id = ''r2'', ua_index = 1, ua_model = ''a'', ua_provider = ''zen'', ua_duration_ms = 4,
      ua_success = False, ua_status_code = 500, ua_error_class = ''retryable''\<rparr>"

definition noon :: civil where
  "noon = \<lparr>cv_year = 2025, cv_month = 6, cv_day = 1, cv_hour = 12, cv_minute = 0, cv_second = 0\<rparr>"

definition sample_history :: "store_input list" where
  "sample_history =
     [Record (sample_record ''r1'' ''a'' 10 True, []),
      Record (sample_record ''r2'' [] 7 False, [sample_attempt]), Receive, Exec ''2025-06-01 12:00:00'' True,
      Record (sample_record ''r3'' ''a'' 5 True, []), Receive, Exec ''2025-06-01 12:00:00'' True,
      Exec ''2025-06-01 12:00:00'' True, Receive, Exec ''2025-06-01 12:00:00'' True]"

definition sample_store :: usage_store where
  "sample_store = run_store (open_store True True empty_db) sample_history"

lemma sample_store_eval:
  "list_all write_succeeds sample_history \<and> sto_queue sample_store = [] \<and> sto_running sample_store = [] \<and>
   length (offered sample_history) \<le> queue_cap \<and>
   map fst (offered sample_history) = [sample_record ''r1'' ''a'' 10 True, sample_record ''r2'' [] 7 False,
     sample_record ''r3'' ''a'' 5 True] \<and>
   sto_enabled sample_store \<and> sto_open sample_store \<and> \<not> sto_closed sample_store"
  unfolding sample_store_def run_store_def sample_history_def open_store_def
  by (simp add: store_ops insert_statements_def queue_cap_def)

theorem accepted_usage_is_stored_witness:
  "sto_accepted sample_store = offered sample_history \<and>
   request_records (sto_db sample_store) ''r2'' = Some (sample_record ''r2'' [] 7 False) \<and>
   \<not> us_success (sample_record ''r2'' [] 7 False)"
proof -
  have eval: "list_all write_succeeds sample_history" "sto_queue sample_store = []" "sto_running sample_store = []"
      "length (offered sample_history) \<le> queue_cap"
    using sample_store_eval by blast+
  note spec = accepted_usage_is_stored [OF eval(1) sample_store_def eval(2,3)]
  then have "sto_accepted sample_store = offered sample_history" using eval(4) by blast
  moreover have "map_of (rev (map (\<lambda>(r, _). (us_request_id r, r)) (offered sample_history))) ''r2'' =
      Some (sample_record ''r2'' [] 7 False)" by (simp add: sample_history_def sample_record_def usage_row_def)
  moreover have "\<not> us_success (sample_record ''r2'' [] 7 False)" by (simp add: sample_record_def usage_row_def)
  ultimately show ?thesis using spec by (simp add: map_add_def)
qed

theorem closed_store_loses_queue_witness:
  "let s = store_step (run_store (open_store True True empty_db) (take 4 sample_history)) Close
   in db_requests (sto_db (run_store s (drop 4 sample_history))) = db_requests (sto_db s) \<and> sto_queue s \<noteq> []"
proof -
  define t where "t = run_store (open_store True True empty_db) (take 4 sample_history)"
  have "sto_open t \<and> sto_queue t \<noteq> []"
    by (simp add: t_def run_store_def sample_history_def open_store_def store_ops insert_statements_def queue_cap_def)
  then show ?thesis
    using closed_store_loses_queue [of t "drop 4 sample_history"]
    by (simp add: t_def [symmetric] close_store_def Let_def)
qed

lemma sample_rows_eval:
  "let rows = select_rows (filtered_where [] None None) (sto_db sample_store)
   in counts_fit rows \<and> length rows = 3 \<and> remdups (map model_key rows) = [''smart'', ''a'']"
  by code_simp

theorem usage_summary_adds_up_witness:
  "let su = summary_filtered rev [] None None sample_store
   in ct_requests su = 3 \<and> sum_list (map (ct_requests \<circ> snd) (sm_by_model su)) = 3"
proof -
  define rows where "rows = select_rows (filtered_where [] None None) (sto_db sample_store)"
  have fits: "counts_fit rows" and n: "length rows = 3" and keys: "remdups (map model_key rows) = [''smart'', ''a'']"
    using sample_rows_eval by (simp_all only: Let_def rows_def)
  have "model_key ` set rows = set (remdups (map model_key rows))" by simp
  also have "\<dots> = set [''smart'', ''a'']" by (simp only: keys)
  finally have ks: "model_key ` set rows = set [''smart'', ''a'']" .
  have open_: "sto_enabled sample_store" "sto_open sample_store" "\<not> sto_closed sample_store"
    using sample_store_eval by blast+
  have "distinct (rev (remdups (map model_key rows)))"
      "set (rev (remdups (map model_key rows))) = model_key ` set rows" by simp_all
  note spec = usage_summary_adds_up [where order = rev, OF open_ rows_def fits this refl]
  have "ct_requests (exact_counters rows) = 3" by (simp add: exact_counters_def n)
  moreover have "ct_requests su = ct_requests (counters.truncate su)" for su :: usage_summary
    by (simp add: counters.defs)
  ultimately show ?thesis using spec by (simp add: Let_def)
qed

lemma report_selects_period_witness:
  "let r = bind_request (time_text noon) (sample_record ''r1'' ''a'' 10 True)
   in r \<in> set (select_rows (filtered_where ''a'' (Some noon) (Some (noon\<lparr>cv_hour := 13\<rparr>)))
         \<lparr>db_requests = [(''r1'', r)], db_attempts = []\<rparr>)"
  unfolding Let_def
  by (subst report_selects_period [of noon])
    (auto simp: civil_ok_def noon_def civil_less_def sample_record_def usage_row_def bind_request_def)

end
