(* ===== verification/Cli_Usage.thy ===== *)
theory Cli_Usage
  imports Usage_Store
begin

text \<open>
  \<open>sleepyrouter usage\<close> (\<open>runUsage\<close> of \<open>cmd/sleepyrouter/main.go\<close>): its flags, the period they stand for
  in the local calendar, and the printed report. The local time zone is a parameter: \<open>zn_utc\<close> is
  \<open>time.Date\<close> in \<open>time.Local\<close>, read in UTC, and \<open>zn_local\<close> is the way back.
\<close>

section \<open>Flags\<close>

record usage_flags =
  uf_today :: bool
  uf_week :: bool
  uf_date :: string
  uf_model :: string

definition no_flags :: usage_flags where
  "no_flags = \<lparr>uf_today = False, uf_week = False, uf_date = [], uf_model = []\<rparr>"

text \<open>\<open>Inl\<close> is the flag that is not known; a last flag without its value is ignored.\<close>

fun usage_args :: "string list \<Rightarrow> usage_flags \<Rightarrow> string + usage_flags" where
  "usage_args [] f = Inr f"
| "usage_args (a # as) f =
     (if a = ''--today'' then usage_args as (f\<lparr>uf_today := True\<rparr>)
      else if a = ''--week'' then usage_args as (f\<lparr>uf_week := True\<rparr>)
      else if a = ''--date'' then (case as of [] \<Rightarrow> Inr f | v # rest \<Rightarrow> usage_args rest (f\<lparr>uf_date := v\<rparr>))
      else if a = ''--model'' then (case as of [] \<Rightarrow> Inr f | v # rest \<Rightarrow> usage_args rest (f\<lparr>uf_model := v\<rparr>))
      else Inl a)"

section \<open>The calendar\<close>

record date =
  dt_year :: nat
  dt_month :: nat
  dt_day :: nat

definition leap_year :: "nat \<Rightarrow> bool" where
  "leap_year y \<longleftrightarrow> y mod 4 = 0 \<and> (y mod 100 \<noteq> 0 \<or> y mod 400 = 0)"

definition days_in :: "nat \<Rightarrow> nat \<Rightarrow> nat" where
  "days_in m y =
     (if m = 2 then (if leap_year y then 29 else 28) else if m \<in> {4, 6, 9, 11} then 30 else 31)"

definition date_ok :: "date \<Rightarrow> bool" where
  "date_ok d \<longleftrightarrow> 1 \<le> dt_month d \<and> dt_month d \<le> 12 \<and> 1 \<le> dt_day d \<and> dt_day d \<le> days_in (dt_month d) (dt_year d)"

definition next_day :: "date \<Rightarrow> date" where
  "next_day d =
     (if dt_day d < days_in (dt_month d) (dt_year d) then d\<lparr>dt_day := dt_day d + 1\<rparr>
      else if dt_month d < 12 then d\<lparr>dt_month := dt_month d + 1, dt_day := 1\<rparr>
      else \<lparr>dt_year = dt_year d + 1, dt_month = 1, dt_day = 1\<rparr>)"

definition prev_day :: "date \<Rightarrow> date" where
  "prev_day d =
     (if 1 < dt_day d then d\<lparr>dt_day := dt_day d - 1\<rparr>
      else if 1 < dt_month d
      then d\<lparr>dt_month := dt_month d - 1, dt_day := days_in (dt_month d - 1) (dt_year d)\<rparr>
      else \<lparr>dt_year = dt_year d - 1, dt_month = 12, dt_day = 31\<rparr>)"

text \<open>Days since the end of year zero; 1 January of year 1 was a Monday.\<close>

definition days_before_year :: "nat \<Rightarrow> nat" where
  "days_before_year y = 365 * (y - 1) + (y - 1) div 4 - (y - 1) div 100 + (y - 1) div 400"

definition days_before_month :: "nat \<Rightarrow> nat \<Rightarrow> nat" where
  "days_before_month m y = sum_list (map (\<lambda>k. days_in k y) [1..<m])"

definition day_number :: "date \<Rightarrow> nat" where
  "day_number d = days_before_year (dt_year d) + days_before_month (dt_month d) (dt_year d) + dt_day d"

definition weekday :: "date \<Rightarrow> nat" where
  "weekday d = day_number d mod 7"

definition date_of :: "civil \<Rightarrow> date" where
  "date_of c = \<lparr>dt_year = cv_year c, dt_month = cv_month c, dt_day = cv_day c\<rparr>"

definition on_date :: "date \<Rightarrow> civil \<Rightarrow> civil" where
  "on_date d c = c\<lparr>cv_year := dt_year d, cv_month := dt_month d, cv_day := dt_day d\<rparr>"

definition midnight :: "date \<Rightarrow> civil" where
  "midnight d =
     \<lparr>cv_year = dt_year d, cv_month = dt_month d, cv_day = dt_day d, cv_hour = 0, cv_minute = 0, cv_second = 0\<rparr>"

section \<open>The period\<close>

record zone =
  zn_utc :: "civil \<Rightarrow> civil"
  zn_local :: "civil \<Rightarrow> civil"

text \<open>\<open>AddDate\<close> keeps the local clock time.\<close>

definition add_days :: "zone \<Rightarrow> nat \<Rightarrow> civil \<Rightarrow> civil" where
  "add_days z n t = (let l = zn_local z t in zn_utc z (on_date ((next_day ^^ n) (date_of l)) l))"

definition sub_days :: "zone \<Rightarrow> nat \<Rightarrow> civil \<Rightarrow> civil" where
  "sub_days z n t = (let l = zn_local z t in zn_utc z (on_date ((prev_day ^^ n) (date_of l)) l))"

text \<open>\<open>ParseInLocation\<close> with the layout 20060102.\<close>

definition parse_date :: "string \<Rightarrow> date option" where
  "parse_date s =
     (if length s = 8 \<and> list_all is_digit s
      then (let d = \<lparr>dt_year = nat (digits_value (take 4 s)), dt_month = nat (digits_value (take 2 (drop 4 s))),
                     dt_day = nat (digits_value (drop 6 s))\<rparr>
        in if date_ok d then Some d else None)
      else None)"

type_synonym period = "civil option \<times> civil option"

definition usage_period :: "zone \<Rightarrow> civil \<Rightarrow> usage_flags \<Rightarrow> period option" where
  "usage_period z now f =
     (let today = date_of (zn_local z now) in
      if uf_date f \<noteq> []
      then map_option (\<lambda>d. let t = zn_utc z (midnight d) in (Some t, Some (add_days z 1 t))) (parse_date (uf_date f))
      else if uf_today f then Some (Some (zn_utc z (midnight today)), None)
      else if uf_week f
      then (let wd = (if weekday today = 0 then 7 else weekday today);
                monday = sub_days z (wd - 1) (zn_utc z (midnight today))
            in Some (Some monday, Some (add_days z 7 monday)))
      else Some (None, None))"

section \<open>The report\<close>

text \<open>Runes of valid UTF-8.\<close>

definition rune_count :: "string \<Rightarrow> nat" where
  "rune_count s = length (filter (\<lambda>c. byte c < 128 \<or> 192 \<le> byte c) s)"

definition pad_right :: "nat \<Rightarrow> string \<Rightarrow> string" where
  "pad_right n s = s @ replicate (n - rune_count s) CHR '' ''"

text \<open>
  The printed rate is a \<open>float64\<close> to one decimal: \<open>rate c i\<close> prints 100 * c / i for a positive i. The rate
  of no input is 0.
\<close>

definition hit_rate :: "(int \<Rightarrow> int \<Rightarrow> string) \<Rightarrow> int \<Rightarrow> int \<Rightarrow> string" where
  "hit_rate rate cached inp = (if inp \<le> 0 then ''0.0'' else rate cached inp)"

definition newline :: string where
  "newline = [char_of (10 :: nat)]"

definition total_line :: "(int \<Rightarrow> int \<Rightarrow> string) \<Rightarrow> usage_summary \<Rightarrow> string" where
  "total_line rate s =
     ''requests: '' @ itoa (ct_requests s) @ '' failed: '' @ itoa (ct_failed s) @ '' input: '' @ itoa (ct_input s) @
     '' output: '' @ itoa (ct_output s) @ '' cache-read: '' @ itoa (ct_cached s) @ '' cache-write: '' @
     itoa (ct_cache_write s) @ '' cache-hit: '' @ hit_rate rate (ct_cached s) (ct_input s) @ ''%'' @ newline"

definition model_line :: "(int \<Rightarrow> int \<Rightarrow> string) \<Rightarrow> string \<times> counters \<Rightarrow> string" where
  "model_line rate mc =
     (let c = snd mc in
      ''  '' @ pad_right 30 (fst mc) @ '' req='' @ itoa (ct_requests c) @ '' fail='' @ itoa (ct_failed c) @ '' in='' @
      itoa (ct_input c) @ '' out='' @ itoa (ct_output c) @ '' cache-read='' @ itoa (ct_cached c) @ '' cache-write='' @
      itoa (ct_cache_write c) @ '' cache-hit='' @ hit_rate rate (ct_cached c) (ct_input c) @ ''%'' @ newline)"

datatype usage_result = UnknownFlag string | InvalidDate string | Report string

definition run_usage ::
    "(string list \<Rightarrow> string list) \<Rightarrow> (int \<Rightarrow> int \<Rightarrow> string) \<Rightarrow> zone \<Rightarrow> civil \<Rightarrow> usage_store \<Rightarrow> string list
      \<Rightarrow> usage_result" where
  "run_usage order rate z now s args =
     (case usage_args args no_flags of
        Inl a \<Rightarrow> UnknownFlag a
      | Inr f \<Rightarrow>
          (case usage_period z now f of
             None \<Rightarrow> InvalidDate (uf_date f)
           | Some (from_time, to_time) \<Rightarrow>
               (let su = summary_filtered order (uf_model f) from_time to_time s
                in Report (total_line rate su @ concat (map (model_line rate) (sm_by_model su))))))"

section \<open>Days\<close>

lemma days_in_pos [simp]: "0 < days_in m y"
  by (simp add: days_in_def)

lemma days_before_next_month:
  "1 \<le> m \<Longrightarrow> days_before_month (m + 1) y = days_before_month m y + days_in m y"
  by (simp add: days_before_month_def)

lemma multiple_of_factor: "n mod (b * c) = 0 \<Longrightarrow> n mod c = (0 :: nat)"
  by (metis dvd_eq_mod_eq_0 dvd_mult_left mult.commute)

lemma days_of_year: "days_before_month 13 y = (if leap_year y then 366 else 365)"
  by (simp add: days_before_month_def days_in_def upt_rec)

lemma days_before_next_year:
  assumes "1 \<le> y"
  shows "days_before_year (y + 1) = days_before_year y + days_before_month 13 y"
proof -
  from assms obtain k where y: "y = Suc k" by (cases y) auto
  have div: "Suc k div n = (if Suc k mod n = 0 then Suc (k div n) else k div n)" for n
    by (rule div_Suc)
  have c: "Suc k mod 100 = 0 \<Longrightarrow> Suc k mod 4 = 0" "Suc k mod 400 = 0 \<Longrightarrow> Suc k mod 100 = 0"
    using multiple_of_factor [of "Suc k" 25 4] multiple_of_factor [of "Suc k" 4 100] by simp_all
  define p q r where pqr: "p = k div 4" "q = k div 100" "r = k div 400"
  have le: "q \<le> p" unfolding pqr by (rule div_le_mono2) simp_all
  have "days_before_year (Suc y) = 365 * Suc k + Suc k div 4 - Suc k div 100 + Suc k div 400"
    by (simp add: days_before_year_def y)
  also have "\<dots> = 365 * k + k div 4 - k div 100 + k div 400 + (if leap_year (Suc k) then 366 else 365)"
    unfolding div [of 4] div [of 100] div [of 400] pqr [symmetric] using c le by (auto simp: leap_year_def)
  finally have "days_before_year (Suc y) = 365 * k + k div 4 - k div 100 + k div 400 + days_before_month 13 y"
    by (simp only: days_of_year y)
  moreover have "days_before_year y = 365 * k + k div 4 - k div 100 + k div 400" by (simp add: days_before_year_def y)
  ultimately show ?thesis by (simp only: Suc_eq_plus1)
qed

lemma day_number_next:
  assumes "date_ok d" "1 \<le> dt_year d"
  shows "day_number (next_day d) = day_number d + 1" "date_ok (next_day d)" "1 \<le> dt_year (next_day d)"
proof -
  consider (same) "dt_day d < days_in (dt_month d) (dt_year d)"
    | (month) "dt_day d = days_in (dt_month d) (dt_year d)" "dt_month d < 12"
    | (year) "dt_day d = 31" "dt_month d = 12"
    using assms(1) by (fastforce simp: date_ok_def days_in_def)
  then have "day_number (next_day d) = day_number d + 1 \<and> date_ok (next_day d) \<and> 1 \<le> dt_year (next_day d)"
  proof cases
    case month
    then show ?thesis
      using assms days_before_next_month [of "dt_month d" "dt_year d"] days_in_pos
      by (auto simp: next_day_def day_number_def date_ok_def Suc_le_eq)
  next
    case year
    have "days_before_month 13 (dt_year d) = days_before_month 12 (dt_year d) + 31"
      using days_before_next_month [of 12 "dt_year d"] by (simp add: days_in_def)
    with year show ?thesis
      using days_before_next_year [OF assms(2)] by (simp add: next_day_def day_number_def date_ok_def days_in_def days_before_month_def)
  qed (use assms in \<open>auto simp: next_day_def day_number_def date_ok_def\<close>)
  then show "day_number (next_day d) = day_number d + 1" "date_ok (next_day d)" "1 \<le> dt_year (next_day d)"
    by blast+
qed

lemma next_prev_day:
  assumes "date_ok d" "1 \<le> dt_year d" "1 < day_number d"
  shows "next_day (prev_day d) = d \<and> date_ok (prev_day d) \<and> 1 \<le> dt_year (prev_day d)"
proof (cases "1 < dt_day d")
  case True
  with assms show ?thesis by (auto simp: next_day_def prev_day_def date_ok_def)
next
  case False
  with assms(1) have d1: "dt_day d = 1" by (simp add: date_ok_def)
  show ?thesis
  proof (cases "1 < dt_month d")
    case True
    have e: "prev_day d = d\<lparr>dt_month := dt_month d - 1, dt_day := days_in (dt_month d - 1) (dt_year d)\<rparr>"
      using d1 True by (simp add: prev_day_def)
    show ?thesis
      unfolding e using d1 True assms days_in_pos [of "dt_month d - 1" "dt_year d"]
      by (auto simp: next_day_def date_ok_def simp del: days_in_pos)
  next
    case False
    with assms(1) have m1: "dt_month d = 1" by (simp add: date_ok_def)
    have "dt_year d \<noteq> 1"
      using assms(3) d1 m1 by (auto simp: day_number_def days_before_year_def days_before_month_def)
    with assms d1 m1 show ?thesis by (cases d) (auto simp: next_day_def prev_day_def date_ok_def days_in_def)
  qed
qed

text \<open>Going back some days and forward again.\<close>

lemma days_back:
  assumes "date_ok d" "1 \<le> dt_year d" "n < day_number d"
  shows "date_ok ((prev_day ^^ n) d) \<and> 1 \<le> dt_year ((prev_day ^^ n) d) \<and>
    day_number ((prev_day ^^ n) d) + n = day_number d"
  using assms(3)
proof (induction n)
  case (Suc n)
  define e where "e = (prev_day ^^ n) d"
  have e: "date_ok e" "1 \<le> dt_year e" "day_number e + n = day_number d" using Suc by (simp_all add: e_def)
  then have p: "next_day (prev_day e) = e" "date_ok (prev_day e)" "1 \<le> dt_year (prev_day e)"
    using next_prev_day [of e] Suc.prems by auto
  then have "day_number e = day_number (prev_day e) + 1" using day_number_next [of "prev_day e"] by simp
  with p e show ?case by (simp add: e_def [symmetric])
qed (use assms in simp)

lemma days_on:
  assumes "date_ok d" "1 \<le> dt_year d"
  shows "date_ok ((next_day ^^ n) d) \<and> 1 \<le> dt_year ((next_day ^^ n) d) \<and>
    day_number ((next_day ^^ n) d) = day_number d + n"
proof (induction n)
  case (Suc n)
  then show ?case using day_number_next [of "(next_day ^^ n) d"] by simp
qed (use assms in simp)

lemma day_number_ge: "2 \<le> dt_year d \<Longrightarrow> 365 \<le> day_number d"
proof -
  assume "2 \<le> dt_year d"
  then obtain k where k: "dt_year d = k + 2" by (metis add.commute le_Suc_ex)
  have "(k + 1) div 100 \<le> (k + 1) div 4" by (rule div_le_mono2) simp_all
  then show ?thesis by (simp add: day_number_def days_before_year_def k)
qed

lemma mod_seven_cancel: "(m + w) mod 7 = (1 + w) mod 7 \<Longrightarrow> w \<le> 7 \<Longrightarrow> m mod 7 = (1 :: nat)"
proof -
  assume "w \<le> 7"
  then have "w \<in> {0, 1, 2, 3, 4, 5, 6, 7}" by auto
  moreover assume "(m + w) mod 7 = (1 + w) mod 7"
  ultimately show ?thesis by (elim insertE emptyE) (simp_all, presburger+)
qed

section \<open>Properties\<close>

text \<open>A zone in which the given local time exists once.\<close>

definition zone_exact :: "zone \<Rightarrow> civil \<Rightarrow> bool" where
  "zone_exact z c \<longleftrightarrow> zn_local z (zn_utc z c) = c"

lemma midnight_date [simp]: "date_of (midnight d) = d" "on_date e (midnight d) = midnight e"
  by (simp_all add: date_of_def midnight_def on_date_def)

lemma add_days_midnight: "zone_exact z (midnight d) \<Longrightarrow> add_days z n (zn_utc z (midnight d)) = zn_utc z (midnight ((next_day ^^ n) d))"
  by (simp add: add_days_def zone_exact_def)

lemma sub_days_midnight: "zone_exact z (midnight d) \<Longrightarrow> sub_days z n (zn_utc z (midnight d)) = zn_utc z (midnight ((prev_day ^^ n) d))"
  by (simp add: sub_days_def zone_exact_def)

text \<open>
  C37 (the week of a report): \<open>usage --week\<close> reports from local midnight of a Monday to local midnight of
  the Monday after it, and the current local date lies in these seven days; leap years, month ends and
  Sundays included. Of the time zone it is assumed that today and this week's Monday have a local
  midnight, which a clock change at midnight can skip.
\<close>

theorem week_report_period:
  assumes "today = date_of (zn_local z now)" "date_ok today" "2 \<le> dt_year today"
    and "\<And>d. date_ok d \<Longrightarrow> 1 \<le> dt_year d \<Longrightarrow> day_number d \<le> day_number today \<Longrightarrow> day_number today < day_number d + 7 \<Longrightarrow>
      d = today \<or> weekday d = 1 \<Longrightarrow> zone_exact z (midnight d)"
    and "uf_week f" "\<not> uf_today f" "uf_date f = []"
  shows "\<exists>monday next_monday.
    usage_period z now f = Some (Some (zn_utc z (midnight monday)), Some (zn_utc z (midnight next_monday))) \<and>
    date_ok monday \<and> date_ok next_monday \<and> weekday monday = 1 \<and> weekday next_monday = 1 \<and>
    day_number monday \<le> day_number today \<and> day_number today < day_number next_monday \<and>
    day_number next_monday = day_number monday + 7"
proof -
  define wd where "wd = (if weekday today = 0 then 7 else weekday today)"
  have wd: "1 \<le> wd" "wd \<le> 7" "wd mod 7 = day_number today mod 7"
    by (simp_all add: wd_def weekday_def)
  define monday where "monday = (prev_day ^^ (wd - 1)) today"
  define next_monday where "next_monday = (next_day ^^ 7) monday"
  have m: "date_ok monday" "1 \<le> dt_year monday" "day_number monday + (wd - 1) = day_number today"
    using days_back [of today "wd - 1"] assms(2,3) wd day_number_ge [OF assms(3)] by (simp_all add: monday_def)
  have n: "date_ok next_monday" "day_number next_monday = day_number monday + 7"
    using days_on [OF m(1,2), of 7] by (simp_all add: next_monday_def)
  have "day_number monday + wd = day_number today + 1" using m(3) wd(1) by simp
  then have "(day_number monday + wd) mod 7 = (1 + day_number today) mod 7" by simp
  then have "(day_number monday + wd) mod 7 = (1 + wd) mod 7" by (metis mod_add_right_eq wd(3))
  then have first: "day_number monday mod 7 = 1" by (rule mod_seven_cancel [OF _ wd(2)])
  have "zone_exact z (midnight today)" by (rule assms(4)) (use assms(2,3) in simp_all)
  moreover have "zone_exact z (midnight monday)"
    by (rule assms(4)) (use m wd(1,2) first in \<open>simp_all add: weekday_def\<close>)
  ultimately have "usage_period z now f = Some (Some (zn_utc z (midnight monday)), Some (zn_utc z (midnight next_monday)))"
    using assms(5-7) by (simp add: usage_period_def Let_def assms(1) [symmetric] wd_def [symmetric]
        sub_days_midnight add_days_midnight monday_def next_monday_def)
  moreover have "day_number monday \<le> day_number today" "day_number today < day_number next_monday"
    using m(3) n(2) wd(1,2) by linarith+
  ultimately show ?thesis
    using m(1) n first by (intro exI [of _ monday] exI [of _ next_monday] conjI) (simp_all add: weekday_def)
qed

section \<open>Witnesses\<close>

text \<open>A zone nine hours ahead.\<close>

definition nine_ahead :: zone where
  "nine_ahead =
     \<lparr>zn_utc = (\<lambda>c. if 9 \<le> cv_hour c then c\<lparr>cv_hour := cv_hour c - 9\<rparr>
                     else (on_date (prev_day (date_of c)) c)\<lparr>cv_hour := cv_hour c + 15\<rparr>),
      zn_local = (\<lambda>c. if cv_hour c < 15 then c\<lparr>cv_hour := cv_hour c + 9\<rparr>
                     else (on_date (next_day (date_of c)) c)\<lparr>cv_hour := cv_hour c - 15\<rparr>)\<rparr>"

lemma nine_ahead_exact:
  assumes "date_ok d" "1 \<le> dt_year d" "1 < day_number d"
  shows "zone_exact nine_ahead (midnight d)"
proof -
  have "zn_utc nine_ahead (midnight d) = (midnight (prev_day d))\<lparr>cv_hour := 15\<rparr>"
    by (simp add: nine_ahead_def) (simp add: midnight_def)
  moreover have "zn_local nine_ahead ((midnight e)\<lparr>cv_hour := 15\<rparr>) = midnight (next_day e)" for e
    by (cases e) (simp add: nine_ahead_def midnight_def date_of_def on_date_def)
  ultimately show ?thesis using next_prev_day [OF assms] by (simp add: zone_exact_def)
qed

text \<open>Half past four in the afternoon of 29 February: there it is already Sunday.\<close>

definition leap_night :: civil where
  "leap_night = \<lparr>cv_year = 2020, cv_month = 2, cv_day = 29, cv_hour = 16, cv_minute = 30, cv_second = 0\<rparr>"

lemma leap_sunday: "date_of (zn_local nine_ahead leap_night) = \<lparr>dt_year = 2020, dt_month = 3, dt_day = 1\<rparr>"
  by (simp add: nine_ahead_def leap_night_def date_of_def on_date_def next_day_def days_in_def leap_year_def)

theorem week_report_period_witness:
  "\<exists>monday next_monday.
    usage_period nine_ahead leap_night (no_flags\<lparr>uf_week := True\<rparr>) =
      Some (Some (zn_utc nine_ahead (midnight monday)), Some (zn_utc nine_ahead (midnight next_monday))) \<and>
    weekday monday = 1 \<and> day_number next_monday = day_number monday + 7 \<and>
    cv_hour (zn_utc nine_ahead (midnight monday)) = 15"
proof -
  define today where "today = \<lparr>dt_year = 2020, dt_month = 3, dt_day = 1\<rparr>"
  have t: "today = date_of (zn_local nine_ahead leap_night)" "date_ok today" "2 \<le> dt_year today"
    by (simp_all add: leap_sunday today_def) (simp add: date_ok_def days_in_def)
  have "zone_exact nine_ahead (midnight d)" if "date_ok d" "1 \<le> dt_year d" "day_number today < day_number d + 7" for d
  proof (rule nine_ahead_exact [OF that(1,2)])
    have n: "365 \<le> day_number today" using day_number_ge [OF t(3)] .
    with that(3) show "1 < day_number d" by linarith
  qed
  then show ?thesis
    using week_report_period [OF t, of "no_flags\<lparr>uf_week := True\<rparr>"]
    by (simp add: no_flags_def) (auto simp: nine_ahead_def midnight_def)
qed

end
