(* ===== verification/Cli.thy ===== *)
theory Cli
  imports Config_Store Json_Roundtrip Gateway Cli_Usage
begin

text \<open>
  The command line (\<open>cmd/sleepyrouter/main.go\<close>): the dispatch on the first argument, the arguments and
  the start of \<open>serve\<close>, and the reports of \<open>validate\<close>, \<open>doctor\<close> and \<open>models\<close>. The machine the command
  runs on is a record: its files, environment and ports. What a command prints is its standard output;
  error texts come from the functions of \<open>config_reader\<close>. \<open>usage\<close> is in \<open>Cli_Usage\<close>, a reload in
  \<open>Config_Store.on_reload\<close>.
\<close>

section \<open>The machine and the reader of the configuration\<close>

text \<open>
  \<open>mh_read\<close> is the contents of the file of a path, \<open>mh_stat\<close> its permission bits if it can be examined,
  \<open>mh_creates\<close> whether it can be created; \<open>mh_listen_tcp host port\<close> is the error of listening there, if any.
\<close>

record machine =
  mh_env :: "string \<Rightarrow> string option"
  mh_read :: "string \<Rightarrow> string option"
  mh_stat :: "string \<Rightarrow> nat option"
  mh_creates :: "string \<Rightarrow> bool"
  mh_listen_tcp :: "string \<Rightarrow> string \<Rightarrow> string option"

definition getenv :: "machine \<Rightarrow> string \<Rightarrow> string" where
  "getenv m k = (case mh_env m k of None \<Rightarrow> [] | Some v \<Rightarrow> v)"

fun split_on :: "char \<Rightarrow> string \<Rightarrow> string list" where
  "split_on b [] = [[]]"
| "split_on b (c # cs) =
     (if c = b then [] # split_on b cs
      else (case split_on b cs of [] \<Rightarrow> [[c]] | w # ws \<Rightarrow> (c # w) # ws))"

text \<open>\<open>filepath.Join\<close> of two elements on Unix, which cleans the path.\<close>

definition clean_element :: "bool \<Rightarrow> string list \<Rightarrow> string \<Rightarrow> string list" where
  "clean_element rooted stack e =
     (if e = [] \<or> e = ''.'' then stack
      else if e = ''..''
      then (if stack \<noteq> [] \<and> last stack \<noteq> ''..'' then butlast stack else if rooted then stack else stack @ [e])
      else stack @ [e])"

definition path_clean :: "string \<Rightarrow> string" where
  "path_clean path =
     (let rooted = (path \<noteq> [] \<and> hd path = CHR ''/'');
          es = foldl (clean_element rooted) [] (split_on CHR ''/'' path);
          body = join_with ''/'' es
      in if rooted then ''/'' @ body else if body = [] then ''.'' else body)"

definition path_join :: "string \<Rightarrow> string \<Rightarrow> string" where
  "path_join a b = path_clean (if a = [] then b else a @ ''/'' @ b)"

text \<open>\<open>ResolveHome\<close> and the files under it; \<open>os.UserHomeDir\<close> is the variable \<open>HOME\<close>.\<close>

definition mh_home :: "machine \<Rightarrow> string" where
  "mh_home m =
     (if getenv m ''SLEEPYROUTER_HOME'' \<noteq> [] then getenv m ''SLEEPYROUTER_HOME''
      else if getenv m ''HOME'' = [] then ''.sleepyrouter''
      else path_join (getenv m ''HOME'') ''.sleepyrouter'')"

definition mh_config_path :: "machine \<Rightarrow> string" where
  "mh_config_path m = path_join (mh_home m) ''config.toml''"

definition mh_env_path :: "machine \<Rightarrow> string" where
  "mh_env_path m = path_join (mh_home m) ''.env''"

definition mh_usage_path :: "machine \<Rightarrow> string" where
  "mh_usage_path m = path_join (mh_home m) ''usage.db''"

definition mh_config_file :: "machine \<Rightarrow> string option" where
  "mh_config_file m = mh_read m (mh_config_path m)"

definition mh_config_stat :: "machine \<Rightarrow> bool" where
  "mh_config_stat m \<longleftrightarrow> mh_stat m (mh_config_path m) \<noteq> None"

definition mh_env_file :: "machine \<Rightarrow> string option" where
  "mh_env_file m = mh_read m (mh_env_path m)"

definition mh_env_mode :: "machine \<Rightarrow> nat option" where
  "mh_env_mode m = mh_stat m (mh_env_path m)"

definition mh_home_writable :: "machine \<Rightarrow> bool" where
  "mh_home_writable m = mh_creates m (path_join (mh_home m) ''.writetest'')"

record config_reader =
  cr_toml :: "string \<Rightarrow> string + toml_file"
  cr_duration :: "string \<Rightarrow> string + int"
  cr_url_ok :: "string \<Rightarrow> bool"
  cr_parse_text :: "parse_error \<Rightarrow> string"
  cr_validation_text :: "validation_error \<Rightarrow> string"

text \<open>Exit code, standard output, standard error.\<close>

type_synonym cli_result = "int \<times> string \<times> string"

definition out_line :: "string \<Rightarrow> string" where
  "out_line s = s @ newline"

section \<open>Dispatch\<close>

datatype command =
    NoCommand
  | Serve "string list"
  | ValidateCmd
  | Doctor
  | Models
  | Usage "string list"
  | Version
  | UnknownCommand string

definition command_of :: "string list \<Rightarrow> command" where
  "command_of args =
     (case args of
        [] \<Rightarrow> NoCommand
      | c # rest \<Rightarrow>
          if c \<in> {''serve'', ''start''} then Serve rest
          else if c = ''validate'' then ValidateCmd
          else if c = ''doctor'' then Doctor
          else if c = ''models'' then Models
          else if c = ''usage'' then Usage rest
          else if c \<in> {''version'', ''--version'', ''-v''} then Version
          else UnknownCommand c)"

definition help_text :: string where
  "help_text = concat (map out_line
     [''sleepyrouter - localhost LLM routing gateway'', [], ''Usage:'',
      ''  sleepyrouter serve [--host 127.0.0.1] [--port 4567]'', ''  sleepyrouter validate'',
      ''  sleepyrouter doctor'', ''  sleepyrouter models'',
      ''  sleepyrouter usage [--today] [--week] [--date YYYYMMDD] [--model ID]'',
      ''  sleepyrouter version''])"

section \<open>The arguments of serve\<close>

text \<open>
  \<open>fmt.Sscanf\<close> with \<open>%d\<close>: spaces, an optional sign, then the longest run of digits; what follows is
  ignored, and on an error the port stays 0.
\<close>

definition scan_int :: "string \<Rightarrow> int" where
  "scan_int s =
     (let t = dropWhile (\<lambda>c. byte c \<in> {9, 11, 12, 13, 32}) s;
          neg = (t \<noteq> [] \<and> hd t = CHR ''-'');
          u = (if t \<noteq> [] \<and> hd t \<in> {CHR ''-'', CHR ''+''} then drop 1 t else t);
          ds = takeWhile is_digit u;
          n = (if neg then - digits_value ds else digits_value ds)
      in if ds \<noteq> [] \<and> in_int64 n then n else 0)"

fun serve_args :: "string list \<Rightarrow> serve_opts \<Rightarrow> serve_opts" where
  "serve_args [] opts = opts"
| "serve_args (a # as) opts =
     (if a = ''--host'' then (case as of [] \<Rightarrow> opts | v # rest \<Rightarrow> serve_args rest (opts\<lparr>so_host := v\<rparr>))
      else if a = ''--port'' then (case as of [] \<Rightarrow> opts | v # rest \<Rightarrow> serve_args rest (opts\<lparr>so_port := scan_int v\<rparr>))
      else serve_args as opts)"

section \<open>Addresses\<close>

text \<open>\<open>net.SplitHostPort\<close>.\<close>

definition last_colon :: "string \<Rightarrow> nat option" where
  "last_colon s = map_option (\<lambda>i. length s - 1 - i) (index_byte (rev s) CHR '':'')"

definition quoted :: "string \<Rightarrow> string" where
  "quoted s = [CHR 0x27] @ s @ [CHR 0x27]"

definition bracket_error :: "string \<Rightarrow> string \<Rightarrow> string option" where
  "bracket_error open_part close_part =
     (if CHR ''['' \<in> set open_part then Some (''unexpected '' @ quoted ''['' @ '' in address'')
      else if CHR '']'' \<in> set close_part then Some (''unexpected '' @ quoted '']'' @ '' in address'')
      else None)"

definition split_host_port :: "string \<Rightarrow> string + string \<times> string" where
  "split_host_port hp =
     (case last_colon hp of
        None \<Rightarrow> Inl ''missing port in address''
      | Some i \<Rightarrow>
          if hd hp = CHR ''[''
          then (case index_byte hp CHR '']'' of
                  None \<Rightarrow> Inl (''missing '' @ quoted '']'' @ '' in address'')
                | Some e \<Rightarrow>
                    if e + 1 = i
                    then (case bracket_error (drop 1 hp) (drop (e + 1) hp) of
                            Some err \<Rightarrow> Inl err
                          | None \<Rightarrow> Inr (take (e - 1) (drop 1 hp), drop (i + 1) hp))
                    else if e + 1 < length hp \<and> hp ! (e + 1) = CHR '':'' then Inl ''too many colons in address''
                    else Inl ''missing port in address'')
          else if CHR '':'' \<in> set (take i hp) then Inl ''too many colons in address''
          else (case bracket_error hp hp of Some err \<Rightarrow> Inl err | None \<Rightarrow> Inr (take i hp, drop (i + 1) hp)))"

text \<open>\<open>net.Listen\<close>: the error of the address, or of listening on the port it names.\<close>

definition listen_addr :: "machine \<Rightarrow> string \<Rightarrow> string option" where
  "listen_addr m addr =
     (case split_host_port addr of
        Inl reason \<Rightarrow> Some (''listen tcp: address '' @ addr @ '': '' @ reason)
      | Inr (host, port) \<Rightarrow> mh_listen_tcp m host port)"

text \<open>\<open>net.ParseIP\<close>: dotted decimals, and eight groups of hexadecimal digits of which \<open>::\<close> stands for zeros.\<close>

definition ipv4_field :: "string \<Rightarrow> int option" where
  "ipv4_field s =
     (if s \<noteq> [] \<and> list_all is_digit s \<and> (length s = 1 \<or> hd s \<noteq> CHR ''0'') \<and> digits_value s \<le> 255
      then Some (digits_value s) else None)"

definition parse_ipv4 :: "string \<Rightarrow> int list option" where
  "parse_ipv4 s = (let fs = split_on CHR ''.'' s in if length fs = 4 then dec_all ipv4_field fs else None)"

definition is_hex :: "char \<Rightarrow> bool" where
  "is_hex c \<longleftrightarrow> hex_value c \<noteq> None"

definition hex_group :: "string \<Rightarrow> int" where
  "hex_group s = foldl (\<lambda>v c. 16 * v + int (the (hex_value c))) 0 s"

text \<open>The groups read so far and where the \<open>::\<close> was; the first argument is how many groups may follow.\<close>

fun ipv6_groups :: "nat \<Rightarrow> string \<Rightarrow> int list \<Rightarrow> nat option \<Rightarrow> (int list \<times> nat option) option" where
  "ipv6_groups 0 s gs el = (if s = [] then Some (gs, el) else None)"
| "ipv6_groups (Suc k) s gs el =
     (let hs = takeWhile is_hex s; r = dropWhile is_hex s; gs' = gs @ [hex_group hs] in
      if hs = [] \<or> 4 < length hs then None
      else if r = [] then Some (gs', el)
      else if hd r = CHR ''.''
      then (if el = None \<and> length gs \<noteq> 6 \<or> k = 0 then None
            else (case parse_ipv4 s of
                    Some [a, b, c, d] \<Rightarrow> Some (gs @ [256 * a + b, 256 * c + d], el)
                  | _ \<Rightarrow> None))
      else if hd r \<noteq> CHR '':'' \<or> length r = 1 then None
      else if r ! 1 = CHR '':''
      then (if el \<noteq> None then None
            else if length r = 2 then Some (gs', Some (length gs'))
            else ipv6_groups k (drop 2 r) gs' (Some (length gs')))
      else ipv6_groups k (drop 1 r) gs' el)"

definition expand_groups :: "int list \<times> nat option \<Rightarrow> int list option" where
  "expand_groups p =
     (case p of (gs, el) \<Rightarrow>
        if length gs < 8
        then map_option (\<lambda>e. take e gs @ replicate (8 - length gs) 0 @ drop e gs) el
        else if el = None then Some gs else None)"

definition parse_ipv6 :: "string \<Rightarrow> int list option" where
  "parse_ipv6 s =
     (if CHR ''%'' \<in> set s then None
      else if s = ''::'' then Some (replicate 8 0)
      else Option.bind
        (if has_prefix s ''::'' then ipv6_groups 8 (drop 2 s) [] (Some 0) else ipv6_groups 8 s [] None)
        expand_groups)"

definition trim_brackets :: "string \<Rightarrow> string" where
  "trim_brackets s =
     (let b = (\<lambda>c. c = CHR ''['' \<or> c = CHR '']'') in rev (dropWhile b (rev (dropWhile b s))))"

text \<open>\<open>ParseAddr\<close> decides by the first dot or colon; an IPv4-mapped address counts as its IPv4 address.\<close>

definition ip_loopback :: "string \<Rightarrow> bool" where
  "ip_loopback s =
     (case find (\<lambda>c. c \<in> {CHR ''.'', CHR '':'', CHR ''%''}) s of
        Some c \<Rightarrow>
          if c = CHR ''.'' then (case parse_ipv4 s of Some ns \<Rightarrow> hd ns = 127 | None \<Rightarrow> False)
          else if c = CHR '':''
          then (case parse_ipv6 s of
                  Some gs \<Rightarrow> gs = [0, 0, 0, 0, 0, 0, 0, 1] \<or>
                    take 6 gs = [0, 0, 0, 0, 0, 65535] \<and> gs ! 6 div 256 = 127
                | None \<Rightarrow> False)
          else False
      | None \<Rightarrow> False)"

definition is_loopback :: "string \<Rightarrow> bool" where
  "is_loopback host = (host \<in> {''127.0.0.1'', ''localhost'', ''::1''} \<or> ip_loopback (trim_brackets host))"

section \<open>Serve\<close>

datatype serve_result =
    ServeExit int string
  | Serving config runtime_snapshot string bool string

text \<open>The running server: configuration, first snapshot, address, non-loopback warning, error output.\<close>

definition env_warning :: "machine \<Rightarrow> string" where
  "env_warning m =
     (case mh_env_mode m of
        None \<Rightarrow> []
      | Some mode \<Rightarrow>
          if mode mod 64 \<noteq> 0 \<and> getenv m ''OS'' = []
          then out_line (''warning: '' @ mh_env_path m @ '' is '' @ nat_digits (mode div 64) @ nat_digits (mode div 8 mod 8) @
                 nat_digits (mode mod 8) @ '', recommend 0600'')
          else [])"

definition missing_config :: "machine \<Rightarrow> string" where
  "missing_config m =
     out_line (''config not found: '' @ mh_config_path m) @
     out_line (''create one from config.example.toml, e.g.:'') @
     out_line (''  mkdir -p '' @ mh_home m @ '' && cp config.example.toml '' @ mh_config_path m)"

text \<open>\<open>loadActive\<close>: the warning and either the failure's text or the configuration.\<close>

definition load_active :: "config_reader \<Rightarrow> machine \<Rightarrow> string \<times> (string + config \<times> string gomap)" where
  "load_active rd m =
     (env_warning m,
      case mh_config_file m of
        None \<Rightarrow> Inl (missing_config m)
      | Some data \<Rightarrow>
          (case parse (cr_toml rd) (cr_duration rd) data of
             Inl e \<Rightarrow> Inl (out_line (''config parse error: '' @ cr_parse_text rd e))
           | Inr cfg \<Rightarrow>
               (case validate (cr_url_ok rd) cfg of
                  Some e \<Rightarrow> Inl (out_line (''config invalid: '' @ cr_validation_text rd e))
                | None \<Rightarrow> Inr (cfg, load_dotenv (mh_env_file m)))))"

definition serve_config :: "serve_opts \<Rightarrow> config \<Rightarrow> config" where
  "serve_config opts cfg =
     (let c = apply_opts opts cfg in
      if srv_host (cfg_server c) = [] then c\<lparr>cfg_server := (cfg_server c)\<lparr>srv_host := ''127.0.0.1''\<rparr>\<rparr> else c)"

definition listen_text :: "config \<Rightarrow> string" where
  "listen_text cfg = srv_host (cfg_server cfg) @ '':'' @ itoa (srv_port (cfg_server cfg))"

definition run_serve :: "config_reader \<Rightarrow> machine \<Rightarrow> serve_opts \<Rightarrow> serve_result" where
  "run_serve rd m opts =
     (case load_active rd m of
        (w, Inl e) \<Rightarrow> ServeExit 1 (w @ e)
      | (w, Inr (cfg0, dotenv)) \<Rightarrow>
          (let cfg = serve_config opts cfg0 in
           case new_store (cr_url_ok rd) (mh_env m) cfg dotenv 1 of
             Inl e \<Rightarrow> ServeExit 1 (w @ out_line (''config invalid: '' @ cr_validation_text rd e))
           | Inr None \<Rightarrow> ServeExit 1 w
           | Inr (Some snap) \<Rightarrow>
               (case listen_addr m (listen_text cfg) of
                  Some e \<Rightarrow> ServeExit 1 (w @ out_line (''listen '' @ listen_text cfg @ '': '' @ e))
                | None \<Rightarrow> Serving cfg snap (listen_text cfg) (\<not> is_loopback (srv_host (cfg_server cfg))) w)))"

section \<open>Validate, doctor and models\<close>

definition run_validate :: "config_reader \<Rightarrow> machine \<Rightarrow> cli_result" where
  "run_validate rd m =
     (case mh_config_file m of
        None \<Rightarrow> (1, [], out_line (''config not found: '' @ mh_config_path m))
      | Some data \<Rightarrow>
          (case parse (cr_toml rd) (cr_duration rd) data of
             Inl e \<Rightarrow> (1, [], out_line (''config parse error: '' @ cr_parse_text rd e))
           | Inr cfg \<Rightarrow>
               (case validate (cr_url_ok rd) cfg of
                  Some e \<Rightarrow> (1, [], out_line (''config invalid: '' @ cr_validation_text rd e))
                | None \<Rightarrow>
                    (0, out_line ''Config OK'' @ out_line (itoa (int (length (cfg_providers cfg))) @ '' providers'') @
                        out_line (itoa (int (length (cfg_models cfg))) @ '' models'') @
                        out_line (itoa (int (length (cfg_groups cfg))) @ '' groups''), []))))"

text \<open>Whether a provider has a key; the key itself is not shown.\<close>

definition key_status :: "machine \<Rightarrow> provider_config \<Rightarrow> string" where
  "key_status m p =
     (if env_value (mh_env m) (pc_api_key_env p) (load_dotenv (mh_env_file m)) \<noteq> [] then ''yes'' else ''no'')"

definition doctor_provider :: "machine \<Rightarrow> config \<Rightarrow> string \<Rightarrow> string" where
  "doctor_provider m cfg pid =
     (case map_of (cfg_providers cfg) pid of
        None \<Rightarrow> []
      | Some p \<Rightarrow>
          out_line (''provider '' @ pad_right 10 pid @ '' key('' @ pc_api_key_env p @ '')='' @ key_status m p))"

definition doctor_addr :: "config \<Rightarrow> string" where
  "doctor_addr cfg = or_default (srv_host (cfg_server cfg)) ''127.0.0.1'' @ '':'' @ itoa (srv_port (cfg_server cfg))"

definition doctor_port :: "machine \<Rightarrow> config \<Rightarrow> string" where
  "doctor_port m cfg =
     (case listen_addr m (doctor_addr cfg) of
        Some e \<Rightarrow> out_line (''port '' @ doctor_addr cfg @ '': BUSY ('' @ e @ '')'')
      | None \<Rightarrow> out_line (''port '' @ doctor_addr cfg @ '': available''))"

definition doctor_proxy :: "machine \<Rightarrow> string" where
  "doctor_proxy m =
     (if getenv m ''HTTP_PROXY'' \<noteq> [] \<or> getenv m ''HTTPS_PROXY'' \<noteq> [] \<or> getenv m ''https_proxy'' \<noteq> []
      then out_line ''proxy: detected (upstream uses ProxyFromEnvironment)'' else [])"

definition doctor_checks :: "machine \<Rightarrow> config \<Rightarrow> string" where
  "doctor_checks m cfg =
     out_line ''config valid: OK'' @
     out_line (if mh_env_mode m = None then ''.env: absent'' else ''.env: present'') @
     concat (map (doctor_provider m cfg) (sort_strings (gkeys (cfg_providers cfg)))) @
     out_line (''default_group: '' @ cfg_default_group cfg) @ doctor_port m cfg @
     out_line (if mh_home_writable m then ''home writable: OK ('' @ mh_usage_path m @ '')'' else ''home writable: FAIL'') @
     doctor_proxy m"

text \<open>A file that can be examined but not read is parsed as empty.\<close>

definition run_doctor :: "config_reader \<Rightarrow> machine \<Rightarrow> cli_result" where
  "run_doctor rd m =
     (let head = out_line (''home: '' @ mh_home m) in
      if \<not> mh_config_stat m then (1, head @ out_line (''config: MISSING ('' @ mh_config_path m @ '')''), [])
      else
        (let top = head @ out_line (''config: '' @ mh_config_path m);
             data = (case mh_config_file m of None \<Rightarrow> [] | Some d \<Rightarrow> d)
         in case parse (cr_toml rd) (cr_duration rd) data of
              Inl e \<Rightarrow> (1, top @ out_line (''config parse: FAIL '' @ cr_parse_text rd e), [])
            | Inr cfg \<Rightarrow>
                (case validate (cr_url_ok rd) cfg of
                   Some e \<Rightarrow> (1, top @ out_line (''config valid: FAIL '' @ cr_validation_text rd e), [])
                 | None \<Rightarrow> (0, top @ doctor_checks m cfg, []))))"

definition group_text :: "config \<Rightarrow> string \<Rightarrow> string" where
  "group_text cfg g =
     out_line (''GROUP '' @ g) @
     concat (map (\<lambda>(i, mid). out_line (''  '' @ itoa (int i) @ '' '' @ mid)) (List.enumerate 1 (gslice (cfg_groups cfg) g)))"

definition run_models :: "config_reader \<Rightarrow> machine \<Rightarrow> cli_result" where
  "run_models rd m =
     (case mh_config_file m of
        None \<Rightarrow> (1, [], out_line ''config not found'')
      | Some data \<Rightarrow>
          (case parse (cr_toml rd) (cr_duration rd) data of
             Inl e \<Rightarrow> (1, [], out_line (''parse error: '' @ cr_parse_text rd e))
           | Inr cfg \<Rightarrow>
               (0, concat (map (group_text cfg) (cfg_group_ord cfg)) @
                   concat (map (\<lambda>(pid, p). out_line (pad_right 10 pid @ '' key='' @ key_status m p)) (cfg_providers cfg)),
                [])))"

lemma loopback_samples:
  "is_loopback ''127.8.0.1'' \<and> is_loopback ''[::1]'' \<and> is_loopback ''0:0:0:0:0:0:0:1'' \<and>
   is_loopback ''::ffff:127.0.0.1'' \<and> \<not> is_loopback ''0.0.0.0'' \<and> \<not> is_loopback ''::'' \<and> \<not> is_loopback ''1:::2''"
  by code_simp

section \<open>Keys are not shown\<close>

text \<open>
  Two machines that differ in nothing but the values of variables that are set in both, in the
  environment or in the .env file: the two variables that name the home directory, the configuration
  file, what is there and may be written, the ports, and which variables are blank are the same.
\<close>

definition same_but_values :: "machine \<Rightarrow> machine \<Rightarrow> bool" where
  "same_but_values m n \<longleftrightarrow>
     getenv m ''SLEEPYROUTER_HOME'' = getenv n ''SLEEPYROUTER_HOME'' \<and> getenv m ''HOME'' = getenv n ''HOME'' \<and>
     mh_config_file m = mh_config_file n \<and> mh_stat m = mh_stat n \<and> mh_creates m = mh_creates n \<and>
     mh_listen_tcp m = mh_listen_tcp n \<and>
     (\<forall>k. getenv m k = [] \<longleftrightarrow> getenv n k = []) \<and>
     (\<forall>k. env_value (mh_env m) k (load_dotenv (mh_env_file m)) = [] \<longleftrightarrow>
          env_value (mh_env n) k (load_dotenv (mh_env_file n)) = [])"

lemma same_places:
  assumes "same_but_values m n"
  shows "mh_home m = mh_home n" "mh_config_path m = mh_config_path n" "mh_usage_path m = mh_usage_path n"
    "mh_config_stat m = mh_config_stat n" "mh_env_mode m = mh_env_mode n" "mh_home_writable m = mh_home_writable n"
proof -
  show h: "mh_home m = mh_home n" using assms by (simp add: same_but_values_def mh_home_def)
  then show "mh_config_path m = mh_config_path n" "mh_usage_path m = mh_usage_path n"
    by (simp_all add: mh_config_path_def mh_usage_path_def)
  show "mh_config_stat m = mh_config_stat n" "mh_env_mode m = mh_env_mode n" "mh_home_writable m = mh_home_writable n"
    using h assms by (simp_all add: same_but_values_def mh_config_stat_def mh_env_mode_def mh_home_writable_def
        mh_config_path_def mh_env_path_def)
qed

lemma same_key_status: "same_but_values m n \<Longrightarrow> key_status m = key_status n"
  by (simp add: same_but_values_def key_status_def fun_eq_iff)

lemma same_doctor_provider: "same_but_values m n \<Longrightarrow> doctor_provider m cfg = doctor_provider n cfg"
  by (rule ext) (simp add: doctor_provider_def same_key_status split: option.split)

lemma same_doctor_checks: "same_but_values m n \<Longrightarrow> doctor_checks m cfg = doctor_checks n cfg"
proof -
  assume s: "same_but_values m n"
  then have "mh_listen_tcp m = mh_listen_tcp n" by (simp only: same_but_values_def)
  then have "listen_addr m = listen_addr n" by (rule_tac ext) (simp only: listen_addr_def)
  then have "doctor_port m cfg = doctor_port n cfg" by (simp add: doctor_port_def)
  moreover have "doctor_proxy m = doctor_proxy n" using s by (simp add: same_but_values_def doctor_proxy_def)
  ultimately show ?thesis
    using same_places [OF s] same_doctor_provider [OF s] by (simp add: doctor_checks_def)
qed

section \<open>Properties\<close>

text \<open>
  C38 (the reports show no key): what \<open>models\<close>, \<open>doctor\<close> and \<open>validate\<close> print, and their exit codes, do not
  depend on the value of any environment variable but \<open>SLEEPYROUTER_HOME\<close> and \<open>HOME\<close>, which name the home
  directory that \<open>doctor\<close> prints, nor on any value in the .env file, only on which are blank: no provider
  key and no token kept in another variable can be read off them.
\<close>

theorem reports_show_no_key:
  assumes "same_but_values m n"
  shows "run_models rd m = run_models rd n \<and> run_doctor rd m = run_doctor rd n \<and> run_validate rd m = run_validate rd n"
proof -
  have e: "mh_home m = mh_home n" "mh_config_path m = mh_config_path n" "mh_config_stat m = mh_config_stat n"
      "mh_config_file m = mh_config_file n"
    using assms same_places [OF assms] by (simp_all add: same_but_values_def)
  show ?thesis
    unfolding run_models_def run_doctor_def run_validate_def e same_key_status [OF assms] same_doctor_checks [OF assms]
    by blast
qed

text \<open>A host with a colon that does not start with a bracket makes an address nobody can listen on.\<close>

lemma index_byte_append: "b \<notin> set s \<Longrightarrow> index_byte (s @ b # t) b = Some (length s)"
  by (induction s) auto

lemma itoa_no_colon: "CHR '':'' \<notin> set (itoa n)"
proof -
  have "CHR '':'' \<notin> set (nat_digits k)" for k
    using nat_digits_digits [of k] by (auto simp: list_all_iff is_digit_def byte_def)
  then show ?thesis by (simp add: itoa_def)
qed

lemma last_colon_port: "last_colon (host @ '':'' @ itoa n) = Some (length host)"
proof -
  have "index_byte (rev (itoa n) @ CHR '':'' # rev host) CHR '':'' = Some (length (itoa n))"
    using index_byte_append [of "CHR '':''" "rev (itoa n)"] itoa_no_colon [of n] by simp
  then show ?thesis by (simp add: last_colon_def)
qed

lemma split_bare_ipv6:
  assumes "CHR '':'' \<in> set host" "hd host \<noteq> CHR ''[''"
  shows "split_host_port (host @ '':'' @ itoa n) = Inl ''too many colons in address''"
proof -
  have "hd (host @ '':'' @ itoa n) = hd host" using assms(1) by (cases host) auto
  then show ?thesis
    unfolding split_host_port_def last_colon_port using assms by simp
qed

text \<open>
  C39 (an unbracketed IPv6 host cannot be served): with \<open>--host ::1\<close>, which the code itself counts as a
  loopback host, or any host with a colon and no opening bracket, \<open>serve\<close> never gets as far as listening: it
  exits with code 1, whatever the configuration and the machine.
\<close>

theorem bare_ipv6_host_not_served:
  assumes "CHR '':'' \<in> set (so_host opts)" "hd (so_host opts) \<noteq> CHR ''[''"
  shows "\<exists>err. run_serve rd m opts = ServeExit 1 err"
proof (cases "load_active rd m")
  case (Pair w r)
  show ?thesis
  proof (cases r)
    case (Inl e)
    with Pair show ?thesis by (simp add: run_serve_def)
  next
    case (Inr p)
    obtain cfg0 dotenv where p: "p = (cfg0, dotenv)" by (cases p)
    define cfg where "cfg = serve_config opts cfg0"
    have ne: "so_host opts \<noteq> []" using assms(1) by auto
    then have "srv_host (cfg_server cfg) = so_host opts"
      by (auto simp: cfg_def serve_config_def apply_opts_def Let_def)
    then have "split_host_port (listen_text cfg) = Inl ''too many colons in address''"
      using split_bare_ipv6 [OF assms] by (simp add: listen_text_def)
    then have "\<exists>e. listen_addr m (listen_text cfg) = Some e" by (simp add: listen_addr_def)
    with Pair Inr p show ?thesis
      unfolding run_serve_def cfg_def [symmetric]
      by (auto simp: Let_def cfg_def [symmetric] split: sum.split option.split)
  qed
qed

text \<open>
  A server that starts is the configured one: \<open>serve\<close> starts only from a file that parses and
  validates; it listens on the configured address as the command line overrides it, its snapshot is of
  generation 1 and routable, and there is a warning exactly when the host is not a loopback one.
\<close>

lemma serve_starts_configured:
  assumes "run_serve rd m opts = Serving cfg snap addr warn err"
  shows "\<exists>data cfg0. mh_config_file m = Some data \<and> parse (cr_toml rd) (cr_duration rd) data = Inr cfg0 \<and>
    validate (cr_url_ok rd) cfg0 = None \<and> cfg = serve_config opts cfg0 \<and>
    snap = build_snapshot (mh_env m) cfg (load_dotenv (mh_env_file m)) 1 \<and> snapshot_ok snap \<and>
    addr = srv_host (cfg_server cfg) @ '':'' @ itoa (srv_port (cfg_server cfg)) \<and>
    listen_addr m addr = None \<and> (warn \<longleftrightarrow> \<not> is_loopback (srv_host (cfg_server cfg)))"
proof -
  obtain w cfg0 dotenv where l: "load_active rd m = (w, Inr (cfg0, dotenv))"
    using assms by (cases "load_active rd m") (auto simp: run_serve_def split: sum.splits)
  then obtain data where found: "mh_config_file m = Some data" "parse (cr_toml rd) (cr_duration rd) data = Inr cfg0"
      "validate (cr_url_ok rd) cfg0 = None" "dotenv = load_dotenv (mh_env_file m)"
    by (auto simp: load_active_def split: option.splits sum.splits)
  define c where "c = serve_config opts cfg0"
  have v: "validate (cr_url_ok rd) c = None"
    and snap: "snap = build_snapshot (mh_env m) c dotenv 1" and cfg: "cfg = c"
    and addr: "addr = listen_text c" "listen_addr m (listen_text c) = None"
    and warn: "warn \<longleftrightarrow> \<not> is_loopback (srv_host (cfg_server c))"
    using assms by (auto simp: run_serve_def l Let_def c_def [symmetric] new_store_def
        split: sum.splits option.splits)
  have "cfg_groups c = cfg_groups cfg0" "cfg_group_ord c = cfg_group_ord cfg0"
    by (simp_all add: c_def serve_config_def apply_opts_def Let_def)
  then have "snapshot_ok snap"
    unfolding snap using build_snapshot_ok v parse_group_ord_covers [OF found(2)] by (simp add: validate_config_ok)
  with found snap cfg addr warn show ?thesis by (auto simp: c_def listen_text_def)
qed

section \<open>Witnesses\<close>

definition sample_reader :: config_reader where
  "sample_reader =
     \<lparr>cr_toml = (\<lambda>d. Inr sample_toml), cr_duration = (\<lambda>s. Inr 1), cr_url_ok = (\<lambda>u. True),
      cr_parse_text = (\<lambda>e. ''unreadable''), cr_validation_text = (\<lambda>e. ''invalid'')\<rparr>"

definition sample_machine :: "string \<Rightarrow> machine" where
  "sample_machine key =
     \<lparr>mh_env = (\<lambda>k. if k = ''OPENCODE_API_KEY'' then Some key else if k = ''HOME'' then Some ''/h/'' else None),
      mh_read = (\<lambda>p. if p = ''/h/.sleepyrouter/config.toml'' then Some ''[groups]'' else None),
      mh_stat = (\<lambda>p. if p = ''/h/.sleepyrouter/config.toml'' then Some 384 else None),
      mh_creates = (\<lambda>p. True), mh_listen_tcp = (\<lambda>h p. None)\<rparr>"

lemma sample_places:
  "mh_config_path (sample_machine key) = ''/h/.sleepyrouter/config.toml''"
  "mh_env_path (sample_machine key) = ''/h/.sleepyrouter/.env''"
  by (simp_all add: mh_config_path_def mh_env_path_def mh_home_def getenv_def sample_machine_def path_join_def path_clean_def
      clean_element_def)

theorem reports_show_no_key_witness:
  "run_models sample_reader (sample_machine ''sk-one'') = run_models sample_reader (sample_machine ''sk-two'') \<and>
   run_doctor sample_reader (sample_machine ''sk-one'') = run_doctor sample_reader (sample_machine ''sk-two'') \<and>
   mh_config_file (sample_machine ''sk-one'') \<noteq> None"
proof -
  have "trim_space ''sk-one'' \<noteq> []" "trim_space ''sk-two'' \<noteq> []" by code_simp+
  moreover have f: "mh_config_file (sample_machine key) = Some ''[groups]''" "mh_env_file (sample_machine key) = None" for key
    by (simp_all add: mh_config_file_def mh_env_file_def sample_places) (simp_all add: sample_machine_def)
  ultimately have "same_but_values (sample_machine ''sk-one'') (sample_machine ''sk-two'')"
    by (auto simp: same_but_values_def getenv_def env_value_def lookup_env_def load_dotenv_def)
      (auto simp: sample_machine_def)
  with f show ?thesis using reports_show_no_key by simp
qed

theorem bare_ipv6_host_not_served_witness:
  "is_loopback ''::1'' \<and>
   (\<exists>err. run_serve sample_reader (sample_machine ''k'') \<lparr>so_host = ''::1'', so_port = 0\<rparr> = ServeExit 1 err)"
  using bare_ipv6_host_not_served [of "\<lparr>so_host = ''::1'', so_port = 0\<rparr>" sample_reader "sample_machine ''k''"]
  by (simp add: is_loopback_def)

end
