(* ===== verification/Console_Trace.thy ===== *)
theory Console_Trace
  imports Hoard_Trace
begin

text \<open>
  The console view of requests and live reasoning (\<open>internal/consoletrace/trace.go\<close>,
  \<open>internal/server/console.go\<close>): what is printed, with provider keys, the gateway's token and
  credential-shaped fields masked and control characters replaced. What was written is a list of blocks.
  Runes are their UTF-8 bytes; lower-casing and the letter test of field names are those of ASCII, a byte
  of any other rune counts as a letter. Colours are a flag: the test for a terminal is left out.
\<close>

section \<open>Runes\<close>

definition in_range :: "nat \<Rightarrow> nat \<Rightarrow> char \<Rightarrow> bool" where
  "in_range a b c \<longleftrightarrow> a \<le> byte c \<and> byte c \<le> b"

text \<open>The length of the valid encoding at the front of a string, 0 if there is none.\<close>

definition rune_width :: "string \<Rightarrow> nat" where
  "rune_width s =
     (case s of
        [] \<Rightarrow> 0
      | c # t \<Rightarrow>
          if byte c < 128 then 1
          else if in_range 0xC2 0xDF c then
            (if t \<noteq> [] \<and> in_range 0x80 0xBF (t ! 0) then 2 else 0)
          else if in_range 0xE0 0xEF c then
            (if 2 \<le> length t \<and>
                in_range (if byte c = 0xE0 then 0xA0 else 0x80) (if byte c = 0xED then 0x9F else 0xBF) (t ! 0) \<and>
                in_range 0x80 0xBF (t ! 1) then 3 else 0)
          else if in_range 0xF0 0xF4 c then
            (if 3 \<le> length t \<and>
                in_range (if byte c = 0xF0 then 0x90 else 0x80) (if byte c = 0xF4 then 0x8F else 0xBF) (t ! 0) \<and>
                in_range 0x80 0xBF (t ! 1) \<and> in_range 0x80 0xBF (t ! 2) then 4 else 0)
          else 0)"

text \<open>U+FFFD.\<close>

definition replacement :: string where
  "replacement = [CHR 0xEF, CHR 0xBF, CHR 0xBD]"

text \<open>\<open>strings.ToValidUTF8\<close>, as the list of its runes: a run of invalid bytes becomes one replacement.\<close>

function valid_runes :: "bool \<Rightarrow> string \<Rightarrow> string list" where
  "valid_runes after_bad s =
     (case s of
        [] \<Rightarrow> []
      | c # t \<Rightarrow>
          if rune_width s = 0
          then (if after_bad then valid_runes True t else replacement # valid_runes True t)
          else take (rune_width s) s # valid_runes False (drop (rune_width s) s))"
  by pat_completeness auto
termination
  by (relation "measure (\<lambda>(after_bad, s). length s)") auto

declare valid_runes.simps [simp del]

function utf8_valid :: "string \<Rightarrow> bool" where
  "utf8_valid s =
     (case s of
        [] \<Rightarrow> True
      | c # t \<Rightarrow> if rune_width s = 0 then False else utf8_valid (drop (rune_width s) s))"
  by pat_completeness auto
termination
  by (relation "measure length") auto

declare utf8_valid.simps [simp del]

text \<open>\<open>unicode.IsControl\<close>: U+0000 to U+001F and U+007F to U+009F.\<close>

definition is_control :: "string \<Rightarrow> bool" where
  "is_control r =
     (case r of
        [c] \<Rightarrow> byte c < 32 \<or> byte c = 127
      | [c, d] \<Rightarrow> byte c = 0xC2 \<and> byte d < 0xA0
      | _ \<Rightarrow> False)"

definition clean_rune :: "string \<Rightarrow> string" where
  "clean_rune r =
     (if r = [CHR 0x0A] \<or> r = [CHR 0x09] then r else if is_control r then replacement else r)"

definition clean_label_rune :: "string \<Rightarrow> string" where
  "clean_label_rune r =
     (if r = [CHR 0x0A] \<or> r = [CHR 0x0D] \<or> r = [CHR 0x09] then '' '' else if is_control r then replacement else r)"

definition clean :: "string \<Rightarrow> string" where
  "clean s = concat (map clean_rune (valid_runes False s))"

definition clean_label :: "string \<Rightarrow> string" where
  "clean_label s = concat (map clean_label_rune (valid_runes False s))"

section \<open>Redaction\<close>

definition redact_text :: "string list \<Rightarrow> string \<Rightarrow> string" where
  "redact_text secrets s = scrub (filter (\<lambda>k. 4 \<le> length k) secrets) s"

definition key_char :: "char \<Rightarrow> bool" where
  "key_char c \<longleftrightarrow> is_digit c \<or> in_range 97 122 c \<or> 128 \<le> byte c"

definition sensitive_key :: "string \<Rightarrow> bool" where
  "sensitive_key key =
     (let k = filter key_char (to_lower key) in
      str_contains k ''apikey'' \<or> str_contains k ''secret'' \<or> str_contains k ''privatekey'' \<or>
      str_contains k ''credential'' \<or> has_suffix k ''token'' \<or> k = ''tokenvalue'' \<or> k = ''tokenstring'' \<or>
      k \<in> {''auth'', ''authorization'', ''proxyauthorization'', ''password'', ''passwd''} \<or>
      has_suffix k ''password'')"

text \<open>Decoding into \<open>any\<close> with \<open>UseNumber\<close>: the last of equal keys counts.\<close>

fun decode_any :: "json \<Rightarrow> jval" where
  "decode_any JNull = VNull"
| "decode_any (JBool b) = VBool b"
| "decode_any (JNum l) = VRaw l"
| "decode_any (JStr s) = VStr s"
| "decode_any (JArr vs) = VArr (map (\<lambda>(raw, j). decode_any j) vs)"
| "decode_any (JObj ms) =
     VObj (foldl (\<lambda>m (k, v). AList.update k v m) [] (map (\<lambda>(k, raw, j). (k, decode_any j)) ms))"

fun redact :: "string list \<Rightarrow> jval \<Rightarrow> jval" where
  "redact secrets (VObj ms) =
     VObj (map (\<lambda>(k, v). (k, if sensitive_key k then VStr redacted else redact secrets v)) ms)"
| "redact secrets (VArr vs) = VArr (map (redact secrets) vs)"
| "redact secrets (VStr s) = VStr (redact_text secrets s)"
| "redact secrets v = v"

section \<open>The preview of a request\<close>

text \<open>\<open>json.MarshalIndent\<close> with two blanks for each level; a map is printed by sorted keys.\<close>

definition indent_line :: "nat \<Rightarrow> string" where
  "indent_line d = CHR 0x0A # replicate (2 * d) CHR '' ''"

fun marshal_indent :: "nat \<Rightarrow> jval \<Rightarrow> string" where
  "marshal_indent d (VArr vs) =
     (if vs = [] then ''[]''
      else ''['' @ join_with '','' (map (\<lambda>v. indent_line (Suc d) @ marshal_indent (Suc d) v) vs) @ indent_line d @ '']'')"
| "marshal_indent d (VObj ms) =
     (if ms = [] then ''{}''
      else ''{'' @
        join_with '',''
          (map snd (sort_members (map (\<lambda>(k, v). (k, indent_line (Suc d) @ quote_string k @ '': '' @ marshal_indent (Suc d) v)) ms))) @
        indent_line d @ ''}'')"
| "marshal_indent d v = marshal v"

definition max_request_input :: nat where
  "max_request_input = 1048576"

definition max_request_view :: nat where
  "max_request_view = 32768"

text \<open>The longest valid prefix not longer than the limit.\<close>

fun valid_prefix :: "nat \<Rightarrow> string \<Rightarrow> string" where
  "valid_prefix 0 s = []"
| "valid_prefix (Suc n) s = (if utf8_valid (take (Suc n) s) then take (Suc n) s else valid_prefix n s)"

definition ellipsis :: string where
  "ellipsis = [CHR 0xE2, CHR 0x80, CHR 0xA6]"

definition request_preview :: "string \<Rightarrow> string list \<Rightarrow> string \<times> string" where
  "request_preview raw secrets =
     (if max_request_input < length raw
      then (''[body omitted: '' @ itoa (int (length raw)) @ '' bytes exceeds the '' @ itoa (int max_request_input) @
              ''-byte console parsing limit]'',
            '' (credentials masked; large body omitted)'')
      else case scan_value (2 * length raw + 2) (skip_space raw) of
             None \<Rightarrow> (''[body omitted: invalid JSON]'', '' (invalid JSON)'')
           | Some (j, rest) \<Rightarrow>
               (let formatted = marshal_indent 0 (redact secrets (decode_any j)) in
                if max_request_view < length formatted
                then (valid_prefix max_request_view formatted @ [CHR 0x0A] @ ellipsis @ '' [preview truncated]'',
                      '' (sensitive fields masked; preview limited to 32 KiB)'')
                else (formatted, '' (sensitive fields masked)'')))"

section \<open>The trace\<close>

record trace =
  tr_color :: bool
  tr_active :: "(string \<times> string) list"
  tr_out :: "string list"

definition new_console :: "bool \<Rightarrow> trace" where
  "new_console color = \<lparr>tr_color = color, tr_active = [], tr_out = []\<rparr>"

definition escape_code :: "trace \<Rightarrow> string \<Rightarrow> string" where
  "escape_code t code = (if tr_color t then [CHR 0x1B] @ code else [])"

definition cyan :: "trace \<Rightarrow> string" where
  "cyan t = escape_code t ''[36m''"

definition magenta :: "trace \<Rightarrow> string" where
  "magenta t = escape_code t ''[35m''"

definition reset_color :: "trace \<Rightarrow> string" where
  "reset_color t = escape_code t ''[0m''"

definition dash :: string where
  "dash = [CHR 0xE2, CHR 0x94, CHR 0x80]"

definition bar :: string where
  "bar = [CHR 0xE2, CHR 0x94, CHR 0x82, CHR '' '']"

definition middle_dot :: string where
  "middle_dot = [CHR '' '', CHR 0xC2, CHR 0xB7, CHR '' '']"

definition top_line :: "string \<Rightarrow> string" where
  "top_line s = [CHR 0xE2, CHR 0x95, CHR 0xAD] @ dash @ dash @ '' '' @ s @ '' '' @ dash @ dash @ [CHR 0xE2, CHR 0x95, CHR 0xAE]"

definition bottom_line :: "string \<Rightarrow> string" where
  "bottom_line s = [CHR 0xE2, CHR 0x95, CHR 0xB0] @ dash @ dash @ '' '' @ s @ '' '' @ dash @ dash @ [CHR 0xE2, CHR 0x95, CHR 0xAF]"

definition rule_line :: string where
  "rule_line = [CHR 0xE2, CHR 0x95, CHR 0xB0] @ concat (replicate 40 dash) @ [CHR 0xE2, CHR 0x95, CHR 0xAF]"

definition eol :: string where
  "eol = [CHR 0x0A]"

definition trim_eol :: "string \<Rightarrow> string" where
  "trim_eol s = (if s \<noteq> [] \<and> last s = CHR 0x0A then butlast s else s)"

definition bar_lines :: "string \<Rightarrow> string" where
  "bar_lines s = concat (map (\<lambda>l. bar @ l @ eol) (split_lines (trim_eol s)))"

definition write_block :: "string \<Rightarrow> trace \<Rightarrow> trace" where
  "write_block b t = t\<lparr>tr_out := tr_out t @ [b]\<rparr>"

definition trace_request :: "string \<Rightarrow> string \<Rightarrow> string \<Rightarrow> string \<Rightarrow> string list \<Rightarrow> trace \<Rightarrow> trace" where
  "trace_request rid protocol model raw secrets t =
     (let (body, note) = request_preview raw secrets in
      write_block
        (cyan t @ top_line (''REQUEST'' @ middle_dot @ clean_label protocol @ middle_dot @ clean_label model) @
         reset_color t @ eol @ bar @ ''id: '' @ clean_label rid @ eol @ bar @ ''body:'' @ note @ eol @
         bar_lines body @ cyan t @ rule_line @ reset_color t @ eol) t)"

definition reasoning_text :: "string list \<Rightarrow> string \<Rightarrow> string" where
  "reasoning_text secrets delta = clean (redact_text secrets delta)"

definition reasoning_delta :: "string \<Rightarrow> string \<Rightarrow> string \<Rightarrow> string list \<Rightarrow> trace \<Rightarrow> trace" where
  "reasoning_delta rid model delta secrets t =
     (if delta = [] then t
      else case map_of (tr_active t) rid of
             Some m \<Rightarrow> write_block (bar_lines (reasoning_text secrets delta)) t
           | None \<Rightarrow>
               write_block
                 (magenta t @ top_line (''LIVE REASONING'' @ middle_dot @ clean_label rid @ middle_dot @ clean_label model) @
                  reset_color t @ eol @ bar_lines (reasoning_text secrets delta))
                 (t\<lparr>tr_active := AList.update rid model (tr_active t)\<rparr>))"

definition end_reasoning :: "string \<Rightarrow> string \<Rightarrow> trace \<Rightarrow> trace" where
  "end_reasoning rid model t =
     (case map_of (tr_active t) rid of
        None \<Rightarrow> t
      | Some started \<Rightarrow>
          write_block
            (magenta t @ bottom_line (''END REASONING'' @ middle_dot @ clean_label rid @ middle_dot @
               clean_label (if model = [] then started else model)) @ reset_color t @ eol)
            (t\<lparr>tr_active := AList.delete rid (tr_active t)\<rparr>))"

section \<open>The server's hooks\<close>

text \<open>The console is \<open>None\<close> in a server without a logger.\<close>

definition console_secrets :: "runtime_snapshot option \<Rightarrow> string list" where
  "console_secrets snap =
     (case snap of
        None \<Rightarrow> []
      | Some s \<Rightarrow>
          (if sn_auth_token s \<noteq> [] then [sn_auth_token s] else []) @
          filter (\<lambda>k. k \<noteq> []) (map (rp_api_key \<circ> snd) (sn_providers s)))"

definition observe_reasoning_event ::
    "string \<Rightarrow> candidate \<Rightarrow> string \<Rightarrow> string \<Rightarrow> string list \<Rightarrow> trace option \<Rightarrow> trace option" where
  "observe_reasoning_event rid c event_type payload secrets console =
     (case console of
        None \<Rightarrow> None
      | Some t \<Rightarrow>
          if (case cd_provider c of None \<Rightarrow> False | Some p \<Rightarrow> rp_wire_api p = ''chat_completions'') then Some t
          else if event_type \<in> {''response.reasoning_text.delta'', ''response.reasoning_summary_text.delta''}
          then (case unmarshal_struct payload of
                  None \<Rightarrow> Some t
                | Some ms \<Rightarrow>
                    (case dec_string [] (field_values [''delta''] ''delta'' ms) of
                       None \<Rightarrow> Some t
                     | Some delta \<Rightarrow>
                         Some (if delta = [] then t else reasoning_delta rid (cd_local_model_id c) delta secrets t)))
          else Some t)"

definition finish_reasoning_view :: "string \<Rightarrow> string \<Rightarrow> trace option \<Rightarrow> trace option" where
  "finish_reasoning_view rid model console = map_option (end_reasoning rid model) console"

section \<open>No secret on the console\<close>

text \<open>The strings of a tree, and what stands in its credential-shaped fields.\<close>

fun tree_strings :: "jval \<Rightarrow> string list" where
  "tree_strings (VStr s) = [s]"
| "tree_strings (VArr vs) = concat (map tree_strings vs)"
| "tree_strings (VObj ms) = concat (map (\<lambda>(k, v). tree_strings v) ms)"
| "tree_strings v = []"

fun credential_values :: "jval \<Rightarrow> jval list" where
  "credential_values (VArr vs) = concat (map credential_values vs)"
| "credential_values (VObj ms) =
     concat (map (\<lambda>(k, v). if sensitive_key k then [v] else credential_values v) ms)"
| "credential_values v = []"

lemma redact_text_hides:
  "plain_key k \<Longrightarrow> k \<in> set secrets \<Longrightarrow> 4 \<le> length k \<Longrightarrow> \<not> str_contains (redact_text secrets s) k"
  unfolding redact_text_def by (rule scrub_removes) auto

lemma plain_not_mask: "plain_key k \<Longrightarrow> \<not> str_contains redacted k"
  using contains_redacted [of k "[]"] by (simp add: plain_key_def)

lemma redact_strings:
  assumes "plain_key k" "4 \<le> length k"
  shows "k \<in> set secrets \<Longrightarrow> s \<in> set (tree_strings (redact secrets v)) \<Longrightarrow> \<not> str_contains s k"
proof (induction secrets v rule: redact.induct)
  case (1 secrets ms)
  then show ?case using plain_not_mask [OF assms(1)] by (fastforce split: if_splits)
next
  case (3 secrets s)
  then show ?case using redact_text_hides [OF assms(1) _ assms(2)] by auto
qed auto

lemma redact_credentials: "x \<in> set (credential_values (redact secrets v)) \<Longrightarrow> x = VStr redacted"
  by (induction secrets v rule: redact.induct) (auto split: if_splits)

text \<open>Cleaning adds no printable ASCII text.\<close>

definition printable :: "string \<Rightarrow> bool" where
  "printable k \<longleftrightarrow> list_all (in_range 33 126) k"

definition cleaned :: "bool \<Rightarrow> string \<Rightarrow> string" where
  "cleaned b s = concat (map clean_rune (valid_runes b s))"

lemma rune_width_le: "rune_width s \<le> length s"
  by (cases s) (simp_all add: rune_width_def Suc_le_eq)

lemma cleaned_Nil: "cleaned b [] = []"
  by (simp add: cleaned_def valid_runes.simps [of b "[]"])

lemma cleaned_Cons:
  "cleaned b (c # t) =
     (if rune_width (c # t) = 0 then (if b then cleaned True t else replacement @ cleaned True t)
      else clean_rune (take (rune_width (c # t)) (c # t)) @ cleaned False (drop (rune_width (c # t)) (c # t)))"
  by (subst cleaned_def, subst valid_runes.simps)
    (simp add: cleaned_def clean_rune_def is_control_def replacement_def)

text \<open>A rune is one ASCII byte or has none.\<close>

lemma rune_shape:
  assumes "rune_width (c # t) = n" "n \<noteq> 0"
  shows "n = 1 \<and> byte c < 128 \<or> list_all (\<lambda>d. 128 \<le> byte d) (take n (c # t))"
proof (cases "byte c < 128")
  case True
  with assms show ?thesis by (simp add: rune_width_def)
next
  case False
  then consider (two) "n = 2" "t \<noteq> []" "128 \<le> byte (t ! 0)"
    | (three) "n = 3" "2 \<le> length t" "128 \<le> byte (t ! 0)" "128 \<le> byte (t ! 1)"
    | (four) "n = 4" "3 \<le> length t" "128 \<le> byte (t ! 0)" "128 \<le> byte (t ! 1)" "128 \<le> byte (t ! 2)"
    using assms by (auto simp: rune_width_def in_range_def split: if_splits)
  then show ?thesis
  proof cases
    case two
    then obtain a u where "t = a # u" by (cases t) auto
    with two False show ?thesis by simp
  next
    case three
    then obtain a b u where "t = a # b # u" by (metis One_nat_def Suc_1 Suc_le_length_iff)
    with three False show ?thesis by (simp add: numeral_3_eq_3)
  next
    case four
    then obtain a b d u where "t = a # b # d # u" by (metis Suc_le_length_iff numeral_3_eq_3)
    with four False show ?thesis by (simp add: numeral_eq_Suc)
  qed
qed

text \<open>A cleaned rune is itself if it is a printable byte, and else has no printable byte.\<close>

definition unprintable :: "string \<Rightarrow> bool" where
  "unprintable s \<longleftrightarrow> list_all (\<lambda>d. \<not> in_range 33 126 d) s"

lemma unprintable_replacement: "unprintable replacement"
  by (simp add: unprintable_def replacement_def in_range_def byte_def)

lemma clean_rune_bytes:
  assumes "rune_width (c # t) = n" "n \<noteq> 0"
  shows "n = 1 \<and> in_range 33 126 c \<and> clean_rune (take n (c # t)) = [c] \<or> unprintable (clean_rune (take n (c # t)))"
proof (cases "n = 1 \<and> byte c < 128")
  case True
  then show ?thesis
    using unprintable_replacement
    by (auto simp: clean_rune_def is_control_def unprintable_def in_range_def byte_def)
next
  case False
  then have "list_all (\<lambda>d. 128 \<le> byte d) (take n (c # t))" using rune_shape [OF assms] by blast
  then have "unprintable (take n (c # t))" by (auto simp: unprintable_def in_range_def list_all_iff)
  then have "unprintable (clean_rune (take n (c # t)))"
    using unprintable_replacement by (simp add: clean_rune_def)
  then show ?thesis ..
qed

lemma contains_after_unprintable:
  assumes "printable k" "k \<noteq> []" "unprintable u"
  shows "str_contains (u @ s) k \<longleftrightarrow> str_contains s k"
  using assms(3)
proof (induction u)
  case (Cons c u)
  obtain d e where k: "k = d # e" using assms(2) by (cases k) auto
  have "c \<noteq> d" using Cons.prems assms(1) by (auto simp: k printable_def unprintable_def)
  with Cons show ?case by (simp add: k has_prefix_def unprintable_def)
qed simp

lemma prefix_after_unprintable:
  assumes "printable k" "k \<noteq> []" "unprintable u" "u \<noteq> []"
  shows "\<not> has_prefix (u @ s) k"
proof -
  obtain d e c v where "k = d # e" "u = c # v" using assms(2,4) by (cases k; cases u) auto
  with assms(1,3) show ?thesis by (auto simp: printable_def unprintable_def has_prefix_def)
qed

lemma clean_rune_ne: "r \<noteq> [] \<Longrightarrow> clean_rune r \<noteq> []"
  by (simp add: clean_rune_def replacement_def)

lemma cleaned_prefix:
  "has_prefix (cleaned False s) k \<Longrightarrow> printable k \<Longrightarrow> has_prefix s k"
proof (induction k arbitrary: s)
  case (Cons d k)
  have pk: "printable (d # k)" "d # k \<noteq> []" using Cons.prems(2) by auto
  show ?case
  proof (cases s)
    case Nil
    with Cons.prems(1) show ?thesis by (simp add: cleaned_Nil)
  next
    case s: (Cons c t)
    define n where "n = rune_width (c # t)"
    have "n \<noteq> 0"
    proof
      assume "n = 0"
      then have "cleaned False s = replacement @ cleaned True t" by (simp add: s cleaned_Cons n_def [symmetric])
      moreover have "replacement \<noteq> []" by (simp add: replacement_def)
      ultimately show False using Cons.prems(1) prefix_after_unprintable [OF pk unprintable_replacement] by simp
    qed
    then have c: "cleaned False s = clean_rune (take n (c # t)) @ cleaned False (drop n (c # t))"
      by (simp add: s cleaned_Cons n_def)
    have "clean_rune (take n (c # t)) \<noteq> []" using \<open>n \<noteq> 0\<close> by (intro clean_rune_ne) simp
    then have "n = 1 \<and> clean_rune (take n (c # t)) = [c]"
      using clean_rune_bytes [OF n_def [symmetric] \<open>n \<noteq> 0\<close>] prefix_after_unprintable [OF pk] Cons.prems(1) c by metis
    then have "c = d" "has_prefix (cleaned False t) k"
      using Cons.prems(1) c by (auto simp: has_prefix_def)
    with Cons.IH [of t] Cons.prems(2) show ?thesis by (simp add: s has_prefix_def printable_def)
  qed
qed simp

lemma cleaned_no_new:
  assumes "printable k" "k \<noteq> []"
  shows "str_contains (cleaned b s) k \<Longrightarrow> str_contains s k"
proof (induction "length s" arbitrary: b s rule: less_induct)
  case less
  show ?case
  proof (cases s)
    case Nil
    with less.prems show ?thesis by (simp add: cleaned_Nil)
  next
    case (Cons c t)
    define n where "n = rune_width (c # t)"
    show ?thesis
    proof (cases "n = 0")
      case True
      then have "str_contains (cleaned True t) k"
        using less.prems contains_after_unprintable [OF assms unprintable_replacement]
        by (auto simp: Cons cleaned_Cons n_def [symmetric] split: if_splits)
      then show ?thesis using less.hyps [of t] by (simp add: Cons)
    next
      case False
      then have c: "cleaned b s = clean_rune (take n (c # t)) @ cleaned False (drop n (c # t))"
        by (simp add: Cons cleaned_Cons n_def)
      have rest: "str_contains s k" if "str_contains (cleaned False (drop n (c # t))) k"
      proof -
        have "str_contains (drop n (c # t)) k" using less.hyps [OF _ that] False by (simp add: Cons)
        then show ?thesis unfolding Cons str_contains_iff by (metis append.assoc append_take_drop_id)
      qed
      from clean_rune_bytes [OF n_def [symmetric] False] show ?thesis
      proof
        assume "unprintable (clean_rune (take n (c # t)))"
        then show ?thesis using less.prems rest contains_after_unprintable [OF assms] by (simp add: c)
      next
        assume one: "n = 1 \<and> in_range 33 126 c \<and> clean_rune (take n (c # t)) = [c]"
        then have "cleaned False s = cleaned b s" by (simp add: Cons cleaned_Cons n_def [symmetric])
        then have "has_prefix s k" if "has_prefix (cleaned b s) k" using cleaned_prefix [of s k] that assms(1) by simp
        moreover have "cleaned b s = [c] @ cleaned False (drop n (c # t))" by (metis c one)
        then have "str_contains (cleaned b s) k \<longleftrightarrow> has_prefix (cleaned b s) k \<or> str_contains (cleaned False (drop n (c # t))) k"
          by simp
        ultimately show ?thesis using less.prems rest one Cons by auto
      qed
    qed
  qed
qed

lemma split_lines_parts:
  "split_lines s \<noteq> [] \<and> (\<exists>v. s = hd (split_lines s) @ v) \<and> (\<forall>l. l \<in> set (split_lines s) \<longrightarrow> (\<exists>u v. s = u @ l @ v))"
proof (induction s)
  case (Cons c cs)
  obtain w ws where w: "split_lines cs = w # ws" using Cons by (cases "split_lines cs") auto
  obtain v where v: "cs = w @ v" using Cons w by auto
  have parts: "\<exists>u v. c # cs = u @ l @ v" if "l \<in> set (w # ws)" for l
  proof -
    from that Cons w obtain u v where "cs = u @ l @ v" by fastforce
    then have "c # cs = (c # u) @ l @ v" by simp
    then show ?thesis by blast
  qed
  show ?case
  proof (cases "c = CHR 0x0A")
    case True
    then show ?thesis using parts w by auto
  next
    case False
    then have e: "split_lines (c # cs) = (c # w) # ws" by (simp add: w)
    have "c # cs = [] @ (c # w) @ v" by (simp add: v)
    then have "\<exists>u v. c # cs = u @ (c # w) @ v" by blast
    then show ?thesis unfolding e using parts v by auto
  qed
qed simp

lemma split_lines_part: "l \<in> set (split_lines s) \<Longrightarrow> str_contains l k \<Longrightarrow> str_contains s k"
proof -
  assume "l \<in> set (split_lines s)" "str_contains l k"
  then obtain u v x y where "s = u @ l @ v" "l = x @ k @ y" using split_lines_parts [of s] by (metis str_contains_iff)
  then have "s = (u @ x) @ k @ (y @ v)" by simp
  then show ?thesis unfolding str_contains_iff by blast
qed

lemma trim_eol_part: "str_contains (trim_eol s) k \<Longrightarrow> str_contains s k"
proof (cases "s \<noteq> [] \<and> last s = CHR 0x0A")
  case True
  assume "str_contains (trim_eol s) k"
  then obtain u v where "butlast s = u @ k @ v" using True by (auto simp: trim_eol_def str_contains_iff)
  moreover have "s = butlast s @ [last s]" using append_butlast_last_id [of s] True by argo
  ultimately have "s = u @ k @ (v @ [last s])" by (metis append.assoc)
  then show ?thesis unfolding str_contains_iff by blast
qed (auto simp: trim_eol_def)

section \<open>Properties\<close>

text \<open>
  C40 (no secret on the console): for every provider key or gateway token of the snapshot that is at
  least four bytes long (shorter ones are not masked), printable ASCII and not spelt by the mask (no
  bracket, no part of the word redacted): whatever a client sends, no string of the redacted body contains
  it; and no line printed for one piece of reasoning contains it. A secret that a provider splits over two
  pieces is not recognised. Every credential-shaped field of the body holds only the mask.
\<close>

theorem console_hides_secrets:
  assumes "k \<in> set (console_secrets snap)" "4 \<le> length k" "plain_key k" "printable k"
  shows "list_all (\<lambda>s. \<not> str_contains s k) (tree_strings (redact (console_secrets snap) v)) \<and>
    list_all (\<lambda>x. x = VStr redacted) (credential_values (redact (console_secrets snap) v)) \<and>
    list_all (\<lambda>l. \<not> str_contains l k)
      (split_lines (trim_eol (reasoning_text (console_secrets snap) delta)))"
proof -
  have ne: "k \<noteq> []" using assms(2) by auto
  have "\<not> str_contains (reasoning_text (console_secrets snap) delta) k"
    using cleaned_no_new [OF assms(4) ne, of False] redact_text_hides [OF assms(3,1,2)]
    by (auto simp: reasoning_text_def clean_def cleaned_def)
  then show ?thesis
    using redact_strings [OF assms(3,2,1)] redact_credentials split_lines_part trim_eol_part
    by (fastforce simp: list_all_iff)
qed

text \<open>
  A key that has another one as its prefix is only masked in part when the shorter one is replaced first.
\<close>

lemma overlapping_secret_in_part:
  "redact_text [''sk-team'', ''sk-team-admin''] ''use sk-team-admin'' = ''use [redacted]-admin''"
  by code_simp

text \<open>Each piece of reasoning is masked on its own, so a secret in two pieces is shown.\<close>

lemma split_secret_shown:
  "reasoning_text [''sk-team''] ''sk-'' @ reasoning_text [''sk-team''] ''team'' = ''sk-team''"
  by code_simp

text \<open>A request that shows the gateway's token in its text and a password field.\<close>

definition leaky_body :: jval where
  "leaky_body = VObj [(''Password'', VStr ''hunter22''), (''input'', VArr [VStr ''my token is gw-token-1'', VBool True])]"

theorem console_hides_secrets_witness:
  "list_all (\<lambda>s. \<not> str_contains s ''gw-token-1'')
     (tree_strings (redact (console_secrets (Some (sample_snapshot\<lparr>sn_auth_token := ''gw-token-1''\<rparr>))) leaky_body)) \<and>
   list_ex (\<lambda>s. str_contains s ''gw-token-1'') (tree_strings leaky_body)"
proof -
  have "''gw-token-1'' \<in> set (console_secrets (Some (sample_snapshot\<lparr>sn_auth_token := ''gw-token-1''\<rparr>)))"
    by (simp add: console_secrets_def)
  moreover have "plain_key ''gw-token-1''" "printable ''gw-token-1''" by code_simp+
  moreover have "list_ex (\<lambda>s. str_contains s ''gw-token-1'') (tree_strings leaky_body)" by code_simp
  ultimately show ?thesis using console_hides_secrets [of "''gw-token-1''"] by simp
qed

end
