(* ===== verification/Stream_Timer.thy ===== *)
theory Stream_Timer
  imports Config_Load
begin

text \<open>
  The first-output deadline of one streaming attempt (\<open>internal/server/stream_timeout.go\<close>): the callback of
  the timer and the handler that opens the upstream stream run concurrently. The atomic steps of both are
  a step relation; times are nanoseconds. What the handler does with the result is in \<open>Responses_Server\<close>
  and \<open>Messages_Server\<close>, where the outcome of an attempt says whether its timer expired.
\<close>

section \<open>The timer and the handler\<close>

definition first_meaningful_output_timeout :: int where
  "first_meaningful_output_timeout = 10 * second"

text \<open>The callback: started, expiry stored, context cancelled, channel closed.\<close>

datatype timer_phase = Armed | Fired | Marked | Cancelled | Finished | Stopped

text \<open>The handler: inside \<open>DoStream\<close>, inside \<open>stopTimer\<close>, after it.\<close>

datatype caller_phase = Opening | Joining | Deciding

record attempt_timer =
  at_now :: int
  at_deadline :: int
  at_phase :: timer_phase
  at_expired :: bool
  at_cancelled :: bool
  at_caller :: caller_phase

definition candidate_stream_context :: "int \<Rightarrow> int \<Rightarrow> attempt_timer" where
  "candidate_stream_context started now =
     \<lparr>at_now = now, at_deadline = started + first_meaningful_output_timeout, at_phase = Armed,
      at_expired = False, at_cancelled = False, at_caller = Opening\<rparr>"

text \<open>\<open>Stop\<close> reports whether the timer was still armed; otherwise the handler waits for the callback's end.\<close>

inductive timer_step :: "attempt_timer \<Rightarrow> attempt_timer \<Rightarrow> bool" where
  passes: "0 \<le> d \<Longrightarrow> timer_step s (s\<lparr>at_now := at_now s + d\<rparr>)"
| fires: "at_phase s = Armed \<Longrightarrow> at_deadline s \<le> at_now s \<Longrightarrow> timer_step s (s\<lparr>at_phase := Fired\<rparr>)"
| marks: "at_phase s = Fired \<Longrightarrow> timer_step s (s\<lparr>at_phase := Marked, at_expired := True\<rparr>)"
| cancels: "at_phase s = Marked \<Longrightarrow> timer_step s (s\<lparr>at_phase := Cancelled, at_cancelled := True\<rparr>)"
| closes: "at_phase s = Cancelled \<Longrightarrow> timer_step s (s\<lparr>at_phase := Finished\<rparr>)"
| stops: "at_caller s = Opening \<Longrightarrow> at_phase s = Armed \<Longrightarrow>
    timer_step s (s\<lparr>at_phase := Stopped, at_caller := Deciding\<rparr>)"
| late: "at_caller s = Opening \<Longrightarrow> at_phase s \<noteq> Armed \<Longrightarrow> timer_step s (s\<lparr>at_caller := Joining\<rparr>)"
| joins: "at_caller s = Joining \<Longrightarrow> at_phase s = Finished \<Longrightarrow> timer_step s (s\<lparr>at_caller := Deciding\<rparr>)"

inductive_cases timer_stepE: "timer_step s t"

inductive_simps timer_step_joining: "timer_step (s\<lparr>at_caller := Joining\<rparr>) t"

inductive timer_steps :: "attempt_timer \<Rightarrow> attempt_timer \<Rightarrow> bool" where
  start: "timer_steps s s"
| step: "timer_steps s t \<Longrightarrow> timer_step t u \<Longrightarrow> timer_steps s u"

text \<open>The deadline read back from the context; the zero time is no deadline.\<close>

definition first_output_timed_out :: "int option \<Rightarrow> int \<Rightarrow> bool" where
  "first_output_timed_out deadline now = (case deadline of None \<Rightarrow> False | Some d \<Rightarrow> \<not> now < d)"

section \<open>Invariant\<close>

definition timer_ok :: "attempt_timer \<Rightarrow> bool" where
  "timer_ok s \<longleftrightarrow>
     (at_expired s \<longleftrightarrow> at_phase s \<in> {Marked, Cancelled, Finished}) \<and>
     (at_cancelled s \<longleftrightarrow> at_phase s \<in> {Cancelled, Finished}) \<and>
     (at_phase s \<notin> {Armed, Stopped} \<longrightarrow> at_deadline s \<le> at_now s) \<and>
     (at_caller s = Opening \<longrightarrow> at_phase s \<noteq> Stopped) \<and>
     (at_caller s = Joining \<longrightarrow> at_phase s \<notin> {Armed, Stopped}) \<and>
     (at_caller s = Deciding \<longrightarrow> at_phase s \<in> {Finished, Stopped})"

lemma timer_step_ok: "timer_step s t \<Longrightarrow> timer_ok s \<Longrightarrow> timer_ok t \<and> at_deadline t = at_deadline s"
  by (erule timer_stepE) (auto simp: timer_ok_def)

lemma timer_steps_ok: "timer_steps s t \<Longrightarrow> timer_ok s \<Longrightarrow> timer_ok t \<and> at_deadline t = at_deadline s"
  by (induction rule: timer_steps.induct) (auto dest: timer_step_ok)

lemma timer_steps_trans: "timer_steps t u \<Longrightarrow> timer_steps s t \<Longrightarrow> timer_steps s u"
  by (induction rule: timer_steps.induct) (auto intro: timer_steps.step)

text \<open>Once the handler decides, only time passes.\<close>

lemma decided_step:
  "timer_step s t \<Longrightarrow> timer_ok s \<Longrightarrow> at_caller s = Deciding \<Longrightarrow>
     at_caller t = Deciding \<and> at_expired t = at_expired s \<and> at_cancelled t = at_cancelled s"
  by (erule timer_stepE) (auto simp: timer_ok_def)

lemma decided_stays:
  "timer_steps s t \<Longrightarrow> timer_ok s \<Longrightarrow> at_caller s = Deciding \<Longrightarrow>
     at_caller t = Deciding \<and> at_expired t = at_expired s \<and> at_cancelled t = at_cancelled s"
proof (induction rule: timer_steps.induct)
  case (step s t u)
  then show ?case using decided_step [of t u] timer_steps_ok [of s t] by simp
qed simp

text \<open>A handler that waits for the callback is released by the callback's own steps.\<close>

lemma joining_released:
  assumes "timer_ok s" "at_caller s = Joining"
  shows "\<exists>t. timer_steps s t \<and> at_caller t = Deciding"
proof -
  have fin: "\<exists>t. timer_steps u t \<and> at_caller t = Deciding" if "at_phase u = Finished" "at_caller u = Joining" for u
    using timer_steps.step [OF timer_steps.start joins [of u]] that by force
  have chain: "\<exists>t. timer_steps u t \<and> at_caller t = Deciding"
    if "timer_step u v" "\<exists>t. timer_steps v t \<and> at_caller t = Deciding" for u v
    using that timer_steps_trans timer_steps.step [OF timer_steps.start that(1)] by blast
  have can: "\<exists>t. timer_steps u t \<and> at_caller t = Deciding" if "at_phase u = Cancelled" "at_caller u = Joining" for u
    using chain [OF closes [OF that(1)]] fin that(2) by simp
  have mar: "\<exists>t. timer_steps u t \<and> at_caller t = Deciding" if "at_phase u = Marked" "at_caller u = Joining" for u
    using chain [OF cancels [OF that(1)]] can that(2) by simp
  have fir: "\<exists>t. timer_steps u t \<and> at_caller t = Deciding" if "at_phase u = Fired" "at_caller u = Joining" for u
    using chain [OF marks [OF that(1)]] mar that(2) by simp
  show ?thesis using assms fin can mar fir by (cases "at_phase s") (auto simp: timer_ok_def)
qed

section \<open>Properties\<close>

text \<open>
  The first-output deadline is decided once: in every interleaving of the timer's callback and the
  handler, when the handler has stopped the timer and reads the flag, the flag is set exactly when the
  callback cancelled the attempt, and neither changes any more: no attempt that is found in time is cancelled
  later by its timer. The flag is only set from the deadline on, ten seconds after the attempt started.
  A handler that waits for a running callback can always be released by it.
\<close>

lemma first_output_decided:
  assumes "timer_steps (candidate_stream_context started now) s"
  shows "(at_caller s = Deciding \<longrightarrow>
       (at_expired s \<longleftrightarrow> at_cancelled s) \<and>
       (\<forall>t. timer_steps s t \<longrightarrow> at_expired t = at_expired s \<and> at_cancelled t = at_cancelled s)) \<and>
    (at_expired s \<longrightarrow> first_output_timed_out (Some (started + 10 * second)) (at_now s)) \<and>
    (at_caller s = Joining \<longrightarrow> (\<exists>t. timer_steps s t \<and> at_caller t = Deciding))"
proof -
  have "timer_ok (candidate_stream_context started now)"
    by (simp add: timer_ok_def candidate_stream_context_def)
  then have s: "timer_ok s" "at_deadline s = started + 10 * second"
    using timer_steps_ok [OF assms] by (simp_all add: candidate_stream_context_def first_meaningful_output_timeout_def)
  then have "at_expired s \<longrightarrow> first_output_timed_out (Some (started + 10 * second)) (at_now s)"
    by (auto simp: timer_ok_def first_output_timed_out_def)
  moreover have "at_caller s = Deciding \<longrightarrow> (at_expired s \<longleftrightarrow> at_cancelled s)"
    using s(1) by (auto simp: timer_ok_def)
  ultimately show ?thesis using decided_stays [OF _ s(1)] joining_released [OF s(1)] by blast
qed

text \<open>The timer fires while the upstream is slow, and the handler waits for it.\<close>

lemma first_output_decided_witness:
  "\<exists>s. timer_steps (candidate_stream_context 0 0) s \<and> at_caller s = Joining \<and>
     (\<exists>t. timer_steps s t \<and> at_caller t = Deciding)"
proof -
  let ?s0 = "candidate_stream_context 0 0"
  let ?s1 = "?s0\<lparr>at_now := at_now ?s0 + 11 * second\<rparr>"
  let ?s2 = "?s1\<lparr>at_phase := Fired\<rparr>"
  let ?s3 = "?s2\<lparr>at_caller := Joining\<rparr>"
  have d: "0 \<le> 11 * second" "at_deadline ?s1 \<le> at_now ?s1" "at_phase ?s1 = Armed" "at_caller ?s2 = Opening" "at_phase ?s2 \<noteq> Armed"
    by (simp_all add: candidate_stream_context_def first_meaningful_output_timeout_def second_def)
  have "timer_steps ?s0 ?s3"
    using passes [OF d(1), of ?s0] fires [OF d(3,2)] late [OF d(4,5)] timer_steps.intros by blast
  moreover have "at_caller ?s3 = Joining" by simp
  ultimately show ?thesis using first_output_decided [of 0 0 ?s3] by blast
qed

end
