(* ===== verification/Spec2Isabelle.thy ===== *)
theory Spec2Isabelle
  imports Messages_Server Anthropic_Wire Chat_Messages Chat_Conversation Chat_Agreement Execute Gateway Watch Usage_Store Cli_Usage Cli Console_Trace Stream_Timer
begin

text \<open>
  sleepyrouter is a gateway on localhost: clients speak the OpenAI Responses API or the Anthropic
  Messages API to it, and it answers from an ordered list of candidate models at several providers,
  failing over from one to the next. This development models the gateway's own logic, file by file
  under \<open>internal/\<close> and \<open>cmd/\<close>, and proves what the parts promise each other and their clients.

  The way of a request. \<open>Gateway\<close>: the middleware chain and the routes. \<open>Responses_Server\<close> and
  \<open>Messages_Server\<close>: the handlers; they read the active snapshot (\<open>Config_Store\<close>), resolve the model
  (\<open>Routing\<close>, and \<open>Affinity\<close> for a follow-up), and run a failover loop (\<open>Failover\<close>) whose step is one
  attempt at one upstream (\<open>Upstream\<close>, \<open>Execute\<close>). A stream is buffered until its first meaningful event and
  then relayed (\<open>Responses_Stream\<close>, \<open>Messages_Stream\<close>). A Messages request is parsed (\<open>Anthropic_Request\<close>),
  translated into a Responses request and its answer back (\<open>Anthropic_Upstream\<close>, \<open>Anthropic_Stream\<close>); for a
  provider with the Chat Completions wire a second bridge follows (\<open>Chat_Compat\<close>, \<open>Chat_Stream\<close>). Opaque
  reasoning is kept between turns (\<open>Continuations\<close>). Every request leaves a usage row (\<open>Server_Base\<close>,
  \<open>Usage_Store\<close>) and, on request, a routing trace (\<open>Hoard_Trace\<close>) and a console view (\<open>Console_Trace\<close>).
  \<open>Watch\<close> reloads the configuration and \<open>Cli\<close>, \<open>Cli_Usage\<close> are the commands.

  Theories and sources, in the order they build on each other; the state of a component is a record
  named after the struct, an operation a definition named after the function:

  \<^item> \<open>Go_Base\<close> (the Go library's strings, maps, loops), \<open>Json\<close> (package encoding/json),
    \<open>Json_Roundtrip\<close>: the prelude; facts are collected in \<open>go_str\<close>, \<open>go_map\<close> and the simplifier.
  \<^item> \<open>Config_Env\<close> (config/env.go), \<open>Config_Load\<close> (config/config.go, load.go), \<open>Config_Store\<close>
    (config/validate.go, snapshot.go, the reload callback of cmd/sleepyrouter): a configuration is accepted
    exactly when a declarative predicate holds, and only a valid one becomes the active snapshot.
  \<^item> \<open>Routing\<close> (routing/): candidates, capability filter, error classes.
  \<^item> \<open>Affinity\<close> (state/, resolveWithAffinity of server/responses.go), \<open>Continuations\<close>
    (server/continuation.go): what a cache returns after any history, also interleaved; its bounds.
  \<^item> \<open>Upstream\<close> (provider/, upstream/pool.go, defaults.go, stream.go, NormalizeError,
    protocol/openai/sdkcaller.go), \<open>Failover\<close> (protocol/openai/handler.go), \<open>Execute\<close> (upstream/execute.go).
  \<^item> \<open>Server_Base\<close> (response writer, error bodies, usage rows), \<open>Hoard_Trace\<close> (server/hoard.go),
    \<open>Responses_Stream\<close> and \<open>Responses_Server\<close> (server/responses_stream.go, responses.go): one answer, the
    committed candidate's frames in order, one usage row.
  \<^item> \<open>Anthropic_Stream\<close> (protocol/anthropic/stream.go, wire.go): the encoder follows the grammar of a Messages
    stream; \<open>Anthropic_Faithful\<close>: text and tool inputs arrive whole; \<open>Anthropic_Wire\<close>: a client
    reads the events back. \<open>Anthropic_Request\<close> (request.go, tokens.go), \<open>Anthropic_Upstream\<close> (upstream.go,
    response.go), \<open>Messages_Stream\<close>, \<open>Messages_Server\<close> (server/messages_stream.go, messages.go).
  \<^item> \<open>Chat_Stream\<close> (protocol/openai/chat_stream.go), \<open>Chat_Compat\<close> (upstream/chatcompat.go); \<open>Chat_Bridge\<close>,
    \<open>Chat_Calls\<close>, \<open>Chat_Messages\<close>: adapter and encoder in step, the client's calls are the provider's;
    \<open>Chat_Conversation\<close>: the provider gets the client's conversation; \<open>Chat_Agreement\<close>: streamed and plain
    answers agree.
  \<^item> \<open>Gateway\<close> (server/auth.go, middleware.go, routes.go, models.go, health.go, errors.go, logging/),
    \<open>Watch\<close> (config/watch.go), \<open>Stream_Timer\<close> (server/stream_timeout.go), \<open>Usage_Store\<close> (usage/),
    \<open>Console_Trace\<close> (consoletrace/, server/console.go), \<open>Cli\<close>, \<open>Cli_Usage\<close> (cmd/sleepyrouter, ResolveHome).
  \<^item> this theory: what the Responses endpoint and the affinity store promise together.

  Interfaces. \<open>ttl_store\<close> (the affinity store), \<open>sound_cache\<close> (a hit was stored last; affinity and
  continuations), \<open>guarded_store\<close> (an update that fails leaves a good state; the snapshot), \<open>failover_loop\<close>
  (candidates in order, one attempt each, a refused provider is skipped; the four loops) and
  \<open>keyed_table\<close> (a row holds the last write; both tables) are locales, each interpreted on the model's own
  definitions.

  Code outside \<open>src/\<close> is a parameter of the definitions that use it: the TOML decoder, \<open>ParseDuration\<close>
  and the URL check; the SDK's calls (an oracle for each attempt, or the list of its chunks) and its event
  decoder; sjson, SHA-256, uuids and reading or printing a float; SQLite's clock, success and group
  order; the machine a command runs on and the local time zone. Clocks and channel events are inputs:
  a stream is a list of ticks, the watcher, the timer and the usage worker are step relations or
  step functions on inputs. Error values keep the class, code and position that the code decides by;
  wordings that only reach a log or an error text are parameters or left out where the theory says so.

  Termination and fuel. Loops are structural or have a measure (\<open>chat_run\<close>: chunks, then queue). The JSON
  scanner runs with fuel \<open>2 * length + 2\<close>; it is spent once per call, a call reads a byte or descends to a value that
  does, so it never runs out, and \<open>Json_Roundtrip\<close> proves that every marshalled value is read back. The
  64-bit counters of the code are integers with the wrap-around or the range check written out where the
  code can reach it; the generation of a snapshot and byte counts are unbounded.

  Approximations. \<open>ToLower\<close>, \<open>ToUpper\<close> and \<open>EqualFold\<close> act on ASCII letters only (two other code points fold to
  ASCII). Payloads are valid UTF-8; the scanner's nesting limit of 10000 is left out. \<open>filepath.Join\<close> and
  \<open>HOME\<close> are those of Unix.

  Not modelled: the HTTP transport and SDK adapters (upstream/client.go, protocol/openai/stream.go), the
  construction of the server, listening, signals and shutdown, slog output, fsnotify and SQLite
  themselves. Of the tests nothing is modelled.
\<close>

section \<open>Properties that span components\<close>

text \<open>
  Where a conversation pinned to a candidate goes: to its model at the provider that answered, while
  the configuration still has both and the model meets the request's requirements.
\<close>

definition pinned_route ::
    "runtime_snapshot \<Rightarrow> candidate \<Rightarrow> requirements \<Rightarrow> resolve_error + candidate list \<times> route_reason" where
  "pinned_route snap c req =
     (case (map_of (sn_models snap) (cd_local_model_id c), map_of (sn_providers snap) (cd_provider_id c)) of
        (Some m, Some p) \<Rightarrow>
          if map_of (sn_providers snap) (rm_provider_id m) = None \<or> excluded req m then Inl AffinityGone
          else Inr ([\<lparr>cd_local_model_id = cd_local_model_id c, cd_provider_id = cd_provider_id c,
                      cd_upstream_model = rm_upstream_model m, cd_model = m, cd_provider = Some p\<rparr>], ReasonDirect)
      | _ \<Rightarrow> Inl AffinityGone)"

lemma resolve_pinned_route:
  assumes "prev \<noteq> []" and "fst (mem_get now prev m) = Some a"
    and "ra_local_model_id a = cd_local_model_id c" "ra_provider_id a = cd_provider_id c"
  shows "fst (resolve_with_affinity snap now m q req prev) = pinned_route snap c req"
proof -
  obtain m' where "mem_get now prev m = (Some a, m')" using assms(2) by (metis prod.collapse)
  with assms(1,3,4) show ?thesis
    by (simp add: resolve_with_affinity_def pinned_route_def candidate_for_def Let_def split: option.split)
qed

lemma settled_pin_found:
  assumes "se_affinity e = [(now, a)]" and "ra_created_at a = now" and "now \<noteq> zero_time"
    and "mem_ttl (ss_affinity st) = mem_ttl new_affinity" and "now \<le> t" and "t - now \<le> 2592000 * second"
    and "ra_response_id a \<noteq> []"
  shows "fst (mem_get t (ra_response_id a) (ss_affinity (snd (settle e st)))) = Some a"
  using assms
  by (simp add: settle_def mem_get_def mem_set_def stamped_def expired_def since_def new_affinity_def
      new_memory_def second_def)

text \<open>
  C8 (a conversation stays where it was answered). A streaming request that is accounted a success
  has relayed a completed response of the routed candidate. When that response has an id, a later
  request that names it as its previous one, within thirty days, is sent to exactly that model at
  that provider, whatever model it asks for, and is refused exactly when the configuration it meets
  no longer has the model or the provider, or the model lacks a capability the request needs.
\<close>

theorem follow_up_sticks:
  assumes "serve_responses_stream env upstream elapsed tr new_response = Some e"
    and "se_usage e = [row]" and "us_success (fst row)"
    and "mem_ttl (ss_affinity st) = mem_ttl new_affinity"
  shows "\<exists>tried c untried evs rest. sv_candidates env = tried @ c # untried \<and>
    us_routed_model (fst row) = cd_local_model_id c \<and>
    (let call = upstream (length tried) c in
     recvs (map tk_input (sc_ticks call)) = evs @ rest \<and> evs \<noteq> [] \<and>
     fst (last evs) = ''response.completed'' \<and>
     (stream_id evs \<noteq> [] \<and> sc_now call \<noteq> zero_time \<longrightarrow>
        (\<forall>t snap q req. sc_now call \<le> t \<longrightarrow> t - sc_now call \<le> 2592000 * second \<longrightarrow>
           fst (resolve_with_affinity snap t (ss_affinity (snd (settle e st))) q req (stream_id evs)) =
             pinned_route snap c req)))"
  using assms(1)
proof (cases rule: serve_responses_stream_cases)
  case (streamed ds c es atts tr' st')
  let ?call = "upstream (length ds) c"
  from committed_row_ok [of env c ?call atts st'] streamed(6) assms(2)
  have row: "us_success (fst row) = os_success st'" "us_routed_model (fst row) = cd_local_model_id c" by auto
  from committed_sent [OF streamed(7)] obtain evs rest errs where r: "recvs (map tk_input (sc_ticks ?call)) = evs @ rest"
    "has_sent (sv_json env) (pr_requested_model (sv_parsed env)) (routing_frames (sv_json env) tr') evs errs st'"
    by (auto simp: new_response_def)
  with row(1) assms(3) have fin: "evs \<noteq> []" "fst (last evs) = ''response.completed''" "os_success st'"
    "os_resp_id st' = stream_id evs" by (auto simp: has_sent_def)
  have "fst (resolve_with_affinity snap t (ss_affinity (snd (settle e st))) q req (stream_id evs)) = pinned_route snap c req"
    if pin: "stream_id evs \<noteq> []" and at: "sc_now ?call \<noteq> zero_time" "sc_now ?call \<le> t" "t - sc_now ?call \<le> 2592000 * second"
    for t snap q req
  proof -
    obtain a where a: "se_affinity e = [(sc_now ?call, a)]" "ra_response_id a = stream_id evs"
      "ra_local_model_id a = cd_local_model_id c" "ra_provider_id a = cd_provider_id c" "ra_created_at a = sc_now ?call"
      using committed_end_pins [of st' env c ?call atts] fin(3,4) pin unfolding streamed(6) by auto
    from settled_pin_found [OF a(1,5) at(1) assms(4) at(2,3)] a(2) pin
    have "fst (mem_get t (stream_id evs) (ss_affinity (snd (settle e st)))) = Some a" by simp
    from resolve_pinned_route [OF pin this a(3,4)] show ?thesis .
  qed
  with streamed(1) row(2) r(1) fin(1,2) show ?thesis unfolding Let_def by blast
qed (use assms(2,3) in auto)

text \<open>A stream whose response has an id.\<close>

definition named_payload :: string where
  "named_payload = ''{'' @ quote_string ''id'' @ '':'' @ quote_string ''resp_1'' @ ''}''"

definition named_stream :: "nat \<Rightarrow> candidate \<Rightarrow> stream_call" where
  "named_stream n c =
     (sample_stream n c)\<lparr>sc_ticks := map on_time
        [Recv ''response.output_text.delta'' ''{}'', Recv ''response.completed'' named_payload]\<rparr>"

lemma named_precommit:
  "precommit_openai classify [] (sc_ticks (named_stream n c)) =
     PreCommit [(''response.output_text.delta'', ''{}'')] [on_time (Recv ''response.completed'' named_payload)]"
proof -
  have t: "sc_ticks (named_stream n c) = [on_time (Recv ''response.output_text.delta'' ''{}''),
      on_time (Recv ''response.completed'' named_payload)]"
    by (simp add: named_stream_def)
  have m: "is_meaningful_event ''response.output_text.delta'' ''{}''"
    "\<not> is_empty_completion ''response.output_text.delta'' ''{}''" "\<not> buffer_full []" by code_simp+
  show ?thesis unfolding t using m by (simp add: on_time_def)
qed

lemma named_meta: "parse_openai_event_meta named_payload = ((0, 0, 0, 0), ''resp_1'')"
  "parse_openai_event_meta ''{}'' = ((0, 0, 0, 0), [])"
  by code_simp+

lemma named_served:
  "\<exists>e row. serve_responses_stream sample_env named_stream 3 None new_response = Some e \<and>
     se_usage e = [row] \<and> us_success (fst row)"
proof -
  let ?s = "commit_stream plain_lib ''coding'' sample_candidate (Suc 0) (sn_generation sample_snapshot) None
      [(''response.output_text.delta'', ''{}'')] new_response"
  let ?f = "forward_event plain_lib ''coding'' ''response.completed'' named_payload ?s"
  have s: "os_trace ?s = None" "\<not> os_terminal ?s"
    by (simp_all add: commit_stream_def Let_def replay_def terminal_type_def)
  then have f: "os_terminal ?f" "os_success ?f" by (simp_all add: forward_plain terminal_type_def)
  have "serve_responses_stream sample_env named_stream 3 None new_response =
      Some (committed_end sample_env sample_candidate (named_stream 0 sample_candidate) [] ?f)"
  proof (rule sample_single)
    show "sc_dial_error (named_stream 0 sample_candidate) = None"
      "\<not> sc_output_timed_out (named_stream 0 sample_candidate)"
      by (simp_all add: named_stream_def sample_stream_def)
    show "precommit_and_stream_openai plain_lib (normalize_stream_error default_registry sample_candidate)
      ''coding'' sample_candidate (Suc 0) (sn_generation sample_snapshot) None
      (sc_ticks (named_stream 0 sample_candidate)) new_response = Some (Committed ?f)"
      using s(2) f(1) by (simp add: precommit_and_stream_openai_def named_precommit Let_def on_time_def)
  qed
  with f(2) committed_row_ok show ?thesis by metis
qed

lemma named_recvs:
  "recvs (map tk_input (sc_ticks (named_stream n c))) =
     [(''response.output_text.delta'', ''{}''), (''response.completed'', named_payload)]"
  by (simp add: named_stream_def on_time_def)

lemma named_id: "stream_id [(''response.output_text.delta'', ''{}''), (''response.completed'', named_payload)] = ''resp_1''"
  by (simp add: stream_id_def named_meta)

lemma sample_pinned:
  "\<exists>c'. pinned_route sample_snapshot sample_candidate no_requirements = Inr ([c'], ReasonDirect) \<and>
     cd_local_model_id c' = ''zen/a''"
proof -
  have c: "cd_local_model_id sample_candidate = ''zen/a''" "cd_provider_id sample_candidate = ''zen''"
    by (simp_all add: sample_candidate_def)
  have m: "rm_provider_id (build_model ''zen/a'' (sample_model ''a'')) = ''zen''" "mc_provider (sample_model ''a'') = ''zen''"
    by (simp_all add: build_model_def sample_model_def)
  obtain p where p: "map_of (sn_providers sample_snapshot) ''zen'' = Some p" using sample_snapshot_lookups(3) ..
  have "\<not> excluded no_requirements (build_model ''zen/a'' (sample_model ''a''))"
    by (simp add: excluded_def no_requirements_def)
  then show ?thesis by (simp add: pinned_route_def c m p sample_snapshot_lookups)
qed

theorem follow_up_sticks_witness:
  "\<exists>e c'. serve_responses_stream sample_env named_stream 3 None new_response = Some e \<and>
     fst (resolve_with_affinity sample_snapshot 9
       (ss_affinity (snd (settle e \<lparr>ss_affinity = new_affinity, ss_usage = []\<rparr>))) ''other''
       no_requirements ''resp_1'') = Inr ([c'], ReasonDirect) \<and> cd_local_model_id c' = ''zen/a''"
proof -
  let ?st = "\<lparr>ss_affinity = new_affinity, ss_usage = []\<rparr> :: server_state"
  obtain e row where e: "serve_responses_stream sample_env named_stream 3 None new_response = Some e"
    "se_usage e = [row]" "us_success (fst row)" using named_served by blast
  have "mem_ttl (ss_affinity ?st) = mem_ttl new_affinity" by simp
  from follow_up_sticks [OF e this] obtain tried c untried evs rest where
    c: "sv_candidates sample_env = tried @ c # untried"
    and evs: "recvs (map tk_input (sc_ticks (named_stream (length tried) c))) = evs @ rest"
      "evs \<noteq> []" "fst (last evs) = ''response.completed''"
    and pin: "stream_id evs \<noteq> [] \<and> sc_now (named_stream (length tried) c) \<noteq> zero_time \<longrightarrow>
        (\<forall>t snap q req. sc_now (named_stream (length tried) c) \<le> t \<longrightarrow>
           t - sc_now (named_stream (length tried) c) \<le> 2592000 * second \<longrightarrow>
           fst (resolve_with_affinity snap t (ss_affinity (snd (settle e ?st))) q req (stream_id evs)) =
             pinned_route snap c req)"
    unfolding Let_def by blast
  have c: "c = sample_candidate" using c by (simp add: sample_env_def Cons_eq_append_conv)
  have "evs = [(''response.output_text.delta'', ''{}''), (''response.completed'', named_payload)]"
    using evs unfolding named_recvs by (auto simp: Cons_eq_append_conv)
  then have i: "stream_id evs = ''resp_1''" by (simp add: named_id)
  have n: "sc_now (named_stream (length tried) sample_candidate) = 7" by (simp add: named_stream_def sample_stream_def)
  have "fst (resolve_with_affinity sample_snapshot 9 (ss_affinity (snd (settle e ?st))) ''other''
      no_requirements ''resp_1'') = pinned_route sample_snapshot sample_candidate no_requirements"
    using pin unfolding i c n by (simp add: zero_time_def second_def)
  with sample_pinned e(1) show ?thesis by auto
qed

end
